(* ===== verification/Prelude.thy ===== *)
theory Prelude
  imports Main "HOL-Library.Word"
begin

unbundle bit_operations_syntax

text \<open>
  Shared vocabulary of the development: the C types the library is written over, the
  arithmetic of \<open>size_t\<close>, byte buffers with reads and writes at an offset, the split of a
  32-bit word into bytes, and the generic lemmas and lemma collections the component
  theories use.

  A \<open>size_t\<close> is a natural number below \<open>2 ^ 64\<close>. A length that is computed (and not just
  read off a buffer) goes through \<open>size_add\<close>, \<open>size_sub\<close> and \<open>size_mul\<close>, which write the
  wrap-around out. \<open>SIZE_MAX\<close> is the value the library returns from a length function
  when there is no valid length; an operation that returns \<open>SIZE_MAX\<close> for failure
  returns \<open>None\<close> in the model and leaves the reason in the object's \<open>last_error\<close>.
\<close>

section \<open>Types and collections\<close>

type_synonym u8 = "8 word"
type_synonym u32 = "32 word"
type_synonym u64 = "64 word"
type_synonym bytes = "u8 list"

named_theorems size_arith \<open>the arithmetic of size_t on values that do not wrap\<close>
named_theorems length_simps \<open>lengths of the byte strings the operations produce\<close>

section \<open>Arithmetic of size_t\<close>

definition SIZE_MAX :: nat where
  "SIZE_MAX = 2 ^ 64 - 1"

definition size_add :: "nat \<Rightarrow> nat \<Rightarrow> nat" where
  "size_add a b = (a + b) mod 2 ^ 64"

definition size_sub :: "nat \<Rightarrow> nat \<Rightarrow> nat" where
  "size_sub a b = (a + (2 ^ 64 - b mod 2 ^ 64)) mod 2 ^ 64"

definition size_mul :: "nat \<Rightarrow> nat \<Rightarrow> nat" where
  "size_mul a b = (a * b) mod 2 ^ 64"

lemma size_add_exact [size_arith]: "a + b < 2 ^ 64 \<Longrightarrow> size_add a b = a + b"
  by (simp add: size_add_def)

lemma size_mul_exact [size_arith]: "a * b < 2 ^ 64 \<Longrightarrow> size_mul a b = a * b"
  by (simp add: size_mul_def)

lemma size_sub_exact [size_arith]: "b \<le> a \<Longrightarrow> a < 2 ^ 64 \<Longrightarrow> size_sub a b = a - b"
proof -
  assume b: "b \<le> a" and a: "a < 2 ^ 64"
  have "a + (2 ^ 64 - b mod 2 ^ 64) = (a - b) + 2 ^ 64" using a b by simp
  then show ?thesis using a by (simp add: size_sub_def)
qed

lemma size_bounds: "size_add a b < 2 ^ 64" "size_sub a b < 2 ^ 64" "size_mul a b < 2 ^ 64"
  by (simp_all add: size_add_def size_sub_def size_mul_def)

section \<open>Byte buffers\<close>

text \<open>
  A C buffer is the list of its bytes and a pointer into it an offset. \<open>read_at m p n\<close> is
  the content of the \<open>n\<close> bytes at \<open>p\<close>; \<open>write_at m p bs\<close> is the buffer after \<open>memcpy\<close> of
  \<open>bs\<close> to \<open>p\<close> (for a write inside the buffer, \<open>length_write_at\<close>).
\<close>

definition read_at :: "'a list \<Rightarrow> nat \<Rightarrow> nat \<Rightarrow> 'a list" where
  "read_at m p n = take n (drop p m)"

definition write_at :: "'a list \<Rightarrow> nat \<Rightarrow> 'a list \<Rightarrow> 'a list" where
  "write_at m p bs = take p m @ bs @ drop (p + length bs) m"

lemma length_write_at [simp]: "p + length bs \<le> length m \<Longrightarrow> length (write_at m p bs) = length m"
  by (simp add: write_at_def)

lemma length_read_at [simp]: "p + n \<le> length m \<Longrightarrow> length (read_at m p n) = n"
  by (simp add: read_at_def)

lemma write_at_Nil [simp]: "write_at m p [] = m"
  by (simp add: write_at_def)

lemma read_write_at_same [simp]:
  "p + length bs \<le> length m \<Longrightarrow> n = length bs \<Longrightarrow> read_at (write_at m p bs) p n = bs"
  by (simp add: read_at_def write_at_def)

lemma read_write_at_before:
  "q + n \<le> p \<Longrightarrow> p \<le> length m \<Longrightarrow> read_at (write_at m p bs) q n = read_at m q n"
  by (simp add: read_at_def write_at_def drop_take)

lemma read_write_at_after:
  assumes "p + length bs \<le> q" and "p \<le> length m"
  shows "read_at (write_at m p bs) q n = read_at m q n"
proof -
  have "drop q (take p m @ bs @ drop (p + length bs) m) = drop q m"
    using assms by simp
  then show ?thesis by (simp add: read_at_def write_at_def)
qed

lemma write_at_write_at_adj:
  "p + length as \<le> length m \<Longrightarrow> q = p + length as \<Longrightarrow>
   write_at (write_at m p as) q bs = write_at m p (as @ bs)"
  by (simp add: write_at_def ac_simps)

lemma write_at_write_at_adj_rev:
  "p + length as \<le> length m \<Longrightarrow> q = p + length as \<Longrightarrow>
   write_at (write_at m q bs) p as = write_at m p (as @ bs)"
  by (simp add: write_at_def ac_simps)

lemma write_at_commute:
  assumes "p + length as \<le> q" and "q \<le> length m"
  shows "write_at (write_at m q bs) p as = write_at (write_at m p as) q bs"
proof -
  define a where "a = take p m"
  define b where "b = take (length as) (drop p m)"
  define c where "c = take (q - (p + length as)) (drop (p + length as) m)"
  define d where "d = drop q m"
  have "take (q - (p + length as)) (drop (p + length as) m) @ drop q m = drop (p + length as) m"
    using assms append_take_drop_id [of "q - (p + length as)" "drop (p + length as) m"] by simp
  then have m: "m = a @ b @ c @ d"
    using append_take_drop_id [of "length as" "drop p m"]
    by (simp add: a_def b_def c_def d_def add.commute)
  have l: "length a = p" "length b = length as" "length c = q - (p + length as)"
    using assms by (simp_all add: a_def b_def c_def)
  show ?thesis
    unfolding m using l assms(1) by (simp add: write_at_def)
qed

lemma write_at_full [simp]: "length bs = length m \<Longrightarrow> write_at m 0 bs = bs"
  by (simp add: write_at_def)

lemma write_at_1: "p < length m \<Longrightarrow> m[p := a] = write_at m p [a]"
  by (simp add: write_at_def upd_conv_take_nth_drop)

lemma read_at_append: "read_at m p (i + j) = read_at m p i @ read_at m (p + i) j"
  by (simp add: read_at_def take_add add.commute)

lemma read_at_all [simp]: "read_at m 0 (length m) = m"
  by (simp add: read_at_def)

lemma read_at_Cons: "p < length m \<Longrightarrow> read_at m p (Suc n) = m ! p # read_at m (Suc p) n"
  by (simp add: read_at_def Cons_nth_drop_Suc [symmetric])

lemma read_at_0 [simp]: "read_at m p 0 = []"
  by (simp add: read_at_def)

lemma set_read_at: "set (read_at m p n) \<subseteq> set m"
  by (auto simp: read_at_def dest: in_set_takeD in_set_dropD)

text \<open>\<open>_olm_unset\<close> and a fresh buffer: a run of zero bytes.\<close>

abbreviation zeros :: "nat \<Rightarrow> bytes" where
  "zeros n \<equiv> replicate n 0"

section \<open>Bytes of 32-bit words\<close>

text \<open>The big-endian bytes of a word and back, as the shifts and masks of the code do it.\<close>

definition be32_bytes :: "u32 \<Rightarrow> bytes" where
  "be32_bytes v = [ucast (drop_bit 24 v), ucast (drop_bit 16 v), ucast (drop_bit 8 v), ucast v]"

definition be32_word :: "u8 \<Rightarrow> u8 \<Rightarrow> u8 \<Rightarrow> u8 \<Rightarrow> u32" where
  "be32_word a b c d =
     push_bit 24 (ucast a) OR push_bit 16 (ucast b) OR push_bit 8 (ucast c) OR ucast d"

lemma length_be32_bytes [simp]: "length (be32_bytes v) = 4"
  by (simp add: be32_bytes_def)

lemma be32_word_bytes:
  "be32_word (ucast (drop_bit 24 v)) (ucast (drop_bit 16 v)) (ucast (drop_bit 8 v)) (ucast v) = v"
proof (rule bit_word_eqI)
  fix n assume "n < LENGTH(32)"
  then show "bit (be32_word (ucast (drop_bit 24 v)) (ucast (drop_bit 16 v))
                    (ucast (drop_bit 8 v)) (ucast v)) n = bit v n"
    unfolding be32_word_def
    by (cases "n < 8"; cases "n < 16"; cases "n < 24"; simp add: bit_simps; arith)
qed

lemma be32_bytes_word: "be32_bytes (be32_word a b c d) = [a, b, c, d]"
proof -
  have "ucast (drop_bit 24 (be32_word a b c d)) = a"
    unfolding be32_word_def
    by (rule bit_word_eqI) (auto simp: bit_simps dest: bit_imp_le_length)
  moreover have "ucast (drop_bit 16 (be32_word a b c d)) = b"
    unfolding be32_word_def
    by (rule bit_word_eqI) (auto simp: bit_simps dest: bit_imp_le_length)
  moreover have "ucast (drop_bit 8 (be32_word a b c d)) = c"
    unfolding be32_word_def
    by (rule bit_word_eqI) (auto simp: bit_simps dest: bit_imp_le_length)
  moreover have "ucast (be32_word a b c d) = d"
    unfolding be32_word_def
    by (rule bit_word_eqI) (auto simp: bit_simps dest: bit_imp_le_length)
  ultimately show ?thesis by (simp add: be32_bytes_def)
qed

section \<open>Lists\<close>

lemma length_eq_4: "length xs = 4 \<longleftrightarrow> (\<exists>a b c d. xs = [a, b, c, d])"
  by (auto simp: numeral_eq_Suc length_Suc_conv)

lemma take_append_exact [simp]: "length xs = n \<Longrightarrow> take n (xs @ ys) = xs"
  by simp

lemma drop_append_exact [simp]: "length xs = n \<Longrightarrow> drop n (xs @ ys) = ys"
  by simp

lemma take_Suc_update:
  assumes "i < length d"
  shows "(take (Suc i) d)[i := v] = take i d @ [v]" "take (Suc i) (d[i := v]) = take i d @ [v]"
proof -
  show "(take (Suc i) d)[i := v] = take i d @ [v]"
    using assms by (simp add: take_Suc_conv_app_nth list_update_append)
  then show "take (Suc i) (d[i := v]) = take i d @ [v]"
    by (simp add: take_update_swap)
qed

end
