(* ===== verification/Message.thy ===== *)
theory Message
  imports Prelude "HOL-Library.Sublist"
begin

text \<open>
  \<open>src/message.c\<close>: the wire format of Olm messages, pre-key messages and group messages.

  A message is a version byte followed by fields, each a tag byte and either a varint or a
  varint length with that many bytes. An encoder writes the tags and lengths into the output
  buffer and hands back where the caller puts the payloads: its model takes the buffer and
  returns it with the offsets. A decoder walks \<open>pos\<close> to \<open>end\<close>: its model carries the bytes
  from \<open>pos\<close> to \<open>end\<close>, and a reader's pointer with its length is the slice it delimits
  (\<open>None\<close> for the null pointer).

  The lemmas: the varint routines agree with the arithmetic of base 128; the decoding loops
  end; whatever the input, a decoded slice lies inside the message body; a message that was
  laid out by an encoder decodes to the same fields.
\<close>

section \<open>Varints\<close>

text \<open>The reference: little-endian base 128, the top bit set on every byte but the last.\<close>

fun varint :: "nat \<Rightarrow> bytes" where
  "varint n = (if n < 128 then [of_nat n] else of_nat (n mod 128 + 128) # varint (n div 128))"

declare varint.simps [simp del]

definition varint_value :: "bytes \<Rightarrow> nat" where
  "varint_value bs = foldr (\<lambda>b v. v * 128 + unat (b AND 0x7F)) bs 0"

lemma unat_drop_bit_7: "unat (drop_bit 7 (v :: 'a::len word)) = unat v div 128"
  using unat_drop_bit_eq [of 7 v] drop_bit_eq_div [of 7 "unat v"] by simp

lemma unat_drop_bit_7_less: "128 \<le> (v :: u64) \<Longrightarrow> unat (drop_bit 7 v) < unat v"
  by (simp add: unat_drop_bit_7 word_le_nat_alt)

lemma unat_drop_bit_7_less32: "128 \<le> (v :: u32) \<Longrightarrow> unat (drop_bit 7 v) < unat v"
  by (simp add: unat_drop_bit_7 word_le_nat_alt)

function varint_length_bytes :: "u64 \<Rightarrow> nat" where
  "varint_length_bytes v = (if 128 \<le> v then Suc (varint_length_bytes (drop_bit 7 v)) else 1)"
  by auto
termination by (relation "measure unat") (auto simp: unat_drop_bit_7_less)

function varint_length_uint32 :: "u32 \<Rightarrow> nat" where
  "varint_length_uint32 v = (if 128 \<le> v then Suc (varint_length_uint32 (drop_bit 7 v)) else 1)"
  by auto
termination by (relation "measure unat") (auto simp: unat_drop_bit_7_less32)

text \<open>The encoders write at \<open>pos\<close> and return the position after the last byte.\<close>

function varint_encode_bytes :: "bytes \<Rightarrow> nat \<Rightarrow> u64 \<Rightarrow> bytes \<times> nat" where
  "varint_encode_bytes m pos v =
     (if 128 \<le> v then varint_encode_bytes (m[pos := (0x7F AND ucast v) OR 0x80]) (pos + 1) (drop_bit 7 v)
      else (m[pos := ucast v], pos + 1))"
  by auto
termination by (relation "measure (\<lambda>(m, pos, v). unat v)") (auto simp: unat_drop_bit_7_less)

function varint_encode_uint32 :: "bytes \<Rightarrow> nat \<Rightarrow> u32 \<Rightarrow> bytes \<times> nat" where
  "varint_encode_uint32 m pos v =
     (if 128 \<le> v then varint_encode_uint32 (m[pos := (0x7F AND ucast v) OR 0x80]) (pos + 1) (drop_bit 7 v)
      else (m[pos := ucast v], pos + 1))"
  by auto
termination by (relation "measure (\<lambda>(m, pos, v). unat v)") (auto simp: unat_drop_bit_7_less32)

declare varint_length_bytes.simps [simp del] varint_length_uint32.simps [simp del]
  varint_encode_bytes.simps [simp del] varint_encode_uint32.simps [simp del]

text \<open>The decoders run from the last byte to the first.\<close>

definition varint_decode_bytes :: "bytes \<Rightarrow> u64" where
  "varint_decode_bytes bs = foldr (\<lambda>b v. push_bit 7 v OR (0x7F AND ucast b)) bs 0"

definition varint_decode_uint32 :: "bytes \<Rightarrow> u32" where
  "varint_decode_uint32 bs = foldr (\<lambda>b v. push_bit 7 v OR (0x7F AND ucast b)) bs 0"

fun varint_skip :: "bytes \<Rightarrow> bytes" where
  "varint_skip [] = []"
| "varint_skip (tmp # input) = (if tmp AND 0x80 = 0 then input else varint_skip input)"

definition varstring_length :: "nat \<Rightarrow> nat" where
  "varstring_length n = size_add (varint_length_bytes (of_nat n)) n"

subsection \<open>The varint routines against the reference\<close>

lemma length_varint_pos [simp]: "0 < length (varint n)"
  by (subst varint.simps) simp

lemma varint_not_Nil [simp]: "varint n \<noteq> []"
  using length_varint_pos [of n] by (metis length_0_conv less_numeral_extra(3))

lemma low_byte_eq:
  "(0x7F AND ucast (v :: 'a::len word)) OR 0x80 = (of_nat (unat v mod 128 + 128) :: u8)"
proof -
  have n: "(of_nat (unat v mod 128 + 128) :: u8) = of_nat (take_bit 7 (unat v)) + 0x80"
    by (simp add: take_bit_eq_mod)
  have t: "of_nat (take_bit 7 (unat v)) = (take_bit 7 (ucast v) :: u8)"
    by (rule bit_word_eqI) (auto simp: bit_simps)
  have m: "(take_bit 7 x :: u8) = 0x7F AND x" for x
    by (simp add: take_bit_eq_mask mask_eq_exp_minus_1 and.commute)
  have d: "(take_bit 7 x + 0x80 :: u8) = take_bit 7 x OR 0x80" for x
  proof (rule disjunctive_add)
    show "\<not> bit (take_bit 7 x) n \<or> \<not> bit (0x80 :: u8) n" for n
      using bit_push_bit_iff [of 7 "1 :: u8" n] by (auto simp: bit_simps)
  qed
  show ?thesis unfolding n t d by (simp only: m)
qed

lemma varint_length_bytes_eq: "varint_length_bytes v = length (varint (unat v))"
proof (induction v rule: varint_length_bytes.induct)
  case (1 v)
  then show ?case
    by (subst varint_length_bytes.simps, subst varint.simps)
       (auto simp: word_le_nat_alt unat_drop_bit_7)
qed

lemma varint_length_uint32_eq: "varint_length_uint32 v = length (varint (unat v))"
proof (induction v rule: varint_length_uint32.induct)
  case (1 v)
  then show ?case
    by (subst varint_length_uint32.simps, subst varint.simps)
       (auto simp: word_le_nat_alt unat_drop_bit_7)
qed

lemma varint_step:
  "128 \<le> n \<Longrightarrow> varint n = of_nat (n mod 128 + 128) # varint (n div 128)"
  "n < 128 \<Longrightarrow> varint n = [of_nat n]"
  by (subst varint.simps; simp)+

lemma write_at_update_cons:
  "pos < length m \<Longrightarrow> write_at (m[pos := a]) (pos + 1) bs = write_at m pos (a # bs)"
  using write_at_write_at_adj [of pos "[a]" m "pos + 1" bs] by (simp add: write_at_1)

lemma varint_encode_bytes_eq:
  "pos + length (varint (unat v)) \<le> length m \<Longrightarrow>
   varint_encode_bytes m pos v = (write_at m pos (varint (unat v)), pos + length (varint (unat v)))"
proof (induction m pos v rule: varint_encode_bytes.induct)
  case (1 m pos v)
  show ?case
  proof (cases "128 \<le> v")
    case True
    then have "varint (unat v) = of_nat (unat v mod 128 + 128) # varint (unat (drop_bit 7 v))"
      by (simp add: varint_step word_le_nat_alt unat_drop_bit_7)
    with True 1 show ?thesis
      by (subst varint_encode_bytes.simps) (simp add: low_byte_eq write_at_update_cons [unfolded Suc_eq_plus1 [symmetric]] del: of_nat_add)
  next
    case False
    then have "varint (unat v) = [ucast v]"
      by (simp add: varint_step word_le_nat_alt unsigned_ucast_eq)
    with False 1(2) show ?thesis
      by (subst varint_encode_bytes.simps) (simp add: write_at_1)
  qed
qed

lemma varint_encode_uint32_eq:
  "pos + length (varint (unat v)) \<le> length m \<Longrightarrow>
   varint_encode_uint32 m pos v = (write_at m pos (varint (unat v)), pos + length (varint (unat v)))"
proof (induction m pos v rule: varint_encode_uint32.induct)
  case (1 m pos v)
  show ?case
  proof (cases "128 \<le> v")
    case True
    then have "varint (unat v) = of_nat (unat v mod 128 + 128) # varint (unat (drop_bit 7 v))"
      by (simp add: varint_step word_le_nat_alt unat_drop_bit_7)
    with True 1 show ?thesis
      by (subst varint_encode_uint32.simps) (simp add: low_byte_eq write_at_update_cons [unfolded Suc_eq_plus1 [symmetric]] del: of_nat_add)
  next
    case False
    then have "varint (unat v) = [ucast v]"
      by (simp add: varint_step word_le_nat_alt unsigned_ucast_eq)
    with False 1(2) show ?thesis
      by (subst varint_encode_uint32.simps) (simp add: write_at_1)
  qed
qed


lemma and_7F: "(0x7F :: 'a::len word) AND x = take_bit 7 x"
  by (simp add: take_bit_eq_mask mask_eq_exp_minus_1 and.commute)

lemma low_bits_value: "unat ((0x7F :: u8) AND of_nat (n mod 128 + 128)) = n mod 128"
proof -
  have "unat ((0x7F :: u8) AND of_nat (n mod 128 + 128)) = take_bit 7 (n mod 128 + 128)"
    by (simp only: and_7F unsigned_take_bit_eq unsigned_of_nat) simp
  also have "\<dots> = n mod 128" by (simp add: take_bit_eq_mod)
  finally show ?thesis .
qed

lemma continue_bit: "(of_nat (n mod 128 + 128) :: u8) AND 0x80 \<noteq> 0"
proof -
  have "(n mod 128 + 128) div 2 ^ 7 = 1" by (rule div_nat_eqI) auto
  then have "bit (n mod 128 + 128) 7" by (simp only: bit_iff_odd) simp
  moreover have "bit (of_nat k :: u8) 7 \<longleftrightarrow> bit k 7" for k :: nat by (simp add: bit_of_nat_iff)
  ultimately have "bit (of_nat (n mod 128 + 128) :: u8) 7" by blast
  moreover have "bit (0x80 :: u8) 7" using bit_push_bit_iff [of 7 "1 :: u8" 7] by (simp add: bit_simps)
  ultimately have "bit ((of_nat (n mod 128 + 128) :: u8) AND 0x80) 7" by (simp only: bit_and_iff)
  then show ?thesis by (metis bit_0_eq bot_apply bot_bool_def)
qed

lemma final_bit:
  assumes "n < 128"
  shows "(of_nat n :: u8) AND 0x80 = 0"
proof (rule bit_word_eqI)
  fix i assume "i < LENGTH(8)"
  have "\<not> bit n i" if "7 \<le> i"
    using assms that power_increasing [of 7 i "2 :: nat"]
    by (simp add: bit_iff_odd div_less)
  moreover have "bit (0x80 :: u8) i \<longleftrightarrow> i = 7"
    using bit_push_bit_iff [of 7 "1 :: u8" i] by (auto simp: bit_simps)
  ultimately show "bit ((of_nat n :: u8) AND 0x80) i = bit 0 i"
    by (auto simp: bit_simps)
qed

lemma varint_skip_varint [simp]: "varint_skip (varint n @ rest) = rest"
proof (induction n rule: varint.induct)
  case (1 n)
  then show ?case
    by (subst varint.simps) (simp add: final_bit continue_bit del: of_nat_add)
qed

lemma length_varint_skip_le [simp]: "length (varint_skip bs) \<le> length bs"
  by (induction bs) auto

lemma length_varint_skip_less [simp]: "bs \<noteq> [] \<Longrightarrow> length (varint_skip bs) < length bs"
  by (cases bs) (auto simp: le_imp_less_Suc)

lemma suffix_varint_skip: "suffix (varint_skip bs) bs"
  by (induction bs) (auto intro: suffix_ConsI)

lemma decode_step_value:
  "unat (push_bit 7 (v :: 'a::len word) OR (0x7F AND ucast (b :: u8))) =
   (unat v * 128 + unat (0x7F AND b)) mod 2 ^ LENGTH('a)"
proof -
  have b: "take_bit 7 (ucast b :: 'a word) = ucast (take_bit 7 b)"
    by (rule bit_word_eqI) (auto simp: bit_simps)
  have "push_bit 7 v OR ucast (take_bit 7 b) = push_bit 7 v + (ucast (take_bit 7 b) :: 'a word)"
    by (rule disjunctive_add [symmetric]) (auto simp: bit_simps)
  also have "\<dots> = of_nat (unat v * 128 + unat (take_bit 7 b))"
    by (simp add: push_bit_eq_mult unsigned_ucast_eq mult.commute)
  finally show ?thesis by (simp only: and_7F b unsigned_of_nat take_bit_nat_def of_nat_id)
qed

lemma varint_decode_fold:
  "unat (foldr (\<lambda>b v. push_bit 7 v OR (0x7F AND ucast b)) bs (0 :: 'a::len word)) =
   varint_value bs mod 2 ^ LENGTH('a)"
proof (induction bs)
  case (Cons b bs)
  have "varint_value (b # bs) = varint_value bs * 128 + unat (0x7F AND b)"
    by (simp add: varint_value_def and.commute)
  then show ?case
    by (simp only: foldr.simps o_apply decode_step_value Cons.IH) (metis mod_add_left_eq mod_mult_left_eq)
qed (simp add: varint_value_def)

lemma varint_value_Cons: "varint_value (b # bs) = varint_value bs * 128 + unat (0x7F AND b)"
  by (simp add: varint_value_def and.commute)

lemma varint_value_varint [simp]: "varint_value (varint n) = n"
proof (induction n rule: varint.induct)
  case (1 n)
  show ?case
  proof (cases "n < 128")
    case True
    then have "unat ((0x7F :: u8) AND of_nat n) = n"
      by (simp only: and_7F unsigned_take_bit_eq unsigned_of_nat take_bit_take_bit)
         (simp add: take_bit_nat_eq_self)
    with True show ?thesis
      by (simp only: varint_step varint_value_Cons) (simp add: varint_value_def)
  next
    case False
    then show ?thesis
      using 1 by (simp only: varint_step not_less varint_value_Cons low_bits_value) simp
  qed
qed

lemma varint_decode_bytes_varint [simp]:
  "n < 2 ^ 64 \<Longrightarrow> unat (varint_decode_bytes (varint n)) = n"
  by (simp add: varint_decode_bytes_def varint_decode_fold)

lemma varint_decode_uint32_varint [simp]: "varint_decode_uint32 (varint (unat v)) = v"
proof -
  have "unat (varint_decode_uint32 (varint (unat v))) = unat v"
    using unsigned_less [of v, where 'a = nat]
    by (simp add: varint_decode_uint32_def varint_decode_fold)
  then show ?thesis by (rule unsigned_word_eqI)
qed


section \<open>Fields\<close>

abbreviation VERSION_LENGTH :: nat where "VERSION_LENGTH \<equiv> 1"

text \<open>The tags are octal in the source: \<open>012\<close>, \<open>020\<close> and \<open>042\<close>.\<close>

abbreviation RATCHET_KEY_TAG :: u8 where "RATCHET_KEY_TAG \<equiv> 10"
abbreviation COUNTER_TAG :: u8 where "COUNTER_TAG \<equiv> 16"
abbreviation CIPHERTEXT_TAG :: u8 where "CIPHERTEXT_TAG \<equiv> 34"

text \<open>
  \<open>encode_bytes\<close> returns the buffer, the offset for the payload (\<open>*value\<close>) and the position
  after it; the payload itself is the caller's to write.
\<close>

definition encode_bytes :: "bytes \<Rightarrow> nat \<Rightarrow> u8 \<Rightarrow> nat \<Rightarrow> bytes \<times> nat \<times> nat" where
  "encode_bytes m pos tag value_length =
     (let m = m[pos := tag];
          (m, pos) = varint_encode_bytes m (pos + 1) (of_nat value_length)
      in (m, pos, pos + value_length))"

definition encode_uint32 :: "bytes \<Rightarrow> nat \<Rightarrow> u8 \<Rightarrow> u32 \<Rightarrow> bytes \<times> nat" where
  "encode_uint32 m pos tag v =
     (let m = m[pos := tag]
      in varint_encode_uint32 m (pos + 1) v)"

text \<open>The decoders return the new position and the reader's field, updated or not.\<close>

definition decode_bytes :: "bytes \<Rightarrow> u8 \<Rightarrow> bytes option \<Rightarrow> bytes \<times> bytes option" where
  "decode_bytes pos tag value =
     (if pos \<noteq> [] \<and> hd pos = tag then
        let len_start = tl pos;
            pos = varint_skip len_start;
            len = unat (varint_decode_bytes (take (length len_start - length pos) len_start))
        in if length pos < len then ([], value)
           else (drop len pos, Some (take len pos))
      else (pos, value))"

definition decode_uint32 :: "bytes \<Rightarrow> u8 \<Rightarrow> u32 \<Rightarrow> bool \<Rightarrow> bytes \<times> u32 \<times> bool" where
  "decode_uint32 pos tag value has_value =
     (if pos \<noteq> [] \<and> hd pos = tag then
        let value_start = tl pos;
            pos = varint_skip value_start
        in (pos, varint_decode_uint32 (take (length value_start - length pos) value_start), True)
      else (pos, value, has_value))"

definition skip_unknown :: "bytes \<Rightarrow> bytes" where
  "skip_unknown pos =
     (if pos \<noteq> [] then
        let tag = hd pos in
        if tag AND 0x7 = 0 then varint_skip (varint_skip pos)
        else if tag AND 0x7 = 2 then
          let len_start = varint_skip pos;
              pos = varint_skip len_start;
              len = unat (varint_decode_bytes (take (length len_start - length pos) len_start))
          in if length pos < len then [] else drop len pos
        else []
      else pos)"

subsection \<open>The decoders move forward\<close>

lemma length_decode_bytes_le: "length (fst (decode_bytes pos tag v)) \<le> length pos"
proof -
  have "length (varint_skip (tl pos)) \<le> length pos"
    using length_varint_skip_le [of "tl pos"] by simp
  then show ?thesis by (auto simp: decode_bytes_def Let_def)
qed

lemma length_decode_uint32_le: "length (fst (decode_uint32 pos tag v h)) \<le> length pos"
  using length_varint_skip_le [of "tl pos"] by (auto simp: decode_uint32_def Let_def)

lemma length_skip_unknown_less: "pos \<noteq> [] \<Longrightarrow> length (skip_unknown pos) < length pos"
proof -
  assume pos: "pos \<noteq> []"
  then have "length (varint_skip (varint_skip pos)) < length pos"
    using length_varint_skip_le [of "varint_skip pos"] length_varint_skip_less [of pos] by linarith
  with pos show ?thesis by (auto simp: skip_unknown_def Let_def)
qed

lemma suffix_decode_bytes: "suffix (fst (decode_bytes pos tag v)) pos"
  by (auto simp: decode_bytes_def Let_def
      intro: suffix_order.trans [OF suffix_drop] suffix_order.trans [OF suffix_varint_skip] suffix_tl)

lemma suffix_decode_uint32: "suffix (fst (decode_uint32 pos tag v h)) pos"
  by (auto simp: decode_uint32_def Let_def intro: suffix_order.trans [OF suffix_varint_skip] suffix_tl)

lemma suffix_skip_unknown: "suffix (skip_unknown pos) pos"
  by (auto simp: skip_unknown_def Let_def
      intro: suffix_order.trans [OF suffix_drop] suffix_order.trans [OF suffix_varint_skip]
        suffix_varint_skip)

lemma decode_bytes_slice:
  "snd (decode_bytes pos tag v) = Some bs \<Longrightarrow> v = Some bs \<or> sublist bs pos"
proof -
  have "sublist (take n (varint_skip (tl pos))) pos" for n
    by (meson prefix_imp_sublist sublist_order.order.trans suffix_imp_sublist suffix_tl suffix_varint_skip
        take_is_prefix)
  then show "snd (decode_bytes pos tag v) = Some bs \<Longrightarrow> v = Some bs \<or> sublist bs pos"
    by (auto simp: decode_bytes_def Let_def split: if_splits)
qed

text \<open>One round of a decoding loop that did not move is followed by \<open>skip_unknown\<close>.\<close>

lemma field_progress:
  assumes "suffix pos' pos" and "pos \<noteq> []"
  shows "length (if pos = pos' then skip_unknown pos' else pos') < length pos"
  using assms length_skip_unknown_less [of pos]
  by (auto simp: suffix_def)

subsection \<open>Fields as bytes\<close>

definition bytes_field :: "u8 \<Rightarrow> bytes \<Rightarrow> bytes" where
  "bytes_field tag v = tag # varint (length v) @ v"

definition uint32_field :: "u8 \<Rightarrow> u32 \<Rightarrow> bytes" where
  "uint32_field tag v = tag # varint (unat v)"

lemma encode_bytes_eq:
  assumes "pos + 1 + length (varint n) + n \<le> length m" and "n < 2 ^ 64"
  shows "encode_bytes m pos tag n =
    (write_at m pos (tag # varint n), pos + 1 + length (varint n), pos + 1 + length (varint n) + n)"
proof -
  have n: "unat (of_nat n :: u64) = n"
    using assms(2) by (simp add: unsigned_of_nat take_bit_nat_eq_self)
  show ?thesis
    using assms(1) by (simp add: encode_bytes_def varint_encode_bytes_eq n
        write_at_update_cons [unfolded Suc_eq_plus1 [symmetric]])
qed

lemma encode_uint32_eq:
  assumes "pos + 1 + length (varint (unat v)) \<le> length m"
  shows "encode_uint32 m pos tag v =
    (write_at m pos (uint32_field tag v), pos + length (uint32_field tag v))"
  using assms by (simp add: encode_uint32_def varint_encode_uint32_eq uint32_field_def
      write_at_update_cons [unfolded Suc_eq_plus1 [symmetric]])

lemma decode_bytes_field [simp]:
  "length v < 2 ^ 64 \<Longrightarrow> decode_bytes (bytes_field tag v @ rest) tag old = (rest, Some v)"
  by (simp add: decode_bytes_def bytes_field_def Let_def)

lemma decode_uint32_field [simp]:
  "decode_uint32 (uint32_field tag v @ rest) tag old h = (rest, v, True)"
  by (simp add: decode_uint32_def uint32_field_def Let_def)

lemma decode_other_tag [simp]:
  "t \<noteq> tag \<Longrightarrow> decode_bytes (t # rest) tag old = (t # rest, old)"
  "t \<noteq> tag \<Longrightarrow> decode_uint32 (t # rest) tag old' h = (t # rest, old', h)"
  by (simp_all add: decode_bytes_def decode_uint32_def)

lemma decode_other_field [simp]:
  "t \<noteq> tag \<Longrightarrow> decode_bytes (bytes_field t v @ rest) tag old = (bytes_field t v @ rest, old)"
  "t \<noteq> tag \<Longrightarrow> decode_bytes (uint32_field t w @ rest) tag old = (uint32_field t w @ rest, old)"
  "t \<noteq> tag \<Longrightarrow> decode_uint32 (bytes_field t v @ rest) tag old' h = (bytes_field t v @ rest, old', h)"
  "t \<noteq> tag \<Longrightarrow> decode_uint32 (uint32_field t w @ rest) tag old' h = (uint32_field t w @ rest, old', h)"
  by (simp_all add: bytes_field_def uint32_field_def)

lemma decode_Nil [simp]:
  "decode_bytes [] tag old = ([], old)" "decode_uint32 [] tag old' h = ([], old', h)"
  by (simp_all add: decode_bytes_def decode_uint32_def)

lemma skip_unknown_field [simp]:
  "length v < 2 ^ 64 \<Longrightarrow> t AND 7 = 2 \<Longrightarrow> t AND 0x80 = 0 \<Longrightarrow>
     skip_unknown (bytes_field t v @ rest) = rest"
  "t AND 7 = 0 \<Longrightarrow> t AND 0x80 = 0 \<Longrightarrow> skip_unknown (uint32_field t w @ rest) = rest"
  by (simp_all add: skip_unknown_def bytes_field_def uint32_field_def Let_def)


section \<open>Olm messages\<close>

text \<open>\<open>_OlmMessageWriter\<close>: the offsets the key and the ciphertext are to be written at.\<close>

record message_writer =
  mw_ratchet_key :: nat
  mw_ciphertext :: nat

record message_reader =
  mr_version :: u8
  mr_has_counter :: bool
  mr_counter :: u32
  mr_input :: bytes
  mr_ratchet_key :: "bytes option"
  mr_ciphertext :: "bytes option"

definition olm_encode_message_length :: "u32 \<Rightarrow> nat \<Rightarrow> nat \<Rightarrow> nat \<Rightarrow> nat" where
  "olm_encode_message_length counter ratchet_key_length ciphertext_length mac_length =
     (let n = VERSION_LENGTH;
          n = size_add n (size_add 1 (varstring_length ratchet_key_length));
          n = size_add n (size_add 1 (varint_length_uint32 counter));
          n = size_add n (size_add 1 (varstring_length ciphertext_length))
      in size_add n mac_length)"

definition olm_encode_message ::
    "u8 \<Rightarrow> u32 \<Rightarrow> nat \<Rightarrow> nat \<Rightarrow> bytes \<Rightarrow> bytes \<times> message_writer" where
  "olm_encode_message version counter ratchet_key_length ciphertext_length m =
     (let pos = 0;
          m = m[pos := version];
          pos = pos + 1;
          (m, ratchet_key, pos) = encode_bytes m pos RATCHET_KEY_TAG ratchet_key_length;
          (m, pos) = encode_uint32 m pos COUNTER_TAG counter;
          (m, ciphertext, pos) = encode_bytes m pos CIPHERTEXT_TAG ciphertext_length
      in (m, \<lparr>mw_ratchet_key = ratchet_key, mw_ciphertext = ciphertext\<rparr>))"

text \<open>The three field decoders of one round of the loop.\<close>

definition message_pass :: "message_reader \<Rightarrow> bytes \<Rightarrow> message_reader \<times> bytes" where
  "message_pass r pos =
     (let (pos, key) = decode_bytes pos RATCHET_KEY_TAG (mr_ratchet_key r);
          (pos, counter, has_counter) =
            decode_uint32 pos COUNTER_TAG (mr_counter r) (mr_has_counter r);
          (pos, ciphertext) = decode_bytes pos CIPHERTEXT_TAG (mr_ciphertext r)
      in (r\<lparr>mr_ratchet_key := key, mr_counter := counter, mr_has_counter := has_counter,
            mr_ciphertext := ciphertext\<rparr>, pos))"

lemma suffix_message_pass: "suffix (snd (message_pass r pos)) pos"
  by (auto simp: message_pass_def split: prod.split)
     (metis fst_conv suffix_decode_bytes suffix_decode_uint32 suffix_order.trans)

lemma message_pass_progress:
  "x = message_pass r pos \<Longrightarrow> (r', pos') = x \<Longrightarrow> pos \<noteq> [] \<Longrightarrow>
   length (if pos = pos' then skip_unknown pos' else pos') < length pos"
  by (metis field_progress suffix_message_pass snd_conv)

function decode_message_loop :: "message_reader \<Rightarrow> bytes \<Rightarrow> message_reader" where
  "decode_message_loop r pos =
     (if pos = [] then r
      else let unknown = pos;
               (r, pos) = message_pass r pos
           in decode_message_loop r (if unknown = pos then skip_unknown pos else pos))"
  by auto
termination
proof (relation "measure (\<lambda>(r, pos). length pos)", rule wf_measure)
  fix r r' :: message_reader and pos pos' unknown x
  assume "pos \<noteq> []" "unknown = pos" "x = message_pass r pos" "(r', pos') = x"
  then show "((r', if unknown = pos' then skip_unknown pos' else pos'), r, pos)
      \<in> measure (\<lambda>(r, pos). length pos)"
    using message_pass_progress [of x r pos r' pos'] by (simp only: in_measure prod.case simp_thms)
qed

declare decode_message_loop.simps [simp del]


definition olm_decode_message :: "bytes \<Rightarrow> nat \<Rightarrow> message_reader" where
  "olm_decode_message input mac_length =
     (let r = \<lparr>mr_version = 0, mr_has_counter = False, mr_counter = 0, mr_input = input,
               mr_ratchet_key = None, mr_ciphertext = None\<rparr>
      in if length input < mac_length then r
         else let pos = take (length input - mac_length) input
              in if pos = [] then r
                 else decode_message_loop (r\<lparr>mr_version := hd pos\<rparr>) (tl pos))"

section \<open>Pre-key messages\<close>

abbreviation ONE_TIME_KEY_ID_TAG :: u8 where "ONE_TIME_KEY_ID_TAG \<equiv> 10"
abbreviation BASE_KEY_TAG :: u8 where "BASE_KEY_TAG \<equiv> 18"
abbreviation IDENTITY_KEY_TAG :: u8 where "IDENTITY_KEY_TAG \<equiv> 26"
abbreviation MESSAGE_TAG :: u8 where "MESSAGE_TAG \<equiv> 34"

record pre_key_message_writer =
  pw_identity_key :: nat
  pw_base_key :: nat
  pw_one_time_key :: nat
  pw_message :: nat

record pre_key_message_reader =
  pr_version :: u8
  pr_identity_key :: "bytes option"
  pr_base_key :: "bytes option"
  pr_one_time_key :: "bytes option"
  pr_message :: "bytes option"

definition olm_encode_one_time_key_message_length :: "nat \<Rightarrow> nat \<Rightarrow> nat \<Rightarrow> nat \<Rightarrow> nat" where
  "olm_encode_one_time_key_message_length
       one_time_key_length identity_key_length base_key_length message_length =
     (let n = VERSION_LENGTH;
          n = size_add n (size_add 1 (varstring_length one_time_key_length));
          n = size_add n (size_add 1 (varstring_length identity_key_length));
          n = size_add n (size_add 1 (varstring_length base_key_length))
      in size_add n (size_add 1 (varstring_length message_length)))"

definition olm_encode_one_time_key_message ::
    "u8 \<Rightarrow> nat \<Rightarrow> nat \<Rightarrow> nat \<Rightarrow> nat \<Rightarrow> bytes \<Rightarrow> bytes \<times> pre_key_message_writer" where
  "olm_encode_one_time_key_message
       version identity_key_length base_key_length one_time_key_length message_length m =
     (let pos = 0;
          m = m[pos := version];
          pos = pos + 1;
          (m, one_time_key, pos) = encode_bytes m pos ONE_TIME_KEY_ID_TAG one_time_key_length;
          (m, base_key, pos) = encode_bytes m pos BASE_KEY_TAG base_key_length;
          (m, identity_key, pos) = encode_bytes m pos IDENTITY_KEY_TAG identity_key_length;
          (m, message, pos) = encode_bytes m pos MESSAGE_TAG message_length
      in (m, \<lparr>pw_identity_key = identity_key, pw_base_key = base_key,
              pw_one_time_key = one_time_key, pw_message = message\<rparr>))"

definition pre_key_pass ::
    "pre_key_message_reader \<Rightarrow> bytes \<Rightarrow> pre_key_message_reader \<times> bytes" where
  "pre_key_pass r pos =
     (let (pos, one_time_key) = decode_bytes pos ONE_TIME_KEY_ID_TAG (pr_one_time_key r);
          (pos, base_key) = decode_bytes pos BASE_KEY_TAG (pr_base_key r);
          (pos, identity_key) = decode_bytes pos IDENTITY_KEY_TAG (pr_identity_key r);
          (pos, message) = decode_bytes pos MESSAGE_TAG (pr_message r)
      in (\<lparr>pr_version = pr_version r, pr_identity_key = identity_key, pr_base_key = base_key,
           pr_one_time_key = one_time_key, pr_message = message\<rparr>, pos))"

lemma suffix_pre_key_pass: "suffix (snd (pre_key_pass r pos)) pos"
  by (auto simp: pre_key_pass_def split: prod.split)
     (metis fst_conv suffix_decode_bytes suffix_order.trans)

lemma pre_key_pass_progress:
  "x = pre_key_pass r pos \<Longrightarrow> (r', pos') = x \<Longrightarrow> pos \<noteq> [] \<Longrightarrow>
   length (if pos = pos' then skip_unknown pos' else pos') < length pos"
  by (metis field_progress suffix_pre_key_pass snd_conv)

function decode_pre_key_loop :: "pre_key_message_reader \<Rightarrow> bytes \<Rightarrow> pre_key_message_reader" where
  "decode_pre_key_loop r pos =
     (if pos = [] then r
      else let unknown = pos;
               (r, pos) = pre_key_pass r pos
           in decode_pre_key_loop r (if unknown = pos then skip_unknown pos else pos))"
  by auto
termination
proof (relation "measure (\<lambda>(r, pos). length pos)", rule wf_measure)
  fix r r' :: pre_key_message_reader and pos pos' unknown x
  assume "pos \<noteq> []" "unknown = pos" "x = pre_key_pass r pos" "(r', pos') = x"
  then show "((r', if unknown = pos' then skip_unknown pos' else pos'), r, pos)
      \<in> measure (\<lambda>(r, pos). length pos)"
    using pre_key_pass_progress [of x r pos r' pos'] by (simp only: in_measure prod.case simp_thms)
qed

definition olm_decode_one_time_key_message :: "bytes \<Rightarrow> pre_key_message_reader" where
  "olm_decode_one_time_key_message input =
     (let r = \<lparr>pr_version = 0, pr_identity_key = None, pr_base_key = None,
               pr_one_time_key = None, pr_message = None\<rparr>
      in if input = [] then r
         else decode_pre_key_loop (r\<lparr>pr_version := hd input\<rparr>) (tl input))"

section \<open>Group messages\<close>

abbreviation GROUP_MESSAGE_INDEX_TAG :: u8 where "GROUP_MESSAGE_INDEX_TAG \<equiv> 8"
abbreviation GROUP_CIPHERTEXT_TAG :: u8 where "GROUP_CIPHERTEXT_TAG \<equiv> 18"

record group_message_results =
  gr_version :: u8
  gr_message_index :: u32
  gr_has_message_index :: bool
  gr_ciphertext :: "bytes option"

definition olm_encode_group_message_length :: "u32 \<Rightarrow> nat \<Rightarrow> nat \<Rightarrow> nat \<Rightarrow> nat" where
  "olm_encode_group_message_length message_index ciphertext_length mac_length signature_length =
     (let n = VERSION_LENGTH;
          n = size_add n (size_add 1 (varint_length_uint32 message_index));
          n = size_add n (size_add 1 (varstring_length ciphertext_length));
          n = size_add n mac_length
      in size_add n signature_length)"

text \<open>Returns the buffer, the length up to the MAC and \<open>*ciphertext_ptr\<close>.\<close>

definition olm_encode_group_message ::
    "u8 \<Rightarrow> u32 \<Rightarrow> nat \<Rightarrow> bytes \<Rightarrow> bytes \<times> nat \<times> nat" where
  "olm_encode_group_message version message_index ciphertext_length m =
     (let pos = 0;
          m = m[pos := version];
          pos = pos + 1;
          (m, pos) = encode_uint32 m pos GROUP_MESSAGE_INDEX_TAG message_index;
          (m, ciphertext_ptr, pos) = encode_bytes m pos GROUP_CIPHERTEXT_TAG ciphertext_length
      in (m, pos, ciphertext_ptr))"

definition group_pass ::
    "group_message_results \<Rightarrow> bytes \<Rightarrow> group_message_results \<times> bytes" where
  "group_pass r pos =
     (let (pos, index, has_index) =
            decode_uint32 pos GROUP_MESSAGE_INDEX_TAG (gr_message_index r) (gr_has_message_index r);
          (pos, ciphertext) = decode_bytes pos GROUP_CIPHERTEXT_TAG (gr_ciphertext r)
      in (\<lparr>gr_version = gr_version r, gr_message_index = index, gr_has_message_index = has_index,
           gr_ciphertext = ciphertext\<rparr>, pos))"

lemma suffix_group_pass: "suffix (snd (group_pass r pos)) pos"
  by (auto simp: group_pass_def split: prod.split)
     (metis fst_conv suffix_decode_bytes suffix_decode_uint32 suffix_order.trans)

lemma group_pass_progress:
  "x = group_pass r pos \<Longrightarrow> (r', pos') = x \<Longrightarrow> pos \<noteq> [] \<Longrightarrow>
   length (if pos = pos' then skip_unknown pos' else pos') < length pos"
  by (metis field_progress suffix_group_pass snd_conv)

function decode_group_loop :: "group_message_results \<Rightarrow> bytes \<Rightarrow> group_message_results" where
  "decode_group_loop r pos =
     (if pos = [] then r
      else let unknown = pos;
               (r, pos) = group_pass r pos
           in decode_group_loop r (if unknown = pos then skip_unknown pos else pos))"
  by auto
termination
proof (relation "measure (\<lambda>(r, pos). length pos)", rule wf_measure)
  fix r r' :: group_message_results and pos pos' unknown x
  assume "pos \<noteq> []" "unknown = pos" "x = group_pass r pos" "(r', pos') = x"
  then show "((r', if unknown = pos' then skip_unknown pos' else pos'), r, pos)
      \<in> measure (\<lambda>(r, pos). length pos)"
    using group_pass_progress [of x r pos r' pos'] by (simp only: in_measure prod.case simp_thms)
qed

text \<open>
  The source keeps \<open>has_message_index\<close> in a local and stores it at the end; the early
  returns leave it false, as here.
\<close>

definition olm_decode_group_message :: "bytes \<Rightarrow> nat \<Rightarrow> nat \<Rightarrow> group_message_results" where
  "olm_decode_group_message input mac_length signature_length =
     (let trailer_length = size_add mac_length signature_length;
          r = \<lparr>gr_version = 0, gr_message_index = 0, gr_has_message_index = False,
               gr_ciphertext = None\<rparr>
      in if length input < trailer_length then r
         else let pos = take (length input - trailer_length) input
              in if pos = [] then r
                 else decode_group_loop (r\<lparr>gr_version := hd pos\<rparr>) (tl pos))"

declare decode_pre_key_loop.simps [simp del] decode_group_loop.simps [simp del]


section \<open>What the decoders accept\<close>

text \<open>A message body as its fields, in the order the encoder lays them out.\<close>

definition message_body :: "u8 \<Rightarrow> u32 \<Rightarrow> bytes \<Rightarrow> bytes \<Rightarrow> bytes" where
  "message_body version counter key ciphertext =
     version # bytes_field RATCHET_KEY_TAG key @ uint32_field COUNTER_TAG counter
       @ bytes_field CIPHERTEXT_TAG ciphertext"

definition pre_key_body :: "u8 \<Rightarrow> bytes \<Rightarrow> bytes \<Rightarrow> bytes \<Rightarrow> bytes \<Rightarrow> bytes" where
  "pre_key_body version one_time_key base_key identity_key message =
     version # bytes_field ONE_TIME_KEY_ID_TAG one_time_key @ bytes_field BASE_KEY_TAG base_key
       @ bytes_field IDENTITY_KEY_TAG identity_key @ bytes_field MESSAGE_TAG message"

definition group_body :: "u8 \<Rightarrow> u32 \<Rightarrow> bytes \<Rightarrow> bytes" where
  "group_body version message_index ciphertext =
     version # uint32_field GROUP_MESSAGE_INDEX_TAG message_index
       @ bytes_field GROUP_CIPHERTEXT_TAG ciphertext"

lemma decode_loop_Nil [simp]:
  "decode_message_loop r [] = r" "decode_pre_key_loop p [] = p" "decode_group_loop g [] = g"
  by (simp_all add: decode_message_loop.simps decode_pre_key_loop.simps decode_group_loop.simps)

lemma field_not_Nil [simp]: "bytes_field t v \<noteq> []" "uint32_field t w \<noteq> []"
  by (simp_all add: bytes_field_def uint32_field_def)

lemmas last_field = decode_bytes_field [where rest = "[]", simplified]
  decode_other_field [where rest = "[]", simplified]

lemma decode_message_body:
  assumes "length key < 2 ^ 64" "length ct < 2 ^ 64"
  shows "olm_decode_message (message_body v c key ct @ mac) (length mac) =
    \<lparr>mr_version = v, mr_has_counter = True, mr_counter = c,
     mr_input = message_body v c key ct @ mac, mr_ratchet_key = Some key, mr_ciphertext = Some ct\<rparr>"
  using assms
  by (simp add: olm_decode_message_def message_body_def decode_message_loop.simps [of _ "_ @ _"]
      message_pass_def last_field)

lemma decode_pre_key_body:
  assumes "length otk < 2 ^ 64" "length base < 2 ^ 64" "length ident < 2 ^ 64" "length msg < 2 ^ 64"
  shows "olm_decode_one_time_key_message (pre_key_body v otk base ident msg) =
    \<lparr>pr_version = v, pr_identity_key = Some ident, pr_base_key = Some base,
     pr_one_time_key = Some otk, pr_message = Some msg\<rparr>"
  using assms
  by (simp add: olm_decode_one_time_key_message_def pre_key_body_def
      decode_pre_key_loop.simps [of _ "_ @ _"] pre_key_pass_def last_field)

lemma decode_group_body:
  assumes "length ct < 2 ^ 64" "length mac + length sig < 2 ^ 64"
  shows "olm_decode_group_message (group_body v i ct @ mac @ sig) (length mac) (length sig) =
    \<lparr>gr_version = v, gr_message_index = i, gr_has_message_index = True, gr_ciphertext = Some ct\<rparr>"
  using assms
  by (simp add: olm_decode_group_message_def group_body_def size_add_exact
      decode_group_loop.simps [of _ "_ @ _"] group_pass_def last_field)

text \<open>A field with an unknown tag is skipped, wherever it comes.\<close>

definition unknown_field :: "u8 set \<Rightarrow> bytes \<Rightarrow> bool" where
  "unknown_field known f \<longleftrightarrow>
     (\<exists>t. t \<notin> known \<and> t AND 0x80 = 0 \<and>
        ((\<exists>v. f = bytes_field t v \<and> t AND 7 = 2 \<and> length v < 2 ^ 64)
          \<or> (\<exists>w. f = uint32_field t w \<and> t AND 7 = 0)))"

lemma decode_message_unknown:
  "unknown_field {RATCHET_KEY_TAG, COUNTER_TAG, CIPHERTEXT_TAG} f \<Longrightarrow>
   decode_message_loop r (f @ rest) = decode_message_loop r rest"
  by (cases r) (auto simp: unknown_field_def decode_message_loop.simps [of _ "_ @ _"] message_pass_def)

lemma decode_pre_key_unknown:
  "unknown_field {ONE_TIME_KEY_ID_TAG, BASE_KEY_TAG, IDENTITY_KEY_TAG, MESSAGE_TAG} f \<Longrightarrow>
   decode_pre_key_loop r (f @ rest) = decode_pre_key_loop r rest"
  by (cases r) (auto simp: unknown_field_def decode_pre_key_loop.simps [of _ "_ @ _"] pre_key_pass_def)

lemma decode_group_unknown:
  "unknown_field {GROUP_MESSAGE_INDEX_TAG, GROUP_CIPHERTEXT_TAG} f \<Longrightarrow>
   decode_group_loop r (f @ rest) = decode_group_loop r rest"
  by (cases r) (auto simp: unknown_field_def decode_group_loop.simps [of _ "_ @ _"] group_pass_def)

section \<open>What the encoders write\<close>

lemma varstring_length_eq:
  "length (varint n) + n < 2 ^ 64 \<Longrightarrow> varstring_length n = length (varint n) + n"
  by (simp add: varstring_length_def varint_length_bytes_eq unsigned_of_nat take_bit_nat_eq_self
      size_add_exact)

lemma length_field:
  "length (bytes_field t v) = 1 + length (varint (length v)) + length v"
  "length (uint32_field t w) = 1 + length (varint (unat w))"
  by (simp_all add: bytes_field_def uint32_field_def)

lemma olm_encode_message_length_eq:
  assumes "length (message_body v c key ct) + mac_length < 2 ^ 64"
  shows "olm_encode_message_length c (length key) (length ct) mac_length =
    length (message_body v c key ct) + mac_length"
  using assms
  by (simp add: olm_encode_message_length_def message_body_def length_field varstring_length_eq
      varint_length_uint32_eq size_add_exact Let_def)

lemma olm_encode_pre_key_length_eq:
  assumes "length (pre_key_body v otk base ident msg) < 2 ^ 64"
  shows "olm_encode_one_time_key_message_length (length otk) (length ident) (length base)
      (length msg) = length (pre_key_body v otk base ident msg)"
  using assms
  by (simp add: olm_encode_one_time_key_message_length_def pre_key_body_def length_field
      varstring_length_eq size_add_exact Let_def)

lemma olm_encode_group_length_eq:
  assumes "length (group_body v i ct) + mac_length + signature_length < 2 ^ 64"
  shows "olm_encode_group_message_length i (length ct) mac_length signature_length =
    length (group_body v i ct) + mac_length + signature_length"
  using assms
  by (simp add: olm_encode_group_message_length_def group_body_def length_field varstring_length_eq
      varint_length_uint32_eq size_add_exact Let_def)


lemma length_varint_le: "n < 128 ^ Suc k \<Longrightarrow> length (varint n) \<le> Suc k"
proof (induction k arbitrary: n)
  case (Suc k)
  show ?case
  proof (cases "n < 128")
    case False
    moreover have "n div 128 < 128 ^ Suc k" using Suc.prems by (simp add: div_less_iff_less_mult mult.commute)
    ultimately show ?thesis using Suc.IH [of "n div 128"] by (simp add: varint_step)
  qed (simp add: varint_step)
qed (simp add: varint_step)

lemma length_varint_64: "n < 2 ^ 64 \<Longrightarrow> length (varint n) \<le> 10"
  using length_varint_le [of n 9] by (simp add: less_trans)

lemma length_varint_unat32: "length (varint (unat (v :: u32))) \<le> 5"
proof -
  have "unat v < 128 ^ Suc 4" using unsigned_less [of v, where 'a = nat] by simp
  then show ?thesis using length_varint_le [of "unat v" 4] by simp
qed

lemma length_message_body_le:
  "length key < 2 ^ 64 \<Longrightarrow> length ct < 2 ^ 64 \<Longrightarrow>
   length (message_body v c key ct) \<le> length key + length ct + 29"
  using length_varint_64 [of "length key"] length_varint_64 [of "length ct"]
    length_varint_unat32 [of c]
  by (simp add: message_body_def length_field)

text \<open>
  The encoder's writes, one after another: \<open>bytes_header t n\<close> is the tag and length in front
  of a payload of \<open>n\<close> bytes.
\<close>

definition bytes_header :: "u8 \<Rightarrow> nat \<Rightarrow> bytes" where
  "bytes_header tag n = tag # varint n"

lemma bytes_field_header: "bytes_field t v = bytes_header t (length v) @ v"
  by (simp add: bytes_field_def bytes_header_def)

lemma encode_bytes_header:
  assumes "q = pos + length (bytes_header tag n)" "q + n \<le> length m" "n < 2 ^ 64"
  shows "encode_bytes m pos tag n = (write_at m pos (bytes_header tag n), q, q + n)"
  using assms by (simp add: encode_bytes_eq bytes_header_def)

lemma write_version:
  "m \<noteq> [] \<Longrightarrow> write_at (m[0 := v]) (Suc 0) bs = write_at m 0 (v # bs)"
  using write_at_update_cons [of 0 m v bs] by simp

lemma encode_bytes_version:
  assumes "q = 1 + length (bytes_header tag n)" "q + n \<le> length m" "n < 2 ^ 64"
  shows "encode_bytes (m[0 := v]) 1 tag n = (write_at m 0 (v # bytes_header tag n), q, q + n)"
proof -
  have "m \<noteq> []" using assms by auto
  then show ?thesis using assms by (simp add: encode_bytes_header write_version)
qed

lemma encode_message_layout:
  assumes enc: "olm_encode_message v c (length key) (length ct) m = (m', w)"
    and fits: "length (message_body v c key ct) \<le> length m" "length m < 2 ^ 64"
  shows "write_at (write_at m' (mw_ratchet_key w) key) (mw_ciphertext w) ct =
      write_at m 0 (message_body v c key ct)"
    and "length m' = length m"
    and "mw_ratchet_key w + length key \<le> mw_ciphertext w"
    and "mw_ciphertext w + length ct = length (message_body v c key ct)"
proof -
  define H where "H = v # bytes_header RATCHET_KEY_TAG (length key)"
  define U where "U = uint32_field COUNTER_TAG c"
  define G where "G = bytes_header CIPHERTEXT_TAG (length ct)"
  let ?a = "length H" and ?b = "length H + length key"
  have body: "message_body v c key ct = H @ key @ (U @ G) @ ct"
    by (simp add: message_body_def bytes_field_header H_def U_def G_def)
  have L: "?b + length U + length G + length ct \<le> length m" using fits(1) by (simp add: body)
  have n: "length key < 2 ^ 64" "length ct < 2 ^ 64" using L fits(2) by simp_all
  have e1: "encode_bytes (m[0 := v]) 1 RATCHET_KEY_TAG (length key) = (write_at m 0 H, ?a, ?b)"
    unfolding H_def using L n by (subst encode_bytes_version) (auto simp: H_def)
  let ?m1 = "write_at m 0 H"
  have e2: "encode_uint32 ?m1 ?b COUNTER_TAG c = (write_at ?m1 ?b U, ?b + length U)"
    using L by (subst encode_uint32_eq) (auto simp: U_def length_field)
  have e3: "encode_bytes (write_at ?m1 ?b U) (?b + length U) CIPHERTEXT_TAG (length ct) =
      (write_at ?m1 ?b (U @ G), ?b + length (U @ G), ?b + length (U @ G) + length ct)"
    using L n by (subst encode_bytes_header [OF refl]) (auto simp: G_def write_at_write_at_adj add.assoc)
  have m': "m' = write_at ?m1 ?b (U @ G)" "mw_ratchet_key w = ?a"
      "mw_ciphertext w = ?b + length (U @ G)"
    using enc by (auto simp: olm_encode_message_def e1 e2 e3 Let_def simp del: One_nat_def)
  show "length m' = length m" unfolding m' using L by simp
  show "mw_ratchet_key w + length key \<le> mw_ciphertext w"
      "mw_ciphertext w + length ct = length (message_body v c key ct)"
    by (simp_all add: m' body)
  have "write_at m' ?a key = write_at m 0 (H @ key @ U @ G)"
    unfolding m' using L by (subst write_at_write_at_adj_rev) (auto simp: write_at_write_at_adj)
  then show "write_at (write_at m' (mw_ratchet_key w) key) (mw_ciphertext w) ct =
      write_at m 0 (message_body v c key ct)"
    unfolding body m' using L by (simp add: write_at_write_at_adj)
qed


text \<open>The four headers of a pre-key message, one after the other with gaps for their bytes.\<close>

lemma encode_pre_key_headers:
  fixes v :: u8 and i b o' t :: nat
  defines "H1 \<equiv> v # bytes_header ONE_TIME_KEY_ID_TAG o'" and "H2 \<equiv> bytes_header BASE_KEY_TAG b"
    and "H3 \<equiv> bytes_header IDENTITY_KEY_TAG i" and "H4 \<equiv> bytes_header MESSAGE_TAG t"
  defines "b2 \<equiv> length H1 + o'" 
  defines "b3 \<equiv> b2 + (length H2 + b)" 
  defines "b4 \<equiv> b3 + (length H3 + i)"
  assumes enc: "olm_encode_one_time_key_message v i b o' t m = (m', w)"
    and fits: "b4 + length H4 + t \<le> length m" "length m < 2 ^ 64"
  shows "m' = write_at (write_at (write_at (write_at m 0 H1) b2 H2) b3 H3) b4 H4"
    "pw_one_time_key w = length H1" "pw_base_key w = b2 + length H2" "pw_identity_key w = b3 + length H3"
    "pw_message w = b4 + length H4"
proof -
  note pos = b2_def b3_def b4_def and L = fits(1)
  have n: "o' < 2 ^ 64" "b < 2 ^ 64" "i < 2 ^ 64" "t < 2 ^ 64" using L fits(2) by (simp_all add: pos)
  have e1: "encode_bytes (m[0 := v]) 1 ONE_TIME_KEY_ID_TAG o' = (write_at m 0 H1, length H1, b2)"
    unfolding H1_def using L n by (subst encode_bytes_version) (auto simp: H1_def pos)
  let ?m1 = "write_at m 0 H1"
  have e2: "encode_bytes ?m1 b2 BASE_KEY_TAG b = (write_at ?m1 b2 H2, b2 + length H2, b3)"
    using L n by (subst encode_bytes_header [OF refl]) (auto simp: H2_def pos)
  let ?m2 = "write_at ?m1 b2 H2"
  have e3: "encode_bytes ?m2 b3 IDENTITY_KEY_TAG i = (write_at ?m2 b3 H3, b3 + length H3, b4)"
    using L n by (subst encode_bytes_header [OF refl]) (auto simp: H3_def pos)
  let ?m3 = "write_at ?m2 b3 H3"
  have e4: "encode_bytes ?m3 b4 MESSAGE_TAG t = (write_at ?m3 b4 H4, b4 + length H4, b4 + length H4 + t)"
    using L n by (subst encode_bytes_header [OF refl]) (auto simp: H4_def pos)
  show "m' = write_at ?m3 b4 H4"
    "pw_one_time_key w = length H1" "pw_base_key w = b2 + length H2" "pw_identity_key w = b3 + length H3"
    "pw_message w = b4 + length H4"
    using enc by (auto simp: olm_encode_one_time_key_message_def e1 e2 e3 e4 Let_def simp del: One_nat_def)
qed

lemma encode_pre_key_layout:
  assumes enc: "olm_encode_one_time_key_message v (length ident) (length base) (length otk)
      (length msg) m = (m', w)"
    and fits: "length (pre_key_body v otk base ident msg) \<le> length m" "length m < 2 ^ 64"
  shows "write_at (write_at (write_at (write_at m' (pw_one_time_key w) otk)
      (pw_identity_key w) ident) (pw_base_key w) base) (pw_message w) msg =
      write_at m 0 (pre_key_body v otk base ident msg)"
    and "length m' = length m"
    and "pw_message w + length msg = length (pre_key_body v otk base ident msg)"
proof -
  define H1 where "H1 = v # bytes_header ONE_TIME_KEY_ID_TAG (length otk)"
  define H2 where "H2 = bytes_header BASE_KEY_TAG (length base)"
  define H3 where "H3 = bytes_header IDENTITY_KEY_TAG (length ident)"
  define H4 where "H4 = bytes_header MESSAGE_TAG (length msg)"
  define b2 where "b2 = length H1 + length otk"
  define b3 where "b3 = b2 + (length H2 + length base)"
  define b4 where "b4 = b3 + (length H3 + length ident)"
  note pos = b2_def b3_def b4_def
  have body: "pre_key_body v otk base ident msg = (H1 @ otk @ H2 @ base) @ (H3 @ ident @ H4) @ msg"
    by (simp add: pre_key_body_def bytes_field_header H1_def H2_def H3_def H4_def)
  have L: "b4 + length H4 + length msg \<le> length m" using fits(1) by (simp add: body pos)
  note w = encode_pre_key_headers [OF enc, folded H1_def H2_def H3_def H4_def, folded b2_def, folded b3_def,
      folded b4_def, OF L fits(2)]
  show "length m' = length m" unfolding w(1) using L by (simp add: pos)
  show "pw_message w + length msg = length (pre_key_body v otk base ident msg)"
    by (simp add: w(5) body pos)
  let ?X = "write_at m 0 (H1 @ otk @ H2)"
  have s1: "write_at m' (length H1) otk = write_at (write_at ?X b3 H3) b4 H4"
    unfolding w(1) using L by (simp add: pos write_at_commute write_at_write_at_adj)
  have s2: "write_at (write_at (write_at ?X b3 H3) b4 H4) (b3 + length H3) ident =
      write_at ?X b3 (H3 @ ident @ H4)"
    using L by (simp add: pos write_at_commute write_at_write_at_adj)
  have s3: "write_at (write_at ?X b3 (H3 @ ident @ H4)) (b2 + length H2) base =
      write_at m 0 (H1 @ otk @ H2 @ base @ H3 @ ident @ H4)"
    using L by (simp add: pos write_at_commute write_at_write_at_adj)
  show "write_at (write_at (write_at (write_at m' (pw_one_time_key w) otk)
      (pw_identity_key w) ident) (pw_base_key w) base) (pw_message w) msg =
      write_at m 0 (pre_key_body v otk base ident msg)"
    unfolding w(2-5) s1 s2 s3 body using L by (simp add: pos write_at_write_at_adj)
qed

lemma encode_group_layout:
  assumes enc: "olm_encode_group_message v i (length ct) m = (m', n, p)"
    and fits: "length (group_body v i ct) \<le> length m" "length m < 2 ^ 64"
  shows "write_at m' p ct = write_at m 0 (group_body v i ct)"
    and "length m' = length m" and "n = length (group_body v i ct)" and "p + length ct = n"
proof -
  define U where "U = v # uint32_field GROUP_MESSAGE_INDEX_TAG i"
  define G where "G = bytes_header GROUP_CIPHERTEXT_TAG (length ct)"
  have body: "group_body v i ct = (U @ G) @ ct"
    by (simp add: group_body_def bytes_field_header U_def G_def)
  have L: "length U + length G + length ct \<le> length m" using fits(1) by (simp add: body)
  have n: "length ct < 2 ^ 64" "m \<noteq> []" using L fits(2) by (auto simp: U_def)
  have e1: "encode_uint32 (m[0 := v]) 1 GROUP_MESSAGE_INDEX_TAG i = (write_at m 0 U, length U)"
    using L n by (subst encode_uint32_eq) (auto simp: U_def length_field write_version)
  have e2: "encode_bytes (write_at m 0 U) (length U) GROUP_CIPHERTEXT_TAG (length ct) =
      (write_at m 0 (U @ G), length (U @ G), length (U @ G) + length ct)"
    using L n by (subst encode_bytes_header [OF refl]) (auto simp: G_def write_at_write_at_adj)
  have m': "m' = write_at m 0 (U @ G)" "p = length (U @ G)" "n = length (U @ G) + length ct"
    using enc by (auto simp: olm_encode_group_message_def e1 e2 Let_def simp del: One_nat_def)
  show "length m' = length m" "n = length (group_body v i ct)" "p + length ct = n"
    using L by (simp_all add: m' body)
  show "write_at m' p ct = write_at m 0 (group_body v i ct)"
    unfolding m' body using L by (simp add: write_at_write_at_adj)
qed


section \<open>The decoders stay inside the message\<close>

lemma decode_bytes_inside:
  assumes "suffix pos body" and "pred_option (\<lambda>s. sublist s body) v"
  shows "pred_option (\<lambda>s. sublist s body) (snd (decode_bytes pos tag v))"
proof (cases "snd (decode_bytes pos tag v)")
  case (Some s)
  then have "v = Some s \<or> sublist s pos" by (rule decode_bytes_slice)
  with assms Some show ?thesis by (auto dest: suffix_imp_sublist intro: sublist_order.order.trans)
qed simp

lemma suffix_decode_round:
  "suffix pos body \<Longrightarrow> suffix (if u = pos then skip_unknown pos else pos) body"
  using suffix_skip_unknown suffix_order.trans by auto

lemma suffix_decoded:
  "decode_bytes pos tag v = (pos', v') \<Longrightarrow> suffix pos body \<Longrightarrow> suffix pos' body"
  "decode_uint32 pos tag w h = (pos', w', h') \<Longrightarrow> suffix pos body \<Longrightarrow> suffix pos' body"
  by (metis fst_conv suffix_decode_bytes suffix_order.trans)
     (metis fst_conv suffix_decode_uint32 suffix_order.trans)

lemma inside_decoded:
  "decode_bytes pos tag v = (pos', v') \<Longrightarrow> suffix pos body \<Longrightarrow>
   pred_option (\<lambda>s. sublist s body) v \<Longrightarrow> pred_option (\<lambda>s. sublist s body) v'"
  by (metis decode_bytes_inside snd_conv)

lemma message_pass_inside:
  assumes "message_pass r pos = (r', pos')" "suffix pos body"
    "pred_option (\<lambda>s. sublist s body) (mr_ratchet_key r)"
    "pred_option (\<lambda>s. sublist s body) (mr_ciphertext r)"
  shows "suffix pos' body" "pred_option (\<lambda>s. sublist s body) (mr_ratchet_key r')"
    "pred_option (\<lambda>s. sublist s body) (mr_ciphertext r')"
proof -
  obtain p1 k where d1: "decode_bytes pos RATCHET_KEY_TAG (mr_ratchet_key r) = (p1, k)" by force
  obtain p2 c h where d2: "decode_uint32 p1 COUNTER_TAG (mr_counter r) (mr_has_counter r) = (p2, c, h)"
    using prod_cases3 by blast
  obtain p3 ct where d3: "decode_bytes p2 CIPHERTEXT_TAG (mr_ciphertext r) = (p3, ct)" by force
  note suffix1 = suffix_decoded(1) [OF d1 assms(2)]
  note suffix2 = suffix_decoded(2) [OF d2 suffix1]
  show "suffix pos' body" "pred_option (\<lambda>s. sublist s body) (mr_ratchet_key r')"
    "pred_option (\<lambda>s. sublist s body) (mr_ciphertext r')"
    using assms suffix_decoded(1) [OF d3 suffix2] inside_decoded [OF d1 assms(2,3)]
      inside_decoded [OF d3 suffix2 assms(4)]
    by (auto simp: message_pass_def d1 d2 d3)
qed

lemma decode_message_loop_inside:
  "suffix pos body \<Longrightarrow> pred_option (\<lambda>s. sublist s body) (mr_ratchet_key r) \<Longrightarrow>
   pred_option (\<lambda>s. sublist s body) (mr_ciphertext r) \<Longrightarrow>
   pred_option (\<lambda>s. sublist s body) (mr_ratchet_key (decode_message_loop r pos)) \<and>
   pred_option (\<lambda>s. sublist s body) (mr_ciphertext (decode_message_loop r pos))"
proof (induction r pos rule: decode_message_loop.induct)
  case (1 r pos)
  show ?case
  proof (cases "pos = []")
    case False
    obtain r' pos' where p: "message_pass r pos = (r', pos')" by force
    from False p show ?thesis
      using 1(1) [OF False refl p [symmetric] refl] message_pass_inside [OF p 1(2,3,4)]
        suffix_decode_round [of pos' body pos]
      by (subst (1 2) decode_message_loop.simps) simp
  qed (use 1 in simp)
qed

text \<open>Whatever bytes arrive, the ratchet key and the ciphertext that decoding a message
  hands out are runs of bytes of the body: they lie between the version byte and the MAC
  and are never read past the end, however large the length fields of the input are.\<close>

theorem decode_message_inside:
  "pred_option (\<lambda>s. sublist s (take (length input - mac_length) input))
      (mr_ratchet_key (olm_decode_message input mac_length)) \<and>
   pred_option (\<lambda>s. sublist s (take (length input - mac_length) input))
      (mr_ciphertext (olm_decode_message input mac_length))"
  using decode_message_loop_inside [OF suffix_tl, of "take (length input - mac_length) input"]
  by (simp add: olm_decode_message_def Let_def)

section \<open>Encoding and decoding\<close>

text \<open>C37: What \<open>_olm_encode_message\<close> writes into a buffer of
  \<open>_olm_encode_message_length\<close> bytes, completed by the caller with the ratchet key, the
  ciphertext and the MAC, is read back by \<open>_olm_decode_message\<close>: the same version, counter,
  ratchet key and ciphertext.\<close>

theorem olm_message_roundtrip:
  assumes "length key + length ct + length mac < 2 ^ 63"
    and "length m = olm_encode_message_length c (length key) (length ct) (length mac)"
  shows "(let (m, w) = olm_encode_message v c (length key) (length ct) m;
              m = write_at m (mw_ratchet_key w) key;
              m = write_at m (mw_ciphertext w) ct;
              m = write_at m (length m - length mac) mac
          in olm_decode_message m (length mac)) =
    \<lparr>mr_version = v, mr_has_counter = True, mr_counter = c,
     mr_input = message_body v c key ct @ mac, mr_ratchet_key = Some key, mr_ciphertext = Some ct\<rparr>"
proof -
  have B: "length (message_body v c key ct) \<le> length key + length ct + 29"
    using assms(1) by (intro length_message_body_le) simp_all
  have m: "length m = length (message_body v c key ct) + length mac"
    using B assms by (simp add: olm_encode_message_length_eq)
  obtain m' w where enc: "olm_encode_message v c (length key) (length ct) m = (m', w)" by force
  have "write_at (write_at (write_at m' (mw_ratchet_key w) key) (mw_ciphertext w) ct)
      (length m - length mac) mac = message_body v c key ct @ mac"
    using B assms(1) m by (simp add: encode_message_layout [OF enc] write_at_write_at_adj)
  then show ?thesis
    using assms(1) B m encode_message_layout [OF enc]
    by (simp add: enc decode_message_body)
qed

text \<open>A pre-key message laid out by \<open>_olm_encode_one_time_key_message\<close> and completed by
  the caller with the three keys and the inner message is read back by
  \<open>_olm_decode_one_time_key_message\<close>.\<close>

theorem pre_key_message_roundtrip:
  assumes "length otk + length ident + length base + length msg < 2 ^ 63"
    and "length m = olm_encode_one_time_key_message_length (length otk) (length ident)
           (length base) (length msg)"
  shows "(let (m, w) = olm_encode_one_time_key_message v (length ident) (length base)
                         (length otk) (length msg) m;
              m = write_at m (pw_one_time_key w) otk;
              m = write_at m (pw_identity_key w) ident;
              m = write_at m (pw_base_key w) base;
              m = write_at m (pw_message w) msg
          in olm_decode_one_time_key_message m) =
    \<lparr>pr_version = v, pr_identity_key = Some ident, pr_base_key = Some base,
     pr_one_time_key = Some otk, pr_message = Some msg\<rparr>"
proof -
  have B: "length (pre_key_body v otk base ident msg) < 2 ^ 64"
    using assms(1) length_varint_64 [of "length otk"] length_varint_64 [of "length base"]
      length_varint_64 [of "length ident"] length_varint_64 [of "length msg"]
    by (simp add: pre_key_body_def length_field)
  have m: "length m = length (pre_key_body v otk base ident msg)"
    using B assms(2) by (simp add: olm_encode_pre_key_length_eq)
  obtain m' w where enc: "olm_encode_one_time_key_message v (length ident) (length base)
      (length otk) (length msg) m = (m', w)" by force
  show ?thesis
    using B m assms(1) encode_pre_key_layout(1) [OF enc]
    by (simp add: enc decode_pre_key_body)
qed

text \<open>A group message laid out by \<open>_olm_encode_group_message\<close> and completed with the
  ciphertext, the MAC and the signature is read back by \<open>_olm_decode_group_message\<close>.\<close>

theorem group_message_roundtrip:
  assumes "length ct + length mac + length sig < 2 ^ 63"
    and "length m = olm_encode_group_message_length i (length ct) (length mac) (length sig)"
  shows "(let (m, n, ciphertext_ptr) = olm_encode_group_message v i (length ct) m;
              m = write_at m ciphertext_ptr ct;
              m = write_at m n mac;
              m = write_at m (n + length mac) sig
          in olm_decode_group_message m (length mac) (length sig)) =
    \<lparr>gr_version = v, gr_message_index = i, gr_has_message_index = True, gr_ciphertext = Some ct\<rparr>"
proof -
  have B: "length (group_body v i ct) \<le> length ct + 18"
    using assms(1) length_varint_64 [of "length ct"] length_varint_unat32 [of i]
    by (simp add: group_body_def length_field)
  have m: "length m = length (group_body v i ct) + length mac + length sig"
    using B assms by (simp add: olm_encode_group_length_eq)
  obtain m' n p where enc: "olm_encode_group_message v i (length ct) m = (m', n, p)"
    using prod_cases3 by blast
  have "write_at (write_at (write_at m' p ct) n mac) (n + length mac) sig =
      group_body v i ct @ mac @ sig"
    using B assms(1) m encode_group_layout(3) [OF enc]
    by (simp add: encode_group_layout(1) [OF enc] write_at_write_at_adj)
  then show ?thesis
    using assms(1) by (simp add: enc decode_group_body)
qed


lemma olm_message_roundtrip_witness:
  "(let (m, w) = olm_encode_message 3 300 (length [1, 2 :: u8]) (length [7, 8, 9 :: u8]) (zeros 17);
        m = write_at m (mw_ratchet_key w) [1, 2];
        m = write_at m (mw_ciphertext w) [7, 8, 9];
        m = write_at m (length m - length [5, 5, 5, 5 :: u8]) [5, 5, 5, 5]
    in olm_decode_message m (length [5, 5, 5, 5 :: u8])) =
   \<lparr>mr_version = 3, mr_has_counter = True, mr_counter = 300,
    mr_input = message_body 3 300 [1, 2] [7, 8, 9] @ [5, 5, 5, 5],
    mr_ratchet_key = Some [1, 2], mr_ciphertext = Some [7, 8, 9]\<rparr>"
proof (rule olm_message_roundtrip)
  show "length (zeros 17) = olm_encode_message_length 300 (length [1, 2 :: u8])
      (length [7, 8, 9 :: u8]) (length [5, 5, 5, 5 :: u8])"
    by (simp add: olm_encode_message_length_def varstring_length_def size_add_def
        varint_length_bytes.simps varint_length_uint32.simps word_le_nat_alt Let_def drop_bit_eq_div)
qed simp

lemma pre_key_message_roundtrip_witness:
  "(let (m, w) = olm_encode_one_time_key_message 3 (length [3 :: u8]) (length [2 :: u8])
                   (length [1 :: u8]) (length [4, 5 :: u8]) (zeros 14);
        m = write_at m (pw_one_time_key w) [1];
        m = write_at m (pw_identity_key w) [3];
        m = write_at m (pw_base_key w) [2];
        m = write_at m (pw_message w) [4, 5]
    in olm_decode_one_time_key_message m) =
   \<lparr>pr_version = 3, pr_identity_key = Some [3], pr_base_key = Some [2],
    pr_one_time_key = Some [1], pr_message = Some [4, 5]\<rparr>"
proof (rule pre_key_message_roundtrip)
  show "length (zeros 14) = olm_encode_one_time_key_message_length (length [1 :: u8])
      (length [3 :: u8]) (length [2 :: u8]) (length [4, 5 :: u8])"
    by (simp add: olm_encode_one_time_key_message_length_def varstring_length_def size_add_def
        varint_length_bytes.simps word_le_nat_alt Let_def)
qed simp

lemma group_message_roundtrip_witness:
  "(let (m, n, ciphertext_ptr) = olm_encode_group_message 3 200 (length [1, 2 :: u8]) (zeros 12);
        m = write_at m ciphertext_ptr [1, 2];
        m = write_at m n [8, 8];
        m = write_at m (n + length [8, 8 :: u8]) [6, 6]
    in olm_decode_group_message m (length [8, 8 :: u8]) (length [6, 6 :: u8])) =
   \<lparr>gr_version = 3, gr_message_index = 200, gr_has_message_index = True,
    gr_ciphertext = Some [1, 2]\<rparr>"
proof (rule group_message_roundtrip)
  show "length (zeros 12) = olm_encode_group_message_length 200 (length [1, 2 :: u8])
      (length [8, 8 :: u8]) (length [6, 6 :: u8])"
    by (simp add: olm_encode_group_message_length_def varstring_length_def size_add_def
        varint_length_bytes.simps varint_length_uint32.simps word_le_nat_alt Let_def drop_bit_eq_div)
qed simp

end
