(* ===== verification/Aes_Sbox.thy ===== *)
theory Aes_Sbox
  imports Prelude
begin

text \<open>
  \<open>lib/aes-ct64/\<close>: the S-box circuit of the bitsliced AES the library is built with, and
  its inverse.

  The state \<open>uint64_t q[8]\<close> is a list of eight 64-bit registers: bit \<open>n\<close> of the eight
  registers together is one byte. A gate works on all the bytes at once, and what the
  circuit does to one byte depends on that byte only. So the circuits are evaluated
  on four register files that hold all the 256 bytes between them, and the result carries
  over to any registers.
\<close>

section \<open>The S-box circuit\<close>

definition aes_ct64_bitslice_Sbox :: "u64 list \<Rightarrow> u64 list" where
  "aes_ct64_bitslice_Sbox q =
     (let x0 = q ! 7; x1 = q ! 6; x2 = q ! 5; x3 = q ! 4; x4 = q ! 3; x5 = q ! 2; x6 = q ! 1;
          x7 = q ! 0; y14 = x3 XOR x5; y13 = x0 XOR x6; y9 = x0 XOR x3; y8 = x0 XOR x5;
          t0 = x1 XOR x2; y1 = t0 XOR x7; y4 = y1 XOR x3; y12 = y13 XOR y14; y2 = y1 XOR x0;
          y5 = y1 XOR x6; y3 = y5 XOR y8; t1 = x4 XOR y12; y15 = t1 XOR x5; y20 = t1 XOR x1;
          y6 = y15 XOR x7; y10 = y15 XOR t0; y11 = y20 XOR y9; y7 = x7 XOR y11;
          y17 = y10 XOR y11; y19 = y10 XOR y8; y16 = t0 XOR y11; y21 = y13 XOR y16;
          y18 = x0 XOR y16; t2 = y12 AND y15; t3 = y3 AND y6; t4 = t3 XOR t2; t5 = y4 AND x7;
          t6 = t5 XOR t2; t7 = y13 AND y16; t8 = y5 AND y1; t9 = t8 XOR t7; t10 = y2 AND y7;
          t11 = t10 XOR t7; t12 = y9 AND y11; t13 = y14 AND y17; t14 = t13 XOR t12;
          t15 = y8 AND y10; t16 = t15 XOR t12; t17 = t4 XOR t14; t18 = t6 XOR t16;
          t19 = t9 XOR t14; t20 = t11 XOR t16; t21 = t17 XOR y20; t22 = t18 XOR y19;
          t23 = t19 XOR y21; t24 = t20 XOR y18; t25 = t21 XOR t22; t26 = t21 AND t23;
          t27 = t24 XOR t26; t28 = t25 AND t27; t29 = t28 XOR t22; t30 = t23 XOR t24;
          t31 = t22 XOR t26; t32 = t31 AND t30; t33 = t32 XOR t24; t34 = t23 XOR t33;
          t35 = t27 XOR t33; t36 = t24 AND t35; t37 = t36 XOR t34; t38 = t27 XOR t36;
          t39 = t29 AND t38; t40 = t25 XOR t39; t41 = t40 XOR t37; t42 = t29 XOR t33;
          t43 = t29 XOR t40; t44 = t33 XOR t37; t45 = t42 XOR t41; z0 = t44 AND y15;
          z1 = t37 AND y6; z2 = t33 AND x7; z3 = t43 AND y16; z4 = t40 AND y1;
          z5 = t29 AND y7; z6 = t42 AND y11; z7 = t45 AND y17; z8 = t41 AND y10;
          z9 = t44 AND y12; z10 = t37 AND y3; z11 = t33 AND y4; z12 = t43 AND y13;
          z13 = t40 AND y5; z14 = t29 AND y2; z15 = t42 AND y9; z16 = t45 AND y14;
          z17 = t41 AND y8; t46 = z15 XOR z16; t47 = z10 XOR z11; t48 = z5 XOR z13;
          t49 = z9 XOR z10; t50 = z2 XOR z12; t51 = z2 XOR z5; t52 = z7 XOR z8;
          t53 = z0 XOR z3; t54 = z6 XOR z7; t55 = z16 XOR z17; t56 = z12 XOR t48;
          t57 = t50 XOR t53; t58 = z4 XOR t46; t59 = z3 XOR t54; t60 = t46 XOR t57;
          t61 = z14 XOR t57; t62 = t52 XOR t58; t63 = t49 XOR t58; t64 = z4 XOR t59;
          t65 = t61 XOR t62; t66 = z1 XOR t63; s0 = t59 XOR t63; s6 = t56 XOR NOT t62;
          s7 = t48 XOR NOT t60; t67 = t64 XOR t65; s3 = t53 XOR t66; s4 = t51 XOR t66;
          s5 = t47 XOR t65; s1 = t64 XOR NOT s3; s2 = t55 XOR NOT t67
      in [s7, s6, s5, s4, s3, s2, s1, s0])"

text \<open>The affine step in front of and behind the circuit in \<open>br_aes_ct64_bitslice_invSbox\<close>.\<close>

definition inv_affine :: "u64 list \<Rightarrow> u64 list" where
  "inv_affine q =
     (let q0 = NOT (q ! 0); q1 = NOT (q ! 1); q2 = q ! 2; q3 = q ! 3;
          q4 = q ! 4; q5 = NOT (q ! 5); q6 = NOT (q ! 6); q7 = q ! 7
      in [q2 XOR q5 XOR q7, q3 XOR q6 XOR q0, q4 XOR q7 XOR q1, q5 XOR q0 XOR q2,
          q6 XOR q1 XOR q3, q7 XOR q2 XOR q4, q0 XOR q3 XOR q5, q1 XOR q4 XOR q6])"

definition aes_ct64_bitslice_invSbox :: "u64 list \<Rightarrow> u64 list" where
  "aes_ct64_bitslice_invSbox q = inv_affine (aes_ct64_bitslice_Sbox (inv_affine q))"

lemma length_let: "(\<And>x. length (f x) = n) \<Longrightarrow> length (Let x f) = n"
  by simp

lemma length_Sbox [simp]: "length (aes_ct64_bitslice_Sbox q) = 8"
  unfolding aes_ct64_bitslice_Sbox_def by (rule length_let)+ simp

lemma length_inv_affine [simp]: "length (inv_affine q) = 8"
  by (simp add: inv_affine_def Let_def)

lemma length_invSbox [simp]: "length (aes_ct64_bitslice_invSbox q) = 8"
  by (simp add: aes_ct64_bitslice_invSbox_def)

text \<open>
  A bit of the output of a circuit depends on the same bit of the inputs only:
  \<open>same_bits n m\<close> relates registers whose bits at \<open>n\<close> and \<open>m\<close> agree, and every gate keeps it.
\<close>

definition same_bit :: "nat \<Rightarrow> nat \<Rightarrow> u64 \<Rightarrow> u64 \<Rightarrow> bool" where
  "same_bit n m x y \<longleftrightarrow> n < 64 \<and> m < 64 \<and> bit x n = bit y m"

abbreviation same_bits :: "nat \<Rightarrow> nat \<Rightarrow> u64 list \<Rightarrow> u64 list \<Rightarrow> bool" where
  "same_bits n m \<equiv> list_all2 (same_bit n m)"

lemma same_bit_gates:
  "same_bit n m x y \<Longrightarrow> same_bit n m x' y' \<Longrightarrow> same_bit n m (x AND x') (y AND y')"
  "same_bit n m x y \<Longrightarrow> same_bit n m x' y' \<Longrightarrow> same_bit n m (x XOR x') (y XOR y')"
  "same_bit n m x y \<Longrightarrow> same_bit n m (NOT x) (NOT y)"
  by (auto simp: same_bit_def bit_simps)

lemma same_bits_let:
  "same_bit n m x y \<Longrightarrow> (\<And>x y. same_bit n m x y \<Longrightarrow> same_bits n m (f x) (g y)) \<Longrightarrow>
   same_bits n m (Let x f) (Let y g)"
  by (simp add: Let_def)

lemma same_bits_nth: "same_bits n m q p \<Longrightarrow> length q = 8 \<Longrightarrow> i < 8 \<Longrightarrow> same_bit n m (q ! i) (p ! i)"
  by (simp add: list_all2_conv_all_nth)

lemma same_bits_inv_affine:
  assumes "same_bits n m q p" and "length q = 8"
  shows "same_bits n m (inv_affine q) (inv_affine p)"
  unfolding inv_affine_def
  by (rule same_bits_let same_bit_gates same_bits_nth [OF assms] list.rel_intros
      | assumption | simp)+

lemma same_bits_Sbox:
  assumes "same_bits n m q p" and "length q = 8"
  shows "same_bits n m (aes_ct64_bitslice_Sbox q) (aes_ct64_bitslice_Sbox p)"
  unfolding aes_ct64_bitslice_Sbox_def
  by (assumption | rule same_bits_let same_bit_gates same_bits_nth [OF assms] list.rel_intros
      | simp)+

lemma same_bits_invSbox:
  assumes "same_bits n m q p" and "length q = 8"
  shows "same_bits n m (aes_ct64_bitslice_invSbox q) (aes_ct64_bitslice_invSbox p)"
  unfolding aes_ct64_bitslice_invSbox_def
  using assms by (intro same_bits_inv_affine same_bits_Sbox) auto

text \<open>All 256 bytes in four register files of 64.\<close>

definition all_bytes :: "nat \<Rightarrow> u64 list" where
  "all_bytes k =
     [0xAAAAAAAAAAAAAAAA, 0xCCCCCCCCCCCCCCCC, 0xF0F0F0F0F0F0F0F0, 0xFF00FF00FF00FF00,
      0xFFFF0000FFFF0000, 0xFFFFFFFF00000000,
      if odd k then 0xFFFFFFFFFFFFFFFF else 0, if 2 \<le> k then 0xFFFFFFFFFFFFFFFF else 0]"

lemma invSbox_Sbox_all:
  "aes_ct64_bitslice_invSbox (aes_ct64_bitslice_Sbox (all_bytes 0)) = all_bytes 0"
  "aes_ct64_bitslice_invSbox (aes_ct64_bitslice_Sbox (all_bytes 1)) = all_bytes 1"
  "aes_ct64_bitslice_invSbox (aes_ct64_bitslice_Sbox (all_bytes 2)) = all_bytes 2"
  "aes_ct64_bitslice_invSbox (aes_ct64_bitslice_Sbox (all_bytes 3)) = all_bytes 3"
  by (simp_all add: all_bytes_def aes_ct64_bitslice_Sbox_def aes_ct64_bitslice_invSbox_def inv_affine_def Let_def cong: let_weak_cong)


lemma same_bits_all_bytes:
  assumes "length q = 8" and "n < 64"
  shows "\<exists>k<4. \<exists>m. same_bits n m q (all_bytes k)"
proof -
  let ?b = "\<lambda>i. of_bool (bit (q ! i) n) :: nat"
  define m where "m = ?b 0 + 2 * ?b 1 + 4 * ?b 2 + 8 * ?b 3 + 16 * ?b 4 + 32 * ?b 5"
  define k where "k = ?b 6 + 2 * ?b 7"
  obtain q0 q1 q2 q3 q4 q5 q6 q7 where q: "q = [q0, q1, q2, q3, q4, q5, q6, q7]"
    using assms(1) by (auto simp: numeral_eq_Suc length_Suc_conv)
  have "k < 4" by (auto simp: k_def)
  moreover have "same_bits n m q (all_bytes k)"
    using assms(2)
    by (simp add: m_def k_def q all_bytes_def same_bit_def)
  ultimately show ?thesis by blast
qed

lemma invSbox_Sbox:
  assumes "length q = 8"
  shows "aes_ct64_bitslice_invSbox (aes_ct64_bitslice_Sbox q) = q"
proof (rule nth_equalityI)
  fix i assume i: "i < length (aes_ct64_bitslice_invSbox (aes_ct64_bitslice_Sbox q))"
  show "aes_ct64_bitslice_invSbox (aes_ct64_bitslice_Sbox q) ! i = q ! i"
  proof (rule bit_word_eqI)
    fix n assume n: "n < LENGTH(64)"
    then obtain k m where k: "k < 4" and b: "same_bits n m q (all_bytes k)"
      using same_bits_all_bytes [OF assms, of n] by auto
    have "same_bits n m (aes_ct64_bitslice_invSbox (aes_ct64_bitslice_Sbox q))
        (aes_ct64_bitslice_invSbox (aes_ct64_bitslice_Sbox (all_bytes k)))"
      by (intro same_bits_invSbox same_bits_Sbox b assms) simp
    also have "aes_ct64_bitslice_invSbox (aes_ct64_bitslice_Sbox (all_bytes k)) = all_bytes k"
      using k invSbox_Sbox_all by (auto simp: numeral_eq_Suc less_Suc_eq)
    finally show "bit (aes_ct64_bitslice_invSbox (aes_ct64_bitslice_Sbox q) ! i) n = bit (q ! i) n"
      using b i by (auto simp: list_all2_conv_all_nth same_bit_def)
  qed
qed (use assms in simp)

end
