(* ===== verification/Aes_Ct64.thy ===== *)
theory Aes_Ct64
  imports Aes_Sbox
begin

text \<open>
  \<open>lib/aes-ct64/\<close>: the rounds of the bitsliced AES.

  Four blocks are worked on at a time: block \<open>l\<close> sits at the positions \<open>n\<close> with
  \<open>n mod 4 = l\<close> of the registers. The lemmas: every step of a round is undone by its
  inverse, so that decryption undoes encryption on the registers; and what happens to a
  block depends on that block only, in the same way in each of the four lanes.
\<close>

section \<open>Transposition and interleaving\<close>

definition SWAPN :: "u64 \<Rightarrow> u64 \<Rightarrow> nat \<Rightarrow> nat \<Rightarrow> nat \<Rightarrow> u64 list \<Rightarrow> u64 list" where
  "SWAPN cl ch s x y q =
     (let a = q ! x; b = q ! y
      in q[x := (a AND cl) OR push_bit s (b AND cl), y := drop_bit s (a AND ch) OR (b AND ch)])"

definition SWAP2 :: "nat \<Rightarrow> nat \<Rightarrow> u64 list \<Rightarrow> u64 list" where
  "SWAP2 = SWAPN 0x5555555555555555 0xAAAAAAAAAAAAAAAA 1"

definition SWAP4 :: "nat \<Rightarrow> nat \<Rightarrow> u64 list \<Rightarrow> u64 list" where
  "SWAP4 = SWAPN 0x3333333333333333 0xCCCCCCCCCCCCCCCC 2"

definition SWAP8 :: "nat \<Rightarrow> nat \<Rightarrow> u64 list \<Rightarrow> u64 list" where
  "SWAP8 = SWAPN 0x0F0F0F0F0F0F0F0F 0xF0F0F0F0F0F0F0F0 4"

definition aes_ct64_ortho :: "u64 list \<Rightarrow> u64 list" where
  "aes_ct64_ortho q =
     (let q = SWAP2 0 1 q; q = SWAP2 2 3 q; q = SWAP2 4 5 q; q = SWAP2 6 7 q;
          q = SWAP4 0 2 q; q = SWAP4 1 3 q; q = SWAP4 4 6 q; q = SWAP4 5 7 q;
          q = SWAP8 0 4 q; q = SWAP8 1 5 q; q = SWAP8 2 6 q
      in SWAP8 3 7 q)"

definition spread16 :: "u64 \<Rightarrow> u64" where
  "spread16 x =
     (let x = x OR push_bit 16 x;
          x = x AND 0x0000FFFF0000FFFF;
          x = x OR push_bit 8 x
      in x AND 0x00FF00FF00FF00FF)"

definition aes_ct64_interleave_in :: "u32 list \<Rightarrow> u64 \<times> u64" where
  "aes_ct64_interleave_in w =
     (let x0 = spread16 (ucast (w ! 0)); x1 = spread16 (ucast (w ! 1));
          x2 = spread16 (ucast (w ! 2)); x3 = spread16 (ucast (w ! 3))
      in (x0 OR push_bit 8 x2, x1 OR push_bit 8 x3))"

definition gather16 :: "u64 \<Rightarrow> u32" where
  "gather16 x =
     (let x = x OR drop_bit 8 x;
          x = x AND 0x0000FFFF0000FFFF
      in ucast x OR ucast (drop_bit 16 x))"

definition aes_ct64_interleave_out :: "u64 \<Rightarrow> u64 \<Rightarrow> u32 list" where
  "aes_ct64_interleave_out q0 q1 =
     (let x0 = q0 AND 0x00FF00FF00FF00FF; x1 = q1 AND 0x00FF00FF00FF00FF;
          x2 = drop_bit 8 q0 AND 0x00FF00FF00FF00FF; x3 = drop_bit 8 q1 AND 0x00FF00FF00FF00FF
      in [gather16 x0, gather16 x1, gather16 x2, gather16 x3])"

section \<open>The steps of a round\<close>

definition add_round_key :: "u64 list \<Rightarrow> u64 list \<Rightarrow> u64 list" where
  "add_round_key q sk = map2 (XOR) q (take 8 sk)"

definition shift_row_reg :: "u64 \<Rightarrow> u64" where
  "shift_row_reg x =
     (x AND 0x000000000000FFFF)
      OR drop_bit 4 (x AND 0x00000000FFF00000)
      OR push_bit 12 (x AND 0x00000000000F0000)
      OR drop_bit 8 (x AND 0x0000FF0000000000)
      OR push_bit 8 (x AND 0x000000FF00000000)
      OR drop_bit 12 (x AND 0xF000000000000000)
      OR push_bit 4 (x AND 0x0FFF000000000000)"

definition shift_rows :: "u64 list \<Rightarrow> u64 list" where
  "shift_rows q = map shift_row_reg q"

definition inv_shift_row_reg :: "u64 \<Rightarrow> u64" where
  "inv_shift_row_reg x =
     (x AND 0x000000000000FFFF)
      OR push_bit 4 (x AND 0x000000000FFF0000)
      OR drop_bit 12 (x AND 0x00000000F0000000)
      OR push_bit 8 (x AND 0x000000FF00000000)
      OR drop_bit 8 (x AND 0x0000FF0000000000)
      OR push_bit 12 (x AND 0x000F000000000000)
      OR drop_bit 4 (x AND 0xFFF0000000000000)"

definition inv_shift_rows :: "u64 list \<Rightarrow> u64 list" where
  "inv_shift_rows q = map inv_shift_row_reg q"

definition rotr32 :: "u64 \<Rightarrow> u64" where
  "rotr32 x = push_bit 32 x OR drop_bit 32 x"

definition rotr16 :: "u64 \<Rightarrow> u64" where
  "rotr16 x = drop_bit 16 x OR push_bit 48 x"

definition mix_columns :: "u64 list \<Rightarrow> u64 list" where
  "mix_columns q =
     (let q0 = q ! 0; q1 = q ! 1; q2 = q ! 2; q3 = q ! 3;
          q4 = q ! 4; q5 = q ! 5; q6 = q ! 6; q7 = q ! 7;
          r0 = rotr16 q0; r1 = rotr16 q1; r2 = rotr16 q2; r3 = rotr16 q3;
          r4 = rotr16 q4; r5 = rotr16 q5; r6 = rotr16 q6; r7 = rotr16 q7
      in [q7 XOR r7 XOR r0 XOR rotr32 (q0 XOR r0),
          q0 XOR r0 XOR q7 XOR r7 XOR r1 XOR rotr32 (q1 XOR r1),
          q1 XOR r1 XOR r2 XOR rotr32 (q2 XOR r2),
          q2 XOR r2 XOR q7 XOR r7 XOR r3 XOR rotr32 (q3 XOR r3),
          q3 XOR r3 XOR q7 XOR r7 XOR r4 XOR rotr32 (q4 XOR r4),
          q4 XOR r4 XOR r5 XOR rotr32 (q5 XOR r5),
          q5 XOR r5 XOR r6 XOR rotr32 (q6 XOR r6),
          q6 XOR r6 XOR r7 XOR rotr32 (q7 XOR r7)])"

definition inv_mix_columns :: "u64 list \<Rightarrow> u64 list" where
  "inv_mix_columns q =
     (let q0 = q ! 0; q1 = q ! 1; q2 = q ! 2; q3 = q ! 3;
          q4 = q ! 4; q5 = q ! 5; q6 = q ! 6; q7 = q ! 7;
          r0 = rotr16 q0; r1 = rotr16 q1; r2 = rotr16 q2; r3 = rotr16 q3;
          r4 = rotr16 q4; r5 = rotr16 q5; r6 = rotr16 q6; r7 = rotr16 q7
      in [q5 XOR q6 XOR q7 XOR r0 XOR r5 XOR r7 XOR rotr32 (q0 XOR q5 XOR q6 XOR r0 XOR r5),
          q0 XOR q5 XOR r0 XOR r1 XOR r5 XOR r6 XOR r7
            XOR rotr32 (q1 XOR q5 XOR q7 XOR r1 XOR r5 XOR r6),
          q0 XOR q1 XOR q6 XOR r1 XOR r2 XOR r6 XOR r7
            XOR rotr32 (q0 XOR q2 XOR q6 XOR r2 XOR r6 XOR r7),
          q0 XOR q1 XOR q2 XOR q5 XOR q6 XOR r0 XOR r2 XOR r3 XOR r5
            XOR rotr32 (q0 XOR q1 XOR q3 XOR q5 XOR q6 XOR q7 XOR r0 XOR r3 XOR r5 XOR r7),
          q1 XOR q2 XOR q3 XOR q5 XOR r1 XOR r3 XOR r4 XOR r5 XOR r6 XOR r7
            XOR rotr32 (q1 XOR q2 XOR q4 XOR q5 XOR q7 XOR r1 XOR r4 XOR r5 XOR r6),
          q2 XOR q3 XOR q4 XOR q6 XOR r2 XOR r4 XOR r5 XOR r6 XOR r7
            XOR rotr32 (q2 XOR q3 XOR q5 XOR q6 XOR r2 XOR r5 XOR r6 XOR r7),
          q3 XOR q4 XOR q5 XOR q7 XOR r3 XOR r5 XOR r6 XOR r7
            XOR rotr32 (q3 XOR q4 XOR q6 XOR q7 XOR r3 XOR r6 XOR r7),
          q4 XOR q5 XOR q6 XOR r4 XOR r6 XOR r7 XOR rotr32 (q4 XOR q5 XOR q7 XOR r4 XOR r7)])"

text \<open>\<open>u\<close> counts the rounds that are left; \<open>skey + (u << 3)\<close> is the key of round \<open>u\<close>.\<close>

definition round_key :: "u64 list \<Rightarrow> nat \<Rightarrow> u64 list" where
  "round_key skey u = drop (8 * u) skey"

definition encrypt_round :: "u64 list \<Rightarrow> nat \<Rightarrow> u64 list \<Rightarrow> u64 list" where
  "encrypt_round skey u q =
     add_round_key (mix_columns (shift_rows (aes_ct64_bitslice_Sbox q))) (round_key skey u)"

definition aes_ct64_bitslice_encrypt :: "nat \<Rightarrow> u64 list \<Rightarrow> u64 list \<Rightarrow> u64 list" where
  "aes_ct64_bitslice_encrypt num_rounds skey q =
     (let q = add_round_key q (round_key skey 0);
          q = fold (encrypt_round skey) [1..<num_rounds] q;
          q = shift_rows (aes_ct64_bitslice_Sbox q)
      in add_round_key q (round_key skey num_rounds))"

definition decrypt_round :: "u64 list \<Rightarrow> nat \<Rightarrow> u64 list \<Rightarrow> u64 list" where
  "decrypt_round skey u q =
     inv_mix_columns
       (add_round_key (aes_ct64_bitslice_invSbox (inv_shift_rows q)) (round_key skey u))"

definition aes_ct64_bitslice_decrypt :: "nat \<Rightarrow> u64 list \<Rightarrow> u64 list \<Rightarrow> u64 list" where
  "aes_ct64_bitslice_decrypt num_rounds skey q =
     (let q = add_round_key q (round_key skey num_rounds);
          q = fold (decrypt_round skey) (rev [1..<num_rounds]) q;
          q = aes_ct64_bitslice_invSbox (inv_shift_rows q)
      in add_round_key q (round_key skey 0))"

section \<open>Every step is undone\<close>

subsection \<open>Mixing the columns\<close>

lemma bit_u64_high: "64 \<le> n \<Longrightarrow> \<not> bit (x :: u64) n"
  using bit_imp_le_length [of x n] by auto

lemma bit_rotr:
  "n < 64 \<Longrightarrow> bit (rotr32 x) n \<longleftrightarrow> bit x ((n + 32) mod 64)"
  "n < 64 \<Longrightarrow> bit (rotr16 x) n \<longleftrightarrow> bit x ((n + 16) mod 64)"
  by (auto simp: rotr32_def rotr16_def bit_simps mod_if add.commute bit_u64_high)

lemma rotr_xor:
  "rotr32 (x XOR y) = rotr32 x XOR rotr32 y" "rotr16 (x XOR y) = rotr16 x XOR rotr16 y"
  by (rule bit_word_eqI; simp add: bit_rotr bit_xor_iff)+

lemma rotr_rotr:
  "rotr32 (rotr32 x) = x" "rotr16 (rotr16 x) = rotr32 x" "rotr32 (rotr16 x) = rotr16 (rotr32 x)"
  by (rule bit_word_eqI; simp add: bit_rotr mod_simps ac_simps)+

lemma list8: "length q = 8 \<longleftrightarrow> (\<exists>a b c d e f g h. q = [a, b, c, d, e, f, g, h])"
  by (auto simp: numeral_eq_Suc length_Suc_conv)

lemma inv_mix_columns_mix_columns:
  "length q = 8 \<Longrightarrow> inv_mix_columns (mix_columns q) = q"
  by (auto simp: list8 mix_columns_def inv_mix_columns_def Let_def rotr_xor rotr_rotr
      xor.assoc xor.commute xor.left_commute)


subsection \<open>Shifting the rows\<close>

lemma upt_64: "[0 ..< 64] =
    [0, 1, 2, 3, 4, 5, 6, 7, 8, 9, 10, 11, 12, 13, 14, 15, 16, 17, 18, 19, 20, 21, 22,
     23, 24, 25, 26, 27, 28, 29, 30, 31, 32, 33, 34, 35, 36, 37, 38, 39, 40, 41, 42, 43,
     44, 45, 46, 47, 48, 49, 50, 51, 52, 53, 54, 55, 56, 57, 58, 59, 60, 61, 62, 63]"
  by (simp add: upt_rec)

lemma less_64: "list_all P [0 ..< 64] \<Longrightarrow> n < 64 \<Longrightarrow> P n"
  by (simp add: list_all_iff)

text \<open>Row \<open>r\<close> is the sixteen positions from \<open>16 r\<close>; it is rotated by \<open>4 r\<close>.\<close>

definition rotated :: "nat \<Rightarrow> nat \<Rightarrow> nat" where
  "rotated k n = 16 * (n div 16) + (n mod 16 + k * (n div 16)) mod 16"

lemma bit_shift_row: "n < 64 \<Longrightarrow> bit (shift_row_reg x) n = bit x (rotated 4 n)"
proof (erule less_64 [rotated])
  show "list_all (\<lambda>n. bit (shift_row_reg x) n = bit x (rotated 4 n)) [0 ..< 64]"
    unfolding upt_64 list.pred_inject shift_row_reg_def rotated_def
    by (intro conjI; simp add: bit_simps; simp add: numeral_2_eq_2)
qed

lemma bit_inv_shift_row: "n < 64 \<Longrightarrow> bit (inv_shift_row_reg x) n = bit x (rotated 12 n)"
proof (erule less_64 [rotated])
  show "list_all (\<lambda>n. bit (inv_shift_row_reg x) n = bit x (rotated 12 n)) [0 ..< 64]"
    unfolding upt_64 list.pred_inject inv_shift_row_reg_def rotated_def
    by (intro conjI; simp add: bit_simps; simp add: numeral_2_eq_2)
qed


lemma rotated_mod: "rotated k n div 16 = n div 16"
  "rotated k n mod 16 = (n mod 16 + k * (n div 16)) mod 16"
  by (simp_all add: rotated_def)

lemma rotated_less: "n < 64 \<Longrightarrow> rotated k n < 64"
proof -
  assume "n < 64"
  then have "rotated k n div 16 < 4" by (simp add: rotated_mod(1))
  then show ?thesis by simp
qed

lemma rotated_rotated: "rotated 4 (rotated 12 n) = n"
proof -
  have "(n mod 16 + 12 * (n div 16) + 4 * (n div 16)) mod 16 = n mod 16" by simp
  then have "rotated 4 (rotated 12 n) = 16 * (n div 16) + n mod 16"
    by (simp add: rotated_def [of 4] rotated_mod mod_simps)
  then show ?thesis by simp
qed

lemma inv_shift_row_shift_row: "inv_shift_row_reg (shift_row_reg x) = x"
  by (rule bit_word_eqI)
     (simp add: bit_inv_shift_row bit_shift_row rotated_less rotated_rotated)

lemma inv_shift_rows_shift_rows: "inv_shift_rows (shift_rows q) = q"
  by (induction q) (simp_all add: inv_shift_rows_def shift_rows_def inv_shift_row_shift_row)

subsection \<open>Whole rounds\<close>

lemma length_steps [simp]:
  "length (shift_rows q) = length q" "length (inv_shift_rows q) = length q"
  "length (mix_columns q) = 8" "length (inv_mix_columns q) = 8"
  "length q = 8 \<Longrightarrow> 8 \<le> length sk \<Longrightarrow> length (add_round_key q sk) = 8"
  by (simp_all add: shift_rows_def inv_shift_rows_def mix_columns_def inv_mix_columns_def Let_def
      add_round_key_def)

lemma add_round_key_twice:
  assumes "length q = 8" "8 \<le> length sk"
  shows "add_round_key (add_round_key q sk) sk = q"
  by (rule nth_equalityI) (use assms in \<open>simp_all add: add_round_key_def xor.assoc\<close>)

lemma length_round_key: "8 * (u + 1) \<le> length skey \<Longrightarrow> 8 \<le> length (round_key skey u)"
  by (simp add: round_key_def)

lemma length_encrypt_round [simp]:
  "8 * (u + 1) \<le> length skey \<Longrightarrow> length (encrypt_round skey u q) = 8"
  "8 * (u + 1) \<le> length skey \<Longrightarrow> length (decrypt_round skey u q) = 8"
  by (simp_all add: encrypt_round_def decrypt_round_def length_round_key)

text \<open>
  The rounds of the two directions do not line up: a round of decryption undoes the key
  addition and mixing of one encryption round after the S-box of the next. \<open>sub_shift\<close> is
  the part of a round in front of the mixing.
\<close>

abbreviation sub_shift :: "u64 list \<Rightarrow> u64 list" where
  "sub_shift q \<equiv> shift_rows (aes_ct64_bitslice_Sbox q)"

lemma inv_sub_shift: "length q = 8 \<Longrightarrow> aes_ct64_bitslice_invSbox (inv_shift_rows (sub_shift q)) = q"
  by (simp add: inv_shift_rows_shift_rows invSbox_Sbox)

lemma decrypt_round_sub_shift:
  assumes "length q = 8" "8 * (u + 1) \<le> length skey"
  shows "decrypt_round skey u (sub_shift (encrypt_round skey u q)) = sub_shift q"
  using assms
  by (simp add: decrypt_round_def inv_sub_shift)
     (simp add: encrypt_round_def add_round_key_twice length_round_key inv_mix_columns_mix_columns)

lemma decrypt_rounds:
  assumes "length q = 8" "\<And>u. u \<in> set us \<Longrightarrow> 8 * (u + 1) \<le> length skey"
  shows "fold (decrypt_round skey) (rev us) (sub_shift (fold (encrypt_round skey) us q)) = sub_shift q"
  using assms
  by (induction us arbitrary: q) (simp_all add: decrypt_round_sub_shift)

lemma length_encrypt_rounds:
  assumes "length q = 8" "\<And>u. u \<in> set us \<Longrightarrow> 8 * (u + 1) \<le> length skey"
  shows "length (fold (encrypt_round skey) us q) = 8"
  using assms by (induction us arbitrary: q) simp_all

lemma length_bitslice_encrypt [simp]:
  "8 * (num_rounds + 1) \<le> length skey \<Longrightarrow> length (aes_ct64_bitslice_encrypt num_rounds skey q) = 8"
  by (simp add: aes_ct64_bitslice_encrypt_def Let_def length_round_key)

theorem bitslice_decrypt_encrypt:
  assumes "length q = 8" "8 * (num_rounds + 1) \<le> length skey"
  shows "aes_ct64_bitslice_decrypt num_rounds skey (aes_ct64_bitslice_encrypt num_rounds skey q) = q"
proof -
  have r: "8 * (u + 1) \<le> length skey" if "u \<in> set [1..<num_rounds]" for u
    using that assms(2) by auto
  have l: "length (add_round_key q (round_key skey 0)) = 8"
    using assms by (intro length_steps length_round_key) auto
  have e: "length (sub_shift (fold (encrypt_round skey) [1..<num_rounds]
      (add_round_key q (round_key skey 0)))) = 8" by simp
  show ?thesis
    unfolding aes_ct64_bitslice_decrypt_def aes_ct64_bitslice_encrypt_def Let_def
    by (subst add_round_key_twice [OF e length_round_key [OF assms(2)]],
        subst decrypt_rounds [OF l r], assumption, subst inv_sub_shift [OF l])
       (use assms in \<open>simp add: add_round_key_twice length_round_key\<close>)
qed

section \<open>Transposition is its own inverse\<close>

text \<open>One half of a swap: the bits of \<open>a\<close> and \<open>b\<close> that end up in the first and the second register.\<close>

definition swap_lo :: "u64 \<Rightarrow> nat \<Rightarrow> u64 \<Rightarrow> u64 \<Rightarrow> u64" where
  "swap_lo cl s a b = (a AND cl) OR push_bit s (b AND cl)"

definition swap_hi :: "u64 \<Rightarrow> nat \<Rightarrow> u64 \<Rightarrow> u64 \<Rightarrow> u64" where
  "swap_hi ch s a b = drop_bit s (a AND ch) OR (b AND ch)"

lemma SWAPN_eq:
  "SWAPN cl ch s x y q = q[x := swap_lo cl s (q ! x) (q ! y), y := swap_hi ch s (q ! x) (q ! y)]"
  by (simp add: SWAPN_def swap_lo_def swap_hi_def Let_def)

lemma bit_masks:
  assumes "n < 64"
  shows "bit (0x5555555555555555 :: u64) n \<longleftrightarrow> n mod (2 * 1) < 1"
    "bit (0xAAAAAAAAAAAAAAAA :: u64) n \<longleftrightarrow> \<not> n mod (2 * 1) < 1"
    "bit (0x3333333333333333 :: u64) n \<longleftrightarrow> n mod (2 * 2) < 2"
    "bit (0xCCCCCCCCCCCCCCCC :: u64) n \<longleftrightarrow> \<not> n mod (2 * 2) < 2"
    "bit (0x0F0F0F0F0F0F0F0F :: u64) n \<longleftrightarrow> n mod (2 * 4) < 4"
    "bit (0xF0F0F0F0F0F0F0F0 :: u64) n \<longleftrightarrow> \<not> n mod (2 * 4) < 4"
proof -
  have "list_all (\<lambda>n. bit (0x5555555555555555 :: u64) n \<longleftrightarrow> n mod (2 * 1) < 1) [0 ..< 64]"
    "list_all (\<lambda>n. bit (0xAAAAAAAAAAAAAAAA :: u64) n \<longleftrightarrow> \<not> n mod (2 * 1) < 1) [0 ..< 64]"
    "list_all (\<lambda>n. bit (0x3333333333333333 :: u64) n \<longleftrightarrow> n mod (2 * 2) < 2) [0 ..< 64]"
    "list_all (\<lambda>n. bit (0xCCCCCCCCCCCCCCCC :: u64) n \<longleftrightarrow> \<not> n mod (2 * 2) < 2) [0 ..< 64]"
    "list_all (\<lambda>n. bit (0x0F0F0F0F0F0F0F0F :: u64) n \<longleftrightarrow> n mod (2 * 4) < 4) [0 ..< 64]"
    "list_all (\<lambda>n. bit (0xF0F0F0F0F0F0F0F0 :: u64) n \<longleftrightarrow> \<not> n mod (2 * 4) < 4) [0 ..< 64]"
    unfolding upt_64 list.pred_inject by (intro conjI; simp)+
  from this [THEN less_64, OF assms] show
    "bit (0x5555555555555555 :: u64) n \<longleftrightarrow> n mod (2 * 1) < 1"
    "bit (0xAAAAAAAAAAAAAAAA :: u64) n \<longleftrightarrow> \<not> n mod (2 * 1) < 1"
    "bit (0x3333333333333333 :: u64) n \<longleftrightarrow> n mod (2 * 2) < 2"
    "bit (0xCCCCCCCCCCCCCCCC :: u64) n \<longleftrightarrow> \<not> n mod (2 * 2) < 2"
    "bit (0x0F0F0F0F0F0F0F0F :: u64) n \<longleftrightarrow> n mod (2 * 4) < 4"
    "bit (0xF0F0F0F0F0F0F0F0 :: u64) n \<longleftrightarrow> \<not> n mod (2 * 4) < 4" .
qed

lemma swap_positions:
  fixes n s :: nat
  assumes "s \<in> {1, 2, 4}" and "n < 64"
  shows "\<not> n mod (2 * s) < s \<longleftrightarrow> s \<le> n \<and> (n - s) mod (2 * s) < s"
    and "n mod (2 * s) < s \<longleftrightarrow> n + s < 64 \<and> \<not> (n + s) mod (2 * s) < s"
proof -
  have "list_all (\<lambda>n. (\<not> n mod (2 * s) < s \<longleftrightarrow> s \<le> n \<and> (n - s) mod (2 * s) < s) \<and>
      (n mod (2 * s) < s \<longleftrightarrow> n + s < 64 \<and> \<not> (n + s) mod (2 * s) < s)) [0 ..< 64]"
    using assms(1) unfolding upt_64 list.pred_inject by (elim insertE emptyE) simp_all
  from less_64 [OF this assms(2)]
  show "\<not> n mod (2 * s) < s \<longleftrightarrow> s \<le> n \<and> (n - s) mod (2 * s) < s"
    and "n mod (2 * s) < s \<longleftrightarrow> n + s < 64 \<and> \<not> (n + s) mod (2 * s) < s" by blast+
qed

lemma bit_swap:
  assumes n: "n < 64"
    and cl: "\<And>n. n < 64 \<Longrightarrow> bit cl n \<longleftrightarrow> n mod (2 * s) < s"
    and ch: "\<And>n. n < 64 \<Longrightarrow> bit ch n \<longleftrightarrow> \<not> n mod (2 * s) < s"
    and s: "s \<in> {1, 2, 4}"
  shows "bit (swap_lo cl s a b) n = (if n mod (2 * s) < s then bit a n else bit b (n - s))"
    and "bit (swap_hi ch s a b) n = (if n mod (2 * s) < s then bit a (n + s) else bit b n)"
proof -
  have "bit (swap_lo cl s a b) n \<longleftrightarrow>
      bit a n \<and> bit cl n \<or> s \<le> n \<and> bit b (n - s) \<and> bit cl (n - s)"
    using n by (auto simp: swap_lo_def bit_simps)
  then show "bit (swap_lo cl s a b) n = (if n mod (2 * s) < s then bit a n else bit b (n - s))"
    using cl [OF n] cl [of "n - s"] n swap_positions(1) [OF s n] by auto
  have "bit (swap_hi ch s a b) n \<longleftrightarrow> bit a (n + s) \<and> bit ch (n + s) \<or> bit b n \<and> bit ch n"
    by (simp add: swap_hi_def bit_simps add.commute)
  then show "bit (swap_hi ch s a b) n = (if n mod (2 * s) < s then bit a (n + s) else bit b n)"
    using ch [OF n] ch [of "n + s"] swap_positions(2) [OF s n] bit_u64_high [of "n + s" ch]
    by (cases "n + s < 64") auto
qed


text \<open>The three stages: on adjacent bits, pairs of bits and nibbles.\<close>

abbreviation "lo2 \<equiv> swap_lo 0x5555555555555555 1"
abbreviation "hi2 \<equiv> swap_hi 0xAAAAAAAAAAAAAAAA 1"
abbreviation "lo4 \<equiv> swap_lo 0x3333333333333333 2"
abbreviation "hi4 \<equiv> swap_hi 0xCCCCCCCCCCCCCCCC 2"
abbreviation "lo8 \<equiv> swap_lo 0x0F0F0F0F0F0F0F0F 4"
abbreviation "hi8 \<equiv> swap_hi 0xF0F0F0F0F0F0F0F0 4"

text \<open>Bit \<open>j\<close> of byte \<open>c\<close> of a register.\<close>

definition bit_pos :: "nat \<Rightarrow> nat \<Rightarrow> nat" where
  "bit_pos c j = 8 * c + j"

lemma bit_pos_mod:
  "bit_pos c j mod 2 = j mod 2" "bit_pos c j mod 4 = j mod 4" "bit_pos c j mod 8 = j mod 8"
  by (simp_all add: bit_pos_def mod_add_eq [symmetric] mod_mult_left_eq [symmetric])

lemma bit_pos_less: "c < 8 \<Longrightarrow> j < 8 \<Longrightarrow> bit_pos c j < 64"
  by (simp add: bit_pos_def)

lemma bit_pos_add: "bit_pos c j + k = bit_pos c (j + k)" "k \<le> j \<Longrightarrow> bit_pos c j - k = bit_pos c (j - k)"
  by (simp_all add: bit_pos_def)

lemma bit_stage:
  assumes "c < 8" "j < 8" "s \<in> {1, 2, 4}"
    and "\<And>n. n < 64 \<Longrightarrow> bit cl n \<longleftrightarrow> n mod (2 * s) < s"
    and "\<And>n. n < 64 \<Longrightarrow> bit ch n \<longleftrightarrow> \<not> n mod (2 * s) < s"
  shows "bit (swap_lo cl s a b) (bit_pos c j) =
      (if j mod (2 * s) < s then bit a (bit_pos c j) else bit b (bit_pos c (j - s)))"
    and "bit (swap_hi ch s a b) (bit_pos c j) =
      (if j mod (2 * s) < s then bit a (bit_pos c (j + s)) else bit b (bit_pos c j))"
proof -
  have m: "bit_pos c j mod (2 * s) = j mod (2 * s)" using assms(3) by (auto simp: bit_pos_mod)
  have d: "s \<le> j" if "\<not> j mod (2 * s) < s"
    using that mod_less_eq_dividend [of j "2 * s"] by linarith
  note swap = bit_swap [OF bit_pos_less [OF assms(1,2)] assms(4,5,3)]
  show "bit (swap_lo cl s a b) (bit_pos c j) =
      (if j mod (2 * s) < s then bit a (bit_pos c j) else bit b (bit_pos c (j - s)))"
    using d by (simp add: swap(1) m bit_pos_add)
  show "bit (swap_hi ch s a b) (bit_pos c j) =
      (if j mod (2 * s) < s then bit a (bit_pos c (j + s)) else bit b (bit_pos c j))"
    by (simp add: swap(2) m bit_pos_add)
qed

lemmas bit_stages =
  bit_stage [of _ _ 1, OF _ _ _ bit_masks(1,2)]
  bit_stage [of _ _ 2, OF _ _ _ bit_masks(3,4)]
  bit_stage [of _ _ 4, OF _ _ _ bit_masks(5,6)]

lemma length_SWAPN [simp]: "length (SWAPN cl ch s x y q) = length q"
  by (simp add: SWAPN_eq)

lemma length_ortho [simp]: "length (aes_ct64_ortho q) = length q"
  by (simp add: aes_ct64_ortho_def SWAP2_def SWAP4_def SWAP8_def Let_def)

lemma SWAP_stages:
  "SWAP2 6 7 (SWAP2 4 5 (SWAP2 2 3 (SWAP2 0 1 [q0, q1, q2, q3, q4, q5, q6, q7]))) =
   [lo2 q0 q1, hi2 q0 q1, lo2 q2 q3, hi2 q2 q3, lo2 q4 q5, hi2 q4 q5, lo2 q6 q7, hi2 q6 q7]"
  "SWAP4 5 7 (SWAP4 4 6 (SWAP4 1 3 (SWAP4 0 2 [q0, q1, q2, q3, q4, q5, q6, q7]))) =
   [lo4 q0 q2, lo4 q1 q3, hi4 q0 q2, hi4 q1 q3, lo4 q4 q6, lo4 q5 q7, hi4 q4 q6, hi4 q5 q7]"
  "SWAP8 3 7 (SWAP8 2 6 (SWAP8 1 5 (SWAP8 0 4 [q0, q1, q2, q3, q4, q5, q6, q7]))) =
   [lo8 q0 q4, lo8 q1 q5, lo8 q2 q6, lo8 q3 q7, hi8 q0 q4, hi8 q1 q5, hi8 q2 q6, hi8 q3 q7]"
  by (simp_all add: SWAP2_def SWAP4_def SWAP8_def SWAPN_eq)

lemma ortho_explicit:
  "aes_ct64_ortho [q0, q1, q2, q3, q4, q5, q6, q7] =
   [lo8 (lo4 (lo2 q0 q1) (lo2 q2 q3)) (lo4 (lo2 q4 q5) (lo2 q6 q7)),
    lo8 (lo4 (hi2 q0 q1) (hi2 q2 q3)) (lo4 (hi2 q4 q5) (hi2 q6 q7)),
    lo8 (hi4 (lo2 q0 q1) (lo2 q2 q3)) (hi4 (lo2 q4 q5) (lo2 q6 q7)),
    lo8 (hi4 (hi2 q0 q1) (hi2 q2 q3)) (hi4 (hi2 q4 q5) (hi2 q6 q7)),
    hi8 (lo4 (lo2 q0 q1) (lo2 q2 q3)) (lo4 (lo2 q4 q5) (lo2 q6 q7)),
    hi8 (lo4 (hi2 q0 q1) (hi2 q2 q3)) (lo4 (hi2 q4 q5) (hi2 q6 q7)),
    hi8 (hi4 (lo2 q0 q1) (lo2 q2 q3)) (hi4 (lo2 q4 q5) (lo2 q6 q7)),
    hi8 (hi4 (hi2 q0 q1) (hi2 q2 q3)) (hi4 (hi2 q4 q5) (hi2 q6 q7))]"
  by (simp only: aes_ct64_ortho_def Let_def SWAP_stages)

lemma bit_ortho:
  assumes "length q = 8" "i < 8" "c < 8" "j < 8"
  shows "bit (aes_ct64_ortho q ! i) (bit_pos c j) = bit (q ! j) (bit_pos c i)"
proof -
  obtain q0 q1 q2 q3 q4 q5 q6 q7 where q: "q = [q0, q1, q2, q3, q4, q5, q6, q7]"
    using assms(1) by (auto simp: list8)
  have "list_all (\<lambda>i. list_all (\<lambda>j. bit (aes_ct64_ortho q ! i) (bit_pos c j) = bit (q ! j) (bit_pos c i))
      [0, 1, 2, 3, 4, 5, 6, 7]) [0, 1, 2, 3, 4, 5, 6, 7]"
    unfolding q ortho_explicit
    by (simp only: list.pred_inject, intro conjI TrueI,
        simp_all add: bit_stages assms(3) del: One_nat_def)
       (simp_all add: eval_nat_numeral)
  moreover have "i \<in> set [0, 1, 2, 3, 4, 5, 6, 7]" "j \<in> set [0, 1, 2, 3, 4, 5, 6, 7]"
    using assms(2,4) by auto
  ultimately show ?thesis by (simp only: list_all_iff)
qed


lemma less_64_bit_pos: "n < 64 \<Longrightarrow> \<exists>c < 8. \<exists>j < 8. n = bit_pos c j"
  by (rule exI [of _ "n div 8"], rule conjI, simp, rule exI [of _ "n mod 8"])
     (simp add: bit_pos_def)

lemma ortho_ortho: "length q = 8 \<Longrightarrow> aes_ct64_ortho (aes_ct64_ortho q) = q"
  by (intro nth_equalityI bit_word_eqI) (auto simp: bit_ortho dest!: less_64_bit_pos)

lemma aes_ct64_ortho_inject:
  "length p = 8 \<Longrightarrow> length q = 8 \<Longrightarrow> aes_ct64_ortho p = aes_ct64_ortho q \<longleftrightarrow> p = q"
  by (metis ortho_ortho)

section \<open>Interleaving is undone\<close>

lemma bit_interleave_masks:
  assumes "n < 64"
  shows "bit (0x0000FFFF0000FFFF :: u64) n \<longleftrightarrow> n mod 32 < 16"
    "bit (0x00FF00FF00FF00FF :: u64) n \<longleftrightarrow> n mod 16 < 8"
proof -
  have "list_all (\<lambda>n. bit (0x0000FFFF0000FFFF :: u64) n \<longleftrightarrow> n mod 32 < 16) [0 ..< 64]"
    "list_all (\<lambda>n. bit (0x00FF00FF00FF00FF :: u64) n \<longleftrightarrow> n mod 16 < 8) [0 ..< 64]"
    unfolding upt_64 list.pred_inject by (intro conjI; simp)+
  from this [THEN less_64, OF assms] show
    "bit (0x0000FFFF0000FFFF :: u64) n \<longleftrightarrow> n mod 32 < 16"
    "bit (0x00FF00FF00FF00FF :: u64) n \<longleftrightarrow> n mod 16 < 8" .
qed

text \<open>Spreading puts byte \<open>k\<close> of a 32-bit value at byte \<open>2 k\<close>; gathering collects the even bytes.\<close>

lemma bit_u32_high: "32 \<le> n \<Longrightarrow> \<not> bit (x :: u32) n"
  using bit_imp_le_length [of x n] by auto

lemma bit_spread16:
  fixes x :: u32
  assumes "n < 64"
  shows "bit (spread16 (ucast x)) n \<longleftrightarrow> n mod 16 < 8 \<and> bit x (8 * (n div 16) + n mod 16)"
proof -
  have "list_all (\<lambda>n. bit (spread16 (ucast x)) n \<longleftrightarrow>
      n mod 16 < 8 \<and> bit x (8 * (n div 16) + n mod 16)) [0 ..< 64]"
    unfolding upt_64 list.pred_inject spread16_def Let_def
    by (intro conjI; simp add: bit_simps bit_u32_high; simp add: eval_nat_numeral)
  then show ?thesis using assms by (rule less_64)
qed

lemma upt_32: "[0 ..< 32] =
    [0, 1, 2, 3, 4, 5, 6, 7, 8, 9, 10, 11, 12, 13, 14, 15, 16, 17, 18, 19, 20, 21, 22,
     23, 24, 25, 26, 27, 28, 29, 30, 31]"
  by (simp add: upt_rec)

lemma less_32: "list_all P [0 ..< 32] \<Longrightarrow> n < 32 \<Longrightarrow> P n"
  by (simp add: list_all_iff)

lemma bit_gather16:
  assumes "n < 32"
  shows "bit (gather16 (x AND 0x00FF00FF00FF00FF)) n \<longleftrightarrow> bit x (16 * (n div 8) + n mod 8)"
proof -
  have "list_all (\<lambda>n. bit (gather16 (x AND 0x00FF00FF00FF00FF)) n \<longleftrightarrow>
      bit x (16 * (n div 8) + n mod 8)) [0 ..< 32]"
    unfolding upt_32 list.pred_inject gather16_def Let_def
    by (intro conjI; simp add: bit_simps; simp add: eval_nat_numeral)
  then show ?thesis using assms by (rule less_32)
qed

lemma gather16_spread16:
  fixes x y :: u32
  shows "gather16 ((spread16 (ucast x) OR push_bit 8 (spread16 (ucast y))) AND 0x00FF00FF00FF00FF) = x"
    and "gather16 (drop_bit 8 (spread16 (ucast x) OR push_bit 8 (spread16 (ucast y)))
           AND 0x00FF00FF00FF00FF) = y"
proof -
  let ?q = "spread16 (ucast x) OR push_bit 8 (spread16 (ucast y))"
  have "list_all (\<lambda>n. bit (gather16 (?q AND 0x00FF00FF00FF00FF)) n \<longleftrightarrow> bit x n) [0 ..< 32]"
    "list_all (\<lambda>n. bit (gather16 (drop_bit 8 ?q AND 0x00FF00FF00FF00FF)) n \<longleftrightarrow> bit y n) [0 ..< 32]"
    unfolding upt_32 list.pred_inject
    by (intro conjI; simp add: bit_gather16 bit_spread16 bit_or_iff bit_push_bit_iff bit_drop_bit_eq;
        simp add: eval_nat_numeral)+
  from this [THEN less_32]
  show "gather16 (?q AND 0x00FF00FF00FF00FF) = x" "gather16 (drop_bit 8 ?q AND 0x00FF00FF00FF00FF) = y"
    by (auto intro: bit_word_eqI)
qed

lemma spread16_gather16:
  "spread16 (ucast (gather16 (q AND 0x00FF00FF00FF00FF)))
     OR push_bit 8 (spread16 (ucast (gather16 (drop_bit 8 q AND 0x00FF00FF00FF00FF)))) = q"
  (is "?r = q")
proof -
  have "list_all (\<lambda>n. bit ?r n \<longleftrightarrow> bit q n) [0 ..< 64]"
    unfolding upt_64 list.pred_inject
    by (intro conjI; simp add: bit_gather16 bit_spread16 bit_or_iff bit_push_bit_iff bit_drop_bit_eq;
        simp add: eval_nat_numeral)+
  from this [THEN less_64] show ?thesis by (auto intro: bit_word_eqI)
qed

lemma interleave_out_in:
  "length w = 4 \<Longrightarrow> (case aes_ct64_interleave_in w of (q0, q1) \<Rightarrow> aes_ct64_interleave_out q0 q1) = w"
  by (auto simp: length_eq_4 aes_ct64_interleave_in_def aes_ct64_interleave_out_def Let_def
      gather16_spread16 simp del: drop_bit_or)

lemma interleave_in_out:
  "aes_ct64_interleave_in (aes_ct64_interleave_out q0 q1) = (q0, q1)"
  by (simp add: aes_ct64_interleave_in_def aes_ct64_interleave_out_def Let_def spread16_gather16)

lemma length_interleave_out [simp]: "length (aes_ct64_interleave_out q0 q1) = 4"
  by (simp add: aes_ct64_interleave_out_def Let_def)


section \<open>The four lanes\<close>

text \<open>
  \<open>lane_eq a b x y\<close>: lane \<open>a\<close> of the register \<open>x\<close> holds what lane \<open>b\<close> of \<open>y\<close> holds. Every step
  of a round keeps it, when the round keys are the same in all lanes.
\<close>

definition lane_eq :: "nat \<Rightarrow> nat \<Rightarrow> u64 \<Rightarrow> u64 \<Rightarrow> bool" where
  "lane_eq a b x y \<longleftrightarrow> (\<forall>n < 64. n mod 4 = 0 \<longrightarrow> bit x (n + a) = bit y (n + b))"

abbreviation lanes_eq :: "nat \<Rightarrow> nat \<Rightarrow> u64 list \<Rightarrow> u64 list \<Rightarrow> bool" where
  "lanes_eq a b \<equiv> list_all2 (lane_eq a b)"

definition lanes_alike :: "u64 \<Rightarrow> bool" where
  "lanes_alike k \<longleftrightarrow> (\<forall>a < 4. \<forall>b < 4. lane_eq a b k k)"

lemma lane_bound: "n mod 4 = 0 \<Longrightarrow> n < 64 \<Longrightarrow> a < 4 \<Longrightarrow> n + a < (64 :: nat)"
proof -
  assume "n mod 4 = 0" and n: "n < 64" and "a < 4"
  then obtain c where "n = 4 * c" by (auto simp: mod_eq_0_iff_dvd elim!: dvdE)
  with n have "n \<le> 60" by simp
  with \<open>a < 4\<close> show ?thesis by simp
qed

lemma lane_eq_xor: "lane_eq a b x y \<Longrightarrow> lane_eq a b x' y' \<Longrightarrow> lane_eq a b (x XOR x') (y XOR y')"
  by (simp add: lane_eq_def bit_xor_iff)

lemma lane_mod:
  fixes n a :: nat
  assumes "n mod 4 = 0" "a < 4" "k mod 4 = 0"
  shows "(n + a + k) mod 64 = (n + k) mod 64 + a" "(n + k) mod 64 mod 4 = 0"
proof -
  obtain c where c: "n = 4 * c" using mod_0_imp_dvd [OF assms(1)] by (rule dvdE)
  obtain d where d: "k = 4 * d" using mod_0_imp_dvd [OF assms(3)] by (rule dvdE)
  note n = c d
  then have e: "(n + k) mod 64 = 4 * ((c + d) mod 16)"
    using mult_mod_right [of 4 "c + d" 16] by (simp add: distrib_left)
  then have "(n + k) mod 64 + a < 64" using assms(2) mod_less_divisor [of 16 "c + d"] by linarith
  then show "(n + a + k) mod 64 = (n + k) mod 64 + a"
    by (metis add.assoc add.commute mod_add_left_eq mod_less)
  show "(n + k) mod 64 mod 4 = 0" by (simp add: e)
qed

lemma lane_eq_rotr:
  assumes "a < 4" "b < 4" "lane_eq a b x y"
  shows "lane_eq a b (rotr16 x) (rotr16 y)" "lane_eq a b (rotr32 x) (rotr32 y)"
  using assms
  by (auto simp: lane_eq_def bit_rotr lane_bound lane_mod)

lemma rotated_lane:
  assumes "n < 64" "n mod 4 = 0" "a < 4" "k mod 4 = 0"
  shows "rotated k (n + a) = rotated k n + a" "rotated k n mod 4 = 0"
proof -
  obtain c where c: "n = 4 * c" using mod_0_imp_dvd [OF assms(2)] by (rule dvdE)
  obtain d where d: "k = 4 * d" using mod_0_imp_dvd [OF assms(4)] by (rule dvdE)
  note n = c d
  have q: "(n + a) div 16 = n div 16" "(n + a) mod 16 = n mod 16 + a"
    using assms(3) div_mult2_eq [of _ 4 4] mod_mult2_eq [of _ 4 4] by (simp_all add: c)
  have e: "(n mod 16 + k * (n div 16)) mod 16 = 4 * ((c + d * (n div 16)) mod 4)"
  proof -
    have "(n mod 16 + k * (n div 16)) mod 16 = (n + k * (n div 16)) mod 16"
      by (simp add: mod_add_left_eq)
    also have "n + k * (n div 16) = 4 * (c + d * (n div 16))" unfolding n(2) by (simp add: n(1))
    also have "\<dots> mod 16 = 4 * ((c + d * (n div 16)) mod 4)"
      using mult_mod_right [of 4 "c + d * (n div 16)" 4] by (simp only: numeral_times_numeral) simp
    finally show ?thesis .
  qed
  then have "(n mod 16 + k * (n div 16)) mod 16 + a < 16"
    using assms(3) mod_less_divisor [of 4 "c + d * (n div 16)"] by linarith
  moreover have "(n mod 16 + a + k * (n div 16)) mod 16 = ((n mod 16 + k * (n div 16)) mod 16 + a) mod 16"
    by (subst mod_add_left_eq [of "n mod 16 + k * (n div 16)"]) (simp only: ac_simps)
  ultimately have "(n mod 16 + a + k * (n div 16)) mod 16 = (n mod 16 + k * (n div 16)) mod 16 + a"
    by (simp only: mod_less)
  then show "rotated k (n + a) = rotated k n + a" by (simp add: rotated_def q)
  show "rotated k n mod 4 = 0"
    unfolding rotated_def e by (rule dvd_imp_mod_0) (intro dvd_add dvd_mult2; simp)
qed

lemma lane_eq_shift_row:
  assumes "a < 4" "b < 4" "lane_eq a b x y"
  shows "lane_eq a b (shift_row_reg x) (shift_row_reg y)"
    and "lane_eq a b (inv_shift_row_reg x) (inv_shift_row_reg y)"
  using assms
  by (auto simp: lane_eq_def bit_shift_row bit_inv_shift_row lane_bound rotated_lane rotated_less)

lemma lanes_eq_shift_rows:
  assumes "a < 4" "b < 4" "lanes_eq a b p q"
  shows "lanes_eq a b (shift_rows p) (shift_rows q)"
    and "lanes_eq a b (inv_shift_rows p) (inv_shift_rows q)"
  using assms
  by (auto simp: shift_rows_def inv_shift_rows_def list_all2_map1 list_all2_map2
      intro: list_all2_mono lane_eq_shift_row)

lemma lanes_eq_nth: "lanes_eq a b p q \<Longrightarrow> length p = 8 \<Longrightarrow> i < 8 \<Longrightarrow> lane_eq a b (p ! i) (q ! i)"
  by (simp add: list_all2_conv_all_nth)

lemma lanes_eq_mix_columns:
  assumes "a < 4" "b < 4" "lanes_eq a b p q" "length p = 8"
  shows "lanes_eq a b (mix_columns p) (mix_columns q)"
    and "lanes_eq a b (inv_mix_columns p) (inv_mix_columns q)"
  unfolding mix_columns_def inv_mix_columns_def Let_def
  by (intro list.rel_intros lane_eq_xor lane_eq_rotr assms lanes_eq_nth [OF assms(3,4)]; simp)+

lemma lanes_eq_add_round_key:
  assumes "lanes_eq a b p q" "a < 4" "b < 4" "\<And>k. k \<in> set sk \<Longrightarrow> lanes_alike k"
  shows "lanes_eq a b (add_round_key p sk) (add_round_key q sk)"
  using assms
  by (auto simp: add_round_key_def list_all2_conv_all_nth lanes_alike_def intro!: lane_eq_xor)

lemma lanes_eq_same_bits:
  "length p = 8 \<Longrightarrow> length q = 8 \<Longrightarrow> a < 4 \<Longrightarrow> b < 4 \<Longrightarrow>
   lanes_eq a b p q \<longleftrightarrow> (\<forall>n < 64. n mod 4 = 0 \<longrightarrow> same_bits (n + a) (n + b) p q)"
  by (auto simp: list_all2_conv_all_nth lane_eq_def same_bit_def lane_bound)

lemma lanes_eq_Sbox:
  assumes "a < 4" "b < 4" "lanes_eq a b p q" "length p = 8"
  shows "lanes_eq a b (aes_ct64_bitslice_Sbox p) (aes_ct64_bitslice_Sbox q)"
    and "lanes_eq a b (aes_ct64_bitslice_invSbox p) (aes_ct64_bitslice_invSbox q)"
proof -
  have "length q = 8" using assms(3,4) by (simp add: list_all2_lengthD)
  with assms have "\<forall>n < 64. n mod 4 = 0 \<longrightarrow> same_bits (n + a) (n + b) p q"
    by (simp add: lanes_eq_same_bits)
  then show "lanes_eq a b (aes_ct64_bitslice_Sbox p) (aes_ct64_bitslice_Sbox q)"
    and "lanes_eq a b (aes_ct64_bitslice_invSbox p) (aes_ct64_bitslice_invSbox q)"
    using assms by (simp_all add: lanes_eq_same_bits same_bits_Sbox same_bits_invSbox)
qed

end
