(* ===== verification/Aes_Cbc.thy ===== *)
theory Aes_Cbc
  imports Aes_Ct64
begin

text \<open>
  \<open>lib/aes-ct64/\<close>: the key schedule and the two CBC loops.

  The encryption loop fills one of the four block slots and leaves six of the eight
  registers uninitialised; the decryption loop works on four blocks at a time, and on
  its last round reads words it has not loaded. What is in them is an argument \<open>undef\<close> of
  the models, a function of the bytes left and the index. The theorems: the result does not depend on it, both loops agree with
  the textbook chaining over one block cipher, and decryption undoes encryption.
\<close>

section \<open>Bytes and words\<close>

text \<open>\<open>br_range_dec32le\<close> and \<open>br_range_enc32le\<close>: little-endian words.\<close>

definition enc32le :: "u32 \<Rightarrow> bytes" where
  "enc32le x = [ucast x, ucast (drop_bit 8 x), ucast (drop_bit 16 x), ucast (drop_bit 24 x)]"

definition dec32le :: "u8 \<Rightarrow> u8 \<Rightarrow> u8 \<Rightarrow> u8 \<Rightarrow> u32" where
  "dec32le a b c d =
     ucast a OR push_bit 8 (ucast b) OR push_bit 16 (ucast c) OR push_bit 24 (ucast d)"

fun range_dec32le :: "nat \<Rightarrow> bytes \<Rightarrow> u32 list" where
  "range_dec32le (Suc num) (a # b # c # d # buf) = dec32le a b c d # range_dec32le num buf"
| "range_dec32le _ _ = []"

definition range_enc32le :: "u32 list \<Rightarrow> bytes" where
  "range_enc32le v = concat (map enc32le v)"

lemma dec32le_be32: "dec32le a b c d = be32_word d c b a"
  by (simp add: dec32le_def be32_word_def or.commute or.left_commute)

lemma enc32le_be32: "enc32le x = rev (be32_bytes x)"
  by (simp add: enc32le_def be32_bytes_def)

lemma dec32le_enc32le: "range_dec32le (Suc n) (enc32le x @ bs) = x # range_dec32le n bs"
  by (simp add: enc32le_def dec32le_be32 be32_word_bytes)

lemma enc32le_dec32le: "enc32le (dec32le a b c d) = [a, b, c, d]"
  by (simp add: enc32le_be32 dec32le_be32 be32_bytes_word)

lemma length_enc32le [simp]: "length (enc32le x) = 4"
  by (simp add: enc32le_def)

lemma length_range_enc32le [simp]: "length (range_enc32le v) = 4 * length v"
  by (induction v) (simp_all add: range_enc32le_def)

lemma range_dec_enc: "range_dec32le (length v) (range_enc32le v @ bs) = v"
  by (induction v) (simp_all add: range_enc32le_def dec32le_enc32le)

lemma range_dec_enc_exact: "n = length v \<Longrightarrow> range_dec32le n (range_enc32le v) = v"
  using range_dec_enc [of v "[]"] by simp

lemma length_range_dec32le [simp]: "4 * n \<le> length bs \<Longrightarrow> length (range_dec32le n bs) = n"
  by (induction n bs rule: range_dec32le.induct) auto

lemma range_enc_dec: "4 * n \<le> length bs \<Longrightarrow> range_enc32le (range_dec32le n bs) = take (4 * n) bs"
  by (induction n bs rule: range_dec32le.induct)
     (auto simp: range_enc32le_def enc32le_dec32le eval_nat_numeral)

section \<open>The key schedule\<close>

definition Rcon :: "u32 list" where
  "Rcon = [0x01, 0x02, 0x04, 0x08, 0x10, 0x20, 0x40, 0x80, 0x1B, 0x36]"

definition sub_word :: "u32 \<Rightarrow> u32" where
  "sub_word x =
     (let q = (replicate 8 0)[0 := ucast x];
          q = aes_ct64_ortho q;
          q = aes_ct64_bitslice_Sbox q;
          q = aes_ct64_ortho q
      in ucast (q ! 0))"

text \<open>One turn of the loop over \<open>i\<close>; \<open>i\<close> is the length of the schedule so far.\<close>

definition keysched_step :: "nat \<Rightarrow> u32 list \<times> u32 \<times> nat \<times> nat \<Rightarrow> u32 list \<times> u32 \<times> nat \<times> nat" where
  "keysched_step nk = (\<lambda>(skey, tmp, j, k).
     let tmp = (if j = 0 then sub_word (push_bit 24 tmp OR drop_bit 8 tmp) XOR Rcon ! k
                else if 6 < nk \<and> j = 4 then sub_word tmp
                else tmp);
         tmp = tmp XOR skey ! (length skey - nk);
         skey = skey @ [tmp]
     in if j + 1 = nk then (skey, tmp, 0, k + 1) else (skey, tmp, j + 1, k))"

definition compress_skey :: "u32 list \<Rightarrow> u64 list" where
  "compress_skey w =
     (let (q0, q4) = aes_ct64_interleave_in w;
          q = aes_ct64_ortho [q0, q0, q0, q0, q4, q4, q4, q4]
      in [(q ! 0 AND 0x1111111111111111) OR (q ! 1 AND 0x2222222222222222)
            OR (q ! 2 AND 0x4444444444444444) OR (q ! 3 AND 0x8888888888888888),
          (q ! 4 AND 0x1111111111111111) OR (q ! 5 AND 0x2222222222222222)
            OR (q ! 6 AND 0x4444444444444444) OR (q ! 7 AND 0x8888888888888888)])"

text \<open>The compressed schedule and the number of rounds, 0 for a length that is not a key length.\<close>

definition aes_ct64_keysched :: "bytes \<Rightarrow> nat \<Rightarrow> u64 list \<times> nat" where
  "aes_ct64_keysched key key_len =
     (let num_rounds = (if key_len = 16 then 10 else if key_len = 24 then 12
                        else if key_len = 32 then 14 else 0)
      in if num_rounds = 0 then ([], 0)
         else let nk = key_len div 4;
                  nkf = (num_rounds + 1) * 4;
                  skey = range_dec32le nk key;
                  (skey, tmp, j, k) =
                    fold (\<lambda>i. keysched_step nk) [nk..<nkf] (skey, skey ! (nk - 1), 0, 0)
              in (concat (map (\<lambda>i. compress_skey (read_at skey (4 * i) 4)) [0..<num_rounds + 1]),
                  num_rounds))"

definition expand_word :: "u64 \<Rightarrow> u64 list" where
  "expand_word w =
     (let x0 = w AND 0x1111111111111111;
          x1 = drop_bit 1 (w AND 0x2222222222222222);
          x2 = drop_bit 2 (w AND 0x4444444444444444);
          x3 = drop_bit 3 (w AND 0x8888888888888888)
      in [push_bit 4 x0 - x0, push_bit 4 x1 - x1, push_bit 4 x2 - x2, push_bit 4 x3 - x3])"

definition aes_ct64_skey_expand :: "nat \<Rightarrow> u64 list \<Rightarrow> u64 list" where
  "aes_ct64_skey_expand num_rounds comp_skey =
     concat (map (\<lambda>u. expand_word (comp_skey ! u)) [0..<(num_rounds + 1) * 2])"

section \<open>The CBC loops\<close>

record aes_cbc_keys =
  ak_skey :: "u64 list"
  ak_num_rounds :: nat

definition aes_ct64_cbcenc_init :: "bytes \<Rightarrow> nat \<Rightarrow> aes_cbc_keys" where
  "aes_ct64_cbcenc_init key len =
     (let (skey, num_rounds) = aes_ct64_keysched key len
      in \<lparr>ak_skey = skey, ak_num_rounds = num_rounds\<rparr>)"

definition aes_ct64_cbcdec_init :: "bytes \<Rightarrow> nat \<Rightarrow> aes_cbc_keys" where
  "aes_ct64_cbcdec_init key len =
     (let (skey, num_rounds) = aes_ct64_keysched key len
      in \<lparr>ak_skey = skey, ak_num_rounds = num_rounds\<rparr>)"

text \<open>One turn of the loop of \<open>br_aes_ct64_cbcenc_run\<close> on the words \<open>w\<close>, already chained.\<close>

definition cbcenc_block :: "nat \<Rightarrow> u64 list \<Rightarrow> u64 list \<Rightarrow> u32 list \<Rightarrow> u32 list" where
  "cbcenc_block num_rounds sk_exp undef w =
     (let (q0, q4) = aes_ct64_interleave_in w;
          q = undef[0 := q0, 4 := q4];
          q = aes_ct64_ortho q;
          q = aes_ct64_bitslice_encrypt num_rounds sk_exp q;
          q = aes_ct64_ortho q
      in aes_ct64_interleave_out (q ! 0) (q ! 4))"

function cbcenc_loop ::
    "nat \<Rightarrow> u64 list \<Rightarrow> (nat \<Rightarrow> nat \<Rightarrow> u64) \<Rightarrow> u32 list \<Rightarrow> bytes \<Rightarrow> u32 list \<times> bytes" where
  "cbcenc_loop num_rounds sk_exp undef ivw buf =
     (if buf = [] then (ivw, [])
      else let w = map2 (XOR) ivw (range_dec32le 4 buf);
               w = cbcenc_block num_rounds sk_exp (map (undef (length buf)) [0..<8]) w;
               (ivw, rest) = cbcenc_loop num_rounds sk_exp undef w (drop 16 buf)
           in (ivw, range_enc32le w @ rest))"
  by auto
termination by (relation "measure (\<lambda>(nr, sk, un, ivw, buf). length buf)") auto

definition aes_ct64_cbcenc_run ::
    "aes_cbc_keys \<Rightarrow> (nat \<Rightarrow> nat \<Rightarrow> u64) \<Rightarrow> bytes \<Rightarrow> bytes \<Rightarrow> bytes \<times> bytes" where
  "aes_ct64_cbcenc_run ctx undef iv data =
     (let sk_exp = aes_ct64_skey_expand (ak_num_rounds ctx) (ak_skey ctx);
          ivw = range_dec32le 4 iv;
          (ivw, data) = cbcenc_loop (ak_num_rounds ctx) sk_exp undef ivw data
      in (range_enc32le ivw, data))"

text \<open>Four blocks through the decryption, the words \<open>w1\<close> in and \<open>w2\<close> out.\<close>

definition cbcdec_blocks :: "nat \<Rightarrow> u64 list \<Rightarrow> u32 list \<Rightarrow> u32 list" where
  "cbcdec_blocks num_rounds sk_exp w1 =
     (let slots = map (\<lambda>i. aes_ct64_interleave_in (read_at w1 (4 * i) 4)) [0..<4];
          q = map fst slots @ map snd slots;
          q = aes_ct64_ortho q;
          q = aes_ct64_bitslice_decrypt num_rounds sk_exp q;
          q = aes_ct64_ortho q
      in concat (map (\<lambda>i. aes_ct64_interleave_out (q ! i) (q ! (i + 4))) [0..<4]))"

text \<open>\<open>undef len i\<close> is what the word \<open>w1[i]\<close> contains where it is not loaded.\<close>

function cbcdec_loop ::
    "nat \<Rightarrow> u64 list \<Rightarrow> (nat \<Rightarrow> nat \<Rightarrow> u32) \<Rightarrow> u32 list \<Rightarrow> bytes \<Rightarrow> u32 list \<times> bytes" where
  "cbcdec_loop num_rounds sk_exp undef ivw buf =
     (if buf = [] then (ivw, [])
      else let len = length buf;
               j = (if 64 \<le> len then 16 else len div 4);
               w1 = range_dec32le j buf @ map (undef len) [j..<16];
               w2 = cbcdec_blocks num_rounds sk_exp w1;
               w2 = map2 (XOR) (take j w2) (ivw @ w1)
           in if 64 \<le> len then
                let (ivw, rest) =
                      cbcdec_loop num_rounds sk_exp undef (read_at w1 12 4) (drop 64 buf)
                in (ivw, range_enc32le w2 @ rest)
              else (read_at w1 (j - 4) 4, range_enc32le w2))"
  by auto
termination by (relation "measure (\<lambda>(nr, sk, un, ivw, buf). length buf)") auto

definition aes_ct64_cbcdec_run ::
    "aes_cbc_keys \<Rightarrow> (nat \<Rightarrow> nat \<Rightarrow> u32) \<Rightarrow> bytes \<Rightarrow> bytes \<Rightarrow> bytes \<times> bytes" where
  "aes_ct64_cbcdec_run ctx undef iv data =
     (let sk_exp = aes_ct64_skey_expand (ak_num_rounds ctx) (ak_skey ctx);
          ivw = range_dec32le 4 iv;
          (ivw, data) = cbcdec_loop (ak_num_rounds ctx) sk_exp undef ivw data
      in (range_enc32le ivw, data))"

declare cbcenc_loop.simps [simp del] cbcdec_loop.simps [simp del]


section \<open>The expanded keys are the same in the four lanes\<close>

lemma length_expand_word [simp]: "length (expand_word w) = 4"
  by (simp add: expand_word_def Let_def)

lemma length_skey_expand [simp]: "length (aes_ct64_skey_expand nr sk) = 8 * (nr + 1)"
  by (simp add: aes_ct64_skey_expand_def length_concat o_def sum_list_triv)

text \<open>Only every fourth bit is set; the subtraction copies it into the three bits above it.\<close>

definition sparse :: "u64 \<Rightarrow> bool" where
  "sparse x \<longleftrightarrow> (\<forall>n. bit x n \<longrightarrow> n mod 4 = 0)"

lemma sparse_shift:
  assumes "sparse x" "i < 4" "bit (push_bit i x) n"
  shows "n mod 4 = i"
proof -
  have "i \<le> n" "bit x (n - i)" using assms(3) by (auto simp: bit_simps)
  then have "(n - i) mod 4 = 0" using assms(1) by (auto simp: sparse_def)
  with \<open>i \<le> n\<close> assms(2) show ?thesis by (metis add.left_neutral le_add_diff_inverse2 mod_add_left_eq mod_less)
qed

lemma shift_minus_spread:
  assumes "sparse x"
  shows "push_bit 4 x - x = x OR push_bit 1 x OR push_bit 2 x OR push_bit 3 x"
proof -
  have s: "bit x n \<Longrightarrow> n mod 4 = 0" for n using assms by (simp add: sparse_def)
  note d = sparse_shift [OF assms, of 1] sparse_shift [OF assms, of 2] sparse_shift [OF assms, of 3] s
  have 1: "push_bit 2 x + push_bit 3 x = push_bit 2 x OR push_bit 3 x"
    by (rule disjunctive_add) (use d in fastforce)
  have 2: "push_bit 1 x + (push_bit 2 x OR push_bit 3 x) = push_bit 1 x OR (push_bit 2 x OR push_bit 3 x)"
    by (rule disjunctive_add) (use d in \<open>fastforce simp: bit_or_iff\<close>)
  have 3: "x + (push_bit 1 x OR push_bit 2 x OR push_bit 3 x) = x OR push_bit 1 x OR push_bit 2 x OR push_bit 3 x"
    by (rule disjunctive_add) (use d in \<open>fastforce simp: bit_or_iff\<close>)
  have "push_bit 4 x - x = x + (push_bit 1 x + (push_bit 2 x + push_bit 3 x))"
    by (simp add: push_bit_eq_mult)
  then show ?thesis by (simp only: 1 2 3)
qed

lemma lanes_alike_spread:
  assumes "sparse x"
  shows "lanes_alike (push_bit 4 x - x)"
proof -
  have e: "bit (push_bit 4 x - x) (n + a) = bit x n" if n: "n < 64" "n mod 4 = 0" and a: "a < 4" for n a
  proof -
    have m: "(n + a) mod 4 = a" using n(2) a by (metis add.left_neutral mod_add_left_eq mod_less)
    have b: "bit (push_bit i x) (n + a) \<longleftrightarrow> i = a \<and> bit x n" if "i < 4" for i
    proof (cases "i = a")
      case True
      then show ?thesis using lane_bound [OF n(2,1) a] by (simp add: bit_push_bit_iff)
    next
      case False
      then show ?thesis using sparse_shift [OF assms that, of "n + a"] m by auto
    qed
    show ?thesis
      using b [of 0] b [of 1] b [of 2] b [of 3] a
      unfolding shift_minus_spread [OF assms] by (auto simp: bit_or_iff)
  qed
  show ?thesis by (simp add: lanes_alike_def lane_eq_def e)
qed

lemma bit_lane_masks:
  assumes "n < 64"
  shows "bit (0x1111111111111111 :: u64) n \<longleftrightarrow> n mod 4 = 0"
    "bit (0x2222222222222222 :: u64) n \<longleftrightarrow> n mod 4 = 1"
    "bit (0x4444444444444444 :: u64) n \<longleftrightarrow> n mod 4 = 2"
    "bit (0x8888888888888888 :: u64) n \<longleftrightarrow> n mod 4 = 3"
proof -
  have "list_all (\<lambda>n. bit (0x1111111111111111 :: u64) n \<longleftrightarrow> n mod 4 = 0) [0 ..< 64]"
    "list_all (\<lambda>n. bit (0x2222222222222222 :: u64) n \<longleftrightarrow> n mod 4 = 1) [0 ..< 64]"
    "list_all (\<lambda>n. bit (0x4444444444444444 :: u64) n \<longleftrightarrow> n mod 4 = 2) [0 ..< 64]"
    "list_all (\<lambda>n. bit (0x8888888888888888 :: u64) n \<longleftrightarrow> n mod 4 = 3) [0 ..< 64]"
    unfolding upt_64 list.pred_inject by (intro conjI; simp)+
  from this [THEN less_64, OF assms] show
    "bit (0x1111111111111111 :: u64) n \<longleftrightarrow> n mod 4 = 0"
    "bit (0x2222222222222222 :: u64) n \<longleftrightarrow> n mod 4 = 1"
    "bit (0x4444444444444444 :: u64) n \<longleftrightarrow> n mod 4 = 2"
    "bit (0x8888888888888888 :: u64) n \<longleftrightarrow> n mod 4 = 3" .
qed

lemma sparse_drop_mask:
  assumes "\<And>n. n < 64 \<Longrightarrow> bit (M :: u64) n \<longleftrightarrow> n mod 4 = i" "i < 4"
  shows "sparse (drop_bit i (w AND M))"
  unfolding sparse_def
proof (intro allI impI)
  fix n assume "bit (drop_bit i (w AND M)) n"
  then have "bit M (i + n)" by (simp add: bit_drop_bit_eq bit_and_iff)
  then have "(i + n) mod 4 = i" using assms(1) bit_u64_high by (metis not_le)
  moreover have "i mod 4 = i" using assms(2) by simp
  ultimately show "n mod 4 = 0" by presburger
qed

lemma lanes_alike_expand:
  assumes "k \<in> set (expand_word w)"
  shows "lanes_alike k"
proof -
  have s: "sparse (w AND 0x1111111111111111)"
    using sparse_drop_mask [OF bit_lane_masks(1), of w] by (simp only: drop_bit_0 id_apply)
  note sparse = this sparse_drop_mask [OF bit_lane_masks(2), of w]
    sparse_drop_mask [OF bit_lane_masks(3), of w] sparse_drop_mask [OF bit_lane_masks(4), of w]
  from assms show ?thesis
    unfolding expand_word_def Let_def list.set
    by (elim insertE emptyE) (simp only:; rule lanes_alike_spread, rule sparse; simp)+
qed

lemma lanes_alike_skey_expand: "k \<in> set (aes_ct64_skey_expand nr sk) \<Longrightarrow> lanes_alike k"
  by (auto simp: aes_ct64_skey_expand_def intro: lanes_alike_expand)

section \<open>One block in any slot\<close>

lemma length_decrypt_rounds:
  "length q = 8 \<Longrightarrow> length (fold (decrypt_round skey) us q) = 8"
  by (induction us arbitrary: q) (simp_all add: decrypt_round_def)

lemma lanes_eq_encrypt:
  assumes lanes: "lanes_eq a b p q" "a < 4" "b < 4" "length p = 8"
    and sk: "\<And>k. k \<in> set skey \<Longrightarrow> lanes_alike k" "8 * (num_rounds + 1) \<le> length skey"
  shows "lanes_eq a b (aes_ct64_bitslice_encrypt num_rounds skey p)
    (aes_ct64_bitslice_encrypt num_rounds skey q)"
    and "lanes_eq a b (aes_ct64_bitslice_decrypt num_rounds skey p)
    (aes_ct64_bitslice_decrypt num_rounds skey q)"
proof -
  have k: "lanes_eq a b (add_round_key p (round_key skey u)) (add_round_key q (round_key skey u))"
    if "lanes_eq a b p q" for p q u
    using that lanes(2,3) by (rule lanes_eq_add_round_key) (auto simp: round_key_def sk dest: in_set_dropD)
  note steps = lanes_eq_Sbox lanes_eq_shift_rows lanes_eq_mix_columns k lanes(2,3)
  have e: "lanes_eq a b (fold (encrypt_round skey) us p) (fold (encrypt_round skey) us q)"
    if "lanes_eq a b p q" "length p = 8" "\<And>u. u \<in> set us \<Longrightarrow> 8 * (u + 1) \<le> length skey" for us p q
    using that
  proof (induction us arbitrary: p q)
    case (Cons u us)
    have "lanes_eq a b (encrypt_round skey u p) (encrypt_round skey u q)"
      unfolding encrypt_round_def by (intro steps Cons.prems) simp_all
    then show ?case using Cons by simp
  qed simp
  have d: "lanes_eq a b (fold (decrypt_round skey) us p) (fold (decrypt_round skey) us q)"
    if "lanes_eq a b p q" "length p = 8" "\<And>u. u \<in> set us \<Longrightarrow> 8 * (u + 1) \<le> length skey" for us p q
    using that
  proof (induction us arbitrary: p q)
    case (Cons u us)
    have "lanes_eq a b (decrypt_round skey u p) (decrypt_round skey u q)"
      unfolding decrypt_round_def
      by (intro steps Cons.prems) (use Cons.prems in \<open>simp_all add: length_round_key\<close>)
    then show ?case using Cons by simp
  qed simp
  have r: "8 * (u + 1) \<le> length skey" if "u \<in> set [1..<num_rounds]" for u using that sk(2) by auto
  have l: "length (add_round_key p (round_key skey u)) = 8" if "u \<le> num_rounds" for u
    using that sk(2) lanes(4) by (intro length_steps length_round_key) auto
  show "lanes_eq a b (aes_ct64_bitslice_encrypt num_rounds skey p)
    (aes_ct64_bitslice_encrypt num_rounds skey q)"
    unfolding aes_ct64_bitslice_encrypt_def Let_def
    by (intro steps e lanes r l length_encrypt_rounds) simp_all
  show "lanes_eq a b (aes_ct64_bitslice_decrypt num_rounds skey p)
    (aes_ct64_bitslice_decrypt num_rounds skey q)"
    unfolding aes_ct64_bitslice_decrypt_def Let_def
    by (intro steps d lanes l) (use r in \<open>auto simp: length_decrypt_rounds l\<close>)
qed


text \<open>
  In front of the transposition a block slot is a pair of registers, behind it a lane:
  slot \<open>a\<close> holds in \<open>p\<close> what slot \<open>b\<close> holds in \<open>q\<close> if and only if the lanes do.
\<close>

definition slot_eq :: "nat \<Rightarrow> nat \<Rightarrow> u64 list \<Rightarrow> u64 list \<Rightarrow> bool" where
  "slot_eq a b p q \<longleftrightarrow> p ! a = q ! b \<and> p ! (a + 4) = q ! (b + 4)"

lemma bit_pos_lane: "bit_pos c j mod 4 = 0 \<longleftrightarrow> j mod 4 = 0"
  by (simp add: bit_pos_mod)

lemma u64_eq_bits: "x = (y :: u64) \<longleftrightarrow> (\<forall>c < 8. \<forall>i < 8. bit x (bit_pos c i) = bit y (bit_pos c i))"
  by (auto intro!: bit_word_eqI dest!: less_64_bit_pos)

lemma lane_positions:
  "n < 64 \<and> n mod 4 = 0 \<longleftrightarrow> (\<exists>c < 8. n = bit_pos c 0 \<or> n = bit_pos c 4)"
proof
  assume n: "n < 64 \<and> n mod 4 = 0"
  then obtain c j where "c < 8" "j < 8" "n = bit_pos c j" using less_64_bit_pos by blast
  moreover with n have "j mod 4 = 0" by (simp add: bit_pos_mod)
  ultimately have "j = 0 \<or> j = 4" by (auto simp: mod_if split: if_splits)
  with \<open>c < 8\<close> \<open>n = bit_pos c j\<close> show "\<exists>c < 8. n = bit_pos c 0 \<or> n = bit_pos c 4" by blast
next
  assume "\<exists>c < 8. n = bit_pos c 0 \<or> n = bit_pos c 4"
  then show "n < 64 \<and> n mod 4 = 0" by (auto simp: bit_pos_mod bit_pos_less)
qed

lemma all_lane_positions:
  "(\<forall>n < 64. n mod 4 = 0 \<longrightarrow> P n) \<longleftrightarrow> (\<forall>c < 8. P (bit_pos c 0) \<and> P (bit_pos c 4))"
proof -
  have "(\<forall>n < 64. n mod 4 = 0 \<longrightarrow> P n) \<longleftrightarrow> (\<forall>n. n < 64 \<and> n mod 4 = 0 \<longrightarrow> P n)"
    by (simp only: imp_conjL)
  also have "\<dots> \<longleftrightarrow> (\<forall>c < 8. P (bit_pos c 0) \<and> P (bit_pos c 4))"
    unfolding lane_positions by auto
  finally show ?thesis .
qed

lemma lanes_eq_ortho:
  assumes "length p = 8" "length q = 8" "a < 4" "b < 4"
  shows "lanes_eq a b (aes_ct64_ortho p) (aes_ct64_ortho q) \<longleftrightarrow> slot_eq a b p q"
proof -
  have "lanes_eq a b (aes_ct64_ortho p) (aes_ct64_ortho q) \<longleftrightarrow>
      (\<forall>i < 8. \<forall>c < 8. bit (aes_ct64_ortho p ! i) (bit_pos c 0 + a) = bit (aes_ct64_ortho q ! i) (bit_pos c 0 + b)
         \<and> bit (aes_ct64_ortho p ! i) (bit_pos c 4 + a) = bit (aes_ct64_ortho q ! i) (bit_pos c 4 + b))"
    using assms(1,2) by (simp only: list_all2_conv_all_nth lane_eq_def all_lane_positions) simp
  also have "\<dots> \<longleftrightarrow> (\<forall>i < 8. \<forall>c < 8. bit (p ! a) (bit_pos c i) = bit (q ! b) (bit_pos c i)
         \<and> bit (p ! (a + 4)) (bit_pos c i) = bit (q ! (b + 4)) (bit_pos c i))"
    using assms by (simp add: bit_pos_add bit_ortho add.commute [of 4])
  also have "\<dots> \<longleftrightarrow> slot_eq a b p q"
    unfolding slot_eq_def u64_eq_bits by blast
  finally show ?thesis .
qed

text \<open>The block cipher: one block in slot 0, the other slots empty.\<close>

definition slot0 :: "u32 list \<Rightarrow> u64 list" where
  "slot0 w = (let (q0, q4) = aes_ct64_interleave_in w in [q0, 0, 0, 0, q4, 0, 0, 0])"

definition read_slot :: "nat \<Rightarrow> u64 list \<Rightarrow> u32 list" where
  "read_slot a q = aes_ct64_interleave_out (q ! a) (q ! (a + 4))"

definition aes_encrypt_block :: "nat \<Rightarrow> u64 list \<Rightarrow> u32 list \<Rightarrow> u32 list" where
  "aes_encrypt_block num_rounds skey w =
     read_slot 0 (aes_ct64_ortho
       (aes_ct64_bitslice_encrypt num_rounds skey (aes_ct64_ortho (slot0 w))))"

definition aes_decrypt_block :: "nat \<Rightarrow> u64 list \<Rightarrow> u32 list \<Rightarrow> u32 list" where
  "aes_decrypt_block num_rounds skey w =
     read_slot 0 (aes_ct64_ortho
       (aes_ct64_bitslice_decrypt num_rounds skey (aes_ct64_ortho (slot0 w))))"

lemma length_slot0 [simp]: "length (slot0 w) = 8"
  by (simp add: slot0_def split: prod.split)

lemma read_slot0: "length w = 4 \<Longrightarrow> read_slot 0 (slot0 w) = w"
  using interleave_out_in [of w] by (auto simp: read_slot_def slot0_def split: prod.splits)

lemma slot0_read_slot: "slot_eq 0 a (slot0 (read_slot a q)) q"
  by (simp add: slot_eq_def slot0_def read_slot_def interleave_in_out)

lemma read_slot_eq: "slot_eq a b p q \<Longrightarrow> read_slot a p = read_slot b q"
  by (simp add: slot_eq_def read_slot_def)

lemma length_blocks [simp]:
  "length (read_slot a q) = 4" "length (aes_encrypt_block nr sk w) = 4"
  "length (aes_decrypt_block nr sk w) = 4"
  by (simp_all add: read_slot_def aes_encrypt_block_def aes_decrypt_block_def)

lemma length_bitslice_decrypt:
  "8 * (num_rounds + 1) \<le> length skey \<Longrightarrow> length (aes_ct64_bitslice_decrypt num_rounds skey q) = 8"
  by (simp add: aes_ct64_bitslice_decrypt_def Let_def length_round_key)


lemma encrypt_slot:
  assumes "\<And>k. k \<in> set sk \<Longrightarrow> lanes_alike k" "8 * (nr + 1) \<le> length sk"
    and "length q = 8" "a < 4" "slot_eq a 0 q (slot0 w)"
  shows "read_slot a (aes_ct64_ortho (aes_ct64_bitslice_encrypt nr sk (aes_ct64_ortho q))) =
    aes_encrypt_block nr sk w"
proof -
  have "lanes_eq a 0 (aes_ct64_ortho q) (aes_ct64_ortho (slot0 w))"
    using assms by (simp add: lanes_eq_ortho)
  then have "lanes_eq a 0 (aes_ct64_bitslice_encrypt nr sk (aes_ct64_ortho q))
      (aes_ct64_bitslice_encrypt nr sk (aes_ct64_ortho (slot0 w)))"
    using assms by (intro lanes_eq_encrypt) simp_all
  then have "lanes_eq a 0
      (aes_ct64_ortho (aes_ct64_ortho (aes_ct64_bitslice_encrypt nr sk (aes_ct64_ortho q))))
      (aes_ct64_ortho (aes_ct64_ortho (aes_ct64_bitslice_encrypt nr sk (aes_ct64_ortho (slot0 w)))))"
    using assms by (simp add: ortho_ortho)
  then show ?thesis
    using assms unfolding aes_encrypt_block_def
    by (intro read_slot_eq) (simp add: lanes_eq_ortho)
qed

lemma decrypt_slot:
  assumes "\<And>k. k \<in> set sk \<Longrightarrow> lanes_alike k" "8 * (nr + 1) \<le> length sk"
    and "length q = 8" "a < 4" "slot_eq a 0 q (slot0 w)"
  shows "read_slot a (aes_ct64_ortho (aes_ct64_bitslice_decrypt nr sk (aes_ct64_ortho q))) =
    aes_decrypt_block nr sk w"
proof -
  have "lanes_eq a 0 (aes_ct64_ortho q) (aes_ct64_ortho (slot0 w))"
    using assms by (simp add: lanes_eq_ortho)
  then have "lanes_eq a 0 (aes_ct64_bitslice_decrypt nr sk (aes_ct64_ortho q))
      (aes_ct64_bitslice_decrypt nr sk (aes_ct64_ortho (slot0 w)))"
    using assms by (intro lanes_eq_encrypt) simp_all
  then have "lanes_eq a 0
      (aes_ct64_ortho (aes_ct64_ortho (aes_ct64_bitslice_decrypt nr sk (aes_ct64_ortho q))))
      (aes_ct64_ortho (aes_ct64_ortho (aes_ct64_bitslice_decrypt nr sk (aes_ct64_ortho (slot0 w)))))"
    using assms by (simp add: ortho_ortho length_bitslice_decrypt)
  then show ?thesis
    using assms unfolding aes_decrypt_block_def
    by (intro read_slot_eq) (simp add: lanes_eq_ortho length_bitslice_decrypt)
qed

text \<open>Decryption undoes encryption, block by block.\<close>

lemma aes_decrypt_encrypt_block:
  assumes sk: "\<And>k. k \<in> set sk \<Longrightarrow> lanes_alike k" "8 * (nr + 1) \<le> length sk" and w: "length w = 4"
  shows "aes_decrypt_block nr sk (aes_encrypt_block nr sk w) = w"
proof -
  let ?x = "aes_ct64_bitslice_encrypt nr sk (aes_ct64_ortho (slot0 w))"
  have "slot_eq 0 0 (aes_ct64_ortho ?x) (slot0 (aes_encrypt_block nr sk w))"
    using slot0_read_slot [of 0 "aes_ct64_ortho ?x"]
    by (simp add: aes_encrypt_block_def slot_eq_def)
  then have "aes_decrypt_block nr sk (aes_encrypt_block nr sk w) =
      read_slot 0 (aes_ct64_ortho (aes_ct64_bitslice_decrypt nr sk (aes_ct64_ortho (aes_ct64_ortho ?x))))"
    using sk by (intro decrypt_slot [symmetric]) simp_all
  also have "\<dots> = read_slot 0 (slot0 w)"
    using sk(2) by (simp add: ortho_ortho bitslice_decrypt_encrypt)
  finally show ?thesis using w by (simp add: read_slot0)
qed

section \<open>The loops are CBC\<close>

text \<open>Textbook chaining on words.\<close>

fun cbc_encrypt :: "(u32 list \<Rightarrow> u32 list) \<Rightarrow> u32 list \<Rightarrow> u32 list list \<Rightarrow> u32 list list" where
  "cbc_encrypt E iv [] = []"
| "cbc_encrypt E iv (b # bs) = (let c = E (map2 (XOR) iv b) in c # cbc_encrypt E c bs)"

fun cbc_decrypt :: "(u32 list \<Rightarrow> u32 list) \<Rightarrow> u32 list \<Rightarrow> u32 list list \<Rightarrow> u32 list list" where
  "cbc_decrypt D iv [] = []"
| "cbc_decrypt D iv (c # cs) = map2 (XOR) (D c) iv # cbc_decrypt D c cs"

lemma xor_cancel_list: "length a = length b \<Longrightarrow> map2 (XOR) (map2 (XOR) a b) a = (b :: u32 list)"
  by (rule nth_equalityI) (auto simp: xor.assoc xor.left_commute xor.commute)

lemma cbc_decrypt_encrypt:
  assumes "\<And>w. length w = 4 \<Longrightarrow> D (E w) = w" "\<And>w. length (E w) = 4"
    and "length iv = 4" "\<And>b. b \<in> set bs \<Longrightarrow> length b = 4"
  shows "cbc_decrypt D iv (cbc_encrypt E iv bs) = bs"
  using assms(3,4)
  by (induction bs arbitrary: iv) (simp_all add: Let_def assms(1,2) xor_cancel_list)

text \<open>The data as blocks of four words.\<close>

function blocks_of :: "bytes \<Rightarrow> u32 list list" where
  "blocks_of bs = (if bs = [] then [] else range_dec32le 4 bs # blocks_of (drop 16 bs))"
  by auto
termination by (relation "measure length") auto

declare blocks_of.simps [simp del]

definition bytes_of_blocks :: "u32 list list \<Rightarrow> bytes" where
  "bytes_of_blocks bs = concat (map range_enc32le bs)"

lemma cbcenc_block_eq:
  assumes "\<And>k. k \<in> set sk \<Longrightarrow> lanes_alike k" "8 * (nr + 1) \<le> length sk" "length undef = 8"
  shows "cbcenc_block nr sk undef w = aes_encrypt_block nr sk w"
proof -
  obtain q0 q4 where q: "aes_ct64_interleave_in w = (q0, q4)" by force
  have "slot_eq 0 0 (undef[0 := q0, 4 := q4]) (slot0 w)"
    using assms(3) by (simp add: slot_eq_def slot0_def q)
  then show ?thesis
    using encrypt_slot [OF assms(1,2), of "undef[0 := q0, 4 := q4]" 0 w] assms(3)
    by (simp add: cbcenc_block_def q read_slot_def)
qed

lemma cbcenc_loop_eq:
  assumes sk: "\<And>k. k \<in> set sk \<Longrightarrow> lanes_alike k" "8 * (nr + 1) \<le> length sk"
  shows "snd (cbcenc_loop nr sk undef iv buf) =
    bytes_of_blocks (cbc_encrypt (aes_encrypt_block nr sk) iv (blocks_of buf))"
proof (induction buf arbitrary: iv rule: length_induct)
  case (1 buf)
  show ?case
  proof (cases "buf = []")
    case True
    then show ?thesis by (simp add: cbcenc_loop.simps blocks_of.simps bytes_of_blocks_def)
  next
    case False
    then have "length (drop 16 buf) < length buf" by simp
    with 1 have IH: "snd (cbcenc_loop nr sk undef w (drop 16 buf)) =
        bytes_of_blocks (cbc_encrypt (aes_encrypt_block nr sk) w (blocks_of (drop 16 buf)))" for w
      by blast
    show ?thesis
      using False IH
      by (subst cbcenc_loop.simps, subst blocks_of.simps)
         (simp add: cbcenc_block_eq [OF sk] Let_def bytes_of_blocks_def case_prod_unfold)
  qed
qed


lemma cbcdec_blocks_eq:
  assumes sk: "\<And>k. k \<in> set sk \<Longrightarrow> lanes_alike k" "8 * (nr + 1) \<le> length sk"
    and b: "length b0 = 4" "length b1 = 4" "length b2 = 4" "length b3 = 4"
  shows "cbcdec_blocks nr sk (b0 @ b1 @ b2 @ b3) =
    aes_decrypt_block nr sk b0 @ aes_decrypt_block nr sk b1 @
    aes_decrypt_block nr sk b2 @ aes_decrypt_block nr sk b3"
proof -
  let ?i = aes_ct64_interleave_in
  let ?q = "map fst [?i b0, ?i b1, ?i b2, ?i b3] @ map snd [?i b0, ?i b1, ?i b2, ?i b3]"
  have upt: "[0..<4] = [0, 1, 2, 3 :: nat]" by (simp add: upt_rec)
  have r: "read_at (b0 @ b1 @ b2 @ b3) 0 4 = b0" "read_at (b0 @ b1 @ b2 @ b3) 4 4 = b1"
    "read_at (b0 @ b1 @ b2 @ b3) 8 4 = b2" "read_at (b0 @ b1 @ b2 @ b3) 12 4 = b3"
    using b by (simp_all add: read_at_def)
  have s: "slot_eq 0 0 ?q (slot0 b0)" "slot_eq 1 0 ?q (slot0 b1)" "slot_eq 2 0 ?q (slot0 b2)"
    "slot_eq 3 0 ?q (slot0 b3)"
    by (simp_all add: slot_eq_def slot0_def case_prod_unfold Let_def eval_nat_numeral)
  have d: "read_slot a (aes_ct64_ortho (aes_ct64_bitslice_decrypt nr sk (aes_ct64_ortho ?q))) =
      aes_decrypt_block nr sk w" if "slot_eq a 0 ?q (slot0 w)" "a < 4" for a w
    using sk that by (intro decrypt_slot) simp_all
  show ?thesis
    using s [THEN d] unfolding cbcdec_blocks_def Let_def upt read_slot_def
    by (simp add: r)
qed

lemma range_dec_split:
  "4 * m \<le> length bs \<Longrightarrow>
   range_dec32le (m + n) bs = range_dec32le m bs @ range_dec32le n (drop (4 * m) bs)"
proof (induction m arbitrary: bs)
  case (Suc m)
  then obtain a b c d bs' where "bs = a # b # c # d # bs'"
    by (auto simp: eval_nat_numeral Suc_le_length_iff)
  with Suc show ?case by (simp add: eval_nat_numeral)
qed simp

lemma map2_append:
  "length a = length b \<Longrightarrow> map2 f (a @ as) (b @ bs) = map2 f a b @ map2 f as bs"
  by simp


lemma blocks_of_Cons: "bs \<noteq> [] \<Longrightarrow> blocks_of bs = range_dec32le 4 bs # blocks_of (drop 16 bs)"
  by (simp add: blocks_of.simps)

lemma blocks_of_Nil [simp]: "blocks_of [] = []"
  by (simp add: blocks_of.simps)

lemma cbc_decrypt_append:
  "cbc_decrypt D iv (bs @ cs) = cbc_decrypt D iv bs @ cbc_decrypt D (last (iv # bs)) cs"
  by (induction bs arbitrary: iv) simp_all

lemma range_enc_append: "range_enc32le (v @ w) = range_enc32le v @ range_enc32le w"
  by (simp add: range_enc32le_def)

lemma bytes_of_blocks_append: "bytes_of_blocks (as @ bs) = bytes_of_blocks as @ bytes_of_blocks bs"
  by (simp add: bytes_of_blocks_def)

text \<open>The words of one turn of the decryption loop as blocks.\<close>

lemma read_dec_block:
  assumes "i < k" "16 * k \<le> length buf"
  shows "read_at (range_dec32le (4 * k) buf @ xs) (4 * i) 4 = range_dec32le 4 (drop (16 * i) buf)"
proof -
  obtain r where k: "k = i + 1 + r" using assms(1) by (auto dest: less_imp_Suc_add)
  have "range_dec32le (4 * k) buf = range_dec32le (4 * i) buf
      @ range_dec32le 4 (drop (16 * i) buf) @ range_dec32le (4 * r) (drop (16 * i + 16) buf)"
    using range_dec_split [of "4 * i" buf "4 + 4 * r"] assms(2)
      range_dec_split [of 4 "drop (16 * i) buf" "4 * r"]
    by (simp add: k algebra_simps)
  moreover have "length (range_dec32le (4 * i) buf) = 4 * i"
    "length (range_dec32le 4 (drop (16 * i) buf)) = 4"
    using assms(2) k by simp_all
  ultimately show ?thesis by (simp add: read_at_def)
qed

lemma split_16: "length w = 16 \<Longrightarrow> w = read_at w 0 4 @ read_at w 4 4 @ read_at w 8 4 @ read_at w 12 4"
proof -
  assume "length w = 16"
  then have "w = read_at w 0 (4 + (4 + (4 + 4)))" by (simp add: read_at_def)
  then show ?thesis by (simp only: read_at_append) simp
qed

lemma map2_short: "length a = length b \<Longrightarrow> map2 f a (b @ c) = map2 f a b"
  by (simp add: zip_append2)

lemma chain4:
  assumes sk: "\<And>k. k \<in> set sk \<Longrightarrow> lanes_alike k" "8 * (nr + 1) \<le> length sk"
    and w: "length w = 16" "length iv = 4" and k: "1 \<le> k" "k \<le> 4"
  shows "range_enc32le (map2 (XOR) (take (4 * k) (cbcdec_blocks nr sk w)) (iv @ w)) =
    bytes_of_blocks (cbc_decrypt (aes_decrypt_block nr sk) iv
      (map (\<lambda>i. read_at w (4 * i) 4) [0..<k]))"
proof -
  let ?b = "\<lambda>i. read_at w (4 * i) 4" and ?D = "aes_decrypt_block nr sk"
  have l: "length (?b 0) = 4" "length (?b 1) = 4" "length (?b 2) = 4" "length (?b 3) = 4"
    using w by simp_all
  have s: "w = ?b 0 @ ?b 1 @ ?b 2 @ ?b 3" using split_16 [OF w(1)] by simp
  have d: "cbcdec_blocks nr sk w = ?D (?b 0) @ ?D (?b 1) @ ?D (?b 2) @ ?D (?b 3)"
    using cbcdec_blocks_eq [OF sk l] s by simp
  have x: "map2 (XOR) (take (4 * k) (cbcdec_blocks nr sk w)) (iv @ w) =
      map2 (XOR) (take (4 * k) (?D (?b 0) @ ?D (?b 1) @ ?D (?b 2) @ ?D (?b 3)))
        (iv @ ?b 0 @ ?b 1 @ ?b 2 @ ?b 3)"
    unfolding d s [symmetric] ..
  consider "k = 1" | "k = 2" | "k = 3" | "k = 4" using k by linarith
  then show ?thesis
    unfolding x
    by cases (use l w in \<open>simp_all add: bytes_of_blocks_def range_enc_append map2_short upt_rec\<close>)
qed

lemma blocks_of_split:
  "16 * k \<le> length buf \<Longrightarrow>
   blocks_of buf = map (\<lambda>i. range_dec32le 4 (drop (16 * i) buf)) [0..<k] @ blocks_of (drop (16 * k) buf)"
proof (induction k)
  case (Suc k)
  then have "drop (16 * k) buf \<noteq> []" by simp
  then have "blocks_of (drop (16 * k) buf) =
      range_dec32le 4 (drop (16 * k) buf) # blocks_of (drop (16 * Suc k) buf)"
    by (simp add: blocks_of_Cons add.commute)
  with Suc show ?case by simp
qed simp

text \<open>
  One turn of the loop on \<open>k\<close> blocks, the rest of the sixteen words undefined: what it writes is the
  decryption of these blocks.
\<close>

lemma cbcdec_turn:
  assumes sk: "\<And>k. k \<in> set sk \<Longrightarrow> lanes_alike k" "8 * (nr + 1) \<le> length sk"
    and iv: "length iv = 4" and k: "1 \<le> k" "k \<le> 4" "16 * k \<le> length buf"
    and w: "w = range_dec32le (4 * k) buf @ map u [4 * k..<16]"
  shows "range_enc32le (map2 (XOR) (take (4 * k) (cbcdec_blocks nr sk w)) (iv @ w)) =
    bytes_of_blocks (cbc_decrypt (aes_decrypt_block nr sk) iv (map (\<lambda>i. range_dec32le 4 (drop (16 * i) buf)) [0..<k]))"
proof -
  have "length w = 16" using k by (simp add: w)
  note c = chain4 [OF sk this iv k(1,2)]
  have "map (\<lambda>i. read_at w (4 * i) 4) [0..<k] = map (\<lambda>i. range_dec32le 4 (drop (16 * i) buf)) [0..<k]"
    using k(3) by (auto simp: w read_dec_block)
  then show ?thesis using c by (simp only:)
qed

lemma cbc_decrypt_split:
  assumes "64 \<le> length buf"
  shows "bytes_of_blocks (cbc_decrypt D iv (blocks_of buf)) =
    bytes_of_blocks (cbc_decrypt D iv (map (\<lambda>i. range_dec32le 4 (drop (16 * i) buf)) [0..<4])) @
    bytes_of_blocks (cbc_decrypt D (range_dec32le 4 (drop 48 buf)) (blocks_of (drop 64 buf)))"
proof -
  let ?w = "\<lambda>i. range_dec32le 4 (drop (16 * i) buf)"
  have "blocks_of buf = map ?w [0..<4] @ blocks_of (drop 64 buf)"
    using blocks_of_split [of 4 buf] assms by simp
  moreover have "last (iv # map ?w [0..<4]) = range_dec32le 4 (drop 48 buf)" by (simp add: upt_rec)
  ultimately show ?thesis by (simp only: cbc_decrypt_append bytes_of_blocks_append)
qed

lemma cbcdec_loop_eq:
  assumes sk: "\<And>k. k \<in> set sk \<Longrightarrow> lanes_alike k" "8 * (nr + 1) \<le> length sk"
  shows "16 dvd length buf \<Longrightarrow> length iv = 4 \<Longrightarrow> snd (cbcdec_loop nr sk undef iv buf) =
    bytes_of_blocks (cbc_decrypt (aes_decrypt_block nr sk) iv (blocks_of buf))"
proof (induction buf arbitrary: iv rule: length_induct)
  case (1 buf)
  let ?w = "\<lambda>k. range_dec32le (4 * k) buf @ map (undef (length buf)) [4 * k..<16]"
  obtain n where n: "length buf = 16 * n" using 1(2) by (rule dvdE)
  note turn = cbcdec_turn [OF sk 1(3) _ _ _ refl, of _ buf "undef (length buf)"]
  consider (none) "n = 0" | (last) "1 \<le> n" "n < 4" | (full) "64 \<le> length buf" using n by linarith
  then show ?case
  proof cases
    case none
    then show ?thesis using n by (simp add: cbcdec_loop.simps bytes_of_blocks_def)
  next
    case last
    have "blocks_of buf = map (\<lambda>i. range_dec32le 4 (drop (16 * i) buf)) [0..<n]"
      using blocks_of_split [of n buf] n by simp
    then show ?thesis
      using turn [of n] last n by (subst cbcdec_loop.simps) (auto simp: Let_def)
  next
    case full
    have r: "read_at (?w 4) 12 4 = range_dec32le 4 (drop 48 buf)" using read_dec_block [of 3 4 buf "[]"] full by simp
    have "16 dvd length (drop 64 buf)" "length (range_dec32le 4 (drop 48 buf)) = 4"
      using 1(2) full by (simp_all add: dvd_diff_nat)
    with 1(1) full have IH: "snd (cbcdec_loop nr sk undef (range_dec32le 4 (drop 48 buf)) (drop 64 buf)) =
        bytes_of_blocks (cbc_decrypt (aes_decrypt_block nr sk) (range_dec32le 4 (drop 48 buf)) (blocks_of (drop 64 buf)))"
      by simp
    show ?thesis
      unfolding cbc_decrypt_split [OF full]
      using turn [of 4] full IH r by (subst cbcdec_loop.simps) (auto simp: Let_def case_prod_unfold)
  qed
qed


lemma range_dec32le_take: "4 * n \<le> m \<Longrightarrow> range_dec32le n (take m bs) = range_dec32le n bs"
  by (induction n bs arbitrary: m rule: range_dec32le.induct) (auto simp: eval_nat_numeral take_Cons')

lemma blocks_of_bytes:
  "(\<And>b. b \<in> set bs \<Longrightarrow> length b = 4) \<Longrightarrow> blocks_of (bytes_of_blocks bs) = bs"
proof (induction bs)
  case (Cons b bs)
  then have b: "length (range_enc32le b) = 16" by simp
  then have "range_enc32le b \<noteq> []" by (metis list.size(3) zero_neq_numeral)
  then have "blocks_of (range_enc32le b @ bytes_of_blocks bs) =
      range_dec32le 4 (range_enc32le b @ bytes_of_blocks bs) # blocks_of (bytes_of_blocks bs)"
    using b by (subst blocks_of_Cons) auto
  then show ?case
    using Cons range_dec_enc [of b "bytes_of_blocks bs"] by (simp add: bytes_of_blocks_def)
qed (simp add: bytes_of_blocks_def)

lemma bytes_of_blocks_of: "16 dvd length bs \<Longrightarrow> bytes_of_blocks (blocks_of bs) = bs"
proof (induction bs rule: length_induct)
  case (1 bs)
  show ?case
  proof (cases "bs = []")
    case False
    then have l: "16 \<le> length bs" using 1(2) by (simp add: dvd_imp_le)
    then have "bytes_of_blocks (blocks_of (drop 16 bs)) = drop 16 bs"
      using 1 by (simp add: dvd_diff_nat)
    then show ?thesis
      using False l range_enc_dec [of 4 bs]
      by (simp add: blocks_of_Cons bytes_of_blocks_def)
  qed (simp add: bytes_of_blocks_def)
qed

lemma length_blocks_of: "16 dvd length bs \<Longrightarrow> b \<in> set (blocks_of bs) \<Longrightarrow> length b = 4"
proof (induction bs rule: length_induct)
  case (1 bs)
  show ?case
  proof (cases "bs = []")
    case False
    then have l: "16 \<le> length bs" using 1(2) by (simp add: dvd_imp_le)
    then have "16 dvd length (drop 16 bs)" "length (drop 16 bs) < length bs"
      using 1(2) by (simp_all add: dvd_diff_nat)
    then have "b \<in> set (blocks_of (drop 16 bs)) \<Longrightarrow> length b = 4" using 1(1) by blast
    moreover have "b = range_dec32le 4 bs \<or> b \<in> set (blocks_of (drop 16 bs))"
      using 1(3) False by (simp add: blocks_of_Cons)
    moreover have "length (range_dec32le 4 bs) = 4" using l by simp
    ultimately show ?thesis by blast
  qed (use 1 in simp)
qed

lemma length_cbc_encrypt [simp]: "length (cbc_encrypt E iv bs) = length bs"
  by (induction bs arbitrary: iv) (simp_all add: Let_def)

lemma cbc_encrypt_length_4:
  "(\<And>w. length (E w) = 4) \<Longrightarrow> b \<in> set (cbc_encrypt E iv bs) \<Longrightarrow> length b = 4"
  by (induction bs arbitrary: iv) (auto simp: Let_def)

lemma length_bytes_of_blocks:
  "(\<And>b. b \<in> set bs \<Longrightarrow> length b = 4) \<Longrightarrow> length (bytes_of_blocks bs) = 16 * length bs"
  by (induction bs) (simp_all add: bytes_of_blocks_def)

text \<open>The two directions in terms of one block cipher, keyed alike.\<close>

definition aes_encrypt_with :: "bytes \<Rightarrow> nat \<Rightarrow> u32 list \<Rightarrow> u32 list" where
  "aes_encrypt_with key len =
     (let (skey, nr) = aes_ct64_keysched key len
      in aes_encrypt_block nr (aes_ct64_skey_expand nr skey))"

definition aes_decrypt_with :: "bytes \<Rightarrow> nat \<Rightarrow> u32 list \<Rightarrow> u32 list" where
  "aes_decrypt_with key len =
     (let (skey, nr) = aes_ct64_keysched key len
      in aes_decrypt_block nr (aes_ct64_skey_expand nr skey))"

lemma length_aes_encrypt_with [simp]: "length (aes_encrypt_with key len w) = 4"
  by (simp add: aes_encrypt_with_def split: prod.split)

lemma aes_decrypt_encrypt_with:
  "length w = 4 \<Longrightarrow> aes_decrypt_with key len (aes_encrypt_with key len w) = w"
  by (auto simp: aes_decrypt_with_def aes_encrypt_with_def case_prod_unfold Let_def
      intro!: aes_decrypt_encrypt_block dest: lanes_alike_skey_expand)

lemma cbcenc_run_eq:
  "snd (aes_ct64_cbcenc_run (aes_ct64_cbcenc_init key len) undef iv data) =
   bytes_of_blocks (cbc_encrypt (aes_encrypt_with key len) (range_dec32le 4 iv) (blocks_of data))"
  using cbcenc_loop_eq [OF lanes_alike_skey_expand]
  by (simp add: aes_ct64_cbcenc_run_def aes_ct64_cbcenc_init_def aes_encrypt_with_def
      case_prod_unfold Let_def)

lemma cbcdec_run_eq:
  "16 dvd length data \<Longrightarrow> length iv = 16 \<Longrightarrow>
   snd (aes_ct64_cbcdec_run (aes_ct64_cbcdec_init key len) undef iv data) =
   bytes_of_blocks (cbc_decrypt (aes_decrypt_with key len) (range_dec32le 4 iv) (blocks_of data))"
  using cbcdec_loop_eq [OF lanes_alike_skey_expand]
  by (simp add: aes_ct64_cbcdec_run_def aes_ct64_cbcdec_init_def aes_decrypt_with_def
      case_prod_unfold Let_def)

lemma length_cbcenc_run:
  assumes "16 dvd length data"
  shows "length (snd (aes_ct64_cbcenc_run (aes_ct64_cbcenc_init key len) undef iv data)) = length data"
proof -
  have "length (bytes_of_blocks (cbc_encrypt (aes_encrypt_with key len) (range_dec32le 4 iv) (blocks_of data)))
      = 16 * length (blocks_of data)"
    by (subst length_bytes_of_blocks) (auto dest: cbc_encrypt_length_4 [rotated])
  moreover have "length data = 16 * length (blocks_of data)"
    using length_bytes_of_blocks [of "blocks_of data"] length_blocks_of [OF assms]
    by (simp add: bytes_of_blocks_of [OF assms])
  ultimately show ?thesis by (simp add: cbcenc_run_eq)
qed

lemma length_cbc_decrypt:
  assumes "\<And>w. length (D w) = 4"
  shows "length iv = 4 \<Longrightarrow> (\<And>b. b \<in> set bs \<Longrightarrow> length b = 4) \<Longrightarrow>
    length (cbc_decrypt D iv bs) = length bs \<and> (\<forall>b \<in> set (cbc_decrypt D iv bs). length b = 4)"
  using assms by (induction bs arbitrary: iv) auto

lemma length_aes_decrypt_with [simp]: "length (aes_decrypt_with key len w) = 4"
  by (simp add: aes_decrypt_with_def split: prod.split)

lemma length_cbcdec_run:
  assumes "16 dvd length data" "length iv = 16"
  shows "length (snd (aes_ct64_cbcdec_run (aes_ct64_cbcdec_init key len) undef iv data)) = length data"
proof -
  let ?d = "cbc_decrypt (aes_decrypt_with key len) (range_dec32le 4 iv) (blocks_of data)"
  have d: "length ?d = length (blocks_of data)" "\<forall>b \<in> set ?d. length b = 4"
    using length_cbc_decrypt [of "aes_decrypt_with key len" "range_dec32le 4 iv" "blocks_of data"]
      assms(2) length_blocks_of [OF assms(1)] by auto
  have "length data = 16 * length (blocks_of data)"
    using length_bytes_of_blocks [of "blocks_of data"] length_blocks_of [OF assms(1)]
    by (simp add: bytes_of_blocks_of [OF assms(1)])
  then show ?thesis using assms d length_bytes_of_blocks [of ?d] by (simp add: cbcdec_run_eq)
qed

lemma cbcdec_run_cbcenc_run:
  assumes "16 dvd length data" and "length iv = 16"
  shows "snd (aes_ct64_cbcdec_run (aes_ct64_cbcdec_init key len) undef iv
           (snd (aes_ct64_cbcenc_run (aes_ct64_cbcenc_init key len) undef' iv data))) = data"
proof -
  let ?E = "aes_encrypt_with key len" and ?iv = "range_dec32le 4 iv"
  let ?c = "cbc_encrypt ?E ?iv (blocks_of data)"
  have c: "length b = 4" if "b \<in> set ?c" for b using that by (auto dest: cbc_encrypt_length_4 [rotated])
  have "cbc_decrypt (aes_decrypt_with key len) ?iv ?c = blocks_of data"
    using assms length_blocks_of [OF assms(1)]
    by (intro cbc_decrypt_encrypt aes_decrypt_encrypt_with) simp_all
  then show ?thesis
    using assms
    by (simp add: cbcdec_run_eq length_cbcenc_run)
       (simp add: cbcenc_run_eq blocks_of_bytes c bytes_of_blocks_of)
qed

text \<open>The uninitialised registers and words do not matter.\<close>

lemma cbcenc_run_undef:
  "snd (aes_ct64_cbcenc_run (aes_ct64_cbcenc_init key len) undef iv data) =
   snd (aes_ct64_cbcenc_run (aes_ct64_cbcenc_init key len) (\<lambda>_ _. 0) iv data)"
  by (simp add: cbcenc_run_eq)

lemma cbcdec_run_undef:
  "16 dvd length data \<Longrightarrow> length iv = 16 \<Longrightarrow>
   snd (aes_ct64_cbcdec_run (aes_ct64_cbcdec_init key len) undef iv data) =
   snd (aes_ct64_cbcdec_run (aes_ct64_cbcdec_init key len) (\<lambda>_ _. 0) iv data)"
  by (simp add: cbcdec_run_eq)

text \<open>C39: The bitsliced AES-CBC is a cipher: under the same key and IV, what
  \<open>br_aes_ct64_cbcenc_run\<close> makes of whole blocks of data, one block at a time,
  \<open>br_aes_ct64_cbcdec_run\<close> turns back into the data, four blocks at a time. The contents
  of the registers and words that the two loops leave uninitialised do not matter.\<close>

theorem aes_cbc_roundtrip:
  assumes "16 dvd length data" and "length iv = 16"
  shows "snd (aes_ct64_cbcdec_run (aes_ct64_cbcdec_init key len) undef iv
           (snd (aes_ct64_cbcenc_run (aes_ct64_cbcenc_init key len) undef' iv data))) = data"
  using assms by (rule cbcdec_run_cbcenc_run)

lemma aes_cbc_roundtrip_witness:
  "snd (aes_ct64_cbcdec_run (aes_ct64_cbcdec_init (zeros 32) 32) (\<lambda>n i. 7) (zeros 16)
     (snd (aes_ct64_cbcenc_run (aes_ct64_cbcenc_init (zeros 32) 32) (\<lambda>n i. 9) (zeros 16)
        (replicate 80 5)))) = replicate 80 5"
  by (rule aes_cbc_roundtrip) simp_all

end
