(* ===== verification/Memory.thy ===== *)
theory Memory
  imports Prelude
begin

text \<open>
  The error codes of \<open>error.h\<close> with their texts (\<open>error.c\<close>) and the two memory helpers
  of \<open>memory.c\<close>: clearing a buffer and the constant-time comparison.
\<close>

section \<open>Error codes\<close>

datatype olm_error_code =
    OLM_SUCCESS
  | OLM_NOT_ENOUGH_RANDOM
  | OLM_OUTPUT_BUFFER_TOO_SMALL
  | OLM_BAD_MESSAGE_VERSION
  | OLM_BAD_MESSAGE_FORMAT
  | OLM_BAD_MESSAGE_MAC
  | OLM_BAD_MESSAGE_KEY_ID
  | OLM_INVALID_BASE64
  | OLM_BAD_ACCOUNT_KEY
  | OLM_UNKNOWN_PICKLE_VERSION
  | OLM_CORRUPTED_PICKLE
  | OLM_BAD_SESSION_KEY
  | OLM_UNKNOWN_MESSAGE_INDEX
  | OLM_BAD_LEGACY_ACCOUNT_PICKLE
  | OLM_BAD_SIGNATURE
  | OLM_INPUT_BUFFER_TOO_SMALL
  | OLM_SAS_THEIR_KEY_NOT_SET
  | OLM_PICKLE_EXTRA_DATA
  | OLM_UNSEEDED_ACCOUNT

text \<open>\<open>ERRORS\<close> and \<open>_olm_error_to_string\<close>: the table is indexed by the code's value.\<close>

definition olm_errors :: "string list" where
  "olm_errors =
    [''SUCCESS'', ''NOT_ENOUGH_RANDOM'', ''OUTPUT_BUFFER_TOO_SMALL'', ''BAD_MESSAGE_VERSION'',
     ''BAD_MESSAGE_FORMAT'', ''BAD_MESSAGE_MAC'', ''BAD_MESSAGE_KEY_ID'', ''INVALID_BASE64'',
     ''BAD_ACCOUNT_KEY'', ''UNKNOWN_PICKLE_VERSION'', ''CORRUPTED_PICKLE'', ''BAD_SESSION_KEY'',
     ''UNKNOWN_MESSAGE_INDEX'', ''BAD_LEGACY_ACCOUNT_PICKLE'', ''BAD_SIGNATURE'',
     ''OLM_INPUT_BUFFER_TOO_SMALL'', ''OLM_SAS_THEIR_KEY_NOT_SET'', ''OLM_PICKLE_EXTRA_DATA'',
     ''OLM_UNSEEDED_ACCOUNT'']"

fun error_value :: "olm_error_code \<Rightarrow> nat" where
  "error_value OLM_SUCCESS = 0"
| "error_value OLM_NOT_ENOUGH_RANDOM = 1"
| "error_value OLM_OUTPUT_BUFFER_TOO_SMALL = 2"
| "error_value OLM_BAD_MESSAGE_VERSION = 3"
| "error_value OLM_BAD_MESSAGE_FORMAT = 4"
| "error_value OLM_BAD_MESSAGE_MAC = 5"
| "error_value OLM_BAD_MESSAGE_KEY_ID = 6"
| "error_value OLM_INVALID_BASE64 = 7"
| "error_value OLM_BAD_ACCOUNT_KEY = 8"
| "error_value OLM_UNKNOWN_PICKLE_VERSION = 9"
| "error_value OLM_CORRUPTED_PICKLE = 10"
| "error_value OLM_BAD_SESSION_KEY = 11"
| "error_value OLM_UNKNOWN_MESSAGE_INDEX = 12"
| "error_value OLM_BAD_LEGACY_ACCOUNT_PICKLE = 13"
| "error_value OLM_BAD_SIGNATURE = 14"
| "error_value OLM_INPUT_BUFFER_TOO_SMALL = 15"
| "error_value OLM_SAS_THEIR_KEY_NOT_SET = 16"
| "error_value OLM_PICKLE_EXTRA_DATA = 17"
| "error_value OLM_UNSEEDED_ACCOUNT = 18"

definition olm_error_to_string :: "nat \<Rightarrow> string" where
  "olm_error_to_string e = (if e < length olm_errors then olm_errors ! e else ''UNKNOWN_ERROR'')"

lemma error_value_in_table: "error_value e < length olm_errors"
  by (cases e) (simp_all add: olm_errors_def)

section \<open>Clearing a buffer\<close>

text \<open>\<open>_olm_unset\<close>: the loop stores one zero byte at a time.\<close>

fun olm_unset :: "bytes \<Rightarrow> nat \<Rightarrow> nat \<Rightarrow> bytes" where
  "olm_unset m pos 0 = m"
| "olm_unset m pos (Suc n) = olm_unset (m[pos := 0]) (pos + 1) n"

lemma olm_unset_eq: "pos + n \<le> length m \<Longrightarrow> olm_unset m pos n = write_at m pos (zeros n)"
proof (induction n arbitrary: m pos)
  case 0
  then show ?case by simp
next
  case (Suc n)
  have "olm_unset m pos (Suc n) = write_at (m[pos := 0]) (Suc pos) (zeros n)"
    using Suc by simp
  also have "m[pos := 0] = write_at m pos [0]"
    using Suc.prems by (simp add: write_at_def upd_conv_take_nth_drop)
  also have "write_at (write_at m pos [0]) (Suc pos) (zeros n) = write_at m pos (zeros (Suc n))"
    using Suc.prems by (subst write_at_write_at_adj) simp_all
  finally show ?case .
qed

section \<open>Constant-time comparison\<close>

text \<open>
  \<open>_olm_is_equal\<close>: the differences of all byte pairs are ORed together and tested once at
  the end, so the number of steps depends on \<open>length\<close> only.
\<close>

fun is_equal_loop :: "u8 \<Rightarrow> bytes \<Rightarrow> bytes \<Rightarrow> nat \<Rightarrow> u8" where
  "is_equal_loop result a b 0 = result"
| "is_equal_loop result a b (Suc n) = is_equal_loop (result OR (hd a XOR hd b)) (tl a) (tl b) n"

definition olm_is_equal :: "bytes \<Rightarrow> bytes \<Rightarrow> nat \<Rightarrow> bool" where
  "olm_is_equal a b n \<longleftrightarrow> is_equal_loop 0 a b n = 0"

lemma word_or_eq_0: "(a :: 'a :: len word) OR b = 0 \<longleftrightarrow> a = 0 \<and> b = 0"
  by (auto simp: bit_eq_iff bit_simps)

lemma word_xor_eq_0: "(a :: 'a :: len word) XOR b = 0 \<longleftrightarrow> a = b"
  by (auto simp: bit_eq_iff bit_simps)

lemma is_equal_loop_0:
  "n \<le> length a \<Longrightarrow> n \<le> length b \<Longrightarrow>
   is_equal_loop r a b n = 0 \<longleftrightarrow> r = 0 \<and> take n a = take n b"
proof (induction n arbitrary: r a b)
  case 0
  then show ?case by simp
next
  case (Suc n)
  then obtain x a' y b' where "a = x # a'" "b = y # b'"
    by (cases a; cases b) auto
  with Suc show ?case by (auto simp: word_or_eq_0 word_xor_eq_0)
qed

lemma olm_is_equal_iff [simp]:
  "n \<le> length a \<Longrightarrow> n \<le> length b \<Longrightarrow> olm_is_equal a b n \<longleftrightarrow> take n a = take n b"
  by (simp add: olm_is_equal_def is_equal_loop_0)

end
