(* ===== verification/Olm_List.thy ===== *)
theory Olm_List
  imports Prelude
begin

text \<open>
  \<open>list.h\<close>: the bounded lists the ratchet and the account keep their chains and keys in. The
  record is the C struct: a length and an array of fixed size (the capacity), whose slots
  past the length hold stale values. \<open>olm_list_insert\<close> makes room and returns the index of
  the slot the caller then fills, \<open>olm_list_erase\<close> closes a gap. The locale \<open>bounded_list\<close> is
  the contract on the list of live elements that the clients rely on.
\<close>

section \<open>The struct and its operations\<close>

record 'a olm_list =
  ol_length :: nat
  ol_data :: "'a list"

definition olm_list_capacity :: "'a olm_list \<Rightarrow> nat" where
  "olm_list_capacity l = length (ol_data l)"

definition olm_list_init :: "'a olm_list \<Rightarrow> 'a olm_list" where
  "olm_list_init l = l\<lparr>ol_length := 0\<rparr>"

definition olm_list_empty :: "'a olm_list \<Rightarrow> bool" where
  "olm_list_empty l \<longleftrightarrow> ol_length l = 0"

definition olm_list_get :: "'a olm_list \<Rightarrow> nat \<Rightarrow> 'a" where
  "olm_list_get l i = ol_data l ! i"

definition olm_list_set :: "'a olm_list \<Rightarrow> nat \<Rightarrow> 'a \<Rightarrow> 'a olm_list" where
  "olm_list_set l i v = l\<lparr>ol_data := (ol_data l)[i := v]\<rparr>"

text \<open>\<open>memmove\<close> inside the array, in elements.\<close>

definition memmove :: "'a list \<Rightarrow> nat \<Rightarrow> nat \<Rightarrow> nat \<Rightarrow> 'a list" where
  "memmove d dst src n = write_at d dst (read_at d src n)"

definition olm_list_insert :: "'a olm_list \<Rightarrow> nat \<Rightarrow> 'a olm_list \<times> nat" where
  "olm_list_insert l index =
     (let capacity = olm_list_capacity l;
          (len, index) =
            (if ol_length l < capacity then (ol_length l + 1, index)
             else if index = ol_length l \<and> index > 0 then (ol_length l, index - 1)
             else (ol_length l, index))
      in if len = 0 then (l, 0)
         else
           let tail_index = len - 1;
               data = (if index < tail_index
                       then memmove (ol_data l) (index + 1) index (tail_index - index)
                       else ol_data l)
           in (\<lparr>ol_length = len, ol_data = data\<rparr>, index))"

definition olm_list_insert_front :: "'a olm_list \<Rightarrow> 'a olm_list \<times> nat" where
  "olm_list_insert_front l = olm_list_insert l 0"

definition olm_list_insert_end :: "'a olm_list \<Rightarrow> 'a olm_list \<times> nat" where
  "olm_list_insert_end l = olm_list_insert l (ol_length l)"

definition olm_list_erase :: "'a olm_list \<Rightarrow> nat \<Rightarrow> 'a olm_list" where
  "olm_list_erase l index =
     (if ol_length l = 0 \<or> index \<ge> ol_length l then l
      else
        let tail_index = ol_length l - 1;
            data = (if index < tail_index
                    then memmove (ol_data l) index (index + 1) (tail_index - index)
                    else ol_data l)
        in \<lparr>ol_length = ol_length l - 1, ol_data = data\<rparr>)"

text \<open>The callers fill the slot they got; the two uses of insertion as one step each.\<close>

definition olm_list_push_front :: "'a olm_list \<Rightarrow> 'a \<Rightarrow> 'a olm_list" where
  "olm_list_push_front l v = (let (l', i) = olm_list_insert_front l in olm_list_set l' i v)"

definition olm_list_push_end :: "'a olm_list \<Rightarrow> 'a \<Rightarrow> 'a olm_list" where
  "olm_list_push_end l v = (let (l', i) = olm_list_insert_end l in olm_list_set l' i v)"

section \<open>The live elements\<close>

definition elems :: "'a olm_list \<Rightarrow> 'a list" where
  "elems l = take (ol_length l) (ol_data l)"

definition list_ok :: "nat \<Rightarrow> 'a olm_list \<Rightarrow> bool" where
  "list_ok cap l \<longleftrightarrow> length (ol_data l) = cap \<and> ol_length l \<le> cap"

lemma length_elems: "list_ok cap l \<Longrightarrow> length (elems l) = ol_length l"
  by (simp add: list_ok_def elems_def)

lemma length_elems_le: "list_ok cap l \<Longrightarrow> length (elems l) \<le> cap"
  by (simp add: list_ok_def elems_def)

lemma olm_list_empty_iff: "list_ok cap l \<Longrightarrow> olm_list_empty l \<longleftrightarrow> elems l = []"
  by (auto simp: list_ok_def elems_def olm_list_empty_def)

lemma olm_list_get_elems: "i < ol_length l \<Longrightarrow> olm_list_get l i = elems l ! i"
  by (simp add: olm_list_get_def elems_def)

lemma elems_init [simp]: "elems (olm_list_init l) = []"
  by (simp add: elems_def olm_list_init_def)

lemma list_ok_init [simp]: "list_ok cap l \<Longrightarrow> list_ok cap (olm_list_init l)"
  by (simp add: list_ok_def olm_list_init_def)

lemma list_ok_set [simp]: "list_ok cap l \<Longrightarrow> list_ok cap (olm_list_set l i v)"
  by (simp add: list_ok_def olm_list_set_def)

lemma elems_set [simp]: "elems (olm_list_set l i v) = (elems l)[i := v]"
  by (simp add: elems_def olm_list_set_def take_update_swap)

text \<open>
  What an insertion at \<open>i\<close> does to the live elements, once the slot is filled with \<open>v\<close>: the
  element goes in at \<open>i\<close> and, in a full list, the last element drops out; an insertion at the
  end of a full list replaces the last element.
\<close>

definition insert_elem :: "nat \<Rightarrow> nat \<Rightarrow> 'a \<Rightarrow> 'a list \<Rightarrow> 'a list" where
  "insert_elem cap i v xs = (let j = min i (cap - 1) in take cap (take j xs @ v # drop j xs))"

definition erase_elem :: "nat \<Rightarrow> 'a list \<Rightarrow> 'a list" where
  "erase_elem i xs = take i xs @ drop (i + 1) xs"

lemma list_ok_insert:
  "list_ok cap l \<Longrightarrow> i \<le> ol_length l \<Longrightarrow> list_ok cap (fst (olm_list_insert l i))"
  by (auto simp: list_ok_def olm_list_insert_def olm_list_capacity_def Let_def memmove_def)

text \<open>The array after an insertion whose last live slot is \<open>t\<close>, once the new slot is filled.\<close>

lemma open_slot:
  assumes "i \<le> t" and "t < length d"
  shows "take (t + 1) ((if i < t then memmove d (i + 1) i (t - i) else d)[i := v]) =
    take i d @ v # take (t - i) (drop i d)"
proof (cases "i < t")
  case True
  then have "memmove d (i + 1) i (t - i) = take i d @ d ! i # take (t - i) (drop i d) @ drop (t + 1) d"
    using assms by (simp add: memmove_def write_at_def read_at_def take_Suc_conv_app_nth)
  then show ?thesis using True assms by (simp add: list_update_append Suc_diff_le)
next
  case False
  then show ?thesis using assms by (simp add: take_Suc_update)
qed

lemma elems_insert_set:
  assumes ok: "list_ok cap l" and "0 < cap" and "i \<le> ol_length l"
    and ins: "olm_list_insert l i = (l', j)"
  shows "elems (olm_list_set l' j v) = insert_elem cap i v (elems l)"
proof -
  let ?d = "ol_data l" and ?n = "ol_length l"
  have d: "length ?d = cap" and n: "?n \<le> cap" using ok by (simp_all add: list_ok_def)
  define t where "t = (if ?n < cap then ?n else cap - 1)"
  have t: "min i (cap - 1) \<le> t" "t < length ?d"
    using assms(2,3) n d by (auto simp: t_def)
  have j: "j = min i (cap - 1)" and l': "l' = \<lparr>ol_length = t + 1,
      ol_data = (if j < t then memmove ?d (j + 1) j (t - j) else ?d)\<rparr>"
    using ins assms(2,3) n
    by (auto simp: olm_list_insert_def olm_list_capacity_def d Let_def t_def split: if_splits)
  have "elems (olm_list_set l' j v) = take j ?d @ v # take (t - j) (drop j ?d)"
    using open_slot [OF t, of v, folded j] unfolding l' elems_def olm_list_set_def
    by (simp split del: if_split)
  also have "\<dots> = insert_elem cap i v (elems l)"
  proof (cases "?n < cap")
    case True
    then show ?thesis using assms(3) n
      by (simp add: insert_elem_def elems_def t_def j drop_take)
  next
    case False
    then have "?n = cap" using n by simp
    moreover have "cap - j = Suc (cap - Suc j)" using j assms(2) by linarith
    ultimately show ?thesis using d
      unfolding insert_elem_def elems_def Let_def j [symmetric] by (simp add: t_def)
  qed
  finally show ?thesis .
qed

lemma list_ok_erase: "list_ok cap l \<Longrightarrow> list_ok cap (olm_list_erase l i)"
  by (auto simp: list_ok_def olm_list_erase_def Let_def memmove_def)

lemma elems_erase:
  assumes ok: "list_ok cap l"
  shows "elems (olm_list_erase l i) = (if i < length (elems l) then erase_elem i (elems l) else elems l)"
proof (cases "i < ol_length l")
  case True
  let ?d = "ol_data l" and ?n = "ol_length l"
  have d: "length ?d = cap" "?n \<le> cap" using ok by (simp_all add: list_ok_def)
  have "take (?n - 1) (if i < ?n - 1 then memmove ?d i (i + 1) (?n - 1 - i) else ?d) =
      erase_elem i (take ?n ?d)"
  proof (cases "i < ?n - 1")
    case False
    then have "i = ?n - 1" using True by simp
    then show ?thesis using d by (simp add: erase_elem_def min_def)
  qed (use True d in \<open>auto simp: memmove_def write_at_def read_at_def erase_elem_def take_drop min_def\<close>)
  then show ?thesis
    using True ok
    by (simp add: olm_list_erase_def Let_def length_elems split: if_splits)
      (simp_all add: elems_def)
next
  case False
  then show ?thesis using ok by (simp add: olm_list_erase_def length_elems)
qed

section \<open>The contract\<close>

text \<open>
  What a client of a bounded list of capacity \<open>cap\<close> relies on: \<open>push_front\<close> and \<open>push_end\<close> are
  an insertion with the slot filled in, \<open>erase\<close> removes one position, and the list of live
  elements \<open>live\<close> never outgrows the capacity.
\<close>

locale bounded_list =
  fixes live :: "'l \<Rightarrow> 'a list"
    and ok :: "'l \<Rightarrow> bool"
    and cap :: nat
    and push_front :: "'l \<Rightarrow> 'a \<Rightarrow> 'l"
    and push_end :: "'l \<Rightarrow> 'a \<Rightarrow> 'l"
    and erase :: "'l \<Rightarrow> nat \<Rightarrow> 'l"
  assumes cap_pos: "0 < cap"
    and live_bound: "ok l \<Longrightarrow> length (live l) \<le> cap"
    and ok_push_front: "ok l \<Longrightarrow> ok (push_front l v)"
    and live_push_front: "ok l \<Longrightarrow> live (push_front l v) = take cap (v # live l)"
    and ok_push_end: "ok l \<Longrightarrow> ok (push_end l v)"
    and live_push_end: "ok l \<Longrightarrow> live (push_end l v) = insert_elem cap (length (live l)) v (live l)"
    and ok_erase: "ok l \<Longrightarrow> ok (erase l i)"
    and live_erase: "ok l \<Longrightarrow> i < length (live l) \<Longrightarrow> live (erase l i) = erase_elem i (live l)"
begin

text \<open>Pushing a whole sequence in front keeps the newest \<open>cap\<close> elements, newest first.\<close>

lemma ok_fold_push_front: "ok l \<Longrightarrow> ok (fold (\<lambda>v l. push_front l v) vs l)"
  by (induction vs arbitrary: l) (simp_all add: ok_push_front)

lemma live_fold_push_front:
  "ok l \<Longrightarrow> live (fold (\<lambda>v l. push_front l v) vs l) = take cap (rev vs @ live l)"
proof (induction vs arbitrary: l)
  case Nil
  then show ?case by (simp add: live_bound)
next
  case (Cons v vs)
  have "live (fold (\<lambda>v l. push_front l v) (v # vs) l) = take cap (rev vs @ take cap (v # live l))"
    using Cons by (simp add: ok_push_front live_push_front)
  also have "\<dots> = take cap (rev vs @ v # live l)"
    by simp
  finally show ?case by simp
qed

text \<open>Appending within the capacity appends; \<open>push_end\<close> on a full list replaces the last.\<close>

lemma live_push_end_room:
  "ok l \<Longrightarrow> length (live l) < cap \<Longrightarrow> live (push_end l v) = live l @ [v]"
  by (simp add: live_push_end insert_elem_def min_def)

lemma live_push_end_full:
  assumes "ok l" and "length (live l) = cap"
  shows "live (push_end l v) = butlast (live l) @ [v]"
proof -
  have "min cap (cap - 1) = cap - 1" by simp
  then show ?thesis
    using assms cap_pos by (simp add: live_push_end insert_elem_def butlast_conv_take)
qed

lemma ok_fold_push_end: "ok l \<Longrightarrow> ok (fold (\<lambda>v l. push_end l v) vs l)"
  by (induction vs arbitrary: l) (simp_all add: ok_push_end)

lemma live_fold_push_end:
  "ok l \<Longrightarrow> length (live l) + length vs \<le> cap \<Longrightarrow>
   live (fold (\<lambda>v l. push_end l v) vs l) = live l @ vs"
  by (induction vs arbitrary: l) (simp_all add: ok_push_end live_push_end_room)

text \<open>Erasing takes exactly the occurrence at the position out.\<close>

lemma length_live_erase:
  "ok l \<Longrightarrow> i < length (live l) \<Longrightarrow> length (live (erase l i)) = length (live l) - 1"
  by (simp add: live_erase erase_elem_def)

lemma set_live_erase:
  "ok l \<Longrightarrow> i < length (live l) \<Longrightarrow> set (live (erase l i)) \<subseteq> set (live l)"
  by (auto simp: live_erase erase_elem_def dest: in_set_takeD in_set_dropD)

lemma erased_not_live:
  assumes "ok l" and "i < length (live l)" and "distinct (live l)"
  shows "live l ! i \<notin> set (live (erase l i))"
proof -
  have "live l = take i (live l) @ live l ! i # drop (i + 1) (live l)"
    using assms(2) by (simp add: Cons_nth_drop_Suc)
  then have "distinct (take i (live l) @ live l ! i # drop (i + 1) (live l))"
    using assms(3) by simp
  then show ?thesis using assms by (simp add: live_erase erase_elem_def)
qed

end

section \<open>The struct satisfies the contract\<close>

lemma push_front_ok: "list_ok cap l \<Longrightarrow> list_ok cap (olm_list_push_front l v)"
  using list_ok_insert [of cap l 0]
  by (auto simp: olm_list_push_front_def olm_list_insert_front_def split: prod.splits)

lemma push_end_ok: "list_ok cap l \<Longrightarrow> list_ok cap (olm_list_push_end l v)"
  using list_ok_insert [of cap l "ol_length l"]
  by (auto simp: olm_list_push_end_def olm_list_insert_end_def split: prod.splits)

lemma elems_push_front:
  assumes "list_ok cap l" and "0 < cap"
  shows "elems (olm_list_push_front l v) = take cap (v # elems l)"
  using elems_insert_set [OF assms, of 0]
  by (auto simp: olm_list_push_front_def olm_list_insert_front_def insert_elem_def split: prod.splits)

lemma elems_push_end:
  assumes "list_ok cap l" and "0 < cap"
  shows "elems (olm_list_push_end l v) = insert_elem cap (length (elems l)) v (elems l)"
  using elems_insert_set [OF assms, of "ol_length l"]
  by (auto simp: olm_list_push_end_def olm_list_insert_end_def length_elems [OF assms(1)]
      split: prod.splits)

lemma bounded_list_struct:
  assumes "0 < cap"
  shows "bounded_list elems (list_ok cap) cap olm_list_push_front olm_list_push_end olm_list_erase"
  by unfold_locales
    (simp_all add: assms length_elems_le push_front_ok push_end_ok elems_push_front elems_push_end
      list_ok_erase elems_erase)

text \<open>The four lists of the library: their capacities are those of the \<open>OLM_LIST\<close> typedefs.\<close>

abbreviation OLM_MAX_SENDER_CHAINS :: nat where "OLM_MAX_SENDER_CHAINS \<equiv> 1"
abbreviation OLM_MAX_RECEIVER_CHAINS :: nat where "OLM_MAX_RECEIVER_CHAINS \<equiv> 5"
abbreviation OLM_MAX_SKIPPED_MESSAGE_KEYS :: nat where "OLM_MAX_SKIPPED_MESSAGE_KEYS \<equiv> 40"
abbreviation MAX_ONE_TIME_KEYS :: nat where "MAX_ONE_TIME_KEYS \<equiv> 100"

interpretation sender_list: bounded_list elems "list_ok OLM_MAX_SENDER_CHAINS"
    OLM_MAX_SENDER_CHAINS olm_list_push_front olm_list_push_end olm_list_erase
  by (rule bounded_list_struct) simp

interpretation receiver_list: bounded_list elems "list_ok OLM_MAX_RECEIVER_CHAINS"
    OLM_MAX_RECEIVER_CHAINS olm_list_push_front olm_list_push_end olm_list_erase
  by (rule bounded_list_struct) simp

interpretation skipped_list: bounded_list elems "list_ok OLM_MAX_SKIPPED_MESSAGE_KEYS"
    OLM_MAX_SKIPPED_MESSAGE_KEYS olm_list_push_front olm_list_push_end olm_list_erase
  by (rule bounded_list_struct) simp

interpretation otk_list: bounded_list elems "list_ok MAX_ONE_TIME_KEYS"
    MAX_ONE_TIME_KEYS olm_list_push_front olm_list_push_end olm_list_erase
  by (rule bounded_list_struct) simp


section \<open>Properties\<close>

text \<open>C40: Insertion into a bounded list, as the callers use it (open a slot, fill it), is the
  insertion into a sequence of at most \<open>cap\<close> elements: the element goes in at its place and,
  in a full list, the last element drops out (an insertion at the end of a full list
  replaces the last element). The length never exceeds the array.\<close>

theorem olm_list_insert_refines:
  assumes "list_ok cap l" and "0 < cap" and "i \<le> ol_length l"
  shows "(let (l', j) = olm_list_insert l i
          in elems (olm_list_set l' j v) = insert_elem cap i v (elems l)
             \<and> list_ok cap (olm_list_set l' j v))"
  using list_ok_insert [OF assms(1,3)] elems_insert_set [OF assms]
  by (cases "olm_list_insert l i") simp

lemma olm_list_insert_refines_witness:
  "(let (l', j) = olm_list_insert \<lparr>ol_length = 3, ol_data = [1, 2, 3 :: nat]\<rparr> 1
    in elems (olm_list_set l' j 9) = insert_elem 3 1 9 (elems \<lparr>ol_length = 3, ol_data = [1, 2, 3 :: nat]\<rparr>)
       \<and> list_ok 3 (olm_list_set l' j 9))"
  by (rule olm_list_insert_refines) (simp_all add: list_ok_def)

end
