(* ===== verification/Pickle.thy ===== *)
theory Pickle
  imports Olm_List
begin

text \<open>
  \<open>pickle.c\<close>: the binary encoding of the stored objects. A pickling function returns the
  bytes it appends at \<open>pos\<close>. An unpickling function gets the bytes between \<open>pos\<close> and \<open>end\<close>
  and the object it overwrites; it returns the object (also when it fails half way) and the
  new position, \<open>None\<close> for the null pointer. Every call in the library passes a position
  that has been tested with \<open>UNPICKLE_OK\<close>, so the tests \<open>!pos\<close> at the head of the functions
  are the \<open>None\<close> case of \<open>then_unpickle\<close>.

  The locale \<open>fixed_codec\<close> is the contract between a pickler and its unpickler for the
  fixed-width structs; the lemmas on the lists of such structs are proved once inside it.
\<close>

section \<open>Keys\<close>

text \<open>A struct that only wraps a byte array is that array.\<close>

abbreviation CURVE25519_KEY_LENGTH :: nat where "CURVE25519_KEY_LENGTH \<equiv> 32"
abbreviation CURVE25519_RANDOM_LENGTH :: nat where "CURVE25519_RANDOM_LENGTH \<equiv> 32"
abbreviation CURVE25519_SHARED_SECRET_LENGTH :: nat where "CURVE25519_SHARED_SECRET_LENGTH \<equiv> 32"
abbreviation ED25519_PUBLIC_KEY_LENGTH :: nat where "ED25519_PUBLIC_KEY_LENGTH \<equiv> 32"
abbreviation ED25519_PRIVATE_KEY_LENGTH :: nat where "ED25519_PRIVATE_KEY_LENGTH \<equiv> 64"
abbreviation ED25519_RANDOM_LENGTH :: nat where "ED25519_RANDOM_LENGTH \<equiv> 32"
abbreviation ED25519_SIGNATURE_LENGTH :: nat where "ED25519_SIGNATURE_LENGTH \<equiv> 64"
abbreviation SHA256_OUTPUT_LENGTH :: nat where "SHA256_OUTPUT_LENGTH \<equiv> 32"

type_synonym curve25519_public_key = bytes
type_synonym ed25519_public_key = bytes

record curve25519_key_pair =
  ckp_public_key :: curve25519_public_key
  ckp_private_key :: bytes

record ed25519_key_pair =
  ekp_public_key :: ed25519_public_key
  ekp_private_key :: bytes

definition curve25519_key_pair_ok :: "curve25519_key_pair \<Rightarrow> bool" where
  "curve25519_key_pair_ok k \<longleftrightarrow> length (ckp_public_key k) = 32 \<and> length (ckp_private_key k) = 32"

definition ed25519_key_pair_ok :: "ed25519_key_pair \<Rightarrow> bool" where
  "ed25519_key_pair_ok k \<longleftrightarrow> length (ekp_public_key k) = 32 \<and> length (ekp_private_key k) = 64"

section \<open>Sequencing\<close>

type_synonym 'v unpickled = "'v \<times> bytes option"

text \<open>\<open>UNPICKLE_OK(pos)\<close> between two reads: stop at the first failure.\<close>

definition then_unpickle :: "'s unpickled \<Rightarrow> (bytes \<Rightarrow> 's \<Rightarrow> 's unpickled) \<Rightarrow> 's unpickled" where
  "then_unpickle r f = (case r of (s, None) \<Rightarrow> (s, None) | (s, Some pos) \<Rightarrow> f pos s)"

text \<open>Unpickling into a field of a struct.\<close>

definition on_field ::
  "('s \<Rightarrow> 'v) \<Rightarrow> ('v \<Rightarrow> 's \<Rightarrow> 's) \<Rightarrow> (bytes \<Rightarrow> 'v \<Rightarrow> 'v unpickled) \<Rightarrow> bytes \<Rightarrow> 's \<Rightarrow> 's unpickled" where
  "on_field get put f pos s = (let (v, r) = f pos (get s) in (put v s, r))"

lemma then_unpickle_simps [simp]:
  "then_unpickle (s, None) f = (s, None)" "then_unpickle (s, Some pos) f = f pos s"
  by (simp_all add: then_unpickle_def)

section \<open>Integers and byte strings\<close>

definition olm_pickle_uint8 :: "u8 \<Rightarrow> bytes" where
  "olm_pickle_uint8 value = [value]"

definition olm_unpickle_uint8 :: "bytes \<Rightarrow> u8 \<Rightarrow> u8 unpickled" where
  "olm_unpickle_uint8 pos value = (case pos of [] \<Rightarrow> (value, None) | b # pos' \<Rightarrow> (b, Some pos'))"

definition olm_pickle_uint32 :: "u32 \<Rightarrow> bytes" where
  "olm_pickle_uint32 value =
     [ucast (drop_bit 24 value), ucast (drop_bit 16 value), ucast (drop_bit 8 value), ucast value]"

definition olm_unpickle_uint32 :: "bytes \<Rightarrow> u32 \<Rightarrow> u32 unpickled" where
  "olm_unpickle_uint32 pos value =
     (if length pos < 4 then (value, None)
      else (push_bit 24 (ucast (pos ! 0)) OR push_bit 16 (ucast (pos ! 1))
              OR push_bit 8 (ucast (pos ! 2)) OR ucast (pos ! 3),
            Some (drop 4 pos)))"

definition olm_pickle_bool :: "bool \<Rightarrow> bytes" where
  "olm_pickle_bool value = [if value then 1 else 0]"

definition olm_unpickle_bool :: "bytes \<Rightarrow> bool \<Rightarrow> bool unpickled" where
  "olm_unpickle_bool pos value =
     (case pos of [] \<Rightarrow> (value, None) | b # pos' \<Rightarrow> (b \<noteq> 0, Some pos'))"

definition olm_pickle_bytes :: "bytes \<Rightarrow> nat \<Rightarrow> bytes" where
  "olm_pickle_bytes b bytes_length = take bytes_length b"

text \<open>
  The source of the \<open>memcpy\<close>. If some of it is past the end of the input nothing is known about what is
  read, as with \<open>pos ! i\<close> in \<open>olm_unpickle_uint32\<close>, so that no lemma holds of such a read.
\<close>

definition memcpy_source :: "nat \<Rightarrow> bytes \<Rightarrow> bytes" where
  "memcpy_source n pos = (if n \<le> length pos then take n pos else undefined n pos)"

definition olm_unpickle_bytes :: "nat \<Rightarrow> bytes \<Rightarrow> bytes \<Rightarrow> bytes unpickled" where
  "olm_unpickle_bytes bytes_length pos b =
     (if length pos < bytes_length then (b, None)
      else (write_at b 0 (memcpy_source bytes_length pos), Some (drop bytes_length pos)))"

lemma olm_unpickle_bytes_eq: "olm_unpickle_bytes n pos b =
    (if length pos < n then (b, None) else (write_at b 0 (take n pos), Some (drop n pos)))"
  by (simp add: olm_unpickle_bytes_def memcpy_source_def)

section \<open>Keys and key pairs\<close>

definition olm_pickle_curve25519_public_key_length :: nat where
  "olm_pickle_curve25519_public_key_length = CURVE25519_KEY_LENGTH"

definition olm_pickle_curve25519_public_key :: "curve25519_public_key \<Rightarrow> bytes" where
  "olm_pickle_curve25519_public_key value = olm_pickle_bytes value CURVE25519_KEY_LENGTH"

definition olm_unpickle_curve25519_public_key ::
  "bytes \<Rightarrow> curve25519_public_key \<Rightarrow> curve25519_public_key unpickled" where
  "olm_unpickle_curve25519_public_key = olm_unpickle_bytes CURVE25519_KEY_LENGTH"

definition olm_pickle_curve25519_key_pair_length :: nat where
  "olm_pickle_curve25519_key_pair_length = CURVE25519_KEY_LENGTH + CURVE25519_KEY_LENGTH"

definition olm_pickle_curve25519_key_pair :: "curve25519_key_pair \<Rightarrow> bytes" where
  "olm_pickle_curve25519_key_pair value =
     olm_pickle_bytes (ckp_public_key value) CURVE25519_KEY_LENGTH
     @ olm_pickle_bytes (ckp_private_key value) CURVE25519_KEY_LENGTH"

definition olm_unpickle_curve25519_key_pair ::
  "bytes \<Rightarrow> curve25519_key_pair \<Rightarrow> curve25519_key_pair unpickled" where
  "olm_unpickle_curve25519_key_pair pos value =
     then_unpickle
       (on_field ckp_public_key (\<lambda>v s. s\<lparr>ckp_public_key := v\<rparr>)
          (olm_unpickle_bytes CURVE25519_KEY_LENGTH) pos value)
       (on_field ckp_private_key (\<lambda>v s. s\<lparr>ckp_private_key := v\<rparr>)
          (olm_unpickle_bytes CURVE25519_KEY_LENGTH))"

definition olm_pickle_ed25519_public_key_length :: nat where
  "olm_pickle_ed25519_public_key_length = ED25519_PUBLIC_KEY_LENGTH"

definition olm_pickle_ed25519_public_key :: "ed25519_public_key \<Rightarrow> bytes" where
  "olm_pickle_ed25519_public_key value = olm_pickle_bytes value ED25519_PUBLIC_KEY_LENGTH"

definition olm_unpickle_ed25519_public_key ::
  "bytes \<Rightarrow> ed25519_public_key \<Rightarrow> ed25519_public_key unpickled" where
  "olm_unpickle_ed25519_public_key = olm_unpickle_bytes ED25519_PUBLIC_KEY_LENGTH"

definition olm_pickle_ed25519_key_pair_length :: nat where
  "olm_pickle_ed25519_key_pair_length = ED25519_PUBLIC_KEY_LENGTH + ED25519_PRIVATE_KEY_LENGTH"

definition olm_pickle_ed25519_key_pair :: "ed25519_key_pair \<Rightarrow> bytes" where
  "olm_pickle_ed25519_key_pair value =
     olm_pickle_bytes (ekp_public_key value) ED25519_PUBLIC_KEY_LENGTH
     @ olm_pickle_bytes (ekp_private_key value) ED25519_PRIVATE_KEY_LENGTH"

definition olm_unpickle_ed25519_key_pair ::
  "bytes \<Rightarrow> ed25519_key_pair \<Rightarrow> ed25519_key_pair unpickled" where
  "olm_unpickle_ed25519_key_pair pos value =
     then_unpickle
       (on_field ekp_public_key (\<lambda>v s. s\<lparr>ekp_public_key := v\<rparr>)
          (olm_unpickle_bytes ED25519_PUBLIC_KEY_LENGTH) pos value)
       (on_field ekp_private_key (\<lambda>v s. s\<lparr>ekp_private_key := v\<rparr>)
          (olm_unpickle_bytes ED25519_PRIVATE_KEY_LENGTH))"

section \<open>Lists of structs\<close>

text \<open>
  \<open>ratchet.c\<close> and \<open>account.c\<close> pickle four lists with the same code: the length as a 32-bit
  word, then the elements; reading stops after \<open>size\<close> elements or at the end of the input,
  and every element goes to \<open>_olm_list_insert(value, _olm_list_end(value))\<close>.
\<close>

definition list_pickle :: "('v \<Rightarrow> bytes) \<Rightarrow> 'v olm_list \<Rightarrow> bytes" where
  "list_pickle pickle l =
     olm_pickle_uint32 (of_nat (ol_length l)) @ concat (map pickle (elems l))"

fun list_unpickle_loop ::
  "(bytes \<Rightarrow> 'v \<Rightarrow> 'v unpickled) \<Rightarrow> nat \<Rightarrow> bytes \<Rightarrow> 'v olm_list \<Rightarrow> 'v olm_list unpickled" where
  "list_unpickle_loop unpickle 0 pos l = (l, Some pos)"
| "list_unpickle_loop unpickle (Suc n) pos l =
     (if pos = [] then (l, Some pos)
      else
        let (l, i) = olm_list_insert_end l;
            (v, r) = unpickle pos (olm_list_get l i);
            l = olm_list_set l i v
        in case r of None \<Rightarrow> (l, None) | Some pos \<Rightarrow> list_unpickle_loop unpickle n pos l)"

definition list_unpickle ::
  "(bytes \<Rightarrow> 'v \<Rightarrow> 'v unpickled) \<Rightarrow> bytes \<Rightarrow> 'v olm_list \<Rightarrow> 'v olm_list unpickled" where
  "list_unpickle unpickle pos l =
     (let (size, r) = olm_unpickle_uint32 pos 0
      in case r of None \<Rightarrow> (l, None)
         | Some pos \<Rightarrow> list_unpickle_loop unpickle (unat size) pos (olm_list_init l))"

text \<open>Whatever the input says, the list stays inside its array.\<close>

lemma list_ok_unpickle_loop:
  "list_ok cap l \<Longrightarrow> list_ok cap (fst (list_unpickle_loop unpickle n pos l))"
proof (induction unpickle n pos l rule: list_unpickle_loop.induct)
  case (1 unpickle pos l)
  then show ?case by simp
next
  case (2 unpickle n pos l)
  obtain l1 i where ins: "olm_list_insert_end l = (l1, i)" by fastforce
  have l1: "list_ok cap l1"
    using list_ok_insert [OF 2(2), of "ol_length l"] ins by (simp add: olm_list_insert_end_def)
  obtain v r where un: "unpickle pos (olm_list_get l1 i) = (v, r)" by fastforce
  show ?case
    using 2 l1 by (auto simp: ins un Let_def split: option.splits)
qed

lemma list_ok_unpickle: "list_ok cap l \<Longrightarrow> list_ok cap (fst (list_unpickle unpickle pos l))"
  by (auto simp: list_unpickle_def Let_def list_ok_unpickle_loop split: prod.splits option.splits)

section \<open>The contract of a pickler and its unpickler\<close>

text \<open>
  For the fixed-width items: every valid value takes \<open>width\<close> bytes, unpickling needs exactly
  that many (it fails on fewer and never looks at more), and reading back gives the value.
  \<open>ok\<close> says that the arrays of a struct have their declared sizes, which reading keeps.
\<close>

locale fixed_codec =
  fixes pickle :: "'v \<Rightarrow> bytes"
    and unpickle :: "bytes \<Rightarrow> 'v \<Rightarrow> 'v unpickled"
    and width :: nat
    and ok :: "'v \<Rightarrow> bool"
  assumes length_pickle: "ok v \<Longrightarrow> length (pickle v) = width"
    and short: "length pos < width \<Longrightarrow> snd (unpickle pos s) = None"
    and consume: "width \<le> length pos \<Longrightarrow> snd (unpickle pos s) = Some (drop width pos)"
    and roundtrip: "ok v \<Longrightarrow> ok s \<Longrightarrow> fst (unpickle (pickle v @ rest) s) = v"
    and unpickle_ok: "ok s \<Longrightarrow> ok (fst (unpickle pos s))"
begin

lemma unpickle_pickle [simp]: "ok v \<Longrightarrow> ok s \<Longrightarrow> unpickle (pickle v @ rest) s = (v, Some rest)"
  using roundtrip consume [of "pickle v @ rest" s] length_pickle [of v]
  by (simp add: prod_eq_iff)

text \<open>The loop over the elements of a list reads them all back, in order.\<close>

lemma unpickle_loop:
  assumes "0 < width" "0 < cap"
    and "list_ok cap l" "\<forall>x \<in> set (ol_data l). ok x"
    and "ol_length l + length vs \<le> cap" "\<forall>v \<in> set vs. ok v"
  shows "\<exists>l'. list_unpickle_loop unpickle (length vs) (concat (map pickle vs) @ rest) l = (l', Some rest)
    \<and> list_ok cap l' \<and> elems l' = elems l @ vs \<and> (\<forall>x \<in> set (ol_data l'). ok x)"
  using assms(3-6)
proof (induction vs arbitrary: l)
  case Nil
  then show ?case by simp
next
  case (Cons v vs)
  obtain l1 i where ins: "olm_list_insert_end l = (l1, i)" by fastforce
  have room: "ol_length l < cap" using Cons.prems by simp
  have l1: "i = ol_length l" "ol_data l1 = ol_data l"
    using ins room Cons.prems(1)
    by (auto simp: olm_list_insert_end_def olm_list_insert_def olm_list_capacity_def list_ok_def Let_def)
  have slot: "ok (olm_list_get l1 i)"
    using l1 room Cons.prems(1,2) by (simp add: olm_list_get_def list_ok_def)
  define l2 where "l2 = olm_list_set l1 i v"
  have l2: "l2 = olm_list_push_end l v" by (simp add: l2_def olm_list_push_end_def ins)
  have ok2: "list_ok cap l2" using Cons.prems(1) by (simp add: l2 push_end_ok)
  have el2: "elems l2 = elems l @ [v]"
    using room Cons.prems(1) \<open>0 < cap\<close> elems_push_end [of cap l v]
    by (simp add: l2 insert_elem_def length_elems min_def)
  have len2: "ol_length l2 = ol_length l + 1"
    using length_elems [OF ok2] length_elems [OF Cons.prems(1)] el2 by simp
  have d2: "\<forall>x \<in> set (ol_data l2). ok x"
    using Cons.prems(2,4) set_update_subset_insert [of "ol_data l" i v]
    by (auto simp: l2_def olm_list_set_def l1)
  obtain l' where l': "list_unpickle_loop unpickle (length vs) (concat (map pickle vs) @ rest) l2 = (l', Some rest)"
    "list_ok cap l'" "elems l' = elems l2 @ vs" "\<forall>x \<in> set (ol_data l'). ok x"
    using Cons.IH [OF ok2 d2] Cons.prems(3,4) len2 by auto
  have "pickle v \<noteq> []" using length_pickle [of v] Cons.prems(4) \<open>0 < width\<close> by auto
  moreover have "unpickle (pickle v @ concat (map pickle vs) @ rest) (olm_list_get l1 i)
      = (v, Some (concat (map pickle vs) @ rest))"
    using Cons.prems(4) slot by simp
  ultimately show ?case
    using l' by (simp add: ins el2 flip: l2_def)
qed

lemma list_unpickle_pickle:
  assumes "0 < width" "0 < cap" "cap < 2 ^ 32"
    and "list_ok cap l" "\<forall>v \<in> set (elems l). ok v"
    and "list_ok cap s" "\<forall>x \<in> set (ol_data s). ok x"
  shows "\<exists>l'. list_unpickle unpickle (list_pickle pickle l @ rest) s = (l', Some rest)
    \<and> list_ok cap l' \<and> elems l' = elems l \<and> (\<forall>x \<in> set (ol_data l'). ok x)"
proof -
  let ?n = "ol_length l" and ?body = "concat (map pickle (elems l)) @ rest"
  have n: "?n \<le> cap" "length (elems l) = ?n"
    using assms(4) by (simp_all add: list_ok_def elems_def)
  have "be32_word (ucast (drop_bit 24 w)) (ucast (drop_bit 16 w)) (ucast (drop_bit 8 w)) (ucast w) = w"
    for w by (rule be32_word_bytes)
  then have hd: "olm_unpickle_uint32 (olm_pickle_uint32 w @ r) x = (w, Some r)" for w r x
    by (simp add: olm_unpickle_uint32_def olm_pickle_uint32_def be32_word_def eval_nat_numeral)
  have "unat (of_nat ?n :: u32) = ?n"
    using n assms(3) by (simp add: unsigned_of_nat take_bit_nat_eq_self)
  then have "list_unpickle unpickle (list_pickle pickle l @ rest) s =
      list_unpickle_loop unpickle (length (elems l)) ?body (olm_list_init s)"
    using n by (simp add: list_unpickle_def list_pickle_def hd)
  moreover have "list_ok cap (olm_list_init s)" "\<forall>x \<in> set (ol_data (olm_list_init s)). ok x"
    "ol_length (olm_list_init s) + length (elems l) \<le> cap"
    using assms n by (simp_all add: olm_list_init_def list_ok_def)
  ultimately show ?thesis
    using unpickle_loop [OF assms(1,2), of "olm_list_init s" "elems l" rest] assms(5) by simp
qed

lemma length_list_pickle:
  "list_ok cap l \<Longrightarrow> \<forall>v \<in> set (elems l). ok v \<Longrightarrow>
   length (list_pickle pickle l) = 4 + width * ol_length l"
proof -
  assume l: "list_ok cap l" and v: "\<forall>v \<in> set (elems l). ok v"
  have "length (concat (map pickle vs)) = width * length vs" if "\<forall>v \<in> set vs. ok v" for vs
    using that by (induction vs) (simp_all add: length_pickle)
  then show ?thesis
    using v length_elems [OF l] by (simp add: list_pickle_def olm_pickle_uint32_def)
qed

end

section \<open>The primitive codecs\<close>

abbreviation key32_ok :: "bytes \<Rightarrow> bool" where
  "key32_ok k \<equiv> length k = 32"

lemma write_at_all [simp]: "length bs = length m \<Longrightarrow> write_at m 0 bs = bs"
  by (simp add: write_at_def)

lemma fixed_codec_bytes:
  "fixed_codec (\<lambda>b. olm_pickle_bytes b n) (olm_unpickle_bytes n) n (\<lambda>b. length b = n)"
  by unfold_locales (auto simp: olm_pickle_bytes_def olm_unpickle_bytes_eq)

interpretation uint8_codec: fixed_codec olm_pickle_uint8 olm_unpickle_uint8 1 "\<lambda>_. True"
  by unfold_locales (auto simp: olm_pickle_uint8_def olm_unpickle_uint8_def split: list.splits)

interpretation uint32_codec: fixed_codec olm_pickle_uint32 olm_unpickle_uint32 4 "\<lambda>_. True"
proof unfold_locales
  fix v s rest
  show "fst (olm_unpickle_uint32 (olm_pickle_uint32 v @ rest) s) = v"
    using be32_word_bytes [of v]
    by (simp add: olm_unpickle_uint32_def olm_pickle_uint32_def be32_word_def eval_nat_numeral)
qed (simp_all add: olm_pickle_uint32_def olm_unpickle_uint32_def)

interpretation bool_codec: fixed_codec olm_pickle_bool olm_unpickle_bool 1 "\<lambda>_. True"
  by unfold_locales (auto simp: olm_pickle_bool_def olm_unpickle_bool_def split: list.splits)

interpretation key32_codec: fixed_codec "\<lambda>b. olm_pickle_bytes b 32" "olm_unpickle_bytes 32" 32 key32_ok
  by (rule fixed_codec_bytes)

interpretation key64_codec: fixed_codec "\<lambda>b. olm_pickle_bytes b 64" "olm_unpickle_bytes 64" 64
    "\<lambda>b. length b = 64"
  by (rule fixed_codec_bytes)

interpretation curve25519_public_codec: fixed_codec olm_pickle_curve25519_public_key
    olm_unpickle_curve25519_public_key olm_pickle_curve25519_public_key_length key32_ok
  using fixed_codec_bytes [of 32]
  unfolding olm_unpickle_curve25519_public_key_def olm_pickle_curve25519_public_key_length_def
    olm_pickle_curve25519_public_key_def [abs_def] .

interpretation ed25519_public_codec: fixed_codec olm_pickle_ed25519_public_key
    olm_unpickle_ed25519_public_key olm_pickle_ed25519_public_key_length key32_ok
  using fixed_codec_bytes [of 32]
  unfolding olm_unpickle_ed25519_public_key_def olm_pickle_ed25519_public_key_length_def
    olm_pickle_ed25519_public_key_def [abs_def] .

lemmas unpickle_bytes_simps = olm_pickle_bytes_def olm_unpickle_bytes_eq on_field_def Let_def

interpretation curve25519_pair_codec: fixed_codec olm_pickle_curve25519_key_pair
    olm_unpickle_curve25519_key_pair olm_pickle_curve25519_key_pair_length curve25519_key_pair_ok
  by unfold_locales
    (auto simp: olm_pickle_curve25519_key_pair_def olm_unpickle_curve25519_key_pair_def
      olm_pickle_curve25519_key_pair_length_def curve25519_key_pair_ok_def then_unpickle_def
      unpickle_bytes_simps split: option.splits)

interpretation ed25519_pair_codec: fixed_codec olm_pickle_ed25519_key_pair
    olm_unpickle_ed25519_key_pair olm_pickle_ed25519_key_pair_length ed25519_key_pair_ok
  by unfold_locales
    (auto simp: olm_pickle_ed25519_key_pair_def olm_unpickle_ed25519_key_pair_def
      olm_pickle_ed25519_key_pair_length_def ed25519_key_pair_ok_def then_unpickle_def
      unpickle_bytes_simps split: option.splits)


section \<open>Properties\<close>

text \<open>A pickled list of Curve25519 keys is read back element by element, into an array
  that may hold anything, and reading stops right after it, whatever follows.\<close>

theorem list_pickle_roundtrip:
  assumes "list_ok cap l" "list_ok cap s" "0 < cap" "cap < 2 ^ 32"
    and "\<forall>v \<in> set (elems l). curve25519_key_pair_ok v"
    and "\<forall>v \<in> set (ol_data s). curve25519_key_pair_ok v"
  shows "\<exists>l'. list_unpickle olm_unpickle_curve25519_key_pair
      (list_pickle olm_pickle_curve25519_key_pair l @ rest) s = (l', Some rest)
    \<and> list_ok cap l' \<and> elems l' = elems l"
  using curve25519_pair_codec.list_unpickle_pickle [OF _ assms(3,4,1,5,2,6), of rest]
  by (simp add: olm_pickle_curve25519_key_pair_length_def) blast

lemma list_pickle_roundtrip_witness:
  "\<exists>l'. list_unpickle olm_unpickle_curve25519_key_pair
      (list_pickle olm_pickle_curve25519_key_pair
         \<lparr>ol_length = 1, ol_data = replicate 2 \<lparr>ckp_public_key = replicate 32 7, ckp_private_key = replicate 32 9\<rparr>\<rparr> @ [5])
      \<lparr>ol_length = 2, ol_data = replicate 2 \<lparr>ckp_public_key = zeros 32, ckp_private_key = zeros 32\<rparr>\<rparr> = (l', Some [5])
    \<and> list_ok 2 l' \<and> elems l' = elems \<lparr>ol_length = 1, ol_data = replicate 2 \<lparr>ckp_public_key = replicate 32 7, ckp_private_key = replicate 32 9\<rparr>\<rparr>"
  by (rule list_pickle_roundtrip) (simp_all add: list_ok_def elems_def curve25519_key_pair_ok_def)

text \<open>Unpickling a list never leaves its array: from any input bytes, for any item
  format and any number of elements the input claims, the list keeps its capacity and its
  length stays at most the capacity.\<close>

theorem list_unpickle_bounded:
  assumes "list_ok cap l"
  shows "list_ok cap (fst (list_unpickle unpickle pos l))"
  using assms by (rule list_ok_unpickle)

lemma list_unpickle_bounded_witness:
  "list_ok 1 (fst (list_unpickle olm_unpickle_uint8 [0, 0, 0, 9, 1, 2, 3] \<lparr>ol_length = 0, ol_data = [0]\<rparr>))"
  by (rule list_unpickle_bounded) (simp add: list_ok_def)

end
