(* ===== verification/Crypto.thy ===== *)
theory Crypto
  imports Aes_Cbc Memory Pickle
begin

text \<open>
  \<open>src/crypto.c\<close>: the primitives the protocol code calls.

  AES is the code of \<open>lib/aes-ct64\<close> (\<open>Aes_Cbc\<close>). The rest is libsodium, which is not part of
  the repository: a record \<open>sodium\<close> of functions is an argument of every definition that
  calls it. A function that fills an output of a fixed length gives it byte by byte, so that
  the length is fixed by the type of the model. What a theorem needs of libsodium beyond
  that is a named predicate on the record: \<open>dh_agrees\<close> (the two sides of a Diffie-Hellman
  exchange get the same secret), \<open>ed25519_verifies\<close> (the verification equation of RFC 8032
  is accepted for scalars that are not zero modulo the order of the group). Every call of \<open>ensure_sodium\<close> aborts the process when libsodium cannot be
  initialised; the models are of the runs where it can.
\<close>

section \<open>libsodium\<close>

record sodium =
  so_sha256 :: "bytes \<Rightarrow> nat \<Rightarrow> u8"
  so_sha512 :: "bytes \<Rightarrow> nat \<Rightarrow> u8"
  so_hmacsha256 :: "bytes \<Rightarrow> bytes \<Rightarrow> nat \<Rightarrow> u8"
  so_hkdf_sha256_extract :: "bytes \<Rightarrow> bytes \<Rightarrow> nat \<Rightarrow> u8"
  so_hkdf_sha256_expand :: "bytes \<Rightarrow> bytes \<Rightarrow> nat \<Rightarrow> u8"
  so_scalarmult_curve25519_base :: "bytes \<Rightarrow> nat \<Rightarrow> u8"
  so_scalarmult_curve25519 :: "bytes \<Rightarrow> bytes \<Rightarrow> nat \<Rightarrow> u8"
  so_scalarmult_ed25519_base_noclamp :: "bytes \<Rightarrow> nat \<Rightarrow> u8"
  so_ed25519_scalar_reduce :: "bytes \<Rightarrow> nat \<Rightarrow> u8"
  so_ed25519_scalar_mul :: "bytes \<Rightarrow> bytes \<Rightarrow> nat \<Rightarrow> u8"
  so_ed25519_scalar_add :: "bytes \<Rightarrow> bytes \<Rightarrow> nat \<Rightarrow> u8"
  so_sign_ed25519_verify_detached :: "bytes \<Rightarrow> bytes \<Rightarrow> bytes \<Rightarrow> bool"
  so_init :: bool
  so_aead_encrypt :: "bytes \<Rightarrow> bytes \<Rightarrow> bytes \<Rightarrow> (nat \<Rightarrow> u8) option"
  so_aead_decrypt :: "bytes \<Rightarrow> bytes \<Rightarrow> bytes \<Rightarrow> (nat \<Rightarrow> u8) option"

text \<open>The \<open>n\<close> bytes of an output.\<close>

definition out_bytes :: "nat \<Rightarrow> (nat \<Rightarrow> u8) \<Rightarrow> bytes" where
  "out_bytes n f = map f [0..<n]"

lemma length_out_bytes [simp]: "length (out_bytes n f) = n"
  by (simp add: out_bytes_def)

section \<open>Hashes\<close>

abbreviation AES256_KEY_LENGTH :: nat where "AES256_KEY_LENGTH \<equiv> 32"
abbreviation AES256_IV_LENGTH :: nat where "AES256_IV_LENGTH \<equiv> 16"
abbreviation AES_BLOCK_LENGTH :: nat where "AES_BLOCK_LENGTH \<equiv> 16"

definition olm_crypto_sha256 :: "sodium \<Rightarrow> bytes \<Rightarrow> bytes" where
  "olm_crypto_sha256 S input = out_bytes SHA256_OUTPUT_LENGTH (so_sha256 S input)"

definition olm_crypto_hmac_sha256 :: "sodium \<Rightarrow> bytes \<Rightarrow> bytes \<Rightarrow> bytes" where
  "olm_crypto_hmac_sha256 S key input = out_bytes SHA256_OUTPUT_LENGTH (so_hmacsha256 S key input)"

text \<open>
  The last argument is the output buffer as it was. libsodium's expansion gives at most 255
  blocks of 32 bytes (\<open>crypto_kdf_hkdf_sha256_BYTES_MAX\<close>): it fails for more and writes
  nothing then, and \<open>_olm_crypto_hkdf_sha256\<close> does not look at its result. The callers with a
  buffer on their stack pass \<open>zeros n\<close>, which is overwritten.
\<close>

definition HKDF_BYTES_MAX :: nat where "HKDF_BYTES_MAX = 255 * 32"

definition olm_crypto_hkdf_sha256 :: "sodium \<Rightarrow> bytes \<Rightarrow> bytes \<Rightarrow> bytes \<Rightarrow> bytes \<Rightarrow> bytes" where
  "olm_crypto_hkdf_sha256 S input salt info output =
     (let prk = out_bytes 32 (so_hkdf_sha256_extract S salt input)
      in if HKDF_BYTES_MAX < length output then output
         else out_bytes (length output) (so_hkdf_sha256_expand S info prk))"

lemma length_hashes [simp]:
  "length (olm_crypto_sha256 S x) = 32" "length (olm_crypto_hmac_sha256 S k x) = 32"
  "length (olm_crypto_hkdf_sha256 S i s j b) = length b"
  by (simp_all add: olm_crypto_sha256_def olm_crypto_hmac_sha256_def olm_crypto_hkdf_sha256_def Let_def)

text \<open>What was in the buffer does not matter up to the limit.\<close>

lemma hkdf_sha256_buffer:
  "length b = length b' \<Longrightarrow> length b \<le> HKDF_BYTES_MAX \<Longrightarrow>
   olm_crypto_hkdf_sha256 S i s j b = olm_crypto_hkdf_sha256 S i s j b'"
  by (simp add: olm_crypto_hkdf_sha256_def Let_def)

section \<open>Curve25519\<close>

definition olm_crypto_curve25519_generate_key :: "sodium \<Rightarrow> bytes \<Rightarrow> curve25519_key_pair" where
  "olm_crypto_curve25519_generate_key S random_32_bytes =
     (let private = take CURVE25519_KEY_LENGTH random_32_bytes
      in \<lparr>ckp_public_key = out_bytes 32 (so_scalarmult_curve25519_base S private),
          ckp_private_key = private\<rparr>)"

definition olm_crypto_curve25519_shared_secret ::
    "sodium \<Rightarrow> curve25519_key_pair \<Rightarrow> bytes \<Rightarrow> bytes" where
  "olm_crypto_curve25519_shared_secret S our_key their_key =
     out_bytes 32 (so_scalarmult_curve25519 S (ckp_private_key our_key) their_key)"

lemma length_curve25519 [simp]:
  "length (olm_crypto_curve25519_shared_secret S k t) = 32"
  "length (ckp_public_key (olm_crypto_curve25519_generate_key S r)) = 32"
  "32 \<le> length r \<Longrightarrow> length (ckp_private_key (olm_crypto_curve25519_generate_key S r)) = 32"
  by (simp_all add: olm_crypto_curve25519_shared_secret_def olm_crypto_curve25519_generate_key_def
      Let_def)

lemma generate_key_ok:
  "32 \<le> length r \<Longrightarrow> curve25519_key_pair_ok (olm_crypto_curve25519_generate_key S r)"
  by (simp add: curve25519_key_pair_ok_def)

text \<open>What X25519 is for: both sides compute the same secret.\<close>

definition dh_agrees :: "sodium \<Rightarrow> bool" where
  "dh_agrees S \<longleftrightarrow> (\<forall>a b. length a = 32 \<longrightarrow> length b = 32 \<longrightarrow>
     out_bytes 32 (so_scalarmult_curve25519 S a (out_bytes 32 (so_scalarmult_curve25519_base S b))) =
     out_bytes 32 (so_scalarmult_curve25519 S b (out_bytes 32 (so_scalarmult_curve25519_base S a))))"

text \<open>A key pair whose public key belongs to its private key.\<close>

definition curve25519_pair :: "sodium \<Rightarrow> curve25519_key_pair \<Rightarrow> bool" where
  "curve25519_pair S k \<longleftrightarrow> length (ckp_private_key k) = 32 \<and>
     ckp_public_key k = out_bytes 32 (so_scalarmult_curve25519_base S (ckp_private_key k))"

lemma generate_key_pair: "32 \<le> length r \<Longrightarrow> curve25519_pair S (olm_crypto_curve25519_generate_key S r)"
  by (simp add: curve25519_pair_def olm_crypto_curve25519_generate_key_def Let_def)

lemma shared_secret_agrees:
  "dh_agrees S \<Longrightarrow> curve25519_pair S a \<Longrightarrow> curve25519_pair S b \<Longrightarrow>
   olm_crypto_curve25519_shared_secret S a (ckp_public_key b) =
   olm_crypto_curve25519_shared_secret S b (ckp_public_key a)"
  by (simp add: dh_agrees_def curve25519_pair_def olm_crypto_curve25519_shared_secret_def)

lemma curve25519_pair_ok: "curve25519_pair S k \<Longrightarrow> curve25519_key_pair_ok k"
  by (simp add: curve25519_pair_def curve25519_key_pair_ok_def)

section \<open>Ed25519\<close>

definition reduce_scalar :: "sodium \<Rightarrow> bytes \<Rightarrow> bytes" where
  "reduce_scalar S scalar = out_bytes 32 (so_ed25519_scalar_reduce S (take 32 scalar @ zeros 32))"

definition clamp :: "bytes \<Rightarrow> bytes" where
  "clamp k =
     (let k = k[0 := k ! 0 AND 248];
          k = k[31 := k ! 31 AND 63]
      in k[31 := k ! 31 OR 64])"

definition olm_crypto_ed25519_generate_key :: "sodium \<Rightarrow> bytes \<Rightarrow> ed25519_key_pair" where
  "olm_crypto_ed25519_generate_key S random_32_bytes =
     (let private = out_bytes 64 (so_sha512 S (take ED25519_RANDOM_LENGTH random_32_bytes));
          private = clamp private;
          reduced = reduce_scalar S private
      in \<lparr>ekp_public_key = out_bytes 32 (so_scalarmult_ed25519_base_noclamp S reduced),
          ekp_private_key = private\<rparr>)"

definition olm_crypto_ed25519_sign :: "sodium \<Rightarrow> ed25519_key_pair \<Rightarrow> bytes \<Rightarrow> bytes" where
  "olm_crypto_ed25519_sign S our_key message =
     (let hash = out_bytes 64 (so_sha512 S (read_at (ekp_private_key our_key) 32 32 @ message));
          r = out_bytes 32 (so_ed25519_scalar_reduce S hash);
          output = out_bytes 32 (so_scalarmult_ed25519_base_noclamp S r);
          hash = out_bytes 64 (so_sha512 S (output @ ekp_public_key our_key @ message));
          hram = out_bytes 32 (so_ed25519_scalar_reduce S hash);
          a = reduce_scalar S (ekp_private_key our_key);
          s = out_bytes 32 (so_ed25519_scalar_mul S hram a)
      in output @ out_bytes 32 (so_ed25519_scalar_add S s r))"

definition olm_crypto_ed25519_verify :: "sodium \<Rightarrow> bytes \<Rightarrow> bytes \<Rightarrow> bytes \<Rightarrow> bool" where
  "olm_crypto_ed25519_verify S their_key message signature =
     so_sign_ed25519_verify_detached S signature message their_key"

lemma clamp_eq: "clamp k = k[0 := k ! 0 AND 248, 31 := (k ! 31 AND 63) OR 64]"
proof (cases "31 < length k")
  case False
  then show ?thesis by (cases k) (simp_all add: clamp_def Let_def list_update_beyond)
qed (simp add: clamp_def Let_def)

lemma length_clamp [simp]: "length (clamp k) = length k"
  by (simp add: clamp_eq)

lemma length_ed25519 [simp]:
  "length (olm_crypto_ed25519_sign S k m) = 64"
  "length (ekp_public_key (olm_crypto_ed25519_generate_key S r)) = 32"
  "length (ekp_private_key (olm_crypto_ed25519_generate_key S r)) = 64"
  by (simp_all add: olm_crypto_ed25519_sign_def olm_crypto_ed25519_generate_key_def Let_def)

subsection \<open>Scalars\<close>

text \<open>The number 32 or 64 bytes stand for, and the order of the group of Ed25519.\<close>

fun le_value :: "bytes \<Rightarrow> nat" where
  "le_value [] = 0"
| "le_value (b # x) = unat b + 256 * le_value x"

abbreviation ed25519_order :: nat where
  "ed25519_order \<equiv> 2 ^ 252 + 27742317777372353535851937790883648493"

lemma le_value_append [simp]: "le_value (x @ y) = le_value x + 256 ^ length x * le_value y"
  by (induction x) (simp_all add: algebra_simps)

lemma le_value_zeros [simp]: "le_value (zeros n) = 0"
  by (induction n) simp_all

lemma le_value_less: "le_value x < 256 ^ length x"
proof (induction x)
  case (Cons b x)
  have "unat b < 256" using unsigned_less [of b] by simp
  moreover have "256 * le_value x + 256 \<le> 256 * 256 ^ length x" using Cons by simp
  ultimately show ?case unfolding le_value.simps length_Cons power_Suc by linarith
qed simp

lemma le_value_out_bytes: "le_value (out_bytes n (\<lambda>i. of_nat (v div 256 ^ i))) = v mod 256 ^ n"
proof (induction n)
  case (Suc n)
  have "v mod 256 ^ Suc n = v mod 256 ^ n + 256 ^ n * (v div 256 ^ n mod 256)"
    by (simp add: mod_mult2_eq power_Suc2 del: power_Suc)
  moreover have "unat (of_nat w :: u8) = w mod 256" for w
    by (simp add: unsigned_of_nat take_bit_eq_mod)
  ultimately show ?case using Suc by (simp add: out_bytes_def)
qed (simp add: out_bytes_def)

text \<open>
  What verification needs of libsodium. \<open>crypto_core_ed25519_scalar_reduce\<close> gives the number
  modulo the order. A signature \<open>R @ (h a + r)\<close> with \<open>R = r B\<close>, \<open>A = a B\<close> and \<open>h\<close> the reduced
  hash of \<open>R @ A @ message\<close> is accepted under \<open>A\<close> when \<open>a\<close> and \<open>r\<close> are reduced scalars other
  than zero: for zero \<open>A\<close> or \<open>R\<close> is the neutral element, which
  \<open>crypto_sign_ed25519_verify_detached\<close> refuses as a point of small order.
\<close>

definition reduces_scalars :: "sodium \<Rightarrow> bool" where
  "reduces_scalars S \<longleftrightarrow> (\<forall>x. length x = 64 \<longrightarrow>
     le_value (out_bytes 32 (so_ed25519_scalar_reduce S x)) = le_value x mod ed25519_order)"

definition ed25519_verifies :: "sodium \<Rightarrow> bool" where
  "ed25519_verifies S \<longleftrightarrow> reduces_scalars S \<and> (\<forall>x y message. length x = 64 \<longrightarrow> length y = 64 \<longrightarrow>
     (let a = out_bytes 32 (so_ed25519_scalar_reduce S x);
          r = out_bytes 32 (so_ed25519_scalar_reduce S y);
          R = out_bytes 32 (so_scalarmult_ed25519_base_noclamp S r);
          A = out_bytes 32 (so_scalarmult_ed25519_base_noclamp S a);
          h = out_bytes 32 (so_ed25519_scalar_reduce S (out_bytes 64 (so_sha512 S (R @ A @ message))))
      in a \<noteq> zeros 32 \<longrightarrow> r \<noteq> zeros 32 \<longrightarrow>
         so_sign_ed25519_verify_detached S
          (R @ out_bytes 32 (so_ed25519_scalar_add S (out_bytes 32 (so_ed25519_scalar_mul S h a)) r))
          message A))"

text \<open>
  The nonce \<open>r\<close> of a signature. It is a hash that reduces to zero for one message in \<open>2 ^ 252\<close>;
  the code does not look, and such a signature does not verify.
\<close>

definition sign_nonce :: "sodium \<Rightarrow> ed25519_key_pair \<Rightarrow> bytes \<Rightarrow> bytes" where
  "sign_nonce S our_key message = out_bytes 32 (so_ed25519_scalar_reduce S
     (out_bytes 64 (so_sha512 S (read_at (ekp_private_key our_key) 32 32 @ message))))"

definition signs :: "sodium \<Rightarrow> ed25519_key_pair \<Rightarrow> bytes \<Rightarrow> bool" where
  "signs S our_key message \<longleftrightarrow> sign_nonce S our_key message \<noteq> zeros 32"

definition ed25519_pair :: "sodium \<Rightarrow> ed25519_key_pair \<Rightarrow> bool" where
  "ed25519_pair S k \<longleftrightarrow> length (ekp_private_key k) = 64 \<and>
     ekp_public_key k =
       out_bytes 32 (so_scalarmult_ed25519_base_noclamp S (reduce_scalar S (ekp_private_key k)))"

lemma ed25519_generate_pair: "ed25519_pair S (olm_crypto_ed25519_generate_key S r)"
  by (simp add: ed25519_pair_def olm_crypto_ed25519_generate_key_def Let_def)

text \<open>
  A key pair as \<open>_olm_crypto_ed25519_generate_key\<close> makes it: the private scalar is clamped, and a
  clamped scalar is never zero modulo the order.
\<close>

definition ed25519_key :: "sodium \<Rightarrow> ed25519_key_pair \<Rightarrow> bool" where
  "ed25519_key S k \<longleftrightarrow> ed25519_pair S k \<and> clamp (ekp_private_key k) = ekp_private_key k"

lemma clamp_clamp: "clamp (clamp k) = clamp k"
proof -
  have a: "(b AND 248) AND 248 = b AND 248" and o: "((b AND 63) OR 64) AND 63 OR 64 = (b AND 63) OR 64" for b :: u8
    by (auto intro!: bit_word_eqI simp: bit_simps)
  show ?thesis
  proof (cases "31 < length k")
    case True
    moreover from True have "0 < length k" by linarith
    ultimately show ?thesis by (simp add: clamp_eq a o list_update_swap [of 31 0])
  next
    case False
    then have "k[31 := b] = k" for b by (simp add: list_update_beyond)
    moreover have "k[0 := c, 31 := b] = k[0 := c]" for b c using False by (simp add: list_update_beyond)
    ultimately show ?thesis by (cases k) (simp_all add: clamp_eq a)
  qed
qed

lemma ed25519_generate_key: "ed25519_key S (olm_crypto_ed25519_generate_key S r)"
  using ed25519_generate_pair [of S r]
  by (simp add: ed25519_key_def olm_crypto_ed25519_generate_key_def Let_def clamp_clamp)

lemma clamped_value:
  assumes l: "length k = 64" and c: "clamp k = k"
  shows "8 dvd le_value (take 32 k)" "2 ^ 254 \<le> le_value (take 32 k)" "le_value (take 32 k) < 2 ^ 255"
proof -
  have n0: "k ! 0 = k ! 0 AND 248"
    using arg_cong [OF c, of "\<lambda>x. x ! 0"] l by (auto simp: clamp_eq nth_list_update)
  have n31: "k ! 31 = (k ! 31 AND 63) OR 64"
    using arg_cong [OF c, of "\<lambda>x. x ! 31"] l by (auto simp: clamp_eq nth_list_update)
  obtain b k' where k: "k = b # k'" using l by (cases k) auto
  have "take_bit 3 (b AND 248) = 0" by (auto intro!: bit_word_eqI simp: bit_simps)
  then have "take_bit 3 b = 0" using n0 k by (metis nth_Cons_0)
  then have "take_bit 3 (unat b) = 0" by (metis unsigned_take_bit_eq unsigned_0)
  then have "8 dvd unat b" by (simp add: take_bit_eq_mod mod_eq_0_iff_dvd)
  then show "8 dvd le_value (take 32 k)" by (simp add: k dvd_add)
  have t: "take 32 k = take 31 k @ [k ! 31]" using l take_Suc_conv_app_nth [of 31 k] by simp
  have b: "unat (k ! 31) = 64 + unat (k ! 31 AND 63)" "unat (k ! 31 AND 63) < 64"
  proof -
    let ?x = "k ! 31 AND 63"
    have t: "?x = take_bit 6 (k ! 31)" by (simp add: take_bit_eq_mask mask_eq_exp_minus_1)
    then have less: "unat ?x < 64"
      using take_bit_nat_less_exp [of 6 "unat (k ! 31)"] by (simp add: unsigned_take_bit_eq)
    have "?x OR 64 = ?x + 64"
    proof (rule disjunctive_add [symmetric])
      fix n
      have "(64 :: u8) = 2 ^ 6" by simp
      then have "bit (64 :: u8) n \<Longrightarrow> n = 6" by (simp only: bit_exp_iff)
      then show "\<not> bit ?x n \<or> \<not> bit (64 :: u8) n" unfolding t by (auto simp: bit_take_bit_iff)
    qed
    moreover have "unat (?x + 64) = unat ?x + 64" using less by (simp add: unat_word_ariths)
    ultimately show "unat (k ! 31) = 64 + unat ?x" using n31 by simp
    show "unat ?x < 64" by (rule less)
  qed
  have v: "le_value (take 32 k) = le_value (take 31 k) + 256 ^ 31 * (64 + unat (k ! 31 AND 63))"
    unfolding t using l b(1) by simp
  show "2 ^ 254 \<le> le_value (take 32 k)" unfolding v by simp
  have "le_value (take 31 k) < 256 ^ 31" using le_value_less [of "take 31 k"] l by simp
  moreover have "256 ^ 31 * (64 + unat (k ! 31 AND 63)) \<le> 256 ^ 31 * (127 :: nat)" using b(2) by simp
  ultimately show "le_value (take 32 k) < 2 ^ 255" unfolding v by simp
qed

lemma clamped_not_zero:
  assumes S: "reduces_scalars S" and l: "length k = 64" and c: "clamp k = k"
  shows "reduce_scalar S k \<noteq> zeros 32"
proof
  assume "reduce_scalar S k = zeros 32"
  then have "le_value (reduce_scalar S k) = 0" by simp
  then have "le_value (take 32 k) mod ed25519_order = 0"
    using S l unfolding reduces_scalars_def reduce_scalar_def by simp
  then have "ed25519_order dvd le_value (take 32 k)" by (rule mod_0_imp_dvd)
  moreover have "coprime (2 ^ 3) ed25519_order" unfolding coprime_power_left_iff by simp
  then have "coprime 8 ed25519_order" by simp
  ultimately have "8 * ed25519_order dvd le_value (take 32 k)"
    using clamped_value(1) [OF l c] by (intro divides_mult)
  then have "8 * ed25519_order \<le> le_value (take 32 k)"
    using clamped_value(2) [OF l c] by (auto dest: dvd_imp_le)
  then show False using clamped_value(3) [OF l c] by simp
qed

lemma ed25519_verify_sign:
  assumes S: "ed25519_verifies S" and k: "ed25519_key S k" and m: "signs S k message"
  shows "olm_crypto_ed25519_verify S (ekp_public_key k) message (olm_crypto_ed25519_sign S k message)"
proof -
  have "reduce_scalar S (ekp_private_key k) \<noteq> zeros 32"
    using S k by (intro clamped_not_zero) (simp_all add: ed25519_verifies_def ed25519_key_def ed25519_pair_def)
  then show ?thesis
    using S k m
    by (simp add: ed25519_verifies_def ed25519_key_def ed25519_pair_def olm_crypto_ed25519_verify_def
        olm_crypto_ed25519_sign_def signs_def sign_nonce_def reduce_scalar_def Let_def)
qed

section \<open>AES-256-CBC with padding\<close>

definition olm_crypto_aes_encrypt_cbc_length :: "nat \<Rightarrow> nat" where
  "olm_crypto_aes_encrypt_cbc_length input_length =
     size_sub (size_add input_length AES_BLOCK_LENGTH) (input_length mod AES_BLOCK_LENGTH)"

text \<open>
  The output buffer is \<open>m\<close> from \<open>out\<close> on. The code copies the input there first
  (\<open>memmove\<close>: it may lie in the same buffer), pads it, and encrypts in place.
\<close>

definition olm_crypto_aes_encrypt_cbc :: "bytes \<Rightarrow> bytes \<Rightarrow> bytes \<Rightarrow> bytes \<Rightarrow> nat \<Rightarrow> bytes" where
  "olm_crypto_aes_encrypt_cbc key iv input m out =
     (let input_length = length input;
          padded_length = olm_crypto_aes_encrypt_cbc_length input_length;
          keys = aes_ct64_cbcenc_init key AES256_KEY_LENGTH;
          pad = AES_BLOCK_LENGTH - input_length mod AES_BLOCK_LENGTH;
          m = write_at m out input;
          m = write_at m (out + input_length)
                (replicate (padded_length - input_length) (of_nat pad));
          (_, data) = aes_ct64_cbcenc_run keys (\<lambda>_ _. 0) iv (read_at m out padded_length)
      in write_at m out data)"

text \<open>Returns \<open>SIZE_MAX\<close> (\<open>None\<close>) or the length of the plaintext without the padding.\<close>

definition olm_crypto_aes_decrypt_cbc ::
    "bytes \<Rightarrow> bytes \<Rightarrow> bytes \<Rightarrow> bytes \<Rightarrow> nat \<Rightarrow> bytes \<times> nat option" where
  "olm_crypto_aes_decrypt_cbc key iv input m out =
     (let input_length = length input in
      if input_length = 0 \<or> input_length mod AES_BLOCK_LENGTH \<noteq> 0 then (m, None)
      else let keys = aes_ct64_cbcdec_init key AES256_KEY_LENGTH;
               m = write_at m out input;
               (_, data) = aes_ct64_cbcdec_run keys (\<lambda>_ _. 0) iv (read_at m out input_length);
               m = write_at m out data;
               padding = unat (m ! (out + (input_length - 1)))
           in (m, if input_length < padding then None else Some (input_length - padding)))"

text \<open>The ciphertext of an input, as a function.\<close>

definition cbc_padded :: "bytes \<Rightarrow> bytes" where
  "cbc_padded x = x @ replicate (16 - length x mod 16) (of_nat (16 - length x mod 16))"

definition aes_cbc_ciphertext :: "bytes \<Rightarrow> bytes \<Rightarrow> bytes \<Rightarrow> bytes" where
  "aes_cbc_ciphertext key iv x =
     snd (aes_ct64_cbcenc_run (aes_ct64_cbcenc_init key 32) (\<lambda>_ _. 0) iv (cbc_padded x))"

lemma aes_encrypt_cbc_length_eq [size_arith]:
  "n + 16 < 2 ^ 64 \<Longrightarrow> olm_crypto_aes_encrypt_cbc_length n = n + (16 - n mod 16)"
proof -
  assume "n + 16 < 2 ^ 64"
  moreover have "n mod 16 < 16" by simp
  ultimately show ?thesis
    by (simp add: olm_crypto_aes_encrypt_cbc_length_def size_add_exact size_sub_exact)
qed

lemma length_cbc_padded: "length (cbc_padded x) = length x + (16 - length x mod 16)"
  by (simp add: cbc_padded_def)

lemma length_cbc_padded_dvd: "16 dvd length (cbc_padded x)"
proof -
  have "length x mod 16 + (16 - length x mod 16) = (16 :: nat)" by simp
  then have "length x + (16 - length x mod 16) = 16 * (length x div 16) + 16"
    using div_mult_mod_eq [of "length x" 16] by linarith
  then show ?thesis by (simp add: length_cbc_padded)
qed

lemma length_aes_cbc_ciphertext:
  "length (aes_cbc_ciphertext key iv x) = length x + (16 - length x mod 16)"
  unfolding aes_cbc_ciphertext_def
  by (subst length_cbcenc_run [OF length_cbc_padded_dvd]) (rule length_cbc_padded)

lemma aes_encrypt_cbc_eq:
  assumes "length x + 16 < 2 ^ 64" and "out + (length x + (16 - length x mod 16)) \<le> length m"
  shows "olm_crypto_aes_encrypt_cbc key iv x m out = write_at m out (aes_cbc_ciphertext key iv x)"
proof -
  let ?n = "length x + (16 - length x mod 16)"
  have n: "olm_crypto_aes_encrypt_cbc_length (length x) = ?n"
    using assms(1) by (rule aes_encrypt_cbc_length_eq)
  have "write_at (write_at m out x) (out + length x)
      (replicate (?n - length x) (of_nat (16 - length x mod 16))) = write_at m out (cbc_padded x)"
    using assms(2) by (subst write_at_write_at_adj) (auto simp: cbc_padded_def)
  moreover have "read_at (write_at m out (cbc_padded x)) out ?n = cbc_padded x"
    using assms(2) by (intro read_write_at_same) (auto simp: length_cbc_padded)
  moreover have "write_at (write_at m out (cbc_padded x)) out (aes_cbc_ciphertext key iv x) =
      write_at m out (aes_cbc_ciphertext key iv x)"
    using assms(2)
    by (simp add: write_at_def length_aes_cbc_ciphertext length_cbc_padded)
  ultimately show ?thesis
    unfolding olm_crypto_aes_encrypt_cbc_def Let_def n case_prod_unfold aes_cbc_ciphertext_def
    by simp
qed

lemma write_at_write_at_same:
  "length as = length bs \<Longrightarrow> p + length bs \<le> length m \<Longrightarrow> write_at (write_at m p as) p bs = write_at m p bs"
  by (simp add: write_at_def)

lemma read_at_nth: "i < n \<Longrightarrow> p + n \<le> length m \<Longrightarrow> read_at m p n ! i = m ! (p + i)"
  by (simp add: read_at_def)

lemma last_cbc_padded: "cbc_padded x ! (length (cbc_padded x) - 1) = of_nat (16 - length x mod 16)"
proof -
  have "cbc_padded x ! (length (cbc_padded x) - 1) = last (cbc_padded x)"
    by (subst last_conv_nth) (simp_all add: cbc_padded_def)
  also have "\<dots> = of_nat (16 - length x mod 16)"
    by (simp add: cbc_padded_def)
  finally show ?thesis .
qed

lemma aes_decrypt_cbc_eq:
  assumes "length iv = 16" and c: "c = aes_cbc_ciphertext key iv x" and "out + length c \<le> length m"
  shows "olm_crypto_aes_decrypt_cbc key iv c m out = (write_at m out (cbc_padded x), Some (length x))"
proof -
  have l: "length c = length (cbc_padded x)"
    by (simp add: c length_aes_cbc_ciphertext length_cbc_padded)
  have pos: "0 < length c" by (simp add: l length_cbc_padded)
  have mod: "length c mod 16 = 0" using length_cbc_padded_dvd [of x] by (simp add: l)
  have r: "read_at (write_at m out c) out (length c) = c" using assms(3) by simp
  have d: "snd (aes_ct64_cbcdec_run (aes_ct64_cbcdec_init key 32) (\<lambda>_ _. 0) iv c) = cbc_padded x"
    unfolding c aes_cbc_ciphertext_def
    using length_cbc_padded_dvd assms(1) by (rule cbcdec_run_cbcenc_run)
  have w: "write_at (write_at m out c) out (cbc_padded x) = write_at m out (cbc_padded x)"
    using assms(3) l by (intro write_at_write_at_same) simp_all
  have "write_at m out (cbc_padded x) ! (out + (length c - 1)) =
      read_at (write_at m out (cbc_padded x)) out (length c) ! (length c - 1)"
    by (rule read_at_nth [symmetric]) (use assms(3) l pos in simp_all)
  also have "\<dots> = cbc_padded x ! (length (cbc_padded x) - 1)"
    using assms(3) l by simp
  also have "\<dots> = of_nat (16 - length x mod 16)" by (rule last_cbc_padded)
  finally have last: "write_at m out (cbc_padded x) ! (out + (length c - 1)) = of_nat (16 - length x mod 16)" .
  define pad where "pad = 16 - length x mod 16"
  have "pad \<le> 16" by (simp add: pad_def)
  then have "unat (of_nat pad :: u8) = pad"
    by (simp add: unsigned_of_nat take_bit_nat_eq_self)
  moreover have "length c = length x + pad" by (simp add: l length_cbc_padded pad_def)
  ultimately show ?thesis
    unfolding olm_crypto_aes_decrypt_cbc_def Let_def case_prod_unfold r d w last [folded pad_def]
    using pos mod by simp
qed

lemma length_aes_decrypt_cbc:
  assumes "out + length c \<le> length m" "length iv = 16"
  shows "length (fst (olm_crypto_aes_decrypt_cbc key iv c m out)) = length m"
proof -
  have "length (snd (aes_ct64_cbcdec_run (aes_ct64_cbcdec_init key 32) (\<lambda>_ _. 0) iv c)) = length c"
    if "length c mod 16 = 0"
    using assms(2) that by (intro length_cbcdec_run) auto
  then show ?thesis
    using assms(1) by (auto simp: olm_crypto_aes_decrypt_cbc_def Let_def case_prod_unfold)
qed

text \<open>A plaintext is never longer than the ciphertext, and the bytes after it are not touched.\<close>

lemma aes_decrypt_cbc_bound:
  "snd (olm_crypto_aes_decrypt_cbc key iv c m out) = Some n \<Longrightarrow> n \<le> length c"
  by (auto simp: olm_crypto_aes_decrypt_cbc_def Let_def case_prod_unfold split: if_splits)

section \<open>Padding\<close>

text \<open>
  The header says that decryption fails on bad padding. The code only looks at the last
  byte, and accepts whatever is at most the length of the input.
\<close>

lemma aes_decrypt_cbc_padding:
  assumes "length c mod 16 = 0" "c \<noteq> []" "length iv = 16"
    and d: "d = snd (aes_ct64_cbcdec_run (aes_ct64_cbcdec_init key 32) (\<lambda>_ _. 0) iv c)"
  shows "olm_crypto_aes_decrypt_cbc key iv c m 0 =
    (write_at (write_at m 0 c) 0 d, if length c < unat (last d) then None else Some (length c - unat (last d)))"
proof -
  have l: "length d = length c" unfolding d using assms(1,3) by (intro length_cbcdec_run) auto
  have "d \<noteq> []" using l assms(2) by auto
  then have "write_at (write_at m 0 c) 0 d ! (length c - 1) = last d"
    using assms(2) by (simp add: write_at_def nth_append last_conv_nth l)
  moreover have "read_at (write_at m 0 c) 0 (length c) = c" by (simp add: read_at_def write_at_def)
  ultimately show ?thesis
    using assms(1,2) unfolding d by (simp add: olm_crypto_aes_decrypt_cbc_def Let_def case_prod_unfold)
qed


section \<open>A sample instance\<close>

text \<open>A libsodium of toy functions, which the named predicates hold for.\<close>

definition sample_sodium :: sodium where
  "sample_sodium =
     \<lparr>so_sha256 = (\<lambda>x i. of_nat (length x + i)),
      so_sha512 = (\<lambda>x i. if i < 31 then of_nat (length x + 2 * i) else 0),
      so_hmacsha256 = (\<lambda>k x i. of_nat (length k + length x + i)),
      so_hkdf_sha256_extract = (\<lambda>s x i. of_nat (length s + length x + i)),
      so_hkdf_sha256_expand = (\<lambda>f p i. of_nat (length f + length p + i)),
      so_scalarmult_curve25519_base = (\<lambda>a i. a ! i),
      so_scalarmult_curve25519 = (\<lambda>a b i. a ! i XOR b ! i),
      so_scalarmult_ed25519_base_noclamp = (\<lambda>a i. a ! i),
      so_ed25519_scalar_reduce = (\<lambda>a i. of_nat (le_value a mod ed25519_order div 256 ^ i)),
      so_ed25519_scalar_mul = (\<lambda>a b i. a ! i * b ! i),
      so_ed25519_scalar_add = (\<lambda>a b i. a ! i + b ! i),
      so_sign_ed25519_verify_detached = (\<lambda>s m k. True),
      so_init = True,
      so_aead_encrypt = (\<lambda>m n k. Some (\<lambda>i. if i < length m then m ! i else 0)),
      so_aead_decrypt = (\<lambda>c n k. Some (\<lambda>i. c ! i))\<rparr>"

lemma nth_out_bytes [simp]: "i < n \<Longrightarrow> out_bytes n f ! i = f i"
  by (simp add: out_bytes_def)

lemma sample_dh_agrees: "dh_agrees sample_sodium"
  unfolding dh_agrees_def
  by (intro allI impI nth_equalityI) (simp_all add: sample_sodium_def xor.commute)

lemma sample_ed25519_verifies: "ed25519_verifies sample_sodium"
proof -
  have "v mod ed25519_order mod 256 ^ 32 = v mod ed25519_order" for v :: nat
    by (rule mod_less, rule less_trans [OF mod_less_divisor]) simp_all
  then have "reduces_scalars sample_sodium"
    unfolding reduces_scalars_def sample_sodium_def sodium.simps le_value_out_bytes by simp
  then show ?thesis
    unfolding ed25519_verifies_def by (simp add: sample_sodium_def Let_def)
qed

text \<open>The sample's hash ends in zeros, so that it is less than the order, and is not zero.\<close>

lemma out_bytes_add: "out_bytes (m + n) f = out_bytes m f @ out_bytes n (\<lambda>i. f (m + i))"
  by (rule nth_equalityI) (auto simp: nth_append)

lemma sample_hash_not_zero: "le_value (out_bytes 2 (\<lambda>i. of_nat (n + 2 * i))) \<noteq> 0"
proof -
  define c where "c = (of_nat n :: u8)"
  have "out_bytes 2 (\<lambda>i. of_nat (n + 2 * i)) = [c, c + 2]"
    by (simp add: out_bytes_def numeral_2_eq_2 c_def)
  then show ?thesis by (auto simp: unsigned_eq_0_iff)
qed

lemma sample_signs: "signs sample_sodium k message"
  unfolding signs_def
proof
  let ?x = "read_at (ekp_private_key k) 32 32 @ message"
  let ?h = "out_bytes 64 (so_sha512 sample_sodium ?x)"
  let ?f = "\<lambda>i. of_nat (length ?x + 2 * i) :: u8"
  assume "sign_nonce sample_sodium k message = zeros 32"
  then have "le_value (sign_nonce sample_sodium k message) = 0" by simp
  moreover have "reduces_scalars sample_sodium"
    using sample_ed25519_verifies by (simp add: ed25519_verifies_def)
  ultimately have z: "le_value ?h mod ed25519_order = 0"
    by (simp add: reduces_scalars_def sign_nonce_def)
  have h: "?h = out_bytes 31 ?f @ zeros 33"
    by (rule nth_equalityI) (auto simp: nth_append sample_sodium_def)
  have "le_value ?h < 256 ^ 31" using le_value_less [of "out_bytes 31 ?f"] unfolding h by simp
  then have "le_value ?h = 0" using z by simp
  moreover have "out_bytes 31 ?f = out_bytes 2 ?f @ out_bytes 29 (\<lambda>i. ?f (2 + i))"
    using out_bytes_add [of 2 29 ?f] by simp
  ultimately have "le_value (out_bytes 2 ?f) = 0" unfolding h by simp
  then show False using sample_hash_not_zero [of "length ?x"] by blast
qed

section \<open>Properties\<close>

text \<open>A signature made with a generated key pair verifies under its public key, for every
  seed, and for every message whose nonce is not zero: \<open>_olm_crypto_ed25519_sign\<close>, which works
  on the expanded private key with libsodium's scalar arithmetic, meets the equation that
  verification checks.\<close>

theorem ed25519_sign_verifies:
  assumes "ed25519_verifies S" "signs S (olm_crypto_ed25519_generate_key S seed) message"
  shows "(let k = olm_crypto_ed25519_generate_key S seed
          in olm_crypto_ed25519_verify S (ekp_public_key k) message (olm_crypto_ed25519_sign S k message))"
  using assms ed25519_generate_key by (simp add: ed25519_verify_sign Let_def)

lemma ed25519_sign_verifies_witness:
  "(let k = olm_crypto_ed25519_generate_key sample_sodium (zeros 32)
    in olm_crypto_ed25519_verify sample_sodium (ekp_public_key k) [1, 2]
         (olm_crypto_ed25519_sign sample_sodium k [1, 2]))"
  by (rule ed25519_sign_verifies [OF sample_ed25519_verifies sample_signs])

end
