(* ===== verification/Cipher.thy ===== *)
theory Cipher
  imports Crypto
begin

text \<open>
  \<open>src/cipher.c\<close>: the cipher behind the \<open>_olm_cipher_ops\<close> table that messages, pickles and
  group messages are encrypted with: HKDF gives an AES key, a MAC key and an IV; the
  ciphertext and whatever else is in the output buffer is authenticated by eight bytes of
  HMAC at its end.

  The locale \<open>olm_cipher\<close> is what the callers rely on, whichever cipher the table holds:
  the lengths, what is written where, and that decryption gives the plaintext back. It
  is interpreted by AES-SHA-256 for every libsodium and every KDF info.
\<close>

section \<open>AES-SHA-256\<close>

abbreviation HMAC_KEY_LENGTH :: nat where "HMAC_KEY_LENGTH \<equiv> 32"
abbreviation MAC_LENGTH :: nat where "MAC_LENGTH \<equiv> 8"

record derived_keys =
  dk_aes_key :: bytes
  dk_mac_key :: bytes
  dk_aes_iv :: bytes

definition derive_keys :: "sodium \<Rightarrow> bytes \<Rightarrow> bytes \<Rightarrow> derived_keys" where
  "derive_keys S kdf_info key =
     (let derived_secrets = olm_crypto_hkdf_sha256 S key [] kdf_info
                              (zeros (AES256_KEY_LENGTH + HMAC_KEY_LENGTH + AES256_IV_LENGTH));
          pos = derived_secrets;
          aes_key = take AES256_KEY_LENGTH pos; pos = drop AES256_KEY_LENGTH pos;
          mac_key = take HMAC_KEY_LENGTH pos; pos = drop HMAC_KEY_LENGTH pos;
          aes_iv = take AES256_IV_LENGTH pos
      in \<lparr>dk_aes_key = aes_key, dk_mac_key = mac_key, dk_aes_iv = aes_iv\<rparr>)"

definition aes_sha_256_cipher_mac_length :: nat where
  "aes_sha_256_cipher_mac_length = MAC_LENGTH"

definition aes_sha_256_cipher_encrypt_ciphertext_length :: "nat \<Rightarrow> nat" where
  "aes_sha_256_cipher_encrypt_ciphertext_length plaintext_length =
     olm_crypto_aes_encrypt_cbc_length plaintext_length"

text \<open>
  \<open>output\<close> is the whole output buffer, \<open>ciphertext\<close> the offset in it. The plaintext may lie
  in the same buffer; it is given by its content. Returns the buffer and its length.
\<close>

definition aes_sha_256_cipher_encrypt ::
    "sodium \<Rightarrow> bytes \<Rightarrow> bytes \<Rightarrow> bytes \<Rightarrow> nat \<Rightarrow> nat \<Rightarrow> bytes \<Rightarrow> bytes \<times> nat option" where
  "aes_sha_256_cipher_encrypt S kdf_info key plaintext ciphertext ciphertext_length output =
     (let output_length = length output in
      if ciphertext_length < aes_sha_256_cipher_encrypt_ciphertext_length (length plaintext)
         \<or> output_length < MAC_LENGTH then (output, None)
      else let keys = derive_keys S kdf_info key;
               output = olm_crypto_aes_encrypt_cbc (dk_aes_key keys) (dk_aes_iv keys)
                          plaintext output ciphertext;
               mac = olm_crypto_hmac_sha256 S (dk_mac_key keys)
                       (take (output_length - MAC_LENGTH) output);
               output = write_at output (output_length - MAC_LENGTH) (take MAC_LENGTH mac)
           in (output, Some output_length))"

definition aes_sha_256_cipher_decrypt_max_plaintext_length :: "nat \<Rightarrow> nat" where
  "aes_sha_256_cipher_decrypt_max_plaintext_length ciphertext_length = ciphertext_length"

text \<open>The plaintext goes to \<open>plaintext\<close>, whose length is \<open>max_plaintext_length\<close>.\<close>

definition aes_sha_256_cipher_decrypt ::
    "sodium \<Rightarrow> bytes \<Rightarrow> bytes \<Rightarrow> bytes \<Rightarrow> bytes \<Rightarrow> bytes \<Rightarrow> bytes \<times> nat option" where
  "aes_sha_256_cipher_decrypt S kdf_info key input ciphertext plaintext =
     (let input_length = length input in
      if length plaintext < aes_sha_256_cipher_decrypt_max_plaintext_length (length ciphertext)
         \<or> input_length < MAC_LENGTH then (plaintext, None)
      else let keys = derive_keys S kdf_info key;
               mac = olm_crypto_hmac_sha256 S (dk_mac_key keys)
                       (take (input_length - MAC_LENGTH) input);
               input_mac = drop (input_length - MAC_LENGTH) input
           in if \<not> olm_is_equal input_mac mac MAC_LENGTH then (plaintext, None)
              else olm_crypto_aes_decrypt_cbc (dk_aes_key keys) (dk_aes_iv keys)
                     ciphertext plaintext 0)"

section \<open>The contract\<close>

text \<open>
  \<open>ciphertext_of key plaintext\<close> is what encryption writes at the ciphertext's place and
  \<open>mac_of key input\<close> what it writes at the end for what stands before.
\<close>

locale olm_cipher =
  fixes mac_length :: nat
    and encrypt_ciphertext_length :: "nat \<Rightarrow> nat"
    and encrypt :: "bytes \<Rightarrow> bytes \<Rightarrow> nat \<Rightarrow> nat \<Rightarrow> bytes \<Rightarrow> bytes \<times> nat option"
    and decrypt_max_plaintext_length :: "nat \<Rightarrow> nat"
    and decrypt :: "bytes \<Rightarrow> bytes \<Rightarrow> bytes \<Rightarrow> bytes \<Rightarrow> bytes \<times> nat option"
    and ciphertext_of :: "bytes \<Rightarrow> bytes \<Rightarrow> bytes"
    and mac_of :: "bytes \<Rightarrow> bytes \<Rightarrow> bytes"
  assumes encrypt_eq:
      "length p + 16 < 2 ^ 64 \<Longrightarrow> ct + length (ciphertext_of key p) + mac_length \<le> length m \<Longrightarrow>
       encrypt key p ct (length (ciphertext_of key p)) m =
         (let m = write_at m ct (ciphertext_of key p)
          in (write_at m (length m - mac_length) (mac_of key (take (length m - mac_length) m)),
              Some (length m)))"
    and ciphertext_length:
      "length p + 16 < 2 ^ 64 \<Longrightarrow> length (ciphertext_of key p) = encrypt_ciphertext_length (length p)"
    and length_mac: "length (mac_of key i) = mac_length"
    and max_plaintext: "length p \<le> decrypt_max_plaintext_length (length (ciphertext_of key p))"
    and decrypt_ok:
      "decrypt_max_plaintext_length (length (ciphertext_of key p)) \<le> length b \<Longrightarrow>
       \<exists>b'. decrypt key (i @ mac_of key i) (ciphertext_of key p) b = (b', Some (length p)) \<and>
            length b' = length b \<and> take (length p) b' = p"
    and decrypt_mac:
      "decrypt key i c b = (b', Some n) \<Longrightarrow>
       mac_length \<le> length i \<and>
       drop (length i - mac_length) i = mac_of key (take (length i - mac_length) i)"
    and decrypt_none_mac:
      "mac_length \<le> length i \<Longrightarrow>
       drop (length i - mac_length) i \<noteq> mac_of key (take (length i - mac_length) i) \<Longrightarrow>
       decrypt key i c b = (b, None)"
    and decrypt_bound: "decrypt key i c b = (b', r) \<Longrightarrow>
       length b' = length b \<and> (\<forall>n. r = Some n \<longrightarrow> n \<le> length b)"
begin

text \<open>A message that was laid out with room for the MAC at its end decrypts to the plaintext.\<close>

lemma decrypt_encrypt:
  assumes "length p + 16 < 2 ^ 64" "ct + length (ciphertext_of key p) + mac_length \<le> length m"
    and "encrypt key p ct (length (ciphertext_of key p)) m = (m', r)"
    and "decrypt_max_plaintext_length (length (ciphertext_of key p)) \<le> length b"
  shows "\<exists>b'. decrypt key m' (read_at m' ct (length (ciphertext_of key p))) b = (b', Some (length p))
    \<and> length b' = length b \<and> take (length p) b' = p"
proof -
  let ?c = "ciphertext_of key p" and ?n = "length m - mac_length"
  have c: "length (write_at m ct ?c) = length m" using assms(2) by simp
  have m': "m' = write_at (write_at m ct ?c) ?n (mac_of key (take ?n (write_at m ct ?c)))"
    using assms(1-3) by (simp add: encrypt_eq Let_def)
  then have "m' = take ?n (write_at m ct ?c) @ mac_of key (take ?n (write_at m ct ?c))"
    using c length_mac assms(2) by (simp add: write_at_def)
  moreover have "read_at m' ct (length ?c) = ?c"
    unfolding m' using assms(2) c by (subst read_write_at_before) auto
  ultimately show ?thesis using decrypt_ok [OF assms(4)] by metis
qed

text \<open>Changing only the MAC of an authentic message makes it rejected, and nothing is written.\<close>

lemma wrong_mac_rejected:
  "length t = mac_length \<Longrightarrow> t \<noteq> mac_of key i \<Longrightarrow> decrypt key (i @ t) c b = (b, None)"
  by (rule decrypt_none_mac) simp_all

end

section \<open>AES-SHA-256 fulfils it\<close>

definition aes_sha_256_ciphertext :: "sodium \<Rightarrow> bytes \<Rightarrow> bytes \<Rightarrow> bytes \<Rightarrow> bytes" where
  "aes_sha_256_ciphertext S kdf_info key plaintext =
     (let keys = derive_keys S kdf_info key
      in aes_cbc_ciphertext (dk_aes_key keys) (dk_aes_iv keys) plaintext)"

definition aes_sha_256_mac :: "sodium \<Rightarrow> bytes \<Rightarrow> bytes \<Rightarrow> bytes \<Rightarrow> bytes" where
  "aes_sha_256_mac S kdf_info key input =
     take MAC_LENGTH (olm_crypto_hmac_sha256 S (dk_mac_key (derive_keys S kdf_info key)) input)"

lemma length_derived [simp]:
  "length (dk_aes_key (derive_keys S i k)) = 32" "length (dk_mac_key (derive_keys S i k)) = 32"
  "length (dk_aes_iv (derive_keys S i k)) = 16"
  by (simp_all add: derive_keys_def Let_def)

lemma length_aes_sha_256_ciphertext:
  "length (aes_sha_256_ciphertext S i key p) = length p + (16 - length p mod 16)"
  by (simp add: aes_sha_256_ciphertext_def Let_def length_aes_cbc_ciphertext)

lemma length_aes_sha_256_mac [simp]: "length (aes_sha_256_mac S i key x) = 8"
  by (simp add: aes_sha_256_mac_def)

lemma aes_sha_256_encrypt_eq:
  assumes "length p + 16 < 2 ^ 64" "ct + length (aes_sha_256_ciphertext S i key p) + 8 \<le> length m"
  shows "aes_sha_256_cipher_encrypt S i key p ct (length (aes_sha_256_ciphertext S i key p)) m =
    (let m = write_at m ct (aes_sha_256_ciphertext S i key p)
     in (write_at m (length m - 8) (aes_sha_256_mac S i key (take (length m - 8) m)), Some (length m)))"
proof -
  let ?k = "derive_keys S i key"
  have e: "olm_crypto_aes_encrypt_cbc (dk_aes_key ?k) (dk_aes_iv ?k) p m ct =
      write_at m ct (aes_sha_256_ciphertext S i key p)"
    using assms unfolding aes_sha_256_ciphertext_def Let_def
    by (intro aes_encrypt_cbc_eq) (simp_all add: length_aes_cbc_ciphertext)
  have l: "length (write_at m ct (aes_sha_256_ciphertext S i key p)) = length m"
    using assms(2) by simp
  show ?thesis
    using assms
    by (simp add: aes_sha_256_cipher_encrypt_def Let_def e aes_sha_256_mac_def l
        aes_sha_256_cipher_encrypt_ciphertext_length_def aes_encrypt_cbc_length_eq
        length_aes_sha_256_ciphertext)
qed

lemma aes_sha_256_decrypt_eq:
  "aes_sha_256_cipher_decrypt S i key inp c b =
     (if length b < length c \<or> length inp < 8
         \<or> drop (length inp - 8) inp \<noteq> aes_sha_256_mac S i key (take (length inp - 8) inp)
      then (b, None)
      else olm_crypto_aes_decrypt_cbc (dk_aes_key (derive_keys S i key))
             (dk_aes_iv (derive_keys S i key)) c b 0)"
  by (simp add: aes_sha_256_cipher_decrypt_def Let_def aes_sha_256_mac_def
      aes_sha_256_cipher_decrypt_max_plaintext_length_def)

lemma aes_sha_256_decrypt_ok:
  assumes "length (aes_sha_256_ciphertext S i key p) \<le> length b"
  shows "aes_sha_256_cipher_decrypt S i key (x @ aes_sha_256_mac S i key x)
      (aes_sha_256_ciphertext S i key p) b = (write_at b 0 (cbc_padded p), Some (length p))"
  using assms
  by (simp add: aes_sha_256_decrypt_eq aes_sha_256_ciphertext_def Let_def aes_decrypt_cbc_eq)

lemma aes_sha_256_decrypt_bound:
  assumes "aes_sha_256_cipher_decrypt S i key inp c b = (b', r)"
  shows "length b' = length b \<and> (\<forall>n. r = Some n \<longrightarrow> n \<le> length b)"
proof (cases "aes_sha_256_cipher_decrypt S i key inp c b = (b, None)")
  case False
  then have "length c \<le> length b"
    and e: "aes_sha_256_cipher_decrypt S i key inp c b =
      olm_crypto_aes_decrypt_cbc (dk_aes_key (derive_keys S i key))
        (dk_aes_iv (derive_keys S i key)) c b 0"
    by (auto simp: aes_sha_256_decrypt_eq split: if_splits)
  then have r: "olm_crypto_aes_decrypt_cbc (dk_aes_key (derive_keys S i key))
      (dk_aes_iv (derive_keys S i key)) c b 0 = (b', r)" using assms by simp
  then have "length b' = length b"
    using length_aes_decrypt_cbc [of 0 c b "dk_aes_iv (derive_keys S i key)"
        "dk_aes_key (derive_keys S i key)"] \<open>length c \<le> length b\<close> by simp
  moreover have "n \<le> length b" if "r = Some n" for n
    using aes_decrypt_cbc_bound [of "dk_aes_key (derive_keys S i key)" "dk_aes_iv (derive_keys S i key)"
        c b 0 n] r that \<open>length c \<le> length b\<close> by simp
  ultimately show ?thesis by simp
qed (use assms in simp)

interpretation aes_sha_256: olm_cipher aes_sha_256_cipher_mac_length
    aes_sha_256_cipher_encrypt_ciphertext_length "aes_sha_256_cipher_encrypt S i"
    aes_sha_256_cipher_decrypt_max_plaintext_length "aes_sha_256_cipher_decrypt S i"
    "aes_sha_256_ciphertext S i" "aes_sha_256_mac S i"
  for S i
proof unfold_locales
  show "length p + 16 < 2 ^ 64 \<Longrightarrow>
      length (aes_sha_256_ciphertext S i key p) = aes_sha_256_cipher_encrypt_ciphertext_length (length p)"
    for key p
    by (simp add: aes_sha_256_cipher_encrypt_ciphertext_length_def aes_encrypt_cbc_length_eq
        length_aes_sha_256_ciphertext)
  show "\<exists>b'. aes_sha_256_cipher_decrypt S i key (x @ aes_sha_256_mac S i key x)
        (aes_sha_256_ciphertext S i key p) b = (b', Some (length p)) \<and>
      length b' = length b \<and> take (length p) b' = p"
    if "aes_sha_256_cipher_decrypt_max_plaintext_length (length (aes_sha_256_ciphertext S i key p))
      \<le> length b" for key p b x
    using that
    by (simp add: aes_sha_256_decrypt_ok aes_sha_256_cipher_decrypt_max_plaintext_length_def
        length_aes_sha_256_ciphertext length_cbc_padded write_at_def cbc_padded_def)
  show "length b' = length b \<and> (\<forall>n. r = Some n \<longrightarrow> n \<le> length b)"
    if "aes_sha_256_cipher_decrypt S i key x c b = (b', r)" for key x c b b' r
    using that by (rule aes_sha_256_decrypt_bound)
  show "aes_sha_256_cipher_encrypt S i key p ct (length (aes_sha_256_ciphertext S i key p)) m =
      (let m = write_at m ct (aes_sha_256_ciphertext S i key p)
       in (write_at m (length m - aes_sha_256_cipher_mac_length)
             (aes_sha_256_mac S i key (take (length m - aes_sha_256_cipher_mac_length) m)),
           Some (length m)))"
    if "length p + 16 < 2 ^ 64"
      "ct + length (aes_sha_256_ciphertext S i key p) + aes_sha_256_cipher_mac_length \<le> length m"
    for p ct key m
    using that unfolding aes_sha_256_cipher_mac_length_def by (rule aes_sha_256_encrypt_eq)
qed (auto simp: aes_sha_256_cipher_mac_length_def aes_sha_256_decrypt_eq
    aes_sha_256_cipher_decrypt_max_plaintext_length_def length_aes_sha_256_ciphertext
    split: if_splits)


section \<open>Properties\<close>

text \<open>C38: What \<open>aes_sha_256_cipher_encrypt\<close> leaves in an output buffer, the ciphertext at any
  place in front of the MAC, \<open>aes_sha_256_cipher_decrypt\<close> accepts and turns back into the
  plaintext: for every key, plaintext, KDF info and libsodium, and whatever else the
  buffer holds.\<close>

theorem cipher_roundtrip:
  assumes "length p + 16 < 2 ^ 64"
    and "n = aes_sha_256_cipher_encrypt_ciphertext_length (length p)"
    and "ct + n + aes_sha_256_cipher_mac_length \<le> length m" and "n \<le> length b"
  shows "let (m', r) = aes_sha_256_cipher_encrypt S i key p ct n m;
             (b', r') = aes_sha_256_cipher_decrypt S i key m' (read_at m' ct n) b
         in r = Some (length m) \<and> length m' = length m \<and> take ct m' = take ct m
            \<and> r' = Some (length p) \<and> take (length p) b' = p"
proof -
  have n: "n = length (aes_sha_256_ciphertext S i key p)"
    using assms(1,2) by (simp add: aes_sha_256.ciphertext_length)
  obtain m' r where e: "aes_sha_256_cipher_encrypt S i key p ct n m = (m', r)" by force
  let ?w = "write_at m ct (aes_sha_256_ciphertext S i key p)"
  have m': "r = Some (length m)" "m' = write_at ?w (length m - 8)
      (aes_sha_256_mac S i key (take (length m - 8) ?w))"
    using e aes_sha_256.encrypt_eq [of p ct S i key m] assms(1,3)
    by (simp_all add: n aes_sha_256_cipher_mac_length_def Let_def)
  moreover have "length m' = length m" "take ct m' = take ct m"
    using m' assms(3) by (simp_all add: n aes_sha_256_cipher_mac_length_def write_at_def)
  moreover obtain b' where "aes_sha_256_cipher_decrypt S i key m' (read_at m' ct n) b = (b', Some (length p))"
      "take (length p) b' = p"
    using aes_sha_256.decrypt_encrypt [of p ct S i key m m' r b] assms e
    by (auto simp: n aes_sha_256_cipher_decrypt_max_plaintext_length_def)
  ultimately show ?thesis by (simp add: e)
qed

lemma cipher_roundtrip_witness:
  "let (m', r) = aes_sha_256_cipher_encrypt sample_sodium [1] [9, 9] [1, 2, 3] 2 16 (zeros 30);
       (b', r') = aes_sha_256_cipher_decrypt sample_sodium [1] [9, 9] m' (read_at m' 2 16) (zeros 16)
   in r = Some (length (zeros 30)) \<and> length m' = length (zeros 30) \<and> take 2 m' = take 2 (zeros 30)
      \<and> r' = Some (length [1, 2, 3 :: u8]) \<and> take (length [1, 2, 3 :: u8]) b' = [1, 2, 3]"
  by (rule cipher_roundtrip)
     (simp_all add: aes_sha_256_cipher_encrypt_ciphertext_length_def aes_encrypt_cbc_length_eq
       aes_sha_256_cipher_mac_length_def)

text \<open>A message whose last eight bytes are not the MAC of what stands before them is
  rejected by \<open>aes_sha_256_cipher_decrypt\<close>, and the plaintext buffer is left as it was:
  nothing is decrypted before it is authenticated.\<close>

theorem cipher_rejects_wrong_mac:
  assumes "length t = aes_sha_256_cipher_mac_length"
    and "t \<noteq> take 8 (olm_crypto_hmac_sha256 S (dk_mac_key (derive_keys S i key)) x)"
  shows "aes_sha_256_cipher_decrypt S i key (x @ t) c b = (b, None)"
  using assms by (intro aes_sha_256.wrong_mac_rejected) (simp_all add: aes_sha_256_mac_def)


lemma cipher_rejects_wrong_mac_witness:
  "aes_sha_256_cipher_decrypt sample_sodium [1] [9, 9] ([7] @ replicate 8 255) (zeros 16) (zeros 16) =
   (zeros 16, None)"
proof (rule cipher_rejects_wrong_mac)
  have "take 8 (olm_crypto_hmac_sha256 sample_sodium (dk_mac_key (derive_keys sample_sodium [1] [9, 9])) [7]) ! 0
      = 33"
    by (simp add: olm_crypto_hmac_sha256_def) (simp add: sample_sodium_def)
  then show "replicate 8 255 \<noteq> take 8 (olm_crypto_hmac_sha256 sample_sodium
      (dk_mac_key (derive_keys sample_sodium [1] [9, 9])) [7])"
    by (auto dest: arg_cong [of _ _ "\<lambda>l. l ! 0"])
qed (simp add: aes_sha_256_cipher_mac_length_def)

end
