(* ===== verification/Ratchet.thy ===== *)
theory Ratchet
  imports Message Cipher
begin

text \<open>
  \<open>src/ratchet.c\<close>: the double ratchet of a session. The root key makes a new chain of keys each
  time the other side answers with a new Diffie-Hellman key; a chain key makes one message
  key per message. The state has at most one sender chain, five receiver chains and forty
  message keys that were skipped by messages arriving out of order.

  This theory holds the state, encryption, decryption and the initialisations;
  \<open>Ratchet_Pickle\<close> has the pickling, \<open>Ratchet_Messages\<close> what encryption and decryption do to
  each other.

  The cipher of a ratchet is a pointer to a cipher struct; the library has one implementation
  of that interface (\<open>Cipher\<close>), so the field holds the struct's KDF info. The loops over chain
  indices run at most \<open>MAX_MESSAGE_GAP\<close> times: the gap is tested before.
\<close>

section \<open>State\<close>

abbreviation OLM_SHARED_KEY_LENGTH :: nat where "OLM_SHARED_KEY_LENGTH \<equiv> 32"
abbreviation PROTOCOL_VERSION :: u8 where "PROTOCOL_VERSION \<equiv> 3"
abbreviation MESSAGE_KEY_SEED :: bytes where "MESSAGE_KEY_SEED \<equiv> [1]"
abbreviation CHAIN_KEY_SEED :: bytes where "CHAIN_KEY_SEED \<equiv> [2]"
abbreviation MAX_MESSAGE_GAP :: nat where "MAX_MESSAGE_GAP \<equiv> 2000"

record chain_key =
  ck_index :: u32
  ck_key :: bytes

record message_key =
  mk_index :: u32
  mk_key :: bytes

record sender_chain =
  sc_ratchet_key :: curve25519_key_pair
  sc_chain_key :: chain_key

record receiver_chain =
  rc_ratchet_key :: curve25519_public_key
  rc_chain_key :: chain_key

record skipped_message_key =
  sm_ratchet_key :: curve25519_public_key
  sm_message_key :: message_key

record kdf_info =
  ki_root_info :: bytes
  ki_ratchet_info :: bytes

record ratchet =
  rt_kdf_info :: kdf_info
  rt_ratchet_cipher :: bytes
  rt_last_error :: olm_error_code
  rt_root_key :: bytes
  rt_sender_chain :: "sender_chain olm_list"
  rt_receiver_chains :: "receiver_chain olm_list"
  rt_skipped_message_keys :: "skipped_message_key olm_list"

section \<open>Keys\<close>

text \<open>The new root key and the first chain key of the new chain.\<close>

definition create_chain_key ::
    "sodium \<Rightarrow> bytes \<Rightarrow> curve25519_key_pair \<Rightarrow> curve25519_public_key \<Rightarrow> kdf_info \<Rightarrow> bytes \<times> chain_key" where
  "create_chain_key S root_key our_key their_key info =
     (let secret = olm_crypto_curve25519_shared_secret S our_key their_key;
          derived_secrets = olm_crypto_hkdf_sha256 S secret root_key (ki_ratchet_info info)
                              (zeros (2 * OLM_SHARED_KEY_LENGTH))
      in (take OLM_SHARED_KEY_LENGTH derived_secrets,
          \<lparr>ck_index = 0, ck_key = read_at derived_secrets OLM_SHARED_KEY_LENGTH OLM_SHARED_KEY_LENGTH\<rparr>))"

definition advance_chain_key :: "sodium \<Rightarrow> chain_key \<Rightarrow> chain_key" where
  "advance_chain_key S chain_key =
     \<lparr>ck_index = ck_index chain_key + 1,
      ck_key = olm_crypto_hmac_sha256 S (ck_key chain_key) CHAIN_KEY_SEED\<rparr>"

definition create_message_keys :: "sodium \<Rightarrow> chain_key \<Rightarrow> message_key" where
  "create_message_keys S chain_key =
     \<lparr>mk_index = ck_index chain_key,
      mk_key = olm_crypto_hmac_sha256 S (ck_key chain_key) MESSAGE_KEY_SEED\<rparr>"

section \<open>Initialisation\<close>

definition olm_ratchet_init :: "kdf_info \<Rightarrow> bytes \<Rightarrow> ratchet \<Rightarrow> ratchet" where
  "olm_ratchet_init kdf_info ratchet_cipher r =
     r\<lparr>rt_kdf_info := kdf_info, rt_ratchet_cipher := ratchet_cipher, rt_last_error := OLM_SUCCESS,
       rt_sender_chain := olm_list_init (rt_sender_chain r),
       rt_receiver_chains := olm_list_init (rt_receiver_chains r),
       rt_skipped_message_keys := olm_list_init (rt_skipped_message_keys r)\<rparr>"

definition olm_ratchet_initialise_as_bob ::
    "sodium \<Rightarrow> ratchet \<Rightarrow> bytes \<Rightarrow> curve25519_public_key \<Rightarrow> ratchet" where
  "olm_ratchet_initialise_as_bob S r shared_secret their_ratchet_key =
     (let derived_secrets = olm_crypto_hkdf_sha256 S shared_secret [] (ki_root_info (rt_kdf_info r))
                              (zeros (2 * OLM_SHARED_KEY_LENGTH));
          chain = \<lparr>rc_ratchet_key = their_ratchet_key,
                   rc_chain_key = \<lparr>ck_index = 0, ck_key = read_at derived_secrets 32 32\<rparr>\<rparr>
      in r\<lparr>rt_receiver_chains := olm_list_push_front (rt_receiver_chains r) chain,
           rt_root_key := take 32 derived_secrets\<rparr>)"

definition olm_ratchet_initialise_as_alice ::
    "sodium \<Rightarrow> ratchet \<Rightarrow> bytes \<Rightarrow> curve25519_key_pair \<Rightarrow> ratchet" where
  "olm_ratchet_initialise_as_alice S r shared_secret our_ratchet_key =
     (let derived_secrets = olm_crypto_hkdf_sha256 S shared_secret [] (ki_root_info (rt_kdf_info r))
                              (zeros (2 * OLM_SHARED_KEY_LENGTH));
          chain = \<lparr>sc_ratchet_key = our_ratchet_key,
                   sc_chain_key = \<lparr>ck_index = 0, ck_key = read_at derived_secrets 32 32\<rparr>\<rparr>
      in r\<lparr>rt_sender_chain := olm_list_push_front (rt_sender_chain r) chain,
           rt_root_key := take 32 derived_secrets\<rparr>)"

section \<open>Encryption\<close>

definition olm_ratchet_encrypt_output_length :: "ratchet \<Rightarrow> nat \<Rightarrow> nat" where
  "olm_ratchet_encrypt_output_length r plaintext_length =
     (let counter = (if \<not> olm_list_empty (rt_sender_chain r)
                     then ck_index (sc_chain_key (olm_list_get (rt_sender_chain r) 0)) else 0);
          padded = aes_sha_256_cipher_encrypt_ciphertext_length plaintext_length
      in olm_encode_message_length counter CURVE25519_KEY_LENGTH padded aes_sha_256_cipher_mac_length)"

definition olm_ratchet_encrypt_random_length :: "ratchet \<Rightarrow> nat" where
  "olm_ratchet_encrypt_random_length r =
     (if olm_list_empty (rt_sender_chain r) then CURVE25519_RANDOM_LENGTH else 0)"

text \<open>The new sender chain of the first message after the other side's answer.\<close>

definition start_sender_chain :: "sodium \<Rightarrow> ratchet \<Rightarrow> bytes \<Rightarrow> ratchet" where
  "start_sender_chain S r random =
     (let (sender_chains, i) = olm_list_insert_front (rt_sender_chain r);
          ratchet_key = olm_crypto_curve25519_generate_key S random;
          (root_key, chain_key) =
            create_chain_key S (rt_root_key r) ratchet_key
              (rc_ratchet_key (olm_list_get (rt_receiver_chains r) 0)) (rt_kdf_info r)
      in r\<lparr>rt_sender_chain := olm_list_set sender_chains i
                                \<lparr>sc_ratchet_key = ratchet_key, sc_chain_key = chain_key\<rparr>,
           rt_root_key := root_key\<rparr>)"

text \<open>The ratchet, the output buffer and the length of the message.\<close>

definition olm_ratchet_encrypt ::
    "sodium \<Rightarrow> ratchet \<Rightarrow> bytes \<Rightarrow> bytes \<Rightarrow> bytes \<Rightarrow> ratchet \<times> bytes \<times> nat option" where
  "olm_ratchet_encrypt S r plaintext random output =
     (let output_length = olm_ratchet_encrypt_output_length r (length plaintext) in
      if length random < olm_ratchet_encrypt_random_length r then
        (r\<lparr>rt_last_error := OLM_NOT_ENOUGH_RANDOM\<rparr>, output, None)
      else if length output < output_length then
        (r\<lparr>rt_last_error := OLM_OUTPUT_BUFFER_TOO_SMALL\<rparr>, output, None)
      else
        let r = (if olm_list_empty (rt_sender_chain r) then start_sender_chain S r random else r);
            chain = olm_list_get (rt_sender_chain r) 0;
            keys = create_message_keys S (sc_chain_key chain);
            r = r\<lparr>rt_sender_chain := olm_list_set (rt_sender_chain r) 0
                    (chain\<lparr>sc_chain_key := advance_chain_key S (sc_chain_key chain)\<rparr>)\<rparr>;
            ciphertext_length = aes_sha_256_cipher_encrypt_ciphertext_length (length plaintext);
            ratchet_key = ckp_public_key (sc_ratchet_key (olm_list_get (rt_sender_chain r) 0));
            (output, writer) = olm_encode_message PROTOCOL_VERSION (mk_index keys)
                                 CURVE25519_KEY_LENGTH ciphertext_length output;
            output = write_at output (mw_ratchet_key writer) ratchet_key;
            (region, _) = aes_sha_256_cipher_encrypt S (rt_ratchet_cipher r) (mk_key keys) plaintext
                            (mw_ciphertext writer) ciphertext_length (take output_length output);
            output = write_at output 0 region
        in (r, output, Some output_length))"

section \<open>Decryption\<close>

definition verify_mac_and_decrypt ::
    "sodium \<Rightarrow> bytes \<Rightarrow> message_key \<Rightarrow> message_reader \<Rightarrow> bytes \<Rightarrow> bytes \<times> nat option" where
  "verify_mac_and_decrypt S cipher message_key reader plaintext =
     aes_sha_256_cipher_decrypt S cipher (mk_key message_key) (mr_input reader)
       (the (mr_ciphertext reader)) plaintext"

lemma unat_Suc_less: "i < (c :: u32) \<Longrightarrow> unat (i + 1) = unat i + 1"
proof -
  assume "i < c"
  then have "unat i + 1 < 2 ^ 32" using unsigned_less [of c, where 'a = nat] by (simp add: word_less_nat_alt)
  then show ?thesis by (simp add: unat_word_ariths)
qed

lemma index_progress: "i < (c :: u32) \<Longrightarrow> unat c - unat (i + 1) < unat c - unat i"
  using unat_Suc_less [of i c] by (simp add: word_less_nat_alt)

text \<open>\<open>while (chain.index < counter) advance_chain_key(&chain, &chain)\<close>.\<close>

function advance_chain_to :: "sodium \<Rightarrow> u32 \<Rightarrow> chain_key \<Rightarrow> chain_key" where
  "advance_chain_to S counter chain =
     (if ck_index chain < counter then advance_chain_to S counter (advance_chain_key S chain) else chain)"
  by pat_completeness auto

termination
  by (relation "measure (\<lambda>(S, counter, chain). unat counter - unat (ck_index chain))")
    (auto simp: advance_chain_key_def index_progress)

declare advance_chain_to.simps [simp del]

definition verify_mac_and_decrypt_for_existing_chain ::
    "sodium \<Rightarrow> ratchet \<Rightarrow> chain_key \<Rightarrow> message_reader \<Rightarrow> bytes \<Rightarrow> bytes \<times> nat option" where
  "verify_mac_and_decrypt_for_existing_chain S r chain reader plaintext =
     (if mr_counter reader < ck_index chain then (plaintext, None)
      else if MAX_MESSAGE_GAP < unat (mr_counter reader - ck_index chain) then (plaintext, None)
      else
        let new_chain = advance_chain_to S (mr_counter reader) chain;
            message_key = create_message_keys S new_chain
        in verify_mac_and_decrypt S (rt_ratchet_cipher r) message_key reader plaintext)"

definition verify_mac_and_decrypt_for_new_chain ::
    "sodium \<Rightarrow> ratchet \<Rightarrow> message_reader \<Rightarrow> bytes \<Rightarrow> bytes \<times> nat option" where
  "verify_mac_and_decrypt_for_new_chain S r reader plaintext =
     (if olm_list_empty (rt_sender_chain r) then (plaintext, None)
      else if MAX_MESSAGE_GAP < unat (mr_counter reader) then (plaintext, None)
      else
        let (new_root_key, new_chain) =
              create_chain_key S (rt_root_key r) (sc_ratchet_key (olm_list_get (rt_sender_chain r) 0))
                (the (mr_ratchet_key reader)) (rt_kdf_info r)
        in verify_mac_and_decrypt_for_existing_chain S r new_chain reader plaintext)"

definition olm_ratchet_decrypt_max_plaintext_length :: "ratchet \<Rightarrow> bytes \<Rightarrow> ratchet \<times> nat option" where
  "olm_ratchet_decrypt_max_plaintext_length r input =
     (let reader = olm_decode_message input aes_sha_256_cipher_mac_length
      in case mr_ciphertext reader of
           None \<Rightarrow> (r\<lparr>rt_last_error := OLM_BAD_MESSAGE_FORMAT\<rparr>, None)
         | Some c \<Rightarrow> (r, Some (aes_sha_256_cipher_decrypt_max_plaintext_length (length c))))"

text \<open>The first receiver chain of the message's ratchet key.\<close>

fun find_chain :: "bytes \<Rightarrow> receiver_chain list \<Rightarrow> nat \<Rightarrow> nat option" where
  "find_chain ratchet_key [] i = None"
| "find_chain ratchet_key (chain # rest) i =
     (if rc_ratchet_key chain = ratchet_key then Some i else find_chain ratchet_key rest (i + 1))"

text \<open>
  The loop over the skipped message keys: the plaintext buffer, and the position of the key
  that fits with the length of the plaintext.
\<close>

fun try_skipped ::
    "sodium \<Rightarrow> bytes \<Rightarrow> message_reader \<Rightarrow> skipped_message_key list \<Rightarrow> nat \<Rightarrow> bytes \<Rightarrow>
     bytes \<times> (nat \<times> nat) option" where
  "try_skipped S cipher reader [] i plaintext = (plaintext, None)"
| "try_skipped S cipher reader (skipped # keys) i plaintext =
     (if mr_counter reader = mk_index (sm_message_key skipped)
         \<and> sm_ratchet_key skipped = the (mr_ratchet_key reader)
      then case verify_mac_and_decrypt S cipher (sm_message_key skipped) reader plaintext of
             (plaintext, Some n) \<Rightarrow> (plaintext, Some (i, n))
           | (plaintext, None) \<Rightarrow> try_skipped S cipher reader keys (i + 1) plaintext
      else try_skipped S cipher reader keys (i + 1) plaintext)"

definition unset_message_key :: skipped_message_key where
  "unset_message_key =
     \<lparr>sm_ratchet_key = zeros 32, sm_message_key = \<lparr>mk_index = 0, mk_key = zeros 32\<rparr>\<rparr>"

definition unset_sender_chain :: sender_chain where
  "unset_sender_chain =
     \<lparr>sc_ratchet_key = \<lparr>ckp_public_key = zeros 32, ckp_private_key = zeros 32\<rparr>,
      sc_chain_key = \<lparr>ck_index = 0, ck_key = zeros 32\<rparr>\<rparr>"

text \<open>The receiver chain of a ratchet key that was not seen before, at the front.\<close>

definition start_receiver_chain :: "sodium \<Rightarrow> ratchet \<Rightarrow> bytes \<Rightarrow> ratchet" where
  "start_receiver_chain S r ratchet_key =
     (let (receiver_chains, i) = olm_list_insert_front (rt_receiver_chains r);
          (root_key, chain_key) =
            create_chain_key S (rt_root_key r) (sc_ratchet_key (olm_list_get (rt_sender_chain r) 0))
              ratchet_key (rt_kdf_info r);
          receiver_chains = olm_list_set receiver_chains i
                              \<lparr>rc_ratchet_key = ratchet_key, rc_chain_key = chain_key\<rparr>;
          sender_chains = olm_list_set (rt_sender_chain r) 0 unset_sender_chain
      in r\<lparr>rt_receiver_chains := receiver_chains, rt_root_key := root_key,
           rt_sender_chain := olm_list_erase sender_chains 0\<rparr>)"

text \<open>The keys of the messages before \<open>counter\<close> are kept for when those arrive.\<close>

function skip_message_keys ::
    "sodium \<Rightarrow> u32 \<Rightarrow> bytes \<Rightarrow> chain_key \<Rightarrow> skipped_message_key olm_list \<Rightarrow>
     chain_key \<times> skipped_message_key olm_list" where
  "skip_message_keys S counter ratchet_key chain keys =
     (if ck_index chain < counter then
        let keys = olm_list_push_front keys
                     \<lparr>sm_ratchet_key = ratchet_key, sm_message_key = create_message_keys S chain\<rparr>
        in skip_message_keys S counter ratchet_key (advance_chain_key S chain) keys
      else (chain, keys))"
  by pat_completeness auto
termination
  by (relation "measure (\<lambda>(S, counter, k, chain, keys). unat counter - unat (ck_index chain))")
    (auto simp: advance_chain_key_def index_progress)

declare skip_message_keys.simps [simp del]

text \<open>From the loop over the skipped message indices to the end, for the receiver chain \<open>i\<close>.\<close>

definition advance_receiver_chain :: "sodium \<Rightarrow> ratchet \<Rightarrow> nat \<Rightarrow> u32 \<Rightarrow> ratchet" where
  "advance_receiver_chain S r i counter =
     (let chain = olm_list_get (rt_receiver_chains r) i;
          (chain_key, keys) = skip_message_keys S counter (rc_ratchet_key chain)
                                (rc_chain_key chain) (rt_skipped_message_keys r);
          chain_key = advance_chain_key S chain_key
      in r\<lparr>rt_receiver_chains := olm_list_set (rt_receiver_chains r) i (chain\<lparr>rc_chain_key := chain_key\<rparr>),
           rt_skipped_message_keys := keys\<rparr>)"

text \<open>The ratchet, the plaintext buffer and the length of the plaintext.\<close>

definition olm_ratchet_decrypt ::
    "sodium \<Rightarrow> ratchet \<Rightarrow> bytes \<Rightarrow> bytes \<Rightarrow> ratchet \<times> bytes \<times> nat option" where
  "olm_ratchet_decrypt S r input plaintext =
     (let reader = olm_decode_message input aes_sha_256_cipher_mac_length in
      if mr_version reader \<noteq> PROTOCOL_VERSION then
        (r\<lparr>rt_last_error := OLM_BAD_MESSAGE_VERSION\<rparr>, plaintext, None)
      else if \<not> mr_has_counter reader \<or> mr_ratchet_key reader = None \<or> mr_ciphertext reader = None then
        (r\<lparr>rt_last_error := OLM_BAD_MESSAGE_FORMAT\<rparr>, plaintext, None)
      else if length plaintext
          < aes_sha_256_cipher_decrypt_max_plaintext_length (length (the (mr_ciphertext reader))) then
        (r\<lparr>rt_last_error := OLM_OUTPUT_BUFFER_TOO_SMALL\<rparr>, plaintext, None)
      else if length (the (mr_ratchet_key reader)) \<noteq> CURVE25519_KEY_LENGTH then
        (r\<lparr>rt_last_error := OLM_BAD_MESSAGE_FORMAT\<rparr>, plaintext, None)
      else
        let ratchet_key = the (mr_ratchet_key reader);
            counter = mr_counter reader
        in case find_chain ratchet_key (elems (rt_receiver_chains r)) 0 of
             None \<Rightarrow>
               (case verify_mac_and_decrypt_for_new_chain S r reader plaintext of
                  (plaintext, None) \<Rightarrow> (r\<lparr>rt_last_error := OLM_BAD_MESSAGE_MAC\<rparr>, plaintext, None)
                | (plaintext, Some n) \<Rightarrow>
                    (advance_receiver_chain S (start_receiver_chain S r ratchet_key) 0 counter,
                     plaintext, Some n))
           | Some i \<Rightarrow>
               let chain = olm_list_get (rt_receiver_chains r) i in
               if counter < ck_index (rc_chain_key chain) then
                 (case try_skipped S (rt_ratchet_cipher r) reader (elems (rt_skipped_message_keys r)) 0
                         plaintext of
                    (plaintext, None) \<Rightarrow> (r\<lparr>rt_last_error := OLM_BAD_MESSAGE_MAC\<rparr>, plaintext, None)
                  | (plaintext, Some (j, n)) \<Rightarrow>
                      (r\<lparr>rt_skipped_message_keys :=
                           olm_list_erase (olm_list_set (rt_skipped_message_keys r) j unset_message_key) j\<rparr>,
                       plaintext, Some n))
               else
                 (case verify_mac_and_decrypt_for_existing_chain S r (rc_chain_key chain) reader plaintext of
                    (plaintext, None) \<Rightarrow> (r\<lparr>rt_last_error := OLM_BAD_MESSAGE_MAC\<rparr>, plaintext, None)
                  | (plaintext, Some n) \<Rightarrow>
                      (advance_receiver_chain S r i counter, plaintext, Some n)))"

section \<open>Invariant\<close>

definition chain_key_ok :: "chain_key \<Rightarrow> bool" where
  "chain_key_ok c \<longleftrightarrow> length (ck_key c) = 32"

definition sender_chain_ok :: "sender_chain \<Rightarrow> bool" where
  "sender_chain_ok c \<longleftrightarrow> curve25519_key_pair_ok (sc_ratchet_key c) \<and> chain_key_ok (sc_chain_key c)"

definition receiver_chain_ok :: "receiver_chain \<Rightarrow> bool" where
  "receiver_chain_ok c \<longleftrightarrow> length (rc_ratchet_key c) = 32 \<and> chain_key_ok (rc_chain_key c)"

definition skipped_message_key_ok :: "skipped_message_key \<Rightarrow> bool" where
  "skipped_message_key_ok k \<longleftrightarrow> length (sm_ratchet_key k) = 32 \<and> length (mk_key (sm_message_key k)) = 32"

text \<open>A list of capacity \<open>cap\<close> all of whose slots, stale ones included, hold well-formed structs.\<close>

definition slots_ok :: "nat \<Rightarrow> ('a \<Rightarrow> bool) \<Rightarrow> 'a olm_list \<Rightarrow> bool" where
  "slots_ok cap ok l \<longleftrightarrow> list_ok cap l \<and> (\<forall>x \<in> set (ol_data l). ok x)"

definition ratchet_ok :: "ratchet \<Rightarrow> bool" where
  "ratchet_ok r \<longleftrightarrow> length (rt_root_key r) = 32
     \<and> slots_ok OLM_MAX_SENDER_CHAINS sender_chain_ok (rt_sender_chain r)
     \<and> slots_ok OLM_MAX_RECEIVER_CHAINS receiver_chain_ok (rt_receiver_chains r)
     \<and> slots_ok OLM_MAX_SKIPPED_MESSAGE_KEYS skipped_message_key_ok (rt_skipped_message_keys r)"

named_theorems ratchet_ok_intros \<open>the operations keep the well-formedness of the state\<close>

lemma slots_ok_init [ratchet_ok_intros]: "slots_ok cap ok l \<Longrightarrow> slots_ok cap ok (olm_list_init l)"
  by (simp add: slots_ok_def) (simp add: olm_list_init_def)

lemma slots_ok_set [ratchet_ok_intros]:
  "slots_ok cap ok l \<Longrightarrow> ok v \<Longrightarrow> slots_ok cap ok (olm_list_set l i v)"
  using set_update_subset_insert [of "ol_data l" i v]
  by (auto simp: slots_ok_def) (auto simp: olm_list_set_def)

lemma set_write_read: "set (write_at m p (read_at m q n)) \<subseteq> set m"
  by (auto simp: write_at_def read_at_def dest: in_set_takeD in_set_dropD)

lemma slots_ok_insert [ratchet_ok_intros]:
  "slots_ok cap ok l \<Longrightarrow> i \<le> ol_length l \<Longrightarrow> slots_ok cap ok (fst (olm_list_insert l i))"
  using list_ok_insert [of cap l i] set_write_read [of "ol_data l"]
  by (fastforce simp: slots_ok_def olm_list_insert_def Let_def memmove_def split: if_splits)

lemma slots_ok_erase [ratchet_ok_intros]: "slots_ok cap ok l \<Longrightarrow> slots_ok cap ok (olm_list_erase l i)"
  using list_ok_erase [of cap l i] set_write_read [of "ol_data l"]
  by (fastforce simp: slots_ok_def olm_list_erase_def Let_def memmove_def split: if_splits)

lemma slots_ok_push_front [ratchet_ok_intros]:
  "slots_ok cap ok l \<Longrightarrow> ok v \<Longrightarrow> slots_ok cap ok (olm_list_push_front l v)"
  using slots_ok_insert [of cap ok l 0]
  by (auto simp: olm_list_push_front_def olm_list_insert_front_def intro: slots_ok_set split: prod.splits)

lemma slots_ok_get: "slots_ok cap ok l \<Longrightarrow> i < cap \<Longrightarrow> ok (olm_list_get l i)"
  by (simp add: slots_ok_def list_ok_def olm_list_get_def)

lemma slots_ok_elems: "slots_ok cap ok l \<Longrightarrow> x \<in> set (elems l) \<Longrightarrow> ok x"
  by (auto simp: slots_ok_def elems_def dest: in_set_takeD)

lemma slots_list_ok: "slots_ok cap ok l \<Longrightarrow> list_ok cap l"
  by (simp add: slots_ok_def)

lemma ratchet_list_ok:
  assumes "ratchet_ok r"
  shows "list_ok OLM_MAX_SENDER_CHAINS (rt_sender_chain r)"
    "list_ok OLM_MAX_RECEIVER_CHAINS (rt_receiver_chains r)"
    "list_ok OLM_MAX_SKIPPED_MESSAGE_KEYS (rt_skipped_message_keys r)"
  using assms by (simp_all add: ratchet_ok_def slots_ok_def)

lemma create_chain_key_ok [ratchet_ok_intros]:
  "create_chain_key S root k t info = (root', c) \<Longrightarrow> chain_key_ok c"
  "create_chain_key S root k t info = (root', c) \<Longrightarrow> length root' = 32"
  by (auto simp: create_chain_key_def chain_key_ok_def Let_def)

lemma chain_steps_ok [ratchet_ok_intros]:
  "chain_key_ok (advance_chain_key S c)" "length (mk_key (create_message_keys S c)) = 32"
  by (simp_all add: chain_key_ok_def advance_chain_key_def create_message_keys_def)

lemma unset_ok [ratchet_ok_intros]: "sender_chain_ok unset_sender_chain" "skipped_message_key_ok unset_message_key"
  by (simp_all add: sender_chain_ok_def skipped_message_key_ok_def unset_sender_chain_def
      unset_message_key_def curve25519_key_pair_ok_def chain_key_ok_def)

lemma push_front_as_insert:
  "olm_list_insert_front l = (l', i) \<Longrightarrow> olm_list_set l' i v = olm_list_push_front l v"
  by (simp add: olm_list_push_front_def)

lemma ratchet_init_ok: "ratchet_ok r \<Longrightarrow> ratchet_ok (olm_ratchet_init i c r)"
  by (simp add: ratchet_ok_def olm_ratchet_init_def slots_ok_init)

lemma initialise_as_bob_ok:
  "ratchet_ok r \<Longrightarrow> length k = 32 \<Longrightarrow> ratchet_ok (olm_ratchet_initialise_as_bob S r secret k)"
  by (simp add: ratchet_ok_def olm_ratchet_initialise_as_bob_def slots_ok_push_front Let_def
      receiver_chain_ok_def chain_key_ok_def)

lemma initialise_as_alice_ok:
  "ratchet_ok r \<Longrightarrow> curve25519_key_pair_ok k \<Longrightarrow> ratchet_ok (olm_ratchet_initialise_as_alice S r secret k)"
  by (simp add: ratchet_ok_def olm_ratchet_initialise_as_alice_def slots_ok_push_front Let_def
      sender_chain_ok_def chain_key_ok_def)

lemma start_sender_chain_ok:
  assumes "ratchet_ok r" "32 \<le> length random"
  shows "ratchet_ok (start_sender_chain S r random)"
proof -
  obtain l i where l: "olm_list_insert_front (rt_sender_chain r) = (l, i)" by force
  obtain root c where c: "create_chain_key S (rt_root_key r) (olm_crypto_curve25519_generate_key S random)
      (rc_ratchet_key (olm_list_get (rt_receiver_chains r) 0)) (rt_kdf_info r) = (root, c)" by force
  show ?thesis
    using assms create_chain_key_ok [OF c]
    by (simp add: start_sender_chain_def l c ratchet_ok_def push_front_as_insert [OF l]
        slots_ok_push_front sender_chain_ok_def generate_key_ok)
qed

lemma start_receiver_chain_ok:
  assumes "ratchet_ok r" "length k = 32"
  shows "ratchet_ok (start_receiver_chain S r k)"
proof -
  obtain l i where l: "olm_list_insert_front (rt_receiver_chains r) = (l, i)" by force
  obtain root c where c: "create_chain_key S (rt_root_key r)
      (sc_ratchet_key (olm_list_get (rt_sender_chain r) 0)) k (rt_kdf_info r) = (root, c)" by force
  show ?thesis
    using assms create_chain_key_ok [OF c]
    by (simp add: start_receiver_chain_def l c ratchet_ok_def push_front_as_insert [OF l] Let_def
        slots_ok_push_front slots_ok_erase slots_ok_set unset_ok receiver_chain_ok_def)
qed

lemma skip_message_keys_ok:
  "chain_key_ok c \<Longrightarrow> slots_ok 40 skipped_message_key_ok keys \<Longrightarrow> length k = 32 \<Longrightarrow>
   chain_key_ok (fst (skip_message_keys S counter k c keys)) \<and>
   slots_ok 40 skipped_message_key_ok (snd (skip_message_keys S counter k c keys))"
proof (induction S counter k c keys rule: skip_message_keys.induct)
  case (1 S counter k c keys)
  show ?case
  proof (cases "ck_index c < counter")
    case True
    have "skipped_message_key_ok \<lparr>sm_ratchet_key = k, sm_message_key = create_message_keys S c\<rparr>"
      using 1(4) by (simp add: skipped_message_key_ok_def chain_steps_ok)
    then have "slots_ok 40 skipped_message_key_ok (olm_list_push_front keys
        \<lparr>sm_ratchet_key = k, sm_message_key = create_message_keys S c\<rparr>)"
      using 1(3) by (intro slots_ok_push_front)
    then show ?thesis
      using 1(1) [OF True refl] 1(4) True chain_steps_ok(1)
      by (simp add: skip_message_keys.simps [of S counter k c])
  next
    case False
    then show ?thesis using 1(2,3) by (simp add: skip_message_keys.simps [of S counter k c])
  qed
qed

lemma advance_receiver_chain_ok:
  assumes "ratchet_ok r" "i < 5"
  shows "ratchet_ok (advance_receiver_chain S r i counter)"
proof -
  let ?c = "olm_list_get (rt_receiver_chains r) i"
  obtain c keys where k: "skip_message_keys S counter (rc_ratchet_key ?c) (rc_chain_key ?c)
      (rt_skipped_message_keys r) = (c, keys)" by force
  have ok: "receiver_chain_ok ?c" using assms slots_ok_get [of 5 receiver_chain_ok _ i] by (simp add: ratchet_ok_def)
  then have "slots_ok 40 skipped_message_key_ok keys"
    using assms skip_message_keys_ok [of "rc_chain_key ?c" "rt_skipped_message_keys r" "rc_ratchet_key ?c" S counter]
    by (simp add: k ratchet_ok_def receiver_chain_ok_def)
  then show ?thesis
    using ok assms(1) chain_steps_ok(1)
    by (simp add: advance_receiver_chain_def k ratchet_ok_def receiver_chain_ok_def slots_ok_set Let_def)
qed

lemma find_chain_Some:
  "find_chain k cs i = Some j \<Longrightarrow> i \<le> j \<and> j < i + length cs \<and> rc_ratchet_key (cs ! (j - i)) = k"
proof (induction k cs i rule: find_chain.induct)
  case (2 k c rest i)
  then show ?case
    by (cases "rc_ratchet_key c = k") (auto simp: nth_Cons' split: if_splits dest: Suc_leD)
qed simp

lemma find_chain_None: "find_chain k cs i = None \<longleftrightarrow> (\<forall>c \<in> set cs. rc_ratchet_key c \<noteq> k)"
  by (induction k cs i rule: find_chain.induct) auto

text \<open>Encryption and decryption keep the invariant, whatever the input and the random bytes.\<close>

lemma ratchet_encrypt_ok:
  assumes "ratchet_ok r"
  shows "ratchet_ok (fst (olm_ratchet_encrypt S r p random m))"
proof -
  have advance: "ratchet_ok (r\<lparr>rt_sender_chain := olm_list_set (rt_sender_chain r) 0
      (olm_list_get (rt_sender_chain r) 0\<lparr>sc_chain_key := advance_chain_key S c\<rparr>)\<rparr>)"
    if "ratchet_ok r" for r c
    using that slots_ok_get [of 1 sender_chain_ok "rt_sender_chain r" 0]
    by (auto simp: ratchet_ok_def sender_chain_ok_def chain_steps_ok intro!: slots_ok_set)
  have "32 \<le> length random" if "olm_list_empty (rt_sender_chain r)" "\<not> length random < olm_ratchet_encrypt_random_length r"
    using that by (simp add: olm_ratchet_encrypt_random_length_def)
  then show ?thesis
    using assms advance start_sender_chain_ok [OF assms, of random S]
    by (auto simp: olm_ratchet_encrypt_def Let_def split: prod.splits)
       (simp_all add: ratchet_ok_def)
qed

lemma ratchet_decrypt_ok:
  assumes "ratchet_ok r"
  shows "ratchet_ok (fst (olm_ratchet_decrypt S r input b))"
proof -
  have e: "ratchet_ok (r\<lparr>rt_last_error := e\<rparr>)" for e using assms by (simp add: ratchet_ok_def)
  have s: "ratchet_ok (r\<lparr>rt_skipped_message_keys :=
      olm_list_erase (olm_list_set (rt_skipped_message_keys r) j unset_message_key) j\<rparr>)" for j
    using assms by (auto simp: ratchet_ok_def unset_ok intro!: slots_ok_erase slots_ok_set)
  have "i < 5" if "find_chain k (elems (rt_receiver_chains r)) 0 = Some i" for k i
    using find_chain_Some [OF that] length_elems_le [OF ratchet_list_ok(2) [OF assms]] by simp
  then show ?thesis
    using e s assms
    by (auto simp: olm_ratchet_decrypt_def Let_def advance_receiver_chain_ok start_receiver_chain_ok
        split: prod.splits option.splits)
qed

end
