(* ===== verification/Ratchet_Messages.thy ===== *)
theory Ratchet_Messages
  imports Ratchet
begin

text \<open>
  What the encryption and the decryption of \<open>ratchet.c\<close> do to each other: the message that
  encryption writes, the three ways decryption finds its key (a known receiver chain, a
  skipped key, a new chain), and what each leaves in the state.
\<close>

section \<open>Chains\<close>

lemma unat_of_nat_small: "n < 2 ^ 32 \<Longrightarrow> unat (of_nat n :: u32) = n"
  by (simp add: unsigned_of_nat take_bit_nat_eq_self)

text \<open>The chain key \<open>n\<close> steps on.\<close>

abbreviation chain_after :: "sodium \<Rightarrow> nat \<Rightarrow> chain_key \<Rightarrow> chain_key" where
  "chain_after S n c \<equiv> (advance_chain_key S ^^ n) c"

lemma index_chain_after [simp]: "ck_index (chain_after S n c) = ck_index c + of_nat n"
  by (induction n) (simp_all add: advance_chain_key_def)

lemma index_advance [simp]: "ck_index (advance_chain_key S c) = ck_index c + 1"
  by (simp add: advance_chain_key_def)

lemma chain_after_Suc: "chain_after S n (advance_chain_key S c) = chain_after S (Suc n) c"
  by (simp only: funpow_Suc_right comp_apply)

lemma index_distance:
  "i < (c :: u32) \<Longrightarrow> unat (c - i) = Suc (unat (c - (i + 1)))"
proof -
  assume i: "i < c"
  have "unat (c - i) = unat c - unat i" using i by (intro unat_sub) simp
  moreover have "unat (c - (i + 1)) = unat c - unat (i + 1)"
    using i unat_Suc_less [OF i] by (intro unat_sub) (simp add: word_le_nat_alt word_less_nat_alt)
  ultimately show ?thesis using i unat_Suc_less [OF i] by (simp add: word_less_nat_alt)
qed

lemma advance_chain_to_eq:
  "ck_index c \<le> counter \<Longrightarrow> advance_chain_to S counter c = chain_after S (unat (counter - ck_index c)) c"
proof (induction S counter c rule: advance_chain_to.induct)
  case (1 S counter c)
  show ?case
  proof (cases "ck_index c < counter")
    case True
    have "ck_index (advance_chain_key S c) \<le> counter"
      using True unat_Suc_less [OF True] by (simp add: advance_chain_key_def word_le_nat_alt word_less_nat_alt)
    then have "advance_chain_to S counter c =
        chain_after S (unat (counter - (ck_index c + 1))) (advance_chain_key S c)"
      using 1(1) [OF True] True by (simp add: advance_chain_to.simps [of S counter c])
    then show ?thesis by (simp only: chain_after_Suc index_distance [OF True])
  next
    case False
    then show ?thesis using 1(2) by (simp add: advance_chain_to.simps [of S counter c])
  qed
qed

text \<open>The keys of the first \<open>n\<close> messages of a chain.\<close>

definition skipped_keys :: "sodium \<Rightarrow> bytes \<Rightarrow> chain_key \<Rightarrow> nat \<Rightarrow> skipped_message_key list" where
  "skipped_keys S k c n =
     map (\<lambda>i. \<lparr>sm_ratchet_key = k, sm_message_key = create_message_keys S (chain_after S i c)\<rparr>) [0..<n]"

lemma skipped_keys_Suc:
  "skipped_keys S k c (Suc n) =
     \<lparr>sm_ratchet_key = k, sm_message_key = create_message_keys S c\<rparr> # skipped_keys S k (advance_chain_key S c) n"
  by (simp add: skipped_keys_def upt_conv_Cons map_Suc_upt [symmetric] chain_after_Suc del: upt_Suc funpow.simps)

lemma skip_message_keys_eq:
  "ck_index c \<le> counter \<Longrightarrow>
   skip_message_keys S counter k c keys =
     (chain_after S (unat (counter - ck_index c)) c,
      fold (\<lambda>v l. olm_list_push_front l v) (skipped_keys S k c (unat (counter - ck_index c))) keys)"
proof (induction S counter k c keys rule: skip_message_keys.induct)
  case (1 S counter k c keys)
  show ?case
  proof (cases "ck_index c < counter")
    case True
    have le: "ck_index (advance_chain_key S c) \<le> counter"
      using True unat_Suc_less [OF True] by (simp add: advance_chain_key_def word_le_nat_alt word_less_nat_alt)
    have d: "unat (counter - ck_index c) = Suc (unat (counter - ck_index (advance_chain_key S c)))"
      using index_distance [OF True] by (simp add: advance_chain_key_def)
    show ?thesis
      using 1(1) [OF True refl le] True
      by (simp only: skip_message_keys.simps [of S counter k c] if_True Let_def d skipped_keys_Suc fold_simps
          chain_after_Suc)
  next
    case False
    then show ?thesis using 1(2) by (simp add: skip_message_keys.simps [of S counter k c] skipped_keys_def)
  qed
qed

section \<open>The message that encryption writes\<close>

definition ratchet_body :: "sodium \<Rightarrow> bytes \<Rightarrow> message_key \<Rightarrow> bytes \<Rightarrow> bytes \<Rightarrow> bytes" where
  "ratchet_body S cipher mk key p =
     message_body PROTOCOL_VERSION (mk_index mk) key (aes_sha_256_ciphertext S cipher (mk_key mk) p)"

definition ratchet_message :: "sodium \<Rightarrow> bytes \<Rightarrow> message_key \<Rightarrow> bytes \<Rightarrow> bytes \<Rightarrow> bytes" where
  "ratchet_message S cipher mk key p =
     ratchet_body S cipher mk key p @ aes_sha_256_mac S cipher (mk_key mk) (ratchet_body S cipher mk key p)"

text \<open>The ratchet as it is when the message key is taken, and the sender chain it is taken from.\<close>

definition sending :: "sodium \<Rightarrow> ratchet \<Rightarrow> bytes \<Rightarrow> ratchet" where
  "sending S r random = (if olm_list_empty (rt_sender_chain r) then start_sender_chain S r random else r)"

definition sending_chain :: "sodium \<Rightarrow> ratchet \<Rightarrow> bytes \<Rightarrow> sender_chain" where
  "sending_chain S r random = olm_list_get (rt_sender_chain (sending S r random)) 0"

definition sent :: "sodium \<Rightarrow> ratchet \<Rightarrow> bytes \<Rightarrow> ratchet" where
  "sent S r random =
     (let c = sending_chain S r random
      in sending S r random\<lparr>rt_sender_chain := olm_list_set (rt_sender_chain (sending S r random)) 0
           (c\<lparr>sc_chain_key := advance_chain_key S (sc_chain_key c)\<rparr>)\<rparr>)"

definition sent_message :: "sodium \<Rightarrow> ratchet \<Rightarrow> bytes \<Rightarrow> bytes \<Rightarrow> bytes" where
  "sent_message S r random p =
     (let c = sending_chain S r random
      in ratchet_message S (rt_ratchet_cipher r) (create_message_keys S (sc_chain_key c))
           (ckp_public_key (sc_ratchet_key c)) p)"

lemma sending_cipher [simp]:
  "rt_ratchet_cipher (sending S r random) = rt_ratchet_cipher r"
  "rt_kdf_info (sending S r random) = rt_kdf_info r"
  "rt_receiver_chains (sending S r random) = rt_receiver_chains r"
  "rt_skipped_message_keys (sending S r random) = rt_skipped_message_keys r"
  by (simp_all add: sending_def start_sender_chain_def Let_def case_prod_beta)

lemma length_ratchet_body_le:
  assumes "length key = 32" "length p < 2 ^ 60"
  shows "length (ratchet_body S i mk key p) \<le> length p + 77"
proof -
  have "length p mod 16 < 16" by simp
  then have "length (aes_sha_256_ciphertext S i (mk_key mk) p) \<le> length p + 16"
    by (simp add: length_aes_sha_256_ciphertext)
  then show ?thesis
    using length_message_body_le [of key "aes_sha_256_ciphertext S i (mk_key mk) p" 3 "mk_index mk"] assms
    by (simp add: ratchet_body_def)
qed

lemma length_ratchet_message:
  "length (ratchet_message S i mk key p) = length (ratchet_body S i mk key p) + 8"
  by (simp add: ratchet_message_def)

lemma sending_ok:
  assumes "ratchet_ok r" "olm_ratchet_encrypt_random_length r \<le> length random"
  shows "ratchet_ok (sending S r random)" "sender_chain_ok (sending_chain S r random)"
proof -
  show ok: "ratchet_ok (sending S r random)"
    using assms start_sender_chain_ok [OF assms(1), of random S]
    by (cases "olm_list_empty (rt_sender_chain r)")
      (simp_all add: sending_def olm_ratchet_encrypt_random_length_def)
  show "sender_chain_ok (sending_chain S r random)"
    using ok slots_ok_get [of 1 sender_chain_ok "rt_sender_chain (sending S r random)" 0]
    by (simp add: ratchet_ok_def sending_chain_def)
qed

lemma start_sender_chain_get:
  assumes "ratchet_ok r" "olm_list_empty (rt_sender_chain r)"
  shows "elems (rt_sender_chain (start_sender_chain S r random)) =
    [let k = olm_crypto_curve25519_generate_key S random
     in \<lparr>sc_ratchet_key = k, sc_chain_key = snd (create_chain_key S (rt_root_key r) k
           (rc_ratchet_key (olm_list_get (rt_receiver_chains r) 0)) (rt_kdf_info r))\<rparr>]"
proof -
  note ok = ratchet_list_ok(1) [OF assms(1)]
  obtain l i where l: "olm_list_insert_front (rt_sender_chain r) = (l, i)" by force
  have "elems (rt_sender_chain r) = []" using assms(2) olm_list_empty_iff [OF ok] by simp
  then show ?thesis
    using sender_list.live_push_front [OF ok]
    by (simp add: start_sender_chain_def l push_front_as_insert [OF l] Let_def case_prod_beta)
qed

lemma get_0_elems: "elems l \<noteq> [] \<Longrightarrow> olm_list_get l 0 = hd (elems l)"
  by (cases "ol_length l"; cases "ol_data l") (simp_all add: elems_def olm_list_get_def)

lemma elems_sending:
  assumes "ratchet_ok r"
  shows "elems (rt_sender_chain (sending S r random)) = [sending_chain S r random]"
proof (cases "olm_list_empty (rt_sender_chain r)")
  case True
  then show ?thesis
    using start_sender_chain_get [OF assms True, of S random]
    by (simp add: sending_chain_def sending_def get_0_elems)
next
  case False
  note ok = ratchet_list_ok(1) [OF assms]
  obtain c where "elems (rt_sender_chain r) = [c]"
    using False olm_list_empty_iff [OF ok] length_elems_le [OF ok]
    by (cases "elems (rt_sender_chain r)") auto
  then show ?thesis using False by (simp add: sending_chain_def sending_def get_0_elems)
qed

lemma elems_sent:
  "ratchet_ok r \<Longrightarrow> elems (rt_sender_chain (sent S r random)) =
     [(sending_chain S r random)\<lparr>sc_chain_key := advance_chain_key S (sc_chain_key (sending_chain S r random))\<rparr>]"
  by (simp add: sent_def Let_def elems_sending)

lemma start_sender_index:
  assumes "ratchet_ok r"
  shows "(if \<not> olm_list_empty (rt_sender_chain r)
          then ck_index (sc_chain_key (olm_list_get (rt_sender_chain r) 0)) else 0) =
    ck_index (sc_chain_key (sending_chain S r random))"
  using start_sender_chain_get [OF assms, of S random]
  by (auto simp: sending_chain_def sending_def get_0_elems create_chain_key_def Let_def)

text \<open>What \<open>aes_sha_256_cipher_encrypt\<close> leaves of a laid out message.\<close>

lemma ratchet_encrypt_layout:
  assumes k: "length key = 32" and p: "length p < 2 ^ 60"
    and msg: "msg = ratchet_message S i mk key p" and fits: "length msg \<le> length m" "length m < 2 ^ 64"
    and n: "n = aes_sha_256_cipher_encrypt_ciphertext_length (length p)"
    and enc: "olm_encode_message PROTOCOL_VERSION (mk_index mk) 32 n m = (m', w)"
    and m2: "m2 = write_at m' (mw_ratchet_key w) key"
  shows "write_at m2 0 (fst (aes_sha_256_cipher_encrypt S i (mk_key mk) p (mw_ciphertext w) n
            (take (length msg) m2))) = write_at m 0 msg"
proof -
  let ?ct = "aes_sha_256_ciphertext S i (mk_key mk) p" and ?body = "ratchet_body S i mk key p"
  let ?x = "take (length msg) m2" and ?o = "mw_ciphertext w"
  have ct: "length ?ct = n" using p n by (simp add: aes_sha_256.ciphertext_length)
  have b: "?body = message_body PROTOCOL_VERSION (mk_index mk) key ?ct" by (simp add: ratchet_body_def)
  have enc': "olm_encode_message PROTOCOL_VERSION (mk_index mk) (length key) (length ?ct) m = (m', w)"
    using enc by (simp add: ct k)
  have lb: "length msg = length ?body + 8" by (simp add: msg length_ratchet_message)
  have bm: "length ?body \<le> length m" using lb fits by simp
  note L = encode_message_layout [OF enc' bm [unfolded b] fits(2)]
  have o: "?o + n = length ?body" using L(4) by (simp add: b ct)
  have l2: "length m2 = length m" using L(2,3) o bm k by (simp add: m2)
  have w2: "write_at m2 ?o ?ct = write_at m 0 ?body" using L(1) by (simp add: m2 b)
  have x: "length ?x = length msg" using fits l2 by simp
  have xw: "write_at ?x ?o ?ct = take (length msg) (write_at m 0 ?body)"
    unfolding w2 [symmetric] using o ct lb fits l2 by (simp add: write_at_def min_def drop_take)
  have xb: "write_at ?x ?o ?ct = ?body @ read_at m (length ?body) 8"
    unfolding xw using lb fits by (simp add: write_at_def read_at_def)
  have "aes_sha_256_cipher_encrypt S i (mk_key mk) p ?o n ?x =
      (let m = write_at ?x ?o ?ct in (write_at m (length m - 8) (aes_sha_256_mac S i (mk_key mk) (take (length m - 8) m)),
        Some (length m)))"
    using aes_sha_256_encrypt_eq [of p ?o S i "mk_key mk" ?x] p o lb x by (simp add: ct)
  then have "fst (aes_sha_256_cipher_encrypt S i (mk_key mk) p ?o n ?x) = msg"
    unfolding xb Let_def using lb fits by (simp add: write_at_def msg ratchet_message_def)
  moreover have "drop (length msg) m2 = drop (length msg) m"
  proof -
    have "drop (length msg) (write_at m2 ?o ?ct) = drop (length msg) m2"
      using o ct lb fits l2 by (simp add: write_at_def add.commute)
    moreover have "drop (length msg) (write_at m 0 ?body) = drop (length msg) m"
      using lb by (simp add: write_at_def add.commute)
    ultimately show ?thesis by (simp add: w2)
  qed
  ultimately show ?thesis by (simp add: write_at_def)
qed

lemma ratchet_output_length:
  assumes "ratchet_ok r" "olm_ratchet_encrypt_random_length r \<le> length random" "length p < 2 ^ 60"
  shows "olm_ratchet_encrypt_output_length r (length p) = length (sent_message S r random p)"
proof -
  let ?c = "sending_chain S r random"
  let ?mk = "create_message_keys S (sc_chain_key ?c)" and ?k = "ckp_public_key (sc_ratchet_key ?c)"
  have k: "length ?k = 32" using sending_ok(2) [OF assms(1,2)]
    by (simp add: sender_chain_ok_def curve25519_key_pair_ok_def)
  have "olm_encode_message_length (mk_index ?mk) (length ?k)
      (length (aes_sha_256_ciphertext S (rt_ratchet_cipher r) (mk_key ?mk) p)) 8 =
      length (ratchet_body S (rt_ratchet_cipher r) ?mk ?k p) + 8"
    unfolding ratchet_body_def
    by (rule olm_encode_message_length_eq)
       (use length_ratchet_body_le [OF k assms(3), of S "rt_ratchet_cipher r" ?mk] assms(3) in \<open>simp add: ratchet_body_def\<close>)
  then show ?thesis
    using assms(3) k start_sender_index [OF assms(1), of S random]
    by (simp add: olm_ratchet_encrypt_output_length_def sent_message_def Let_def length_ratchet_message
        aes_sha_256.ciphertext_length aes_sha_256_cipher_mac_length_def create_message_keys_def)
qed

lemma length_sent_message:
  assumes "ratchet_ok r" "olm_ratchet_encrypt_random_length r \<le> length random" "length p < 2 ^ 60"
  shows "length (sent_message S r random p) \<le> length p + 85"
proof -
  have "length (ckp_public_key (sc_ratchet_key (sending_chain S r random))) = 32"
    using sending_ok(2) [OF assms(1,2)] by (simp add: sender_chain_ok_def curve25519_key_pair_ok_def)
  then show ?thesis
    using length_ratchet_body_le [of "ckp_public_key (sc_ratchet_key (sending_chain S r random))" p S "rt_ratchet_cipher r"
        "create_message_keys S (sc_chain_key (sending_chain S r random))"] assms(3)
    by (simp add: sent_message_def length_ratchet_message Let_def)
qed

lemma ratchet_encrypt_eq:
  assumes "ratchet_ok r" "olm_ratchet_encrypt_random_length r \<le> length random" "length p < 2 ^ 60"
    and "length (sent_message S r random p) \<le> length m" "length m < 2 ^ 64"
  shows "olm_ratchet_encrypt S r p random m =
    (sent S r random, write_at m 0 (sent_message S r random p), Some (length (sent_message S r random p)))"
proof -
  let ?c = "sending_chain S r random" and ?msg = "sent_message S r random p"
  let ?mk = "create_message_keys S (sc_chain_key ?c)" and ?k = "ckp_public_key (sc_ratchet_key ?c)"
  let ?n = "aes_sha_256_cipher_encrypt_ciphertext_length (length p)"
  have k: "length ?k = 32" using sending_ok(2) [OF assms(1,2)]
    by (simp add: sender_chain_ok_def curve25519_key_pair_ok_def)
  have g: "olm_list_get (olm_list_set (rt_sender_chain (sending S r random)) 0 x) 0 = x" for x
    by (rule get_0_elems [THEN trans]) (simp_all add: elems_sending [OF assms(1)])
  have cip: "rt_ratchet_cipher (sent S r random) = rt_ratchet_cipher r" by (simp add: sent_def Let_def)
  note out = ratchet_output_length [OF assms(1-3), of S]
  obtain m' w where enc: "olm_encode_message PROTOCOL_VERSION (mk_index ?mk) 32 ?n m = (m', w)" by force
  have msg: "?msg = ratchet_message S (rt_ratchet_cipher r) ?mk ?k p" by (simp add: sent_message_def Let_def)
  have lay: "write_at (write_at m' (mw_ratchet_key w) ?k) 0
      (fst (aes_sha_256_cipher_encrypt S (rt_ratchet_cipher r) (mk_key ?mk) p (mw_ciphertext w) ?n
         (take (length ?msg) (write_at m' (mw_ratchet_key w) ?k)))) = write_at m 0 ?msg"
    by (rule ratchet_encrypt_layout [OF k assms(3) msg assms(4,5) refl enc refl])
  have r: "(if olm_list_empty (rt_sender_chain r) then start_sender_chain S r random else r) = sending S r random"
    by (simp add: sending_def)
  show ?thesis
    using assms(2,4) lay
    by (simp add: olm_ratchet_encrypt_def out r g cip enc Let_def case_prod_beta sent_def
        flip: sending_chain_def)
qed

section \<open>Decryption of such a message\<close>

definition ratchet_reader :: "sodium \<Rightarrow> bytes \<Rightarrow> message_key \<Rightarrow> bytes \<Rightarrow> bytes \<Rightarrow> message_reader" where
  "ratchet_reader S cipher mk key p =
     \<lparr>mr_version = PROTOCOL_VERSION, mr_has_counter = True, mr_counter = mk_index mk,
      mr_input = ratchet_message S cipher mk key p, mr_ratchet_key = Some key,
      mr_ciphertext = Some (aes_sha_256_ciphertext S cipher (mk_key mk) p)\<rparr>"

lemma ratchet_reader_simps [simp]:
  "mr_version (ratchet_reader S ci mk k p) = PROTOCOL_VERSION" "mr_has_counter (ratchet_reader S ci mk k p)"
  "mr_counter (ratchet_reader S ci mk k p) = mk_index mk" "mr_ratchet_key (ratchet_reader S ci mk k p) = Some k"
  "mr_input (ratchet_reader S ci mk k p) = ratchet_message S ci mk k p"
  "mr_ciphertext (ratchet_reader S ci mk k p) = Some (aes_sha_256_ciphertext S ci (mk_key mk) p)"
  by (simp_all add: ratchet_reader_def)

lemma length_ciphertext_le: "length (aes_sha_256_ciphertext S i k p) \<le> length p + 16"
  by (simp add: length_aes_sha_256_ciphertext)

lemma decode_ratchet_message:
  assumes "length key = 32" "length p < 2 ^ 60"
  shows "olm_decode_message (ratchet_message S ci mk key p) aes_sha_256_cipher_mac_length =
    ratchet_reader S ci mk key p"
  using decode_message_body [of key "aes_sha_256_ciphertext S ci (mk_key mk) p" PROTOCOL_VERSION
      "mk_index mk" "aes_sha_256_mac S ci (mk_key mk) (ratchet_body S ci mk key p)"]
    length_ciphertext_le [of S ci "mk_key mk" p] assms
  by (simp add: ratchet_message_def ratchet_reader_def ratchet_body_def aes_sha_256_cipher_mac_length_def)

text \<open>The buffer after the plaintext was written.\<close>

definition decrypted :: "bytes \<Rightarrow> bytes \<Rightarrow> bytes" where
  "decrypted p b = write_at b 0 (cbc_padded p)"

lemma take_decrypted: "take (length p) (decrypted p b) = p"
  by (simp add: decrypted_def write_at_def cbc_padded_def)

lemma verify_right_key:
  assumes "length (aes_sha_256_ciphertext S ci (mk_key mk) p) \<le> length b"
  shows "verify_mac_and_decrypt S ci mk (ratchet_reader S ci mk key p) b = (decrypted p b, Some (length p))"
  using aes_sha_256_decrypt_ok [OF assms]
  by (simp add: verify_mac_and_decrypt_def ratchet_message_def decrypted_def)

lemma verify_existing_chain:
  assumes "length (aes_sha_256_ciphertext S (rt_ratchet_cipher r) (mk_key mk) p) \<le> length b"
    and mk: "mk = create_message_keys S (chain_after S n c)"
    and n: "n \<le> MAX_MESSAGE_GAP" "unat (ck_index c) + n < 2 ^ 32"
  shows "verify_mac_and_decrypt_for_existing_chain S r c (ratchet_reader S (rt_ratchet_cipher r) mk key p) b =
    (decrypted p b, Some (length p))"
proof -
  have i: "mk_index mk = ck_index c + of_nat n" by (simp add: mk create_message_keys_def)
  have n': "unat (of_nat n :: u32) = n" using n by (simp add: unat_of_nat_small)
  have u: "unat (ck_index c + of_nat n) = unat (ck_index c) + n"
    using n by (simp add: unat_word_ariths n')
  have le: "ck_index c \<le> ck_index c + of_nat n" using u by (simp add: word_le_nat_alt)
  have d: "ck_index c + of_nat n - ck_index c = of_nat n" by simp
  have "create_message_keys S (advance_chain_to S (ck_index c + of_nat n) c) = mk"
    using advance_chain_to_eq [OF le] by (simp add: mk n')
  then show ?thesis
    using le n verify_right_key [OF assms(1)]
    by (simp add: verify_mac_and_decrypt_for_existing_chain_def Let_def i d n' not_less [symmetric])
qed

lemma receiver_chain_advanced:
  assumes i: "ck_index c \<le> counter" and c: "olm_list_get (rt_receiver_chains r) j = \<lparr>rc_ratchet_key = k, rc_chain_key = c\<rparr>"
    and d: "d = unat (counter - ck_index c)"
  shows "advance_receiver_chain S r j counter =
    r\<lparr>rt_receiver_chains := olm_list_set (rt_receiver_chains r) j
        \<lparr>rc_ratchet_key = k, rc_chain_key = chain_after S (Suc d) c\<rparr>,
      rt_skipped_message_keys :=
        fold (\<lambda>v l. olm_list_push_front l v) (skipped_keys S k c d) (rt_skipped_message_keys r)\<rparr>"
  using i by (simp add: advance_receiver_chain_def Let_def c skip_message_keys_eq d)

text \<open>
  The buffer for the plaintext has to have room for its padding: as many bytes as
  \<open>olm_ratchet_decrypt_max_plaintext_length\<close> asks for.
\<close>

declare length_cbc_padded [simp]

subsection \<open>On a known receiver chain\<close>

lemma decrypt_existing_chain:
  assumes r: "ratchet_ok r" and k: "length key = 32" and p: "length p < 2 ^ 60"
    and f: "find_chain key (elems (rt_receiver_chains r)) 0 = Some j"
    and c: "c = rc_chain_key (elems (rt_receiver_chains r) ! j)"
    and mk: "mk = create_message_keys S (chain_after S n c)"
    and n: "n \<le> MAX_MESSAGE_GAP" "unat (ck_index c) + n < 2 ^ 32"
    and b: "length (cbc_padded p) \<le> length b"
  shows "olm_ratchet_decrypt S r (ratchet_message S (rt_ratchet_cipher r) mk key p) b =
    (r\<lparr>rt_receiver_chains := olm_list_set (rt_receiver_chains r) j
         \<lparr>rc_ratchet_key = key, rc_chain_key = chain_after S (Suc n) c\<rparr>,
       rt_skipped_message_keys :=
         fold (\<lambda>v l. olm_list_push_front l v) (skipped_keys S key c n) (rt_skipped_message_keys r)\<rparr>,
     decrypted p b, Some (length p))"
proof -
  let ?ct = "aes_sha_256_ciphertext S (rt_ratchet_cipher r) (mk_key mk) p"
  note j = find_chain_Some [OF f, simplified]
  have get: "olm_list_get (rt_receiver_chains r) j = elems (rt_receiver_chains r) ! j"
    using j length_elems [OF ratchet_list_ok(2) [OF r]] by (simp add: olm_list_get_elems)
  have get': "olm_list_get (rt_receiver_chains r) j = \<lparr>rc_ratchet_key = key, rc_chain_key = c\<rparr>"
    using get j c by simp
  have ct: "length ?ct \<le> length b" using b by (simp add: length_aes_sha_256_ciphertext length_cbc_padded)
  have n': "unat (of_nat n :: u32) = n" using n by (simp add: unat_of_nat_small)
  have i: "mk_index mk = ck_index c + of_nat n" by (simp add: mk create_message_keys_def)
  have u: "unat (ck_index c + of_nat n) = unat (ck_index c) + n"
    using n by (simp add: unat_word_ariths n')
  have le: "ck_index c \<le> mk_index mk" using u by (simp add: i word_le_nat_alt)
  have d: "n = unat (mk_index mk - ck_index c)" by (simp add: i n')
  show ?thesis
    using ct k le verify_existing_chain [OF ct mk n] receiver_chain_advanced [OF le get' d]
    by (simp add: olm_ratchet_decrypt_def decode_ratchet_message [OF k p] Let_def f get'
        aes_sha_256_cipher_decrypt_max_plaintext_length_def not_less [symmetric])
qed

subsection \<open>On a new chain\<close>

lemma new_chain_advanced:
  assumes r: "ratchet_ok r" and s: "elems (rt_sender_chain r) = [s]"
    and new: "create_chain_key S (rt_root_key r) (sc_ratchet_key s) key (rt_kdf_info r) = (root, c)"
    and r': "r' = advance_receiver_chain S (start_receiver_chain S r key) 0 counter"
  shows "rt_root_key r' = root" "elems (rt_sender_chain r') = []"
    "elems (rt_receiver_chains r') = take 5 (\<lparr>rc_ratchet_key = key,
        rc_chain_key = chain_after S (Suc (unat counter)) c\<rparr> # elems (rt_receiver_chains r))"
    "elems (rt_skipped_message_keys r') =
        take 40 (rev (skipped_keys S key c (unat counter)) @ elems (rt_skipped_message_keys r))"
    "rt_kdf_info r' = rt_kdf_info r" "rt_ratchet_cipher r' = rt_ratchet_cipher r"
proof -
  note ok = ratchet_list_ok [OF r]
  have get: "olm_list_get (rt_sender_chain r) 0 = s" using s by (simp add: get_0_elems)
  have c0: "ck_index c = 0" using new by (auto simp: create_chain_key_def Let_def)
  define r1 where "r1 = start_receiver_chain S r key"
  define chain where "chain = \<lparr>rc_ratchet_key = key, rc_chain_key = c\<rparr>"
  obtain l j where l: "olm_list_insert_front (rt_receiver_chains r) = (l, j)" by force
  have r1: "r1 = r\<lparr>rt_receiver_chains := olm_list_push_front (rt_receiver_chains r) chain, rt_root_key := root,
      rt_sender_chain := olm_list_erase (olm_list_set (rt_sender_chain r) 0 unset_sender_chain) 0\<rparr>"
    by (simp add: r1_def start_receiver_chain_def l get new push_front_as_insert [OF l] Let_def chain_def)
  have e1: "elems (rt_receiver_chains r1) = take 5 (chain # elems (rt_receiver_chains r))"
    using receiver_list.live_push_front [OF ok(2)] by (simp add: r1)
  have g1: "olm_list_get (rt_receiver_chains r1) 0 = chain" by (simp add: get_0_elems e1)
  have le: "ck_index c \<le> counter" and d: "unat counter = unat (counter - ck_index c)" by (simp_all add: c0)
  have a: "r' = r1\<lparr>rt_receiver_chains := olm_list_set (rt_receiver_chains r1) 0
        \<lparr>rc_ratchet_key = key, rc_chain_key = chain_after S (Suc (unat counter)) c\<rparr>,
      rt_skipped_message_keys :=
        fold (\<lambda>v l. olm_list_push_front l v) (skipped_keys S key c (unat counter)) (rt_skipped_message_keys r1)\<rparr>"
    unfolding r' r1_def [symmetric] by (rule receiver_chain_advanced [OF le g1 [unfolded chain_def] d])
  have s': "elems (rt_sender_chain r1) = []"
    using elems_erase [OF list_ok_set [OF ok(1), of 0 unset_sender_chain], of 0]
    by (simp add: r1 s erase_elem_def)
  show "rt_root_key r' = root" "elems (rt_sender_chain r') = []"
    "elems (rt_receiver_chains r') = take 5 (\<lparr>rc_ratchet_key = key,
        rc_chain_key = chain_after S (Suc (unat counter)) c\<rparr> # elems (rt_receiver_chains r))"
    "rt_kdf_info r' = rt_kdf_info r" "rt_ratchet_cipher r' = rt_ratchet_cipher r"
    using a s' by (simp_all add: e1) (simp_all add: r1)
  show "elems (rt_skipped_message_keys r') =
      take 40 (rev (skipped_keys S key c (unat counter)) @ elems (rt_skipped_message_keys r))"
    using a skipped_list.live_fold_push_front [OF ok(3)] by (simp add: r1)
qed

lemma decrypt_new_chain:
  assumes r: "ratchet_ok r" and k: "length key = 32" and p: "length p < 2 ^ 60"
    and f: "\<forall>c \<in> set (elems (rt_receiver_chains r)). rc_ratchet_key c \<noteq> key"
    and s: "elems (rt_sender_chain r) = [s]"
    and new: "create_chain_key S (rt_root_key r) (sc_ratchet_key s) key (rt_kdf_info r) = (root, c)"
    and mk: "mk = create_message_keys S (chain_after S n c)"
    and n: "n \<le> MAX_MESSAGE_GAP"
    and b: "length (cbc_padded p) \<le> length b"
  shows "olm_ratchet_decrypt S r (ratchet_message S (rt_ratchet_cipher r) mk key p) b =
      (advance_receiver_chain S (start_receiver_chain S r key) 0 (of_nat n), decrypted p b, Some (length p))"
proof -
  let ?ct = "aes_sha_256_ciphertext S (rt_ratchet_cipher r) (mk_key mk) p"
  have f': "find_chain key (elems (rt_receiver_chains r)) 0 = None" using f by (simp add: find_chain_None)
  have get: "olm_list_get (rt_sender_chain r) 0 = s" "\<not> olm_list_empty (rt_sender_chain r)"
    using s olm_list_empty_iff [OF ratchet_list_ok(1) [OF r]] by (simp_all add: get_0_elems)
  have ct: "length ?ct \<le> length b" using b by (simp add: length_aes_sha_256_ciphertext length_cbc_padded)
  have c0: "ck_index c = 0" using new by (auto simp: create_chain_key_def Let_def)
  have n': "unat (of_nat n :: u32) = n" using n by (simp add: unat_of_nat_small)
  have i: "mk_index mk = of_nat n" by (simp add: mk create_message_keys_def c0)
  have v: "verify_mac_and_decrypt_for_new_chain S r (ratchet_reader S (rt_ratchet_cipher r) mk key p) b =
      (decrypted p b, Some (length p))"
    using verify_existing_chain [OF ct mk n] get n new c0
    by (simp add: verify_mac_and_decrypt_for_new_chain_def i n')
  show ?thesis
    using ct k v
    by (simp add: olm_ratchet_decrypt_def decode_ratchet_message [OF k p] Let_def f' i
        aes_sha_256_cipher_decrypt_max_plaintext_length_def)
qed

subsection \<open>With a skipped key\<close>

lemma try_skipped_hit:
  assumes "xs = pre @ \<lparr>sm_ratchet_key = key, sm_message_key = mk\<rparr> # post"
    and "\<forall>x \<in> set pre. \<not> (sm_ratchet_key x = key \<and> mk_index (sm_message_key x) = mk_index mk)"
    and "length (aes_sha_256_ciphertext S ci (mk_key mk) p) \<le> length b"
  shows "try_skipped S ci (ratchet_reader S ci mk key p) xs i b =
    (decrypted p b, Some (i + length pre, length p))"
  using assms(1,2)
proof (induction pre arbitrary: xs i)
  case Nil
  then show ?case using verify_right_key [OF assms(3), of key] by simp
next
  case (Cons x pre)
  then show ?case using Cons.IH [of "pre @ \<lparr>sm_ratchet_key = key, sm_message_key = mk\<rparr> # post" "i + 1"] by auto
qed

lemma decrypt_skipped:
  assumes r: "ratchet_ok r" and k: "length key = 32" and p: "length p < 2 ^ 60"
    and f: "find_chain key (elems (rt_receiver_chains r)) 0 = Some j"
    and old: "mk_index mk < ck_index (rc_chain_key (elems (rt_receiver_chains r) ! j))"
    and s: "elems (rt_skipped_message_keys r) = pre @ \<lparr>sm_ratchet_key = key, sm_message_key = mk\<rparr> # post"
    and pre: "\<forall>x \<in> set pre. \<not> (sm_ratchet_key x = key \<and> mk_index (sm_message_key x) = mk_index mk)"
    and b: "length (cbc_padded p) \<le> length b"
  shows "\<exists>r'. olm_ratchet_decrypt S r (ratchet_message S (rt_ratchet_cipher r) mk key p) b =
      (r', decrypted p b, Some (length p))
    \<and> elems (rt_skipped_message_keys r') = pre @ post
    \<and> r' = r\<lparr>rt_skipped_message_keys := rt_skipped_message_keys r'\<rparr>"
proof -
  let ?ct = "aes_sha_256_ciphertext S (rt_ratchet_cipher r) (mk_key mk) p"
  note ok = ratchet_list_ok [OF r]
  have ct: "length ?ct \<le> length b" using b by (simp add: length_aes_sha_256_ciphertext length_cbc_padded)
  have get: "olm_list_get (rt_receiver_chains r) j = elems (rt_receiver_chains r) ! j"
    using find_chain_Some [OF f] length_elems [OF ok(2)] by (simp add: olm_list_get_elems)
  have "elems (olm_list_erase (olm_list_set (rt_skipped_message_keys r) (length pre) unset_message_key) (length pre))
      = pre @ post"
    using elems_erase [OF list_ok_set [OF ok(3)]] by (simp add: s erase_elem_def)
  then show ?thesis
    using ct k old try_skipped_hit [OF s pre ct, of 0]
    by (simp add: olm_ratchet_decrypt_def decode_ratchet_message [OF k p] Let_def f get
        aes_sha_256_cipher_decrypt_max_plaintext_length_def)
qed

section \<open>A fresh pair of ratchets\<close>

lemma initialised_alice:
  assumes "ratchet_ok r" "elems (rt_sender_chain r) = []"
  shows "elems (rt_sender_chain (olm_ratchet_initialise_as_alice S r secret k)) =
    [\<lparr>sc_ratchet_key = k, sc_chain_key = \<lparr>ck_index = 0,
       ck_key = read_at (olm_crypto_hkdf_sha256 S secret [] (ki_root_info (rt_kdf_info r)) (zeros 64)) 32 32\<rparr>\<rparr>]"
  using sender_list.live_push_front [OF ratchet_list_ok(1) [OF assms(1)]] assms(2)
  by (simp add: olm_ratchet_initialise_as_alice_def Let_def)

lemma initialised_bob:
  assumes "ratchet_ok r" "elems (rt_receiver_chains r) = []"
  shows "elems (rt_receiver_chains (olm_ratchet_initialise_as_bob S r secret k)) =
    [\<lparr>rc_ratchet_key = k, rc_chain_key = \<lparr>ck_index = 0,
       ck_key = read_at (olm_crypto_hkdf_sha256 S secret [] (ki_root_info (rt_kdf_info r)) (zeros 64)) 32 32\<rparr>\<rparr>]"
  using receiver_list.live_push_front [OF ratchet_list_ok(2) [OF assms(1)]] assms(2)
  by (simp add: olm_ratchet_initialise_as_bob_def Let_def)

definition blank_ratchet :: ratchet where
  "blank_ratchet =
     \<lparr>rt_kdf_info = \<lparr>ki_root_info = [1], ki_ratchet_info = [2]\<rparr>, rt_ratchet_cipher = [3],
      rt_last_error = OLM_SUCCESS, rt_root_key = zeros 32,
      rt_sender_chain = \<lparr>ol_length = 0, ol_data = [unset_sender_chain]\<rparr>,
      rt_receiver_chains = \<lparr>ol_length = 0, ol_data = replicate 5
        \<lparr>rc_ratchet_key = zeros 32, rc_chain_key = \<lparr>ck_index = 0, ck_key = zeros 32\<rparr>\<rparr>\<rparr>,
      rt_skipped_message_keys = \<lparr>ol_length = 0, ol_data = replicate 40 unset_message_key\<rparr>\<rparr>"

lemma blank_ratchet_ok [simp]: "ratchet_ok blank_ratchet"
  by (simp add: ratchet_ok_def blank_ratchet_def slots_ok_def list_ok_def unset_ok receiver_chain_ok_def
      chain_key_ok_def)

lemma blank_elems [simp]: "elems (rt_sender_chain blank_ratchet) = []"
  "elems (rt_receiver_chains blank_ratchet) = []" "elems (rt_skipped_message_keys blank_ratchet) = []"
  by (simp_all add: blank_ratchet_def elems_def)

definition sample_key :: curve25519_key_pair where
  "sample_key = olm_crypto_curve25519_generate_key sample_sodium (zeros 32)"

definition sample_alice :: ratchet where
  "sample_alice = olm_ratchet_initialise_as_alice sample_sodium blank_ratchet [9] sample_key"

definition sample_bob :: ratchet where
  "sample_bob = olm_ratchet_initialise_as_bob sample_sodium blank_ratchet [9] (ckp_public_key sample_key)"

lemma sample_key_ok: "curve25519_key_pair_ok sample_key" "curve25519_pair sample_sodium sample_key"
  by (simp_all add: sample_key_def generate_key_ok generate_key_pair)

lemma sample_ratchets_ok: "ratchet_ok sample_alice" "ratchet_ok sample_bob"
  using sample_key_ok
  by (simp_all add: sample_alice_def sample_bob_def initialise_as_alice_ok initialise_as_bob_ok
      curve25519_key_pair_ok_def)

section \<open>Properties\<close>

text \<open>C7: A message that \<open>_olm_ratchet_encrypt\<close> writes, at any place of a longer buffer, is
  decrypted by the other side's \<open>_olm_ratchet_decrypt\<close> to the plaintext, as long as the
  receiver has a chain of the sender's ratchet key that is at most \<open>MAX_MESSAGE_GAP\<close> steps
  behind the sender's. The receiver's chain is then one step past the message, and the
  keys of the messages in between are the newest skipped keys.\<close>

theorem ratchet_roundtrip:
  assumes "ratchet_ok a" "ratchet_ok b" "rt_ratchet_cipher a = rt_ratchet_cipher b"
    and s: "elems (rt_sender_chain a) = [s]"
    and f: "find_chain (ckp_public_key (sc_ratchet_key s)) (elems (rt_receiver_chains b)) 0 = Some j"
    and c: "sc_chain_key s = chain_after S n (rc_chain_key (elems (rt_receiver_chains b) ! j))"
    and n: "n \<le> MAX_MESSAGE_GAP" "unat (ck_index (rc_chain_key (elems (rt_receiver_chains b) ! j))) + n < 2 ^ 32"
    and "length p < 2 ^ 60" "olm_ratchet_encrypt_output_length a (length p) \<le> length m" "length m < 2 ^ 64"
    and "length (cbc_padded p) \<le> length buf"
  shows "(let (a', m', len) = olm_ratchet_encrypt S a p random m;
              (b', buf', n') = olm_ratchet_decrypt S b (take (the len) m') buf
          in len = Some (olm_ratchet_encrypt_output_length a (length p))
             \<and> n' = Some (length p) \<and> take (length p) buf' = p
             \<and> rc_chain_key (elems (rt_receiver_chains b') ! j) = sc_chain_key (hd (elems (rt_sender_chain a')))
             \<and> elems (rt_skipped_message_keys b') =
                 take 40 (rev (skipped_keys S (ckp_public_key (sc_ratchet_key s))
                   (rc_chain_key (elems (rt_receiver_chains b) ! j)) n) @ elems (rt_skipped_message_keys b)))"
proof -
  let ?k = "ckp_public_key (sc_ratchet_key s)" and ?c = "rc_chain_key (elems (rt_receiver_chains b) ! j)"
  have ne: "\<not> olm_list_empty (rt_sender_chain a)"
    using s olm_list_empty_iff [OF ratchet_list_ok(1) [OF assms(1)]] by simp
  have rl: "olm_ratchet_encrypt_random_length a \<le> length random" using ne by (simp add: olm_ratchet_encrypt_random_length_def)
  have sc: "sending_chain S a random = s" "sending S a random = a"
    using ne s by (simp_all add: sending_chain_def sending_def get_0_elems)
  have out: "length (sent_message S a random p) = olm_ratchet_encrypt_output_length a (length p)"
    using ratchet_output_length [OF assms(1) rl assms(9)] by simp
  have enc: "olm_ratchet_encrypt S a p random m = (sent S a random, write_at m 0 (sent_message S a random p),
      Some (length (sent_message S a random p)))"
    using assms(9-11) out by (intro ratchet_encrypt_eq [OF assms(1) rl]) simp_all
  have k: "length ?k = 32" using sending_ok(2) [OF assms(1) rl, of S]
    by (simp add: sc sender_chain_ok_def curve25519_key_pair_ok_def)
  note dec = decrypt_existing_chain [OF assms(2) k assms(9) f refl refl n assms(12), of S]
  have msg: "sent_message S a random p =
      ratchet_message S (rt_ratchet_cipher b) (create_message_keys S (chain_after S n ?c)) ?k p"
    using assms(3) by (simp add: sent_message_def sc c Let_def)
  have j: "j < length (elems (rt_receiver_chains b))" using find_chain_Some [OF f] by simp
  show ?thesis
    using dec j skipped_list.live_fold_push_front [OF ratchet_list_ok(3) [OF assms(2)]]
    by (simp add: enc out take_decrypted elems_sent [OF assms(1)] sc c) (simp add: msg write_at_def take_decrypted flip: out)
qed

lemma ratchet_roundtrip_witness:
  "(let (a', m', len) = olm_ratchet_encrypt sample_sodium sample_alice [5, 6] [] (zeros 200);
              (b', buf', n') = olm_ratchet_decrypt sample_sodium sample_bob (take (the len) m') (zeros 32)
          in len = Some (olm_ratchet_encrypt_output_length sample_alice (length [5, 6 :: u8]))
             \<and> n' = Some (length [5, 6 :: u8]) \<and> take (length [5, 6 :: u8]) buf' = [5, 6]
             \<and> rc_chain_key (elems (rt_receiver_chains b') ! 0) = sc_chain_key (hd (elems (rt_sender_chain a')))
             \<and> elems (rt_skipped_message_keys b') =
                 take 40 (rev (skipped_keys sample_sodium (ckp_public_key (sc_ratchet_key (hd (elems (rt_sender_chain sample_alice)))))
                   (rc_chain_key (elems (rt_receiver_chains sample_bob) ! 0)) 0)
                   @ elems (rt_skipped_message_keys sample_bob)))"
proof -
  let ?s = "hd (elems (rt_sender_chain sample_alice))"
  note a = initialised_alice [OF blank_ratchet_ok blank_elems(1), of sample_sodium "[9]" sample_key, folded sample_alice_def]
  note b = initialised_bob [OF blank_ratchet_ok blank_elems(2), of sample_sodium "[9]" "ckp_public_key sample_key", folded sample_bob_def]
  have ne: "\<not> olm_list_empty (rt_sender_chain sample_alice)"
    using olm_list_empty_iff [OF ratchet_list_ok(1) [OF sample_ratchets_ok(1)]] by (simp add: a)
  have k: "length (ckp_public_key sample_key) = 32" using sample_key_ok by (simp add: curve25519_key_pair_ok_def)
  have sc: "sending_chain sample_sodium sample_alice [] = ?s"
    using ne by (simp add: sending_chain_def sending_def get_0_elems a)
  have l: "olm_ratchet_encrypt_output_length sample_alice (length [5, 6 :: u8]) =
      length (sent_message sample_sodium sample_alice [] [5, 6])"
    by (rule ratchet_output_length [OF sample_ratchets_ok(1)]) (simp_all add: olm_ratchet_encrypt_random_length_def ne)
  have out: "olm_ratchet_encrypt_output_length sample_alice (length [5, 6 :: u8]) \<le> 200"
    unfolding l using length_ratchet_body_le [of "ckp_public_key sample_key" "[5, 6]" sample_sodium
        "rt_ratchet_cipher sample_alice" "create_message_keys sample_sodium (sc_chain_key ?s)"] k
    by (simp add: sent_message_def sc length_ratchet_message a Let_def)
  show ?thesis
    by (rule ratchet_roundtrip [where s = ?s and j = 0])
       (use out sample_ratchets_ok in \<open>simp_all add: a b, simp_all add: sample_alice_def sample_bob_def
         olm_ratchet_initialise_as_alice_def olm_ratchet_initialise_as_bob_def Let_def blank_ratchet_def\<close>)
qed

end
