(* ===== verification/Ratchet_Safety.thy ===== *)
theory Ratchet_Safety
  imports Ratchet_Messages
begin

text \<open>
  What holds of the decryption of \<open>ratchet.c\<close> for any input whatever, with no assumption on the
  cryptography: a rejected input changes nothing, an accepted one is not accepted again,
  the work is bounded, and the bookkeeping of chains and skipped keys stays consistent.
\<close>

section \<open>The outcomes of a decryption\<close>

abbreviation mac_length :: nat where "mac_length \<equiv> aes_sha_256_cipher_mac_length"

definition reader_of :: "bytes \<Rightarrow> message_reader" where
  "reader_of input = olm_decode_message input mac_length"

definition reader_key :: "bytes \<Rightarrow> bytes" where
  "reader_key input = the (mr_ratchet_key (reader_of input))"

text \<open>The four ways an input is dealt with.\<close>

datatype outcome =
    Rejected olm_error_code
  | Skipped nat
  | Known nat
  | Fresh

text \<open>An outcome changes the state in one way only.\<close>

definition after :: "sodium \<Rightarrow> ratchet \<Rightarrow> bytes \<Rightarrow> outcome \<Rightarrow> ratchet" where
  "after S r input out = (case out of
       Rejected e \<Rightarrow> r\<lparr>rt_last_error := e\<rparr>
     | Skipped j \<Rightarrow> r\<lparr>rt_skipped_message_keys :=
         olm_list_erase (olm_list_set (rt_skipped_message_keys r) j unset_message_key) j\<rparr>
     | Known i \<Rightarrow> advance_receiver_chain S r i (mr_counter (reader_of input))
     | Fresh \<Rightarrow> advance_receiver_chain S (start_receiver_chain S r (reader_key input)) 0
                  (mr_counter (reader_of input)))"

lemma try_skipped_position:
  "try_skipped S ci reader keys i b = (b', Some (j, n)) \<Longrightarrow>
   i \<le> j \<and> j < i + length keys \<and> mk_index (sm_message_key (keys ! (j - i))) = mr_counter reader
     \<and> sm_ratchet_key (keys ! (j - i)) = the (mr_ratchet_key reader)"
proof (induction S ci reader keys i b rule: try_skipped.induct)
  case (2 S ci reader k keys i b)
  have step: ?case if "try_skipped S ci reader keys (i + 1) x = (b', Some (j, n))"
      "i + 1 \<le> j \<and> j < i + 1 + length keys \<and> mk_index (sm_message_key (keys ! (j - (i + 1)))) = mr_counter reader
       \<and> sm_ratchet_key (keys ! (j - (i + 1))) = the (mr_ratchet_key reader)" for x
  proof -
    have "(k # keys) ! (j - i) = keys ! (j - (i + 1))" using that by (simp add: nth_Cons' Suc_diff_le)
    then show ?thesis using that by simp
  qed
  show ?case
    using 2 step by (auto split: if_splits prod.splits option.splits)
qed simp

text \<open>Every input that is accepted was decoded to a message with a key, a counter and a text.\<close>

lemma decrypt_outcome:
  assumes "olm_ratchet_decrypt S r input b = (r', b', res)"
  obtains e where "res = None" "r' = after S r input (Rejected e)"
  | i j n where "res = Some n" "r' = after S r input (Skipped j)"
      "find_chain (reader_key input) (elems (rt_receiver_chains r)) 0 = Some i"
      "mr_counter (reader_of input) < ck_index (rc_chain_key (olm_list_get (rt_receiver_chains r) i))"
      "try_skipped S (rt_ratchet_cipher r) (reader_of input) (elems (rt_skipped_message_keys r)) 0 b = (b', Some (j, n))"
  | i n where "res = Some n" "r' = after S r input (Known i)"
      "find_chain (reader_key input) (elems (rt_receiver_chains r)) 0 = Some i"
      "ck_index (rc_chain_key (olm_list_get (rt_receiver_chains r) i)) \<le> mr_counter (reader_of input)"
      "verify_mac_and_decrypt_for_existing_chain S r
         (rc_chain_key (olm_list_get (rt_receiver_chains r) i)) (reader_of input) b = (b', Some n)"
  | n where "res = Some n" "r' = after S r input Fresh" "length (reader_key input) = 32"
      "find_chain (reader_key input) (elems (rt_receiver_chains r)) 0 = None"
      "verify_mac_and_decrypt_for_new_chain S r (reader_of input) b = (b', Some n)"
  using assms
  by (auto simp: olm_ratchet_decrypt_def Let_def after_def reader_key_def not_less
      simp flip: reader_of_def split: if_splits option.splits prod.splits)

lemma get_elems: "i < length (elems l) \<Longrightarrow> olm_list_get l i = elems l ! i"
  by (simp add: olm_list_get_def elems_def)

text \<open>The chains and skipped keys after a decryption on the known chain \<open>i\<close>.\<close>

lemma known_chain_after:
  assumes r: "ratchet_ok r" and f: "find_chain (reader_key input) (elems (rt_receiver_chains r)) 0 = Some i"
    and c: "c = rc_chain_key (olm_list_get (rt_receiver_chains r) i)"
    and le: "ck_index c \<le> mr_counter (reader_of input)"
    and d: "d = unat (mr_counter (reader_of input) - ck_index c)"
    and r': "r' = after S r input (Known i)"
  shows "i < length (elems (rt_receiver_chains r))" "elems (rt_receiver_chains r) ! i = \<lparr>rc_ratchet_key = reader_key input, rc_chain_key = c\<rparr>"
    "elems (rt_receiver_chains r') = (elems (rt_receiver_chains r))
       [i := \<lparr>rc_ratchet_key = reader_key input, rc_chain_key = chain_after S (Suc d) c\<rparr>]"
    "elems (rt_skipped_message_keys r') =
       take 40 (rev (skipped_keys S (reader_key input) c d) @ elems (rt_skipped_message_keys r))"
    "r' = r\<lparr>rt_receiver_chains := rt_receiver_chains r', rt_skipped_message_keys := rt_skipped_message_keys r'\<rparr>"
proof -
  note i = find_chain_Some [OF f, simplified]
  have get: "olm_list_get (rt_receiver_chains r) i = elems (rt_receiver_chains r) ! i"
    using i length_elems [OF ratchet_list_ok(2) [OF r]] by (simp add: olm_list_get_elems)
  then have g: "olm_list_get (rt_receiver_chains r) i = \<lparr>rc_ratchet_key = reader_key input, rc_chain_key = c\<rparr>"
    using i c by simp
  show "i < length (elems (rt_receiver_chains r))" using i by simp
  show "elems (rt_receiver_chains r) ! i = \<lparr>rc_ratchet_key = reader_key input, rc_chain_key = c\<rparr>"
    using get g by simp
  have a: "r' = r\<lparr>rt_receiver_chains := olm_list_set (rt_receiver_chains r) i
        \<lparr>rc_ratchet_key = reader_key input, rc_chain_key = chain_after S (Suc d) c\<rparr>,
      rt_skipped_message_keys :=
        fold (\<lambda>v l. olm_list_push_front l v) (skipped_keys S (reader_key input) c d) (rt_skipped_message_keys r)\<rparr>"
    using receiver_chain_advanced [OF le g d] by (simp add: r' after_def)
  show "elems (rt_receiver_chains r') = (elems (rt_receiver_chains r))
       [i := \<lparr>rc_ratchet_key = reader_key input, rc_chain_key = chain_after S (Suc d) c\<rparr>]"
    "r' = r\<lparr>rt_receiver_chains := rt_receiver_chains r', rt_skipped_message_keys := rt_skipped_message_keys r'\<rparr>"
    by (simp_all add: a)
  show "elems (rt_skipped_message_keys r') =
       take 40 (rev (skipped_keys S (reader_key input) c d) @ elems (rt_skipped_message_keys r))"
    using skipped_list.live_fold_push_front [OF ratchet_list_ok(3) [OF r]] by (simp add: a)
qed

lemma fresh_chain_after:
  assumes r: "ratchet_ok r"
    and v: "verify_mac_and_decrypt_for_new_chain S r (reader_of input) b = (b', Some n)"
    and r': "r' = after S r input Fresh"
  shows "\<exists>c. ck_index c = 0 \<and> unat (mr_counter (reader_of input)) \<le> MAX_MESSAGE_GAP
    \<and> elems (rt_receiver_chains r') = take 5 (\<lparr>rc_ratchet_key = reader_key input,
        rc_chain_key = chain_after S (Suc (unat (mr_counter (reader_of input)))) c\<rparr> # elems (rt_receiver_chains r))
    \<and> elems (rt_skipped_message_keys r') =
        take 40 (rev (skipped_keys S (reader_key input) c (unat (mr_counter (reader_of input))))
                 @ elems (rt_skipped_message_keys r))"
proof -
  have ne: "\<not> olm_list_empty (rt_sender_chain r)" and gap: "unat (mr_counter (reader_of input)) \<le> MAX_MESSAGE_GAP"
    using v by (auto simp: verify_mac_and_decrypt_for_new_chain_def split: if_splits)
  note ok = ratchet_list_ok(1) [OF r]
  obtain s where s: "elems (rt_sender_chain r) = [s]"
    using ne olm_list_empty_iff [OF ok] length_elems_le [OF ok] by (cases "elems (rt_sender_chain r)") auto
  obtain root c where new: "create_chain_key S (rt_root_key r) (sc_ratchet_key s) (reader_key input) (rt_kdf_info r) = (root, c)"
    by force
  have "ck_index c = 0" using new by (auto simp: create_chain_key_def Let_def)
  then show ?thesis
    using new_chain_advanced [OF r s new, of r' "mr_counter (reader_of input)"] gap
    by (auto simp: r' after_def)
qed

section \<open>A rejected input changes nothing but the error\<close>

lemma decrypt_rejected:
  assumes "olm_ratchet_decrypt S r input b = (r', b', None)"
  shows "\<exists>e. r' = r\<lparr>rt_last_error := e\<rparr>"
  using assms by (cases rule: decrypt_outcome) (auto simp: after_def)

section \<open>The bookkeeping\<close>

text \<open>
  A skipped key of a known chain is older than the chain, and no key is kept twice.
\<close>

definition skipped_inv :: "ratchet \<Rightarrow> bool" where
  "skipped_inv r \<longleftrightarrow>
     (\<forall>k \<in> set (elems (rt_skipped_message_keys r)). \<forall>i.
        find_chain (sm_ratchet_key k) (elems (rt_receiver_chains r)) 0 = Some i \<longrightarrow>
        mk_index (sm_message_key k) < ck_index (rc_chain_key (elems (rt_receiver_chains r) ! i)))
     \<and> distinct (map (\<lambda>k. (sm_ratchet_key k, mk_index (sm_message_key k))) (elems (rt_skipped_message_keys r)))"

text \<open>No key of a chain that is not known any more is left over.\<close>

definition no_leftover :: "ratchet \<Rightarrow> bytes \<Rightarrow> bool" where
  "no_leftover r input \<longleftrightarrow>
     (find_chain (reader_key input) (elems (rt_receiver_chains r)) 0 = None \<longrightarrow>
      (\<forall>k \<in> set (elems (rt_skipped_message_keys r)). sm_ratchet_key k \<noteq> reader_key input))"

lemma find_chain_shift: "find_chain k cs (i + j) = map_option (\<lambda>x. x + j) (find_chain k cs i)"
  by (induction k cs i rule: find_chain.induct) auto

lemma find_chain_update:
  "rc_ratchet_key c = rc_ratchet_key (cs ! j) \<Longrightarrow> j < length cs \<Longrightarrow> find_chain k (cs[j := c]) i = find_chain k cs i"
proof (induction k cs i arbitrary: j rule: find_chain.induct)
  case (2 k a rest i)
  then show ?case by (cases j) auto
qed simp

lemma find_chain_take:
  "find_chain k (take n cs) i = Some j \<Longrightarrow> find_chain k cs i = Some j"
proof (induction k cs i arbitrary: n rule: find_chain.induct)
  case (2 k a rest i)
  then show ?case by (cases n) (auto split: if_splits)
qed simp

lemma skipped_keys_index:
  assumes "x \<in> set (skipped_keys S k c d)" "unat (ck_index c) + d < 2 ^ 32"
  shows "sm_ratchet_key x = k" "mk_index (sm_message_key x) < ck_index c + of_nat d"
    "ck_index c \<le> mk_index (sm_message_key x)"
proof -
  obtain i where i: "i < d" "x = \<lparr>sm_ratchet_key = k, sm_message_key = create_message_keys S (chain_after S i c)\<rparr>"
    using assms(1) by (auto simp: skipped_keys_def)
  have u: "unat (ck_index c + of_nat e) = unat (ck_index c) + e" if "e \<le> d" for e
    using assms(2) that by (simp add: unat_word_ariths unat_of_nat_small)
  have m: "mk_index (sm_message_key x) = ck_index c + of_nat i" by (simp add: i create_message_keys_def)
  show "sm_ratchet_key x = k" by (simp add: i)
  show "mk_index (sm_message_key x) < ck_index c + of_nat d" "ck_index c \<le> mk_index (sm_message_key x)"
    using u [of i] u [of d] i(1) by (simp_all add: m word_less_nat_alt word_le_nat_alt)
qed

lemma distinct_skipped_keys:
  assumes "unat (ck_index c) + d < 2 ^ 32"
  shows "distinct (map (\<lambda>k. (sm_ratchet_key k, mk_index (sm_message_key k))) (skipped_keys S k c d))"
proof -
  have "inj_on (\<lambda>i. ck_index c + of_nat i :: u32) {0..<d}"
    by (rule inj_onI) (use assms in \<open>auto dest!: arg_cong [of _ _ unat] simp: unat_of_nat_small\<close>)
  then show ?thesis
    by (auto simp: skipped_keys_def comp_def create_message_keys_def distinct_map inj_on_def)
qed

lemma counter_distance:
  "ck_index c \<le> (counter :: u32) \<Longrightarrow> d = unat (counter - ck_index c) \<Longrightarrow>
   unat (ck_index c) + d = unat counter \<and> ck_index c + of_nat d = counter"
  by (simp add: unat_sub word_le_nat_alt)

lemma unat_plus_one: "(c :: u32) \<noteq> -1 \<Longrightarrow> unat (c + 1) = unat c + 1"
proof -
  assume c: "c \<noteq> -1"
  have "unat c + 1 \<noteq> 2 ^ 32"
  proof
    assume "unat c + 1 = 2 ^ 32"
    then have "of_nat (unat c + 1) = (of_nat (2 ^ 32) :: u32)" by (simp only:)
    then have "c + 1 = 0" by simp
    then show False using c by (simp add: eq_neg_iff_add_eq_0)
  qed
  then have "unat c + 1 < 2 ^ 32" using unsigned_less [of c, where 'a = nat] by simp
  then show ?thesis by (simp add: unat_word_ariths)
qed

text \<open>What the messages up to \<open>counter\<close> leave behind, on a known or a new chain.\<close>

lemma skipped_inv_step:
  assumes inv: "skipped_inv r" and d: "d = unat (counter - ck_index c)" and le: "ck_index c \<le> counter"
    and wrap: "counter \<noteq> -1"
    and sk: "elems (rt_skipped_message_keys r') = take 40 (rev (skipped_keys S k c d) @ elems (rt_skipped_message_keys r))"
    and f: "\<And>k' i. k' \<noteq> k \<Longrightarrow> find_chain k' (elems (rt_receiver_chains r')) 0 = Some i \<Longrightarrow>
        \<exists>j. find_chain k' (elems (rt_receiver_chains r)) 0 = Some j
          \<and> elems (rt_receiver_chains r') ! i = elems (rt_receiver_chains r) ! j"
    and fk: "\<And>i. find_chain k (elems (rt_receiver_chains r')) 0 = Some i \<Longrightarrow>
        ck_index (rc_chain_key (elems (rt_receiver_chains r') ! i)) = counter + 1"
    and old: "\<And>x. x \<in> set (elems (rt_skipped_message_keys r)) \<Longrightarrow> sm_ratchet_key x = k \<Longrightarrow>
        mk_index (sm_message_key x) < ck_index c"
  shows "skipped_inv r'"
proof -
  note cd = counter_distance [OF le d]
  have lim: "unat (ck_index c) + d < 2 ^ 32" using cd unsigned_less [of counter, where 'a = nat] by simp
  note new = skipped_keys_index [OF _ lim, of _ S k]
  have lt: "x < counter + 1" if "x < counter" for x
    using that unat_plus_one [OF wrap] by (simp add: word_less_nat_alt)
  have "mk_index (sm_message_key x) < ck_index (rc_chain_key (elems (rt_receiver_chains r') ! i))"
    if x: "x \<in> set (elems (rt_skipped_message_keys r'))"
      and i: "find_chain (sm_ratchet_key x) (elems (rt_receiver_chains r')) 0 = Some i" for x i
  proof (cases "sm_ratchet_key x = k")
    case True
    have "x \<in> set (skipped_keys S k c d) \<or> x \<in> set (elems (rt_skipped_message_keys r))"
      using x sk by (auto dest: in_set_takeD)
    then have "mk_index (sm_message_key x) < counter"
      using new(2) [of x] old [OF _ True] le cd by auto
    then show ?thesis using fk [of i] i True lt by simp
  next
    case False
    have "x \<in> set (elems (rt_skipped_message_keys r))"
      using x sk new(1) [of x] False by (auto dest: in_set_takeD)
    moreover obtain j where "find_chain (sm_ratchet_key x) (elems (rt_receiver_chains r)) 0 = Some j"
        "elems (rt_receiver_chains r') ! i = elems (rt_receiver_chains r) ! j"
      using f [OF False i] by blast
    ultimately show ?thesis using inv by (auto simp: skipped_inv_def)
  qed
  moreover have D: "distinct (map (\<lambda>k. (sm_ratchet_key k, mk_index (sm_message_key k)))
      (rev (skipped_keys S k c d) @ elems (rt_skipped_message_keys r)))"
  proof -
    have "(sm_ratchet_key x, mk_index (sm_message_key x)) \<noteq> (sm_ratchet_key y, mk_index (sm_message_key y))"
      if "x \<in> set (skipped_keys S k c d)" "y \<in> set (elems (rt_skipped_message_keys r))" for x y
      using new(1,3) [OF that(1)] old [OF that(2)] by auto
    then show ?thesis
      using inv distinct_skipped_keys [OF lim, of S k]
      by (auto simp: skipped_inv_def rev_map [symmetric])
  qed
  moreover have "distinct (map (\<lambda>k. (sm_ratchet_key k, mk_index (sm_message_key k))) (elems (rt_skipped_message_keys r')))"
    unfolding sk using distinct_take [OF D, of 40] by (simp only: take_map)
  ultimately show ?thesis unfolding skipped_inv_def by blast
qed

lemma distinct_erase: "distinct xs \<Longrightarrow> i < length xs \<Longrightarrow> distinct (erase_elem i xs) \<and> xs ! i \<notin> set (erase_elem i xs)"
proof -
  assume d: "distinct xs" and i: "i < length xs"
  have "xs = take i xs @ xs ! i # drop (i + 1) xs" using i by (simp add: Cons_nth_drop_Suc)
  then have "distinct (take i xs @ xs ! i # drop (i + 1) xs)" using d by simp
  then show ?thesis by (simp add: erase_elem_def)
qed

lemma map_erase: "map f (erase_elem i xs) = erase_elem i (map f xs)"
  by (simp add: erase_elem_def take_map drop_map)

lemma set_erase: "set (erase_elem i xs) \<subseteq> set xs"
  by (auto simp: erase_elem_def dest: in_set_takeD in_set_dropD)

text \<open>The skipped keys after one of them was used.\<close>

lemma skipped_after:
  assumes r: "ratchet_ok r"
    and t: "try_skipped S ci (reader_of input) (elems (rt_skipped_message_keys r)) 0 b = (b', Some (j, n))"
    and r': "r' = after S r input (Skipped j)"
  shows "elems (rt_skipped_message_keys r') = erase_elem j (elems (rt_skipped_message_keys r))"
    "j < length (elems (rt_skipped_message_keys r))"
    "(\<lambda>k. (sm_ratchet_key k, mk_index (sm_message_key k))) (elems (rt_skipped_message_keys r) ! j) =
       (reader_key input, mr_counter (reader_of input))"
proof -
  note p = try_skipped_position [OF t, simplified]
  note ok = ratchet_list_ok(3) [OF r]
  show "j < length (elems (rt_skipped_message_keys r))" using p by simp
  then show "elems (rt_skipped_message_keys r') = erase_elem j (elems (rt_skipped_message_keys r))"
    using elems_erase [OF list_ok_set [OF ok]] by (simp add: r' after_def erase_elem_def)
  show "(\<lambda>k. (sm_ratchet_key k, mk_index (sm_message_key k))) (elems (rt_skipped_message_keys r) ! j) =
       (reader_key input, mr_counter (reader_of input))"
    using p by (simp add: reader_key_def)
qed

text \<open>What the three kinds of acceptance do to the chains and skipped keys of the other messages.\<close>

lemma skipped_key_keeps_inv:
  assumes r: "ratchet_ok r" and inv: "skipped_inv r" and r': "r' = after S r input (Skipped j)"
    and t: "try_skipped S (rt_ratchet_cipher r) (reader_of input) (elems (rt_skipped_message_keys r)) 0 b = (b', Some (j, n))"
  shows "skipped_inv r'"
proof -
  note sk = skipped_after [OF r t r']
  have "rt_receiver_chains r' = rt_receiver_chains r" by (simp add: r' after_def)
  then show ?thesis
    using inv set_erase [of j "elems (rt_skipped_message_keys r)"] sk(2)
      distinct_erase [of "map (\<lambda>k. (sm_ratchet_key k, mk_index (sm_message_key k))) (elems (rt_skipped_message_keys r))" j]
    by (auto simp: skipped_inv_def sk(1) map_erase)
qed

lemma known_chain_index:
  assumes r: "ratchet_ok r" and f: "find_chain (reader_key input) (elems (rt_receiver_chains r)) 0 = Some i"
    and le: "ck_index (rc_chain_key (olm_list_get (rt_receiver_chains r) i)) \<le> mr_counter (reader_of input)"
    and r': "r' = after S r input (Known i)"
  shows "find_chain k (elems (rt_receiver_chains r')) 0 = find_chain k (elems (rt_receiver_chains r)) 0"
    "j \<noteq> i \<Longrightarrow> elems (rt_receiver_chains r') ! j = elems (rt_receiver_chains r) ! j"
    "olm_list_get (rt_receiver_chains r') i = elems (rt_receiver_chains r') ! i"
    "ck_index (rc_chain_key (elems (rt_receiver_chains r') ! i)) = mr_counter (reader_of input) + 1"
proof -
  note K = known_chain_after [OF r f refl le refl r']
  show "find_chain k (elems (rt_receiver_chains r')) 0 = find_chain k (elems (rt_receiver_chains r)) 0"
    unfolding K(3) by (rule find_chain_update) (simp_all add: K(1,2))
  show "j \<noteq> i \<Longrightarrow> elems (rt_receiver_chains r') ! j = elems (rt_receiver_chains r) ! j" by (simp add: K(3))
  show "olm_list_get (rt_receiver_chains r') i = elems (rt_receiver_chains r') ! i"
    using K(1) arg_cong [OF K(3), of length] by (intro get_elems) simp
  show "ck_index (rc_chain_key (elems (rt_receiver_chains r') ! i)) = mr_counter (reader_of input) + 1"
    using K(1,3) counter_distance [OF le refl] by simp
qed

lemma known_chain_keeps_inv:
  assumes r: "ratchet_ok r" and inv: "skipped_inv r" and wrap: "mr_counter (reader_of input) \<noteq> -1"
    and f: "find_chain (reader_key input) (elems (rt_receiver_chains r)) 0 = Some i"
    and le: "ck_index (rc_chain_key (olm_list_get (rt_receiver_chains r) i)) \<le> mr_counter (reader_of input)"
    and r': "r' = after S r input (Known i)"
  shows "skipped_inv r'"
proof -
  note K = known_chain_after [OF r f refl le refl r'] and I = known_chain_index [OF r f le r']
  show ?thesis
  proof (rule skipped_inv_step [OF inv refl le wrap K(4)])
    fix k' j assume "k' \<noteq> reader_key input" "find_chain k' (elems (rt_receiver_chains r')) 0 = Some j"
    then show "\<exists>m. find_chain k' (elems (rt_receiver_chains r)) 0 = Some m
        \<and> elems (rt_receiver_chains r') ! j = elems (rt_receiver_chains r) ! m"
      using find_chain_Some [of k' "elems (rt_receiver_chains r)" 0 j] K(2) I(2) [of j] by (cases "j = i") (auto simp: I(1))
  next
    fix j assume "find_chain (reader_key input) (elems (rt_receiver_chains r')) 0 = Some j"
    then show "ck_index (rc_chain_key (elems (rt_receiver_chains r') ! j)) = mr_counter (reader_of input) + 1"
      using f I(4) by (auto simp: I(1))
  next
    fix x assume "x \<in> set (elems (rt_skipped_message_keys r))" "sm_ratchet_key x = reader_key input"
    then show "mk_index (sm_message_key x) < ck_index (rc_chain_key (olm_list_get (rt_receiver_chains r) i))"
      using inv f K(2) by (auto simp: skipped_inv_def)
  qed
qed

lemma fresh_chain_keeps_inv:
  assumes r: "ratchet_ok r" and inv: "skipped_inv r" and left: "no_leftover r input"
    and wrap: "mr_counter (reader_of input) \<noteq> -1"
    and f: "find_chain (reader_key input) (elems (rt_receiver_chains r)) 0 = None"
    and r': "r' = after S r input Fresh"
    and v: "verify_mac_and_decrypt_for_new_chain S r (reader_of input) b = (b', Some n)"
  shows "skipped_inv r'"
proof -
  let ?k = "mr_counter (reader_of input)" and ?r = "elems (rt_receiver_chains r)"
  obtain c where c: "ck_index c = 0" "unat ?k \<le> MAX_MESSAGE_GAP"
    "elems (rt_receiver_chains r') = take 5 (\<lparr>rc_ratchet_key = reader_key input,
        rc_chain_key = chain_after S (Suc (unat ?k)) c\<rparr> # ?r)"
    "elems (rt_skipped_message_keys r') = take 40 (rev (skipped_keys S (reader_key input) c (unat ?k))
                 @ elems (rt_skipped_message_keys r))"
    using fresh_chain_after [OF r v r'] by blast
  have le: "ck_index c \<le> ?k" and d: "unat ?k = unat (?k - ck_index c)" by (simp_all add: c(1))
  show ?thesis
  proof (rule skipped_inv_step [OF inv d le wrap c(4)])
    fix k' j assume k': "k' \<noteq> reader_key input" and j: "find_chain k' (elems (rt_receiver_chains r')) 0 = Some j"
    then obtain m where "find_chain k' ?r 0 = Some m" "j = m + 1"
      using find_chain_take [OF j [unfolded c(3)]] find_chain_shift [of k' ?r 0 1] by (cases "find_chain k' ?r 0") auto
    moreover have "j < 5" using find_chain_Some [OF j] by (auto simp: c(3))
    ultimately show "\<exists>m. find_chain k' ?r 0 = Some m \<and> elems (rt_receiver_chains r') ! j = ?r ! m"
      by (intro exI [of _ m]) (simp add: c(3))
  next
    fix j assume "find_chain (reader_key input) (elems (rt_receiver_chains r')) 0 = Some j"
    then show "ck_index (rc_chain_key (elems (rt_receiver_chains r') ! j)) = ?k + 1"
      by (simp add: c(1,3) take_Cons' split: if_splits)
  next
    fix x assume "x \<in> set (elems (rt_skipped_message_keys r))" "sm_ratchet_key x = reader_key input"
    then show "mk_index (sm_message_key x) < ck_index c" using left f by (simp add: no_leftover_def)
  qed
qed

lemma decrypt_skipped_inv:
  assumes r: "ratchet_ok r" and inv: "skipped_inv r" and left: "no_leftover r input"
    and wrap: "mr_counter (reader_of input) \<noteq> -1"
    and dec: "olm_ratchet_decrypt S r input b = (r', b', res)"
  shows "skipped_inv r'"
  using dec
proof (cases rule: decrypt_outcome)
  case 1
  then show ?thesis using inv by (simp add: after_def skipped_inv_def)
next
  case 2
  then show ?thesis by (intro skipped_key_keeps_inv [OF r inv])
next
  case 3
  then show ?thesis by (intro known_chain_keeps_inv [OF r inv wrap])
next
  case 4
  then show ?thesis by (intro fresh_chain_keeps_inv [OF r inv left wrap])
qed

section \<open>An accepted input is not accepted again\<close>

text \<open>A chain that is past the message, and no skipped key for it: the message is rejected.\<close>

lemma rejected_when_used:
  assumes dec: "olm_ratchet_decrypt S r input b = (r', b', res)"
    and f: "find_chain (reader_key input) (elems (rt_receiver_chains r)) 0 = Some i"
    and past: "ck_index (rc_chain_key (olm_list_get (rt_receiver_chains r) i)) = mr_counter (reader_of input) + 1
      \<or> mr_counter (reader_of input) < ck_index (rc_chain_key (olm_list_get (rt_receiver_chains r) i))"
    and used: "\<And>k. k \<in> set (elems (rt_skipped_message_keys r)) \<Longrightarrow>
      (sm_ratchet_key k, mk_index (sm_message_key k)) \<noteq> (reader_key input, mr_counter (reader_of input))"
  shows "res = None"
  using dec
proof (cases rule: decrypt_outcome)
  case (2 i j n)
  note p = try_skipped_position [OF 2(5), simplified]
  then have "elems (rt_skipped_message_keys r) ! j \<in> set (elems (rt_skipped_message_keys r))" by simp
  then show ?thesis using used [of "elems (rt_skipped_message_keys r) ! j"] p by (simp add: reader_key_def)
next
  case (3 i' n)
  let ?k = "mr_counter (reader_of input)"
  have i: "i' = i" using 3(3) f by simp
  have wrap: "ck_index (rc_chain_key (olm_list_get (rt_receiver_chains r) i)) = ?k + 1" "?k + 1 \<le> ?k"
    using past 3(4) i by auto
  have "?k = -1"
  proof (rule ccontr)
    assume "?k \<noteq> -1"
    then show False using unat_plus_one [of ?k] wrap(2) by (simp add: word_le_nat_alt)
  qed
  then have "unat (?k - ck_index (rc_chain_key (olm_list_get (rt_receiver_chains r) i))) = 2 ^ 32 - 1"
    using wrap(1) by (simp add: unsigned_minus_1_eq_mask mask_eq_exp_minus_1)
  then show ?thesis using 3(5) i by (auto simp: verify_mac_and_decrypt_for_existing_chain_def split: if_splits)
qed (use f in simp_all)

text \<open>Each kind of acceptance leaves the ratchet in a state in which the message is used.\<close>

lemma skipped_key_used:
  assumes r: "ratchet_ok r" and inv: "skipped_inv r" and r': "r' = after S r input (Skipped j)"
    and t: "try_skipped S (rt_ratchet_cipher r) (reader_of input) (elems (rt_skipped_message_keys r)) 0 b = (b', Some (j, n))"
    and k: "k \<in> set (elems (rt_skipped_message_keys r'))"
  shows "(sm_ratchet_key k, mk_index (sm_message_key k)) \<noteq> (reader_key input, mr_counter (reader_of input))"
proof -
  let ?f = "\<lambda>k. (sm_ratchet_key k, mk_index (sm_message_key k))"
  note sk = skipped_after [OF r t r']
  have "distinct (map ?f (elems (rt_skipped_message_keys r)))" using inv by (simp add: skipped_inv_def)
  then have "map ?f (elems (rt_skipped_message_keys r)) ! j \<notin> set (map ?f (elems (rt_skipped_message_keys r')))"
    using distinct_erase [of "map ?f (elems (rt_skipped_message_keys r))" j] sk(2)
    unfolding sk(1) map_erase by simp
  then have "(reader_key input, mr_counter (reader_of input)) \<notin> set (map ?f (elems (rt_skipped_message_keys r')))"
    using sk(2,3) by simp
  then show ?thesis using k by force
qed

lemma skipped_on_chain:
  assumes le: "ck_index c \<le> mr_counter (reader_of input)"
    and sk: "elems (rt_skipped_message_keys r') = take 40 (rev (skipped_keys S (reader_key input) c
      (unat (mr_counter (reader_of input) - ck_index c))) @ elems (rt_skipped_message_keys r))"
    and old: "\<And>x. x \<in> set (elems (rt_skipped_message_keys r)) \<Longrightarrow> sm_ratchet_key x = reader_key input \<Longrightarrow>
      mk_index (sm_message_key x) < ck_index c"
    and k: "k \<in> set (elems (rt_skipped_message_keys r'))"
  shows "(sm_ratchet_key k, mk_index (sm_message_key k)) \<noteq> (reader_key input, mr_counter (reader_of input))"
proof -
  let ?k = "mr_counter (reader_of input)"
  note cd = counter_distance [OF le refl]
  have lim: "unat (ck_index c) + unat (?k - ck_index c) < 2 ^ 32"
    using cd unsigned_less [of ?k, where 'a = nat] by simp
  have "k \<in> set (skipped_keys S (reader_key input) c (unat (?k - ck_index c))) \<or> k \<in> set (elems (rt_skipped_message_keys r))"
    using k sk by (auto dest: in_set_takeD)
  then show ?thesis
    using skipped_keys_index(2) [OF _ lim, of k S "reader_key input"] old [of k] le cd by auto
qed

text \<open>
  A message, known by the ratchet key of its chain and its counter, is used up: the chain is
  past it and no skipped key is left for it.
\<close>

definition used_up :: "ratchet \<Rightarrow> bytes \<Rightarrow> u32 \<Rightarrow> bool" where
  "used_up r k n \<longleftrightarrow>
     (\<exists>i. find_chain k (elems (rt_receiver_chains r)) 0 = Some i
        \<and> (ck_index (rc_chain_key (elems (rt_receiver_chains r) ! i)) = n + 1
           \<or> n < ck_index (rc_chain_key (elems (rt_receiver_chains r) ! i))))
     \<and> (\<forall>x \<in> set (elems (rt_skipped_message_keys r)). (sm_ratchet_key x, mk_index (sm_message_key x)) \<noteq> (k, n))"

lemma used_up_rejected:
  assumes "used_up r (reader_key input) (mr_counter (reader_of input))"
  shows "snd (snd (olm_ratchet_decrypt S r input b)) = None"
proof -
  obtain i where f: "find_chain (reader_key input) (elems (rt_receiver_chains r)) 0 = Some i"
    and past: "ck_index (rc_chain_key (elems (rt_receiver_chains r) ! i)) = mr_counter (reader_of input) + 1
      \<or> mr_counter (reader_of input) < ck_index (rc_chain_key (elems (rt_receiver_chains r) ! i))"
    using assms by (auto simp: used_up_def)
  have get: "olm_list_get (rt_receiver_chains r) i = elems (rt_receiver_chains r) ! i"
    using find_chain_Some [OF f] by (intro get_elems) simp
  show ?thesis
    using assms past
    by (intro rejected_when_used [OF _ f, of S b "fst (olm_ratchet_decrypt S r input b)"
          "fst (snd (olm_ratchet_decrypt S r input b))"]) (auto simp: used_up_def get)
qed

lemma used_up_after_decrypt:
  assumes r: "ratchet_ok r" and inv: "skipped_inv r" and left: "no_leftover r input"
    and dec: "olm_ratchet_decrypt S r input b = (r', b', Some n)"
  shows "used_up r' (reader_key input) (mr_counter (reader_of input))"
  using dec
proof (cases rule: decrypt_outcome)
  case (2 i j n)
  have "rt_receiver_chains r' = rt_receiver_chains r" by (simp add: 2(2) after_def)
  moreover have "olm_list_get (rt_receiver_chains r) i = elems (rt_receiver_chains r) ! i"
    using find_chain_Some [OF 2(3)] by (intro get_elems) simp
  ultimately show ?thesis
    using skipped_key_used [OF r inv 2(2,5)] 2(3,4) by (simp add: used_up_def)
next
  case (3 i n)
  note K = known_chain_after [OF r 3(3) refl 3(4) refl 3(2)] and I = known_chain_index [OF r 3(3,4,2)]
  have "(sm_ratchet_key k, mk_index (sm_message_key k)) \<noteq> (reader_key input, mr_counter (reader_of input))"
    if "k \<in> set (elems (rt_skipped_message_keys r'))" for k
    using inv 3(3) K(2) by (intro skipped_on_chain [OF 3(4) K(4) _ that]) (auto simp: skipped_inv_def)
  then show ?thesis using I 3(3) by (simp add: used_up_def)
next
  case (4 n)
  let ?k = "mr_counter (reader_of input)"
  obtain c where c: "ck_index c = 0" "unat ?k \<le> MAX_MESSAGE_GAP"
    "elems (rt_receiver_chains r') = take 5 (\<lparr>rc_ratchet_key = reader_key input,
        rc_chain_key = chain_after S (Suc (unat ?k)) c\<rparr> # elems (rt_receiver_chains r))"
    "elems (rt_skipped_message_keys r') = take 40 (rev (skipped_keys S (reader_key input) c (unat ?k))
                 @ elems (rt_skipped_message_keys r))"
    using fresh_chain_after [OF r 4(5,2)] by blast
  have "(sm_ratchet_key k, mk_index (sm_message_key k)) \<noteq> (reader_key input, ?k)"
    if "k \<in> set (elems (rt_skipped_message_keys r'))" for k
    using left 4(4) c by (intro skipped_on_chain [of c, OF _ _ _ that]) (auto simp: no_leftover_def)
  then show ?thesis by (simp add: used_up_def c(1,3))
qed simp

text \<open>New skipped keys of the message's own chain are of later messages.\<close>

lemma new_skipped_keys_later:
  assumes le: "ck_index c \<le> counter" and x: "x \<in> set (skipped_keys S k c (unat (counter - ck_index c)))"
  shows "sm_ratchet_key x = k" "ck_index c \<le> mk_index (sm_message_key x)"
proof -
  have "unat (ck_index c) + unat (counter - ck_index c) < 2 ^ 32"
    using counter_distance [OF le refl] unsigned_less [of counter, where 'a = nat] by simp
  from skipped_keys_index [OF x this]
  show "sm_ratchet_key x = k" "ck_index c \<le> mk_index (sm_message_key x)" by simp_all
qed

text \<open>A message stays used up whatever is decrypted, as long as its chain is remembered.\<close>

lemma used_up_known:
  assumes r: "ratchet_ok r" and u: "used_up r k n" and n: "n \<noteq> -1" and m: "mr_counter (reader_of input) \<noteq> -1"
    and f: "find_chain (reader_key input) (elems (rt_receiver_chains r)) 0 = Some i"
    and le: "ck_index (rc_chain_key (olm_list_get (rt_receiver_chains r) i)) \<le> mr_counter (reader_of input)"
    and r': "r' = after S r input (Known i)"
  shows "used_up r' k n"
proof -
  let ?c = "rc_chain_key (olm_list_get (rt_receiver_chains r) i)" and ?m = "mr_counter (reader_of input)"
  note K = known_chain_after [OF r f refl le refl r'] and I = known_chain_index [OF r f le r']
  have n1: "n < n + 1" using unat_plus_one [OF n] by (simp add: word_less_nat_alt)
  have m1: "?m < ?m + 1" using unat_plus_one [OF m] by (simp add: word_less_nat_alt)
  obtain j where j: "find_chain k (elems (rt_receiver_chains r)) 0 = Some j"
    "n < ck_index (rc_chain_key (elems (rt_receiver_chains r) ! j))"
    using u n1 by (auto simp: used_up_def)
  have kj: "k = reader_key input \<Longrightarrow> j = i" using j(1) f by simp
  have c: "k = reader_key input \<Longrightarrow> n < ck_index ?c" using j(2) kj K(2) by simp
  have "n < ck_index (rc_chain_key (elems (rt_receiver_chains r') ! j))"
    using j(2) I(2,4) K(2) le m1 by (cases "j = i") auto
  moreover have "(sm_ratchet_key x, mk_index (sm_message_key x)) \<noteq> (k, n)"
    if "x \<in> set (elems (rt_skipped_message_keys r'))" for x
  proof -
    have "x \<in> set (skipped_keys S (reader_key input) ?c (unat (?m - ck_index ?c))) \<or> x \<in> set (elems (rt_skipped_message_keys r))"
      using that K(4) by (auto dest: in_set_takeD)
    then show ?thesis using new_skipped_keys_later [OF le, of x S "reader_key input"] c u by (auto simp: used_up_def)
  qed
  ultimately show ?thesis using j(1) by (auto simp: used_up_def I(1))
qed

lemma used_up_fresh:
  assumes r: "ratchet_ok r" and u: "used_up r k n" and n: "n \<noteq> -1"
    and f: "find_chain (reader_key input) (elems (rt_receiver_chains r)) 0 = None"
    and v: "verify_mac_and_decrypt_for_new_chain S r (reader_of input) b = (b', Some l)"
    and r': "r' = after S r input Fresh"
    and kept: "find_chain k (elems (rt_receiver_chains r')) 0 \<noteq> None"
  shows "used_up r' k n"
proof -
  let ?m = "mr_counter (reader_of input)" and ?cs = "elems (rt_receiver_chains r)"
  have n1: "n < n + 1" using unat_plus_one [OF n] by (simp add: word_less_nat_alt)
  obtain j where j: "find_chain k ?cs 0 = Some j" "n < ck_index (rc_chain_key (?cs ! j))"
    using u n1 by (auto simp: used_up_def)
  have k: "k \<noteq> reader_key input" using j(1) f by auto
  obtain c where c: "ck_index c = 0"
    "elems (rt_receiver_chains r') = take 5 (\<lparr>rc_ratchet_key = reader_key input,
        rc_chain_key = chain_after S (Suc (unat ?m)) c\<rparr> # ?cs)"
    "elems (rt_skipped_message_keys r') = take 40 (rev (skipped_keys S (reader_key input) c (unat ?m))
                 @ elems (rt_skipped_message_keys r))"
    using fresh_chain_after [OF r v r'] by blast
  obtain i where i: "find_chain k (elems (rt_receiver_chains r')) 0 = Some i" using kept by blast
  have "find_chain k ?cs 1 = Some i"
    using find_chain_take [OF i [unfolded c(2)]] k by simp
  then have ij: "i = j + 1" using find_chain_shift [of k ?cs 0 1] j(1) by simp
  have "i < 5" using find_chain_Some [OF i] by (auto simp: c(2))
  then have "elems (rt_receiver_chains r') ! i = ?cs ! j" by (simp add: c(2) ij)
  moreover have "(sm_ratchet_key x, mk_index (sm_message_key x)) \<noteq> (k, n)"
    if "x \<in> set (elems (rt_skipped_message_keys r'))" for x
  proof -
    have "x \<in> set (skipped_keys S (reader_key input) c (unat ?m)) \<or> x \<in> set (elems (rt_skipped_message_keys r))"
      using that c(3) by (auto dest: in_set_takeD)
    then show ?thesis using new_skipped_keys_later [of c ?m x S "reader_key input"] c(1) k u by (auto simp: used_up_def)
  qed
  ultimately show ?thesis using i j(2) by (auto simp: used_up_def)
qed

lemma used_up_decrypt:
  assumes r: "ratchet_ok r" and u: "used_up r k n" and n: "n \<noteq> -1" and m: "mr_counter (reader_of input) \<noteq> -1"
    and dec: "olm_ratchet_decrypt S r input b = (r', b', res)"
    and kept: "find_chain k (elems (rt_receiver_chains r')) 0 \<noteq> None"
  shows "used_up r' k n"
  using dec
proof (cases rule: decrypt_outcome)
  case 1
  then show ?thesis using u by (simp add: used_up_def after_def)
next
  case (2 i j l)
  have "rt_receiver_chains r' = rt_receiver_chains r" by (simp add: 2(2) after_def)
  then show ?thesis
    using u skipped_after(1) [OF r 2(5,2)] set_erase [of j "elems (rt_skipped_message_keys r)"]
    by (auto simp: used_up_def)
next
  case 3
  then show ?thesis by (intro used_up_known [OF r u n m])
next
  case 4
  then show ?thesis using kept by (intro used_up_fresh [OF r u n])
qed

lemma encrypt_keeps_received:
  assumes "olm_ratchet_encrypt S r p random out = (r', out', res)"
  shows "rt_receiver_chains r' = rt_receiver_chains r" "rt_skipped_message_keys r' = rt_skipped_message_keys r"
  using assms by (auto simp: olm_ratchet_encrypt_def Let_def start_sender_chain_def split: prod.splits if_splits)

text \<open>
  Any run of the ratchet that remembers the chain of the ratchet key \<open>k\<close>: messages are sent, and
  any inputs are handed to decryption, in any order. (The counter 2^32-1 is left out: behind it
  the 32-bit index of the chain starts again at 0.)
\<close>

inductive later :: "sodium \<Rightarrow> bytes \<Rightarrow> ratchet \<Rightarrow> ratchet \<Rightarrow> bool" for S k where
  later_same: "later S k r r"
| later_send: "later S k r r1 \<Longrightarrow> olm_ratchet_encrypt S r1 p random out = (r2, out', res) \<Longrightarrow> later S k r r2"
| later_receive: "later S k r r1 \<Longrightarrow> mr_counter (reader_of input) \<noteq> -1 \<Longrightarrow>
    olm_ratchet_decrypt S r1 input b = (r2, b', res) \<Longrightarrow>
    find_chain k (elems (rt_receiver_chains r2)) 0 \<noteq> None \<Longrightarrow> later S k r r2"

lemma used_up_later:
  "later S k r r' \<Longrightarrow> ratchet_ok r \<Longrightarrow> used_up r k n \<Longrightarrow> n \<noteq> -1 \<Longrightarrow> ratchet_ok r' \<and> used_up r' k n"
proof (induction rule: later.induct)
  case (later_send r r1 p random out r2 out' res)
  then show ?case
    using ratchet_encrypt_ok [of r1 S p random out] encrypt_keeps_received [OF later_send(2)]
    by (simp add: used_up_def)
next
  case (later_receive r r1 input b r2 b' res)
  then show ?case
    using ratchet_decrypt_ok [of r1 S input b] used_up_decrypt [OF _ _ _ later_receive(2,3,4), of n] by simp
qed simp

section \<open>Properties\<close>

text \<open>C12: An input that decryption rejects leaves the ratchet as it was, the reason in
  \<open>last_error\<close> apart: keys are advanced only after the MAC of the message was checked.\<close>

theorem rejected_input_changes_nothing:
  assumes "olm_ratchet_decrypt S r input b = (r', b', None)"
  shows "r' = r\<lparr>rt_last_error := rt_last_error r'\<rparr>"
  using decrypt_rejected [OF assms] by auto

lemma rejected_input_changes_nothing_witness:
  "fst (olm_ratchet_decrypt sample_sodium sample_bob [] []) =
   sample_bob\<lparr>rt_last_error := rt_last_error (fst (olm_ratchet_decrypt sample_sodium sample_bob [] []))\<rparr>"
proof (rule rejected_input_changes_nothing)
  have "mr_version (olm_decode_message [] aes_sha_256_cipher_mac_length) = 0"
    by (simp add: olm_decode_message_def aes_sha_256_cipher_mac_length_def)
  then show "olm_ratchet_decrypt sample_sodium sample_bob [] [] =
      (fst (olm_ratchet_decrypt sample_sodium sample_bob [] []), [], None)"
    by (simp add: olm_ratchet_decrypt_def Let_def)
qed

text \<open>C11: A message that was decrypted is never decrypted again while its chain is remembered: after
  any further messages sent and any inputs received, of this chain and of others, in any
  order, it is rejected, as the chain has moved past it and no skipped key is left for it. The
  state before is well-formed, with the invariant of C13. The side conditions are those of C13
  (no skipped key is left over of a dropped chain with the message's ratchet key; no counter
  is 2^32-1); and the chain of the message is not dropped from the five remembered ones in the
  run (an old message of a dropped chain is tried as the first of a new one).\<close>

theorem replayed_message_is_rejected:
  assumes "ratchet_ok r" "skipped_inv r" "no_leftover r input" "mr_counter (reader_of input) \<noteq> -1"
    and "olm_ratchet_decrypt S r input b = (r', b', Some n)"
    and "later S (reader_key input) r' r''"
  shows "snd (snd (olm_ratchet_decrypt S r'' input b2)) = None"
proof -
  have "ratchet_ok r'" using ratchet_decrypt_ok [OF assms(1), of S input b] assms(5) by simp
  then have "used_up r'' (reader_key input) (mr_counter (reader_of input))"
    using used_up_later [OF assms(6)] used_up_after_decrypt [OF assms(1,2,3,5)] assms(4) by blast
  then show ?thesis by (rule used_up_rejected)
qed

text \<open>C13: Decryption of an input, whether it is accepted or not, keeps the skipped message keys older
  than their chains and without duplicates, and the whole state well-formed. Two kinds of input
  are outside: a message of a chain that was dropped from the five remembered ones while
  skipped keys of it are left, which starts the chain again at 0, below those keys; and a
  message with the counter 2^32-1, behind which the index of its chain wraps to 0.\<close>

theorem decrypt_keeps_invariants:
  assumes "ratchet_ok r" "skipped_inv r" "no_leftover r input" "mr_counter (reader_of input) \<noteq> -1"
  shows "(let (r', b', res) = olm_ratchet_decrypt S r input b in ratchet_ok r' \<and> skipped_inv r')"
  using ratchet_decrypt_ok [OF assms(1), of S input b] decrypt_skipped_inv [OF assms]
  by (cases "olm_ratchet_decrypt S r input b") auto

text \<open>A message of \<open>sample_alice\<close> to \<open>sample_bob\<close>.\<close>

definition sample_chain :: chain_key where
  "sample_chain = rc_chain_key (hd (elems (rt_receiver_chains sample_bob)))"

definition sample_message :: bytes where
  "sample_message = ratchet_message sample_sodium (rt_ratchet_cipher sample_bob)
     (create_message_keys sample_sodium sample_chain) (ckp_public_key sample_key) [5, 6]"

lemmas sample_bob_chains = initialised_bob [OF blank_ratchet_ok blank_elems(2), of sample_sodium "[9]"
    "ckp_public_key sample_key", folded sample_bob_def]

lemma sample_bob_skipped [simp]: "elems (rt_skipped_message_keys sample_bob) = []"
  by (simp add: sample_bob_def olm_ratchet_initialise_as_bob_def Let_def)

lemma sample_bob_inv: "skipped_inv sample_bob" "no_leftover sample_bob input"
  by (simp_all add: skipped_inv_def no_leftover_def)

lemma sample_decrypted:
  "\<exists>r' b'. olm_ratchet_decrypt sample_sodium sample_bob sample_message (zeros 32) = (r', b', Some 2)"
proof -
  have k: "length (ckp_public_key sample_key) = 32" using sample_key_ok by (simp add: curve25519_key_pair_ok_def)
  have mk: "create_message_keys sample_sodium sample_chain =
      create_message_keys sample_sodium (chain_after sample_sodium 0 sample_chain)" by simp
  have "find_chain (ckp_public_key sample_key) (elems (rt_receiver_chains sample_bob)) 0 = Some 0"
    "sample_chain = rc_chain_key (elems (rt_receiver_chains sample_bob) ! 0)" "ck_index sample_chain = 0"
    by (simp_all add: sample_bob_chains sample_chain_def)
  then show ?thesis
    using decrypt_existing_chain [OF sample_ratchets_ok(2) k _ _ _ mk, of "[5, 6]" 0 "zeros 32"]
    by (simp add: sample_message_def)
qed

lemma sample_message_reader:
  "reader_key sample_message = ckp_public_key sample_key" "mr_counter (reader_of sample_message) = 0"
proof -
  have k: "length (ckp_public_key sample_key) = 32" using sample_key_ok by (simp add: curve25519_key_pair_ok_def)
  have "mk_index (create_message_keys sample_sodium sample_chain) = 0"
    by (simp add: create_message_keys_def sample_chain_def sample_bob_chains)
  then show "reader_key sample_message = ckp_public_key sample_key" "mr_counter (reader_of sample_message) = 0"
    by (simp_all add: reader_key_def reader_of_def sample_message_def decode_ratchet_message [OF k])
qed

lemma decrypt_junk: "snd (snd (olm_ratchet_decrypt S r [] b)) = None"
proof -
  have "mr_version (olm_decode_message [] aes_sha_256_cipher_mac_length) = 0"
    by (simp add: olm_decode_message_def aes_sha_256_cipher_mac_length_def)
  then show ?thesis by (simp add: olm_ratchet_decrypt_def Let_def)
qed

text \<open>After the message something is sent and junk received.\<close>

lemma replayed_message_is_rejected_witness:
  "snd (snd (olm_ratchet_decrypt sample_sodium
     (fst (olm_ratchet_decrypt sample_sodium
       (fst (olm_ratchet_encrypt sample_sodium
         (fst (olm_ratchet_decrypt sample_sodium sample_bob sample_message (zeros 32))) [1, 2] (zeros 32) (zeros 200)))
       [] [])) sample_message (zeros 32))) = None"
proof -
  obtain r1 b1 where d: "olm_ratchet_decrypt sample_sodium sample_bob sample_message (zeros 32) = (r1, b1, Some 2)"
    using sample_decrypted by blast
  obtain r2 b2 n2 where e: "olm_ratchet_encrypt sample_sodium r1 [1, 2] (zeros 32) (zeros 200) = (r2, b2, n2)"
    by (rule prod_cases3)
  obtain r3 b3 n3 where j: "olm_ratchet_decrypt sample_sodium r2 [] [] = (r3, b3, n3)" by (rule prod_cases3)
  have counter: "mr_counter (reader_of sample_message) \<noteq> -1" "mr_counter (reader_of []) \<noteq> -1"
    by (simp_all add: sample_message_reader(2))
       (simp add: reader_of_def olm_decode_message_def aes_sha_256_cipher_mac_length_def)
  have "n3 = None" using decrypt_junk j by (metis snd_conv)
  then have "rt_receiver_chains r3 = rt_receiver_chains r2" using decrypt_rejected [of _ r2] j by fastforce
  then have "find_chain (reader_key sample_message) (elems (rt_receiver_chains r3)) 0 \<noteq> None"
    using used_up_after_decrypt [OF sample_ratchets_ok(2) sample_bob_inv d] encrypt_keeps_received [OF e]
    by (auto simp: used_up_def)
  then have "later sample_sodium (reader_key sample_message) r1 r3"
    by (rule later_receive [OF later_send [OF later_same e] counter(2) j])
  from replayed_message_is_rejected [OF sample_ratchets_ok(2) sample_bob_inv counter(1) d this, of "zeros 32"]
  show ?thesis by (simp add: d e j)
qed

lemma decrypt_keeps_invariants_witness:
  "(let (r', b', res) = olm_ratchet_decrypt sample_sodium sample_bob [] [] in ratchet_ok r' \<and> skipped_inv r')"
  by (rule decrypt_keeps_invariants [OF sample_ratchets_ok(2) sample_bob_inv])
     (simp add: reader_of_def olm_decode_message_def aes_sha_256_cipher_mac_length_def)

end
