(* ===== verification/Conversation.thy ===== *)
theory Conversation
  imports Ratchet_Safety
begin

text \<open>
  Two ratchets that talk to each other over an unreliable network: messages are delivered or
  lost, and the network may hand either side anything it likes as long as that is not a new
  message of the other side's current chain. \<open>talk\<close> is one such step, \<open>converse\<close> the step
  relation of the pair. The invariant \<open>in_step\<close> says how the two states are related; it is
  kept by every step, so that the next message of either side always decrypts.
\<close>

section \<open>Steps\<close>

record conversation =
  cv_left :: ratchet
  cv_right :: ratchet
  cv_lost_left :: nat
  cv_lost_right :: nat

text \<open>A new ratchet key is one the other side has not seen.\<close>

definition fresh_key :: "sodium \<Rightarrow> ratchet \<Rightarrow> ratchet \<Rightarrow> bytes \<Rightarrow> bool" where
  "fresh_key S a b random \<longleftrightarrow> (olm_list_empty (rt_sender_chain a) \<longrightarrow>
     (\<forall>c \<in> set (elems (rt_receiver_chains b)).
        rc_ratchet_key c \<noteq> ckp_public_key (olm_crypto_curve25519_generate_key S random)))"

text \<open>The sizes a caller can have, and a chain that has not used up its 32-bit index.\<close>

definition sendable :: "sodium \<Rightarrow> ratchet \<Rightarrow> bytes \<Rightarrow> bytes \<Rightarrow> bytes \<Rightarrow> bool" where
  "sendable S a p random m \<longleftrightarrow> length p < 2 ^ 60 \<and> length m < 2 ^ 64
     \<and> ck_index (sc_chain_key (sending_chain S a random)) \<noteq> -1"

text \<open>Input that is no new message of the newest receiver chain and starts no chain.\<close>

definition stray :: "ratchet \<Rightarrow> bytes \<Rightarrow> nat option \<Rightarrow> bool" where
  "stray b input res \<longleftrightarrow> res = None \<or>
     (\<exists>i. find_chain (reader_key input) (elems (rt_receiver_chains b)) 0 = Some i \<and>
       (i \<noteq> 0 \<or> mr_counter (reader_of input) < ck_index (rc_chain_key (hd (elems (rt_receiver_chains b))))))"

text \<open>One side sends or the other gets something; \<open>l\<close> counts the messages lost in a row.\<close>

inductive talk :: "sodium \<Rightarrow> ratchet \<Rightarrow> ratchet \<Rightarrow> nat \<Rightarrow> ratchet \<Rightarrow> ratchet \<Rightarrow> nat \<Rightarrow> bool" for S where
  delivered:
    "olm_ratchet_encrypt S a p random m = (a', m', Some len) \<Longrightarrow> sendable S a p random m \<Longrightarrow>
     fresh_key S a b random \<Longrightarrow> length (cbc_padded p) \<le> length buf \<Longrightarrow>
     olm_ratchet_decrypt S b (take len m') buf = (b', buf', res) \<Longrightarrow> talk S a b l a' b' 0"
| lost:
    "olm_ratchet_encrypt S a p random m = (a', m', Some len) \<Longrightarrow> sendable S a p random m \<Longrightarrow>
     fresh_key S a b random \<Longrightarrow> l < MAX_MESSAGE_GAP \<Longrightarrow> talk S a b l a' b (l + 1)"
| strayed:
    "olm_ratchet_decrypt S b input buf = (b', buf', res) \<Longrightarrow> stray b input res \<Longrightarrow> talk S a b l a b' l"

inductive converse :: "sodium \<Rightarrow> conversation \<Rightarrow> conversation \<Rightarrow> bool" for S where
  left_talks: "talk S a b la a' b' la' \<Longrightarrow>
     converse S \<lparr>cv_left = a, cv_right = b, cv_lost_left = la, cv_lost_right = lb\<rparr>
                \<lparr>cv_left = a', cv_right = b', cv_lost_left = la', cv_lost_right = lb\<rparr>"
| right_talks: "talk S b a lb b' a' lb' \<Longrightarrow>
     converse S \<lparr>cv_left = a, cv_right = b, cv_lost_left = la, cv_lost_right = lb\<rparr>
                \<lparr>cv_left = a', cv_right = b', cv_lost_left = la, cv_lost_right = lb'\<rparr>"

inductive reachable :: "sodium \<Rightarrow> conversation \<Rightarrow> conversation \<Rightarrow> bool" for S s where
  start: "reachable S s s"
| step: "reachable S s t \<Longrightarrow> converse S t u \<Longrightarrow> reachable S s u"

inductive_cases converse_elim: "converse S s t"

section \<open>How the two sides are related\<close>

text \<open>\<open>b\<close> knows the sender chain \<open>s\<close> of \<open>a\<close>, as the newest one, at most \<open>l\<close> steps behind.\<close>

definition follows :: "sodium \<Rightarrow> sender_chain \<Rightarrow> ratchet \<Rightarrow> nat \<Rightarrow> bool" where
  "follows S s b l \<longleftrightarrow> (\<exists>n c rest. elems (rt_receiver_chains b) =
       \<lparr>rc_ratchet_key = ckp_public_key (sc_ratchet_key s), rc_chain_key = c\<rparr> # rest
     \<and> sc_chain_key s = chain_after S n c \<and> n \<le> l \<and> unat (ck_index c) + n < 2 ^ 32)"

text \<open>\<open>a\<close> has a sender chain, which \<open>b\<close> follows, and \<open>b\<close> has not answered on it.\<close>

definition speaking :: "sodium \<Rightarrow> ratchet \<Rightarrow> ratchet \<Rightarrow> nat \<Rightarrow> bool" where
  "speaking S a b l \<longleftrightarrow> (\<exists>s. elems (rt_sender_chain a) = [s] \<and> curve25519_pair S (sc_ratchet_key s)
     \<and> elems (rt_sender_chain b) = [] \<and> rt_root_key b = rt_root_key a \<and> follows S s b l)"

text \<open>\<open>b\<close> has answered on a new chain \<open>t\<close>, but \<open>a\<close> has seen nothing of it.\<close>

definition crossing :: "sodium \<Rightarrow> ratchet \<Rightarrow> ratchet \<Rightarrow> nat \<Rightarrow> nat \<Rightarrow> bool" where
  "crossing S a b la lb \<longleftrightarrow> (\<exists>s t c n. elems (rt_sender_chain a) = [s] \<and> curve25519_pair S (sc_ratchet_key s)
     \<and> follows S s b la
     \<and> elems (rt_sender_chain b) = [t] \<and> curve25519_pair S (sc_ratchet_key t)
     \<and> (\<forall>c \<in> set (elems (rt_receiver_chains a)). rc_ratchet_key c \<noteq> ckp_public_key (sc_ratchet_key t))
     \<and> create_chain_key S (rt_root_key a) (sc_ratchet_key s) (ckp_public_key (sc_ratchet_key t)) (rt_kdf_info a)
         = (rt_root_key b, c)
     \<and> sc_chain_key t = chain_after S n c \<and> n \<le> lb)"

definition peers :: "ratchet \<Rightarrow> ratchet \<Rightarrow> bool" where
  "peers a b \<longleftrightarrow> ratchet_ok a \<and> ratchet_ok b \<and> rt_kdf_info a = rt_kdf_info b
     \<and> rt_ratchet_cipher a = rt_ratchet_cipher b"

definition in_step :: "sodium \<Rightarrow> ratchet \<Rightarrow> ratchet \<Rightarrow> nat \<Rightarrow> nat \<Rightarrow> bool" where
  "in_step S a b la lb \<longleftrightarrow> peers a b \<and> la \<le> MAX_MESSAGE_GAP \<and> lb \<le> MAX_MESSAGE_GAP \<and>
     (speaking S a b la \<or> speaking S b a lb \<or> crossing S a b la lb \<or> crossing S b a lb la)"

lemma in_step_sym: "in_step S a b la lb \<longleftrightarrow> in_step S b a lb la"
  by (auto simp: in_step_def peers_def)

section \<open>Sending\<close>

lemma encrypt_Some:
  assumes "ratchet_ok r" "length p < 2 ^ 60" "length m < 2 ^ 64"
    and e: "olm_ratchet_encrypt S r p random m = (r', m', Some len)"
  shows "olm_ratchet_encrypt_random_length r \<le> length random" "r' = sent S r random"
    "take len m' = sent_message S r random p"
proof -
  show rl: "olm_ratchet_encrypt_random_length r \<le> length random"
    using e by (simp add: olm_ratchet_encrypt_def Let_def split: if_splits)
  note out = ratchet_output_length [OF assms(1) rl assms(2), of S]
  have "length (sent_message S r random p) \<le> length m"
    using e rl out by (simp add: olm_ratchet_encrypt_def Let_def split: if_splits)
  then have "olm_ratchet_encrypt S r p random m =
      (sent S r random, write_at m 0 (sent_message S r random p), Some (length (sent_message S r random p)))"
    using ratchet_encrypt_eq [OF assms(1) rl assms(2)] assms(3) by simp
  then show "r' = sent S r random" "take len m' = sent_message S r random p"
    using e by (auto simp: write_at_def)
qed

lemma sent_fields [simp]:
  "rt_receiver_chains (sent S r random) = rt_receiver_chains r"
  "rt_kdf_info (sent S r random) = rt_kdf_info r" "rt_ratchet_cipher (sent S r random) = rt_ratchet_cipher r"
  "rt_root_key (sent S r random) = rt_root_key (sending S r random)"
  by (simp_all add: sent_def Let_def)

lemma sent_ok:
  assumes "ratchet_ok r" "olm_ratchet_encrypt_random_length r \<le> length random"
  shows "ratchet_ok (sent S r random)"
  using sending_ok [OF assms, of S] chain_steps_ok(1)
  by (auto simp: sent_def Let_def ratchet_ok_def sender_chain_ok_def intro!: slots_ok_set)

text \<open>With a sender chain, the chain moves on; without, a new one is made.\<close>

lemma sending_old:
  assumes "ratchet_ok r" "elems (rt_sender_chain r) = [s]"
  shows "sending_chain S r random = s" "sending S r random = r"
proof -
  have "\<not> olm_list_empty (rt_sender_chain r)"
    using assms olm_list_empty_iff [OF ratchet_list_ok(1) [OF assms(1)]] by simp
  then show "sending_chain S r random = s" "sending S r random = r"
    using assms(2) by (simp_all add: sending_chain_def sending_def get_0_elems)
qed

lemma sending_new:
  assumes "ratchet_ok r" "elems (rt_sender_chain r) = []" "elems (rt_receiver_chains r) = c # rest"
    and k: "k = olm_crypto_curve25519_generate_key S random"
    and new: "create_chain_key S (rt_root_key r) k (rc_ratchet_key c) (rt_kdf_info r) = (root, c0)"
  shows "olm_list_empty (rt_sender_chain r)"
    "sending_chain S r random = \<lparr>sc_ratchet_key = k, sc_chain_key = c0\<rparr>"
    "rt_root_key (sending S r random) = root"
proof -
  show e: "olm_list_empty (rt_sender_chain r)"
    using assms olm_list_empty_iff [OF ratchet_list_ok(1) [OF assms(1)]] by simp
  have g: "olm_list_get (rt_receiver_chains r) 0 = c" using assms(3) by (simp add: get_0_elems)
  show "sending_chain S r random = \<lparr>sc_ratchet_key = k, sc_chain_key = c0\<rparr>"
    using start_sender_chain_get [OF assms(1) e, of S random] new g k
    by (simp add: sending_chain_def sending_def e get_0_elems Let_def)
  show "rt_root_key (sending S r random) = root"
    using new g k by (simp add: sending_def e start_sender_chain_def Let_def case_prod_beta)
qed

section \<open>The newest chain\<close>

lemma follows_sent:
  "follows S s b l \<Longrightarrow> ck_index (sc_chain_key s) \<noteq> -1 \<Longrightarrow>
   follows S (s\<lparr>sc_chain_key := advance_chain_key S (sc_chain_key s)\<rparr>) b (l + 1)"
proof -
  assume f: "follows S s b l" and i: "ck_index (sc_chain_key s) \<noteq> -1"
  then obtain n c rest where c: "elems (rt_receiver_chains b) =
       \<lparr>rc_ratchet_key = ckp_public_key (sc_ratchet_key s), rc_chain_key = c\<rparr> # rest"
      "sc_chain_key s = chain_after S n c" "n \<le> l" "unat (ck_index c) + n < 2 ^ 32"
    by (auto simp: follows_def)
  have "unat (ck_index c + of_nat n) = unat (ck_index c) + n"
    using c(4) by (simp add: unat_word_ariths unat_of_nat_small)
  moreover have "unat (ck_index c + of_nat n + 1) = unat (ck_index c + of_nat n) + 1"
    using i c(2) by (intro unat_plus_one) simp
  ultimately have "unat (ck_index c) + Suc n < 2 ^ 32"
    using unsigned_less [of "ck_index c + of_nat n + 1", where 'a = nat] by simp
  then show ?thesis
    unfolding follows_def using c by (intro exI [of _ "Suc n"] exI [of _ c] exI [of _ rest]) simp
qed

lemma decrypt_followed:
  assumes "peers a b" and s: "elems (rt_sender_chain a) = [s]" and f: "follows S s b l" and l: "l \<le> MAX_MESSAGE_GAP"
    and i: "ck_index (sc_chain_key s) \<noteq> -1" and p: "length p < 2 ^ 60" "length (cbc_padded p) \<le> length buf"
    and dec: "olm_ratchet_decrypt S b (sent_message S a random p) buf = (b', buf', res)"
  shows "res = Some (length p) \<and> take (length p) buf' = p
    \<and> follows S (s\<lparr>sc_chain_key := advance_chain_key S (sc_chain_key s)\<rparr>) b' 0
    \<and> rt_sender_chain b' = rt_sender_chain b \<and> rt_root_key b' = rt_root_key b
    \<and> rt_kdf_info b' = rt_kdf_info b \<and> rt_ratchet_cipher b' = rt_ratchet_cipher b"
proof -
  obtain n c rest where c: "elems (rt_receiver_chains b) =
       \<lparr>rc_ratchet_key = ckp_public_key (sc_ratchet_key s), rc_chain_key = c\<rparr> # rest"
      "sc_chain_key s = chain_after S n c" "n \<le> l" "unat (ck_index c) + n < 2 ^ 32"
    using f by (auto simp: follows_def)
  have ok: "ratchet_ok a" "ratchet_ok b" "rt_ratchet_cipher a = rt_ratchet_cipher b"
    using assms(1) by (simp_all add: peers_def)
  have "sender_chain_ok s" using slots_ok_elems [of 1 sender_chain_ok "rt_sender_chain a" s] ok(1) s
    by (simp add: ratchet_ok_def)
  then have k: "length (ckp_public_key (sc_ratchet_key s)) = 32"
    by (simp add: sender_chain_ok_def curve25519_key_pair_ok_def)
  have msg: "sent_message S a random p = ratchet_message S (rt_ratchet_cipher b)
      (create_message_keys S (chain_after S n c)) (ckp_public_key (sc_ratchet_key s)) p"
    using sending_old [OF ok(1) s] ok(3) by (simp add: sent_message_def Let_def c(2))
  have n: "n \<le> MAX_MESSAGE_GAP" using c(3) l by simp
  have fc: "find_chain (ckp_public_key (sc_ratchet_key s)) (elems (rt_receiver_chains b)) 0 = Some 0"
    "c = rc_chain_key (elems (rt_receiver_chains b) ! 0)" by (simp_all add: c(1))
  note d = decrypt_existing_chain [OF ok(2) k p(1) fc refl n c(4) p(2)]
  have "unat (ck_index c + of_nat n) = unat (ck_index c) + n"
    using c(4) by (simp add: unat_word_ariths unat_of_nat_small)
  moreover have "unat (ck_index c + of_nat n + 1) = unat (ck_index c + of_nat n) + 1"
    using i c(2) by (intro unat_plus_one) simp
  ultimately have u: "unat (ck_index c + of_nat n + 1) < 2 ^ 32"
    using unsigned_less [of "ck_index c + of_nat n + 1", where 'a = nat] by simp
  show ?thesis
    using dec u unfolding msg d
    by (auto simp: take_decrypted follows_def c ac_simps intro!: exI [of _ 0])
qed

section \<open>A new chain\<close>

lemma decrypt_fresh:
  assumes "peers a b" and rl: "olm_ratchet_encrypt_random_length a \<le> length random"
    and t: "sending_chain S a random = t"
    and u: "\<forall>c \<in> set (elems (rt_receiver_chains b)). rc_ratchet_key c \<noteq> ckp_public_key (sc_ratchet_key t)"
    and s: "elems (rt_sender_chain b) = [s]"
    and new: "create_chain_key S (rt_root_key b) (sc_ratchet_key s) (ckp_public_key (sc_ratchet_key t)) (rt_kdf_info b)
        = (root, c)"
    and n: "sc_chain_key t = chain_after S n c" "n \<le> MAX_MESSAGE_GAP"
    and p: "length p < 2 ^ 60" "length (cbc_padded p) \<le> length buf"
    and dec: "olm_ratchet_decrypt S b (sent_message S a random p) buf = (b', buf', res)"
  shows "res = Some (length p) \<and> take (length p) buf' = p
    \<and> follows S (t\<lparr>sc_chain_key := advance_chain_key S (sc_chain_key t)\<rparr>) b' 0
    \<and> elems (rt_sender_chain b') = [] \<and> rt_root_key b' = root
    \<and> rt_kdf_info b' = rt_kdf_info b \<and> rt_ratchet_cipher b' = rt_ratchet_cipher b"
proof -
  let ?k = "ckp_public_key (sc_ratchet_key t)"
  have ok: "ratchet_ok a" "ratchet_ok b" "rt_ratchet_cipher a = rt_ratchet_cipher b"
    using assms(1) by (simp_all add: peers_def)
  have k: "length ?k = 32"
    using sending_ok(2) [OF ok(1) rl, of S] by (simp add: t sender_chain_ok_def curve25519_key_pair_ok_def)
  have msg: "sent_message S a random p = ratchet_message S (rt_ratchet_cipher b)
      (create_message_keys S (chain_after S n c)) ?k p"
    using ok(3) by (simp add: sent_message_def Let_def t n(1))
  have d: "b' = advance_receiver_chain S (start_receiver_chain S b ?k) 0 (of_nat n)"
    "buf' = decrypted p buf" "res = Some (length p)"
    using dec decrypt_new_chain [OF ok(2) k p(1) u s new refl n(2) p(2)] by (simp_all add: msg)
  have n32: "unat (of_nat n :: u32) = n" using n(2) by (simp add: unat_of_nat_small)
  note after = new_chain_advanced [OF ok(2) s new d(1)]
  have "follows S (t\<lparr>sc_chain_key := advance_chain_key S (sc_chain_key t)\<rparr>) b' 0"
    unfolding follows_def using after(3) n(1) unsigned_less [of "ck_index (chain_after S (Suc n) c)", where 'a = nat]
    by (intro exI [of _ 0] exI [of _ "chain_after S (Suc n) c"]) (simp add: n32)
  then show ?thesis using after(1,2,5,6) by (simp add: d(2,3) take_decrypted)
qed

section \<open>Stray input\<close>

lemma map_key_update:
  "i < length cs \<Longrightarrow> rc_ratchet_key (cs ! i) = k \<Longrightarrow>
   map rc_ratchet_key (cs[i := \<lparr>rc_ratchet_key = k, rc_chain_key = c\<rparr>]) = map rc_ratchet_key cs"
  by (simp add: map_update list_update_same_conv)

lemma stray_keeps:
  assumes ok: "ratchet_ok b" and dec: "olm_ratchet_decrypt S b input buf = (b', buf', res)" and st: "stray b input res"
  shows "ratchet_ok b'" "rt_sender_chain b' = rt_sender_chain b" "rt_root_key b' = rt_root_key b"
    "rt_kdf_info b' = rt_kdf_info b" "rt_ratchet_cipher b' = rt_ratchet_cipher b"
    "map rc_ratchet_key (elems (rt_receiver_chains b')) = map rc_ratchet_key (elems (rt_receiver_chains b))"
    "elems (rt_receiver_chains b) \<noteq> [] \<Longrightarrow> hd (elems (rt_receiver_chains b')) = hd (elems (rt_receiver_chains b))"
proof -
  show "ratchet_ok b'" using ratchet_decrypt_ok [OF ok, of S input buf] dec by simp
  have "rt_sender_chain b' = rt_sender_chain b \<and> rt_root_key b' = rt_root_key b
    \<and> rt_kdf_info b' = rt_kdf_info b \<and> rt_ratchet_cipher b' = rt_ratchet_cipher b
    \<and> map rc_ratchet_key (elems (rt_receiver_chains b')) = map rc_ratchet_key (elems (rt_receiver_chains b))
    \<and> (elems (rt_receiver_chains b) \<noteq> [] \<longrightarrow>
        hd (elems (rt_receiver_chains b')) = hd (elems (rt_receiver_chains b)))"
    using dec
  proof (cases rule: decrypt_outcome)
    case (3 i n)
    note K = known_chain_after [OF ok 3(3) refl 3(4) refl 3(2)]
    have "i \<noteq> 0"
    proof
      assume "i = 0"
      then have "elems (rt_receiver_chains b) \<noteq> []" using K(1) by auto
      then show False using st 3(1,3,4) \<open>i = 0\<close> by (auto simp: stray_def get_0_elems)
    qed
    moreover have "rt_sender_chain b' = rt_sender_chain b" "rt_root_key b' = rt_root_key b"
      "rt_kdf_info b' = rt_kdf_info b" "rt_ratchet_cipher b' = rt_ratchet_cipher b"
      using arg_cong [OF K(5), of rt_sender_chain] arg_cong [OF K(5), of rt_root_key]
        arg_cong [OF K(5), of rt_kdf_info] arg_cong [OF K(5), of rt_ratchet_cipher] by simp_all
    ultimately show ?thesis
      using K(1,2) map_key_update [of i "elems (rt_receiver_chains b)"]
      by (cases "elems (rt_receiver_chains b)"; cases i) (simp_all add: K(3))
  next
    case (4 n)
    then show ?thesis using st by (simp add: stray_def)
  qed (simp_all add: after_def)
  then show "rt_sender_chain b' = rt_sender_chain b" "rt_root_key b' = rt_root_key b"
    "rt_kdf_info b' = rt_kdf_info b" "rt_ratchet_cipher b' = rt_ratchet_cipher b"
    "map rc_ratchet_key (elems (rt_receiver_chains b')) = map rc_ratchet_key (elems (rt_receiver_chains b))"
    "elems (rt_receiver_chains b) \<noteq> [] \<Longrightarrow> hd (elems (rt_receiver_chains b')) = hd (elems (rt_receiver_chains b))"
    by simp_all
qed

lemma follows_stray:
  assumes "follows S s b l" and "ratchet_ok b" "olm_ratchet_decrypt S b input buf = (b', buf', res)" "stray b input res"
  shows "follows S s b' l"
proof -
  note k = stray_keeps [OF assms(2-4)]
  obtain n c rest where c: "elems (rt_receiver_chains b) =
       \<lparr>rc_ratchet_key = ckp_public_key (sc_ratchet_key s), rc_chain_key = c\<rparr> # rest"
      "sc_chain_key s = chain_after S n c" "n \<le> l" "unat (ck_index c) + n < 2 ^ 32"
    using assms(1) by (auto simp: follows_def)
  obtain x xs where "elems (rt_receiver_chains b') = x # xs"
    using k(6) c(1) by (cases "elems (rt_receiver_chains b')") auto
  then have "elems (rt_receiver_chains b') =
       \<lparr>rc_ratchet_key = ckp_public_key (sc_ratchet_key s), rc_chain_key = c\<rparr> # xs"
    using k(7) c(1) by simp
  then show ?thesis using c by (auto simp: follows_def)
qed

lemma in_step_stray:
  assumes "in_step S a b la lb" "olm_ratchet_decrypt S b input buf = (b', buf', res)" "stray b input res"
  shows "in_step S a b' la lb"
proof -
  have ok: "ratchet_ok b" using assms(1) by (simp add: in_step_def peers_def)
  note k = stray_keeps [OF ok assms(2,3)] and f = follows_stray [OF _ ok assms(2,3)]
  have keys: "(\<forall>c \<in> set (elems (rt_receiver_chains b')). rc_ratchet_key c \<noteq> x) \<longleftrightarrow>
      (\<forall>c \<in> set (elems (rt_receiver_chains b)). rc_ratchet_key c \<noteq> x)" for x
    using arg_cong [OF k(6), of set] by (metis (no_types, lifting) image_iff list.set_map)
  have "peers a b'" using assms(1) k(1,4,5) by (simp add: in_step_def peers_def)
  moreover have "speaking S a b la \<Longrightarrow> speaking S a b' la" using k(2,3) f by (auto simp: speaking_def)
  moreover have "speaking S b a lb \<Longrightarrow> speaking S b' a lb" using k(2,3) by (simp add: speaking_def)
  moreover have "crossing S a b la lb \<Longrightarrow> crossing S a b' la lb" using k(2,3) f unfolding crossing_def by metis
  moreover have "crossing S b a lb la \<Longrightarrow> crossing S b' a lb la" using k(2-4) unfolding crossing_def keys by simp
  ultimately show ?thesis using assms(1) unfolding in_step_def by blast
qed

section \<open>Every step keeps the two in step\<close>

abbreviation advanced :: "sodium \<Rightarrow> sender_chain \<Rightarrow> sender_chain" where
  "advanced S s \<equiv> s\<lparr>sc_chain_key := advance_chain_key S (sc_chain_key s)\<rparr>"

lemma create_chain_key_agrees:
  "dh_agrees S \<Longrightarrow> curve25519_pair S k \<Longrightarrow> curve25519_pair S k' \<Longrightarrow>
   create_chain_key S root k (ckp_public_key k') info = create_chain_key S root k' (ckp_public_key k) info"
  by (simp add: create_chain_key_def shared_secret_agrees)

text \<open>The sender chain a side without one makes, against the chain \<open>s\<close> of the other.\<close>

lemma new_sender:
  assumes "dh_agrees S" "peers a b" and rl: "olm_ratchet_encrypt_random_length a \<le> length random"
    and sp: "speaking S b a l" and f: "fresh_key S a b random"
  obtains s t c where "elems (rt_sender_chain b) = [s]" "curve25519_pair S (sc_ratchet_key s)"
    "follows S s a l" "sending_chain S a random = t" "sc_chain_key t = c" "curve25519_pair S (sc_ratchet_key t)"
    "\<forall>x \<in> set (elems (rt_receiver_chains b)). rc_ratchet_key x \<noteq> ckp_public_key (sc_ratchet_key t)"
    "create_chain_key S (rt_root_key b) (sc_ratchet_key s) (ckp_public_key (sc_ratchet_key t)) (rt_kdf_info b) =
       (rt_root_key (sending S a random), c)"
proof -
  have ok: "ratchet_ok a" "rt_kdf_info a = rt_kdf_info b" using assms(2) by (simp_all add: peers_def)
  obtain s where s: "elems (rt_sender_chain b) = [s]" "curve25519_pair S (sc_ratchet_key s)"
      "elems (rt_sender_chain a) = []" "rt_root_key a = rt_root_key b" "follows S s a l"
    using sp by (auto simp: speaking_def)
  obtain n c rest where c: "elems (rt_receiver_chains a) =
       \<lparr>rc_ratchet_key = ckp_public_key (sc_ratchet_key s), rc_chain_key = c\<rparr> # rest"
    using s(5) by (auto simp: follows_def)
  define k where "k = olm_crypto_curve25519_generate_key S random"
  obtain root c0 where new: "create_chain_key S (rt_root_key a) k (ckp_public_key (sc_ratchet_key s)) (rt_kdf_info a) = (root, c0)"
    by force
  have new': "create_chain_key S (rt_root_key a) k
      (rc_ratchet_key \<lparr>rc_ratchet_key = ckp_public_key (sc_ratchet_key s), rc_chain_key = c\<rparr>) (rt_kdf_info a) = (root, c0)"
    using new by simp
  note n = sending_new [OF ok(1) s(3) c k_def new']
  have "32 \<le> length random" using rl n(1) by (simp add: olm_ratchet_encrypt_random_length_def)
  then have k: "curve25519_pair S k" by (simp add: k_def generate_key_pair)
  show ?thesis
  proof (rule that [of s "\<lparr>sc_ratchet_key = k, sc_chain_key = c0\<rparr>" c0])
    show "create_chain_key S (rt_root_key b) (sc_ratchet_key s)
        (ckp_public_key (sc_ratchet_key \<lparr>sc_ratchet_key = k, sc_chain_key = c0\<rparr>)) (rt_kdf_info b) =
        (rt_root_key (sending S a random), c0)"
      using create_chain_key_agrees [OF assms(1) s(2) k] new n(3) s(4) ok(2) by simp
    show "\<forall>x \<in> set (elems (rt_receiver_chains b)).
        rc_ratchet_key x \<noteq> ckp_public_key (sc_ratchet_key \<lparr>sc_ratchet_key = k, sc_chain_key = c0\<rparr>)"
      using f n(1) by (simp add: fresh_key_def k_def)
  qed (use s n(2) k in simp_all)
qed

lemma sent_elems:
  "ratchet_ok a \<Longrightarrow> sending_chain S a random = t \<Longrightarrow> elems (rt_sender_chain (sent S a random)) = [advanced S t]"
  by (simp add: elems_sent)

lemma peers_sent: "peers a b \<Longrightarrow> olm_ratchet_encrypt_random_length a \<le> length random \<Longrightarrow> peers (sent S a random) b"
  by (simp add: peers_def sent_ok)

text \<open>A message is sent and nothing of it arrives.\<close>

text \<open>
  The side that sends is on the chain it had, or on one that is new to the other side. The two lemmas
  are what both cases of each have in common.
\<close>

lemma old_sender:
  assumes ok: "ratchet_ok a" and inv: "speaking S a b la \<or> crossing S a b la lb"
  obtains s where "elems (rt_sender_chain a) = [s]" "follows S s b la" "sending_chain S a random = s"
    "\<And>b' l. rt_sender_chain b' = rt_sender_chain b \<Longrightarrow> rt_root_key b' = rt_root_key b \<Longrightarrow> follows S (advanced S s) b' l \<Longrightarrow>
       speaking S (sent S a random) b' l \<or> crossing S (sent S a random) b' l lb"
  using inv
proof
  assume "speaking S a b la"
  then obtain s where s: "elems (rt_sender_chain a) = [s]" "curve25519_pair S (sc_ratchet_key s)"
      "elems (rt_sender_chain b) = []" "rt_root_key b = rt_root_key a" "follows S s b la"
    by (auto simp: speaking_def)
  note o = sending_old [OF ok s(1)]
  show thesis
  proof (rule that [OF s(1,5) o(1)], rule disjI1)
    fix b' l assume "rt_sender_chain b' = rt_sender_chain b" "rt_root_key b' = rt_root_key b" "follows S (advanced S s) b' l"
    then show "speaking S (sent S a random) b' l"
      unfolding speaking_def using s o sent_elems [OF ok o(1)] by (intro exI [of _ "advanced S s"]) simp
  qed
next
  assume "crossing S a b la lb"
  then obtain s t c n where s: "elems (rt_sender_chain a) = [s]" "follows S s b la"
    "curve25519_pair S (sc_ratchet_key s)" "elems (rt_sender_chain b) = [t]" "curve25519_pair S (sc_ratchet_key t)"
    "\<forall>c \<in> set (elems (rt_receiver_chains a)). rc_ratchet_key c \<noteq> ckp_public_key (sc_ratchet_key t)"
    "create_chain_key S (rt_root_key a) (sc_ratchet_key s) (ckp_public_key (sc_ratchet_key t)) (rt_kdf_info a) = (rt_root_key b, c)"
    "sc_chain_key t = chain_after S n c" "n \<le> lb"
    unfolding crossing_def by blast
  note o = sending_old [OF ok s(1)]
  show thesis
  proof (rule that [OF s(1,2) o(1)], rule disjI2)
    fix b' l assume "rt_sender_chain b' = rt_sender_chain b" "rt_root_key b' = rt_root_key b" "follows S (advanced S s) b' l"
    then show "crossing S (sent S a random) b' l lb"
      unfolding crossing_def using s o sent_elems [OF ok o(1)]
      by (intro exI [of _ "advanced S s"] exI [of _ t] exI [of _ c] exI [of _ n]) simp
  qed
qed

lemma fresh_sender:
  assumes dh: "dh_agrees S" and pe: "peers a b" and rl: "olm_ratchet_encrypt_random_length a \<le> length random"
    and inv: "speaking S b a lb \<or> crossing S b a lb la" and f: "fresh_key S a b random"
  obtains s t c n where "elems (rt_sender_chain b) = [s]" "curve25519_pair S (sc_ratchet_key s)"
    "follows S s a lb" "sending_chain S a random = t" "curve25519_pair S (sc_ratchet_key t)"
    "\<forall>x \<in> set (elems (rt_receiver_chains b)). rc_ratchet_key x \<noteq> ckp_public_key (sc_ratchet_key t)"
    "create_chain_key S (rt_root_key b) (sc_ratchet_key s) (ckp_public_key (sc_ratchet_key t)) (rt_kdf_info b) =
       (rt_root_key (sending S a random), c)"
    "sc_chain_key t = chain_after S n c" "n \<le> la"
  using inv
proof
  assume "speaking S b a lb"
  then obtain s t c where n: "elems (rt_sender_chain b) = [s]" "curve25519_pair S (sc_ratchet_key s)"
    "follows S s a lb" "sending_chain S a random = t" "sc_chain_key t = c" "curve25519_pair S (sc_ratchet_key t)"
    "\<forall>x \<in> set (elems (rt_receiver_chains b)). rc_ratchet_key x \<noteq> ckp_public_key (sc_ratchet_key t)"
    "create_chain_key S (rt_root_key b) (sc_ratchet_key s) (ckp_public_key (sc_ratchet_key t)) (rt_kdf_info b) =
       (rt_root_key (sending S a random), c)"
    using new_sender [OF dh pe rl _ f] by metis
  show thesis by (rule that [OF n(1-4,6-8), of 0]) (simp_all add: n(5))
next
  assume "crossing S b a lb la"
  then obtain s t c n where s: "elems (rt_sender_chain b) = [s]" "curve25519_pair S (sc_ratchet_key s)"
    "follows S s a lb" "elems (rt_sender_chain a) = [t]" "curve25519_pair S (sc_ratchet_key t)"
    "\<forall>c \<in> set (elems (rt_receiver_chains b)). rc_ratchet_key c \<noteq> ckp_public_key (sc_ratchet_key t)"
    "create_chain_key S (rt_root_key b) (sc_ratchet_key s) (ckp_public_key (sc_ratchet_key t)) (rt_kdf_info b) = (rt_root_key a, c)"
    "sc_chain_key t = chain_after S n c" "n \<le> la"
    unfolding crossing_def by blast
  have "ratchet_ok a" using pe by (simp add: peers_def)
  note o = sending_old [OF this s(4)]
  show thesis using that [OF s(1-3) o(1) s(5,6) _ s(8,9)] s(7) o(2) by simp
qed

lemma in_step_lost:
  assumes dh: "dh_agrees S" and inv: "in_step S a b la lb" and rl: "olm_ratchet_encrypt_random_length a \<le> length random"
    and i: "ck_index (sc_chain_key (sending_chain S a random)) \<noteq> -1" and f: "fresh_key S a b random"
    and l: "la < MAX_MESSAGE_GAP"
  shows "in_step S (sent S a random) b (la + 1) lb"
proof -
  have p: "peers a b" "peers (sent S a random) b" and ok: "ratchet_ok a"
    using inv peers_sent [OF _ rl] by (auto simp: in_step_def peers_def)
  consider (old) "speaking S a b la \<or> crossing S a b la lb" | (fresh) "speaking S b a lb \<or> crossing S b a lb la"
    using inv by (auto simp: in_step_def)
  then have "speaking S (sent S a random) b (la + 1) \<or> crossing S (sent S a random) b (la + 1) lb
      \<or> crossing S b (sent S a random) lb (la + 1)"
  proof cases
    case old
    then obtain s where s: "follows S s b la" "sending_chain S a random = s"
      "follows S (advanced S s) b (la + 1) \<Longrightarrow> speaking S (sent S a random) b (la + 1) \<or> crossing S (sent S a random) b (la + 1) lb"
      using old_sender [OF ok, of S b la lb random] by metis
    have "follows S (advanced S s) b (la + 1)" using follows_sent [OF s(1)] i s(2) by simp
    then show ?thesis using s(3) by blast
  next
    case fresh
    then obtain s t c n where n: "elems (rt_sender_chain b) = [s]" "curve25519_pair S (sc_ratchet_key s)"
      "follows S s a lb" "sending_chain S a random = t" "curve25519_pair S (sc_ratchet_key t)"
      "\<forall>x \<in> set (elems (rt_receiver_chains b)). rc_ratchet_key x \<noteq> ckp_public_key (sc_ratchet_key t)"
      "create_chain_key S (rt_root_key b) (sc_ratchet_key s) (ckp_public_key (sc_ratchet_key t)) (rt_kdf_info b) =
         (rt_root_key (sending S a random), c)" "sc_chain_key t = chain_after S n c" "n \<le> la"
      by (rule fresh_sender [OF dh p(1) rl _ f])
    have "crossing S b (sent S a random) lb (la + 1)"
      unfolding crossing_def using n sent_elems [OF ok n(4)]
      by (intro exI [of _ s] exI [of _ "advanced S t"] exI [of _ c] exI [of _ "Suc n"]) (simp add: follows_def)
    then show ?thesis by simp
  qed
  then show ?thesis using p(2) inv l by (auto simp: in_step_def)
qed

text \<open>A message is sent and arrives.\<close>

lemma in_step_delivered:
  assumes dh: "dh_agrees S" and inv: "in_step S a b la lb" and rl: "olm_ratchet_encrypt_random_length a \<le> length random"
    and i: "ck_index (sc_chain_key (sending_chain S a random)) \<noteq> -1" and f: "fresh_key S a b random"
    and p: "length p < 2 ^ 60" "length (cbc_padded p) \<le> length buf"
    and dec: "olm_ratchet_decrypt S b (sent_message S a random p) buf = (b', buf', res)"
  shows "res = Some (length p) \<and> take (length p) buf' = p \<and> in_step S (sent S a random) b' 0 lb"
proof -
  have pe: "peers a b" "peers (sent S a random) b" and ok: "ratchet_ok a" "ratchet_ok b"
    and l: "la \<le> MAX_MESSAGE_GAP" "lb \<le> MAX_MESSAGE_GAP"
    using inv peers_sent [OF _ rl] by (auto simp: in_step_def peers_def)
  have okb: "ratchet_ok b'" using ratchet_decrypt_ok [OF ok(2), of S "sent_message S a random p" buf] dec by simp
  consider (old) "speaking S a b la \<or> crossing S a b la lb" | (fresh) "speaking S b a lb \<or> crossing S b a lb la"
    using inv by (auto simp: in_step_def)
  then have "res = Some (length p) \<and> take (length p) buf' = p
      \<and> rt_kdf_info b' = rt_kdf_info b \<and> rt_ratchet_cipher b' = rt_ratchet_cipher b
      \<and> (speaking S (sent S a random) b' 0 \<or> crossing S (sent S a random) b' 0 lb)"
  proof cases
    case old
    then obtain s where s: "elems (rt_sender_chain a) = [s]" "follows S s b la" "sending_chain S a random = s"
      "rt_sender_chain b' = rt_sender_chain b \<Longrightarrow> rt_root_key b' = rt_root_key b \<Longrightarrow> follows S (advanced S s) b' 0 \<Longrightarrow>
         speaking S (sent S a random) b' 0 \<or> crossing S (sent S a random) b' 0 lb"
      using old_sender [OF ok(1), of S b la lb random] by metis
    note d = decrypt_followed [OF pe(1) s(1,2) l(1) i [unfolded s(3)] p dec]
    then show ?thesis using s(4) by simp
  next
    case fresh
    then obtain s t c n where n: "elems (rt_sender_chain b) = [s]" "curve25519_pair S (sc_ratchet_key s)"
      "follows S s a lb" "sending_chain S a random = t" "curve25519_pair S (sc_ratchet_key t)"
      "\<forall>x \<in> set (elems (rt_receiver_chains b)). rc_ratchet_key x \<noteq> ckp_public_key (sc_ratchet_key t)"
      "create_chain_key S (rt_root_key b) (sc_ratchet_key s) (ckp_public_key (sc_ratchet_key t)) (rt_kdf_info b) =
         (rt_root_key (sending S a random), c)" "sc_chain_key t = chain_after S n c" "n \<le> la"
      by (rule fresh_sender [OF dh pe(1) rl _ f])
    have "n \<le> MAX_MESSAGE_GAP" using n(9) l(1) by simp
    note d = decrypt_fresh [OF pe(1) rl n(4,6,1,7,8) this p dec]
    have "speaking S (sent S a random) b' 0"
      unfolding speaking_def using n d sent_elems [OF ok(1) n(4)] by (intro exI [of _ "advanced S t"]) simp
    then show ?thesis using d by simp
  qed
  then show ?thesis using pe(2) okb l by (auto simp: in_step_def peers_def)
qed

lemma in_step_talk:
  assumes dh: "dh_agrees S" and inv: "in_step S a b la lb" and t: "talk S a b la a' b' la'"
  shows "in_step S a' b' la' lb"
  using t
proof cases
  case (delivered p random m m' len buf buf' res)
  have ok: "ratchet_ok a" using inv by (simp add: in_step_def peers_def)
  note e = encrypt_Some [OF ok _ _ delivered(2)]
  show ?thesis
    using in_step_delivered [OF dh inv, of random p buf b' buf' res] delivered e by (simp add: sendable_def)
next
  case (lost p random m m' len)
  have ok: "ratchet_ok a" using inv by (simp add: in_step_def peers_def)
  note e = encrypt_Some [OF ok _ _ lost(3)]
  show ?thesis
    using in_step_lost [OF dh inv, of random] lost e by (simp add: sendable_def)
next
  case (strayed input buf buf' res)
  then show ?thesis using in_step_stray [OF inv] by simp
qed

definition cv_in_step :: "sodium \<Rightarrow> conversation \<Rightarrow> bool" where
  "cv_in_step S v \<longleftrightarrow> in_step S (cv_left v) (cv_right v) (cv_lost_left v) (cv_lost_right v)"

lemma in_step_converse: "dh_agrees S \<Longrightarrow> cv_in_step S v \<Longrightarrow> converse S v w \<Longrightarrow> cv_in_step S w"
  unfolding cv_in_step_def
  by (erule converse_elim) (simp_all add: in_step_talk, metis in_step_sym in_step_talk)

lemma in_step_reachable:
  assumes "dh_agrees S" "cv_in_step S v" "reachable S v w"
  shows "cv_in_step S w"
  using assms(3)
proof induction
  case (step v w)
  then show ?case using in_step_converse [OF assms(1)] by simp
qed (rule assms(2))

text \<open>Two ratchets initialised from one shared secret.\<close>

definition blank :: "ratchet \<Rightarrow> bool" where
  "blank r \<longleftrightarrow> ratchet_ok r \<and> elems (rt_sender_chain r) = [] \<and> elems (rt_receiver_chains r) = []"

lemma in_step_initial:
  assumes "blank ra" "blank rb" "rt_kdf_info ra = rt_kdf_info rb" "rt_ratchet_cipher ra = rt_ratchet_cipher rb"
    and "curve25519_pair S k"
  shows "in_step S (olm_ratchet_initialise_as_alice S ra secret k)
    (olm_ratchet_initialise_as_bob S rb secret (ckp_public_key k)) 0 0"
proof -
  have k: "curve25519_key_pair_ok k" using assms(5) by (rule curve25519_pair_ok)
  note ok = initialise_as_alice_ok [OF _ k, of ra S secret] initialise_as_bob_ok [of rb "ckp_public_key k" S secret]
  note e = initialised_alice [of ra S secret k] initialised_bob [of rb S secret "ckp_public_key k"]
  let ?a = "olm_ratchet_initialise_as_alice S ra secret k"
  let ?b = "olm_ratchet_initialise_as_bob S rb secret (ckp_public_key k)"
  have "peers ?a ?b"
    using ok k assms(1-4)
    by (simp add: peers_def blank_def curve25519_key_pair_ok_def olm_ratchet_initialise_as_alice_def
        olm_ratchet_initialise_as_bob_def Let_def)
  moreover have "rt_root_key ?b = rt_root_key ?a" "rt_sender_chain ?b = rt_sender_chain rb"
    using assms(3) by (simp_all add: olm_ratchet_initialise_as_alice_def olm_ratchet_initialise_as_bob_def Let_def)
  ultimately show ?thesis
    using e assms by (auto simp: in_step_def speaking_def follows_def blank_def intro!: exI [of _ 0])
qed

section \<open>Properties\<close>

text \<open>C5: Two ratchets initialised from the same shared secret never get out of step: after any
  number of messages in both directions, delivered or lost (fewer than \<open>MAX_MESSAGE_GAP\<close> in a
  row), with any stray input in between (replays, old messages out of order, forgeries that
  are rejected), the next message of either side is decrypted by the other to its
  plaintext, on a running chain and on a new one. The assumptions: both sides of a
  Diffie-Hellman exchange get the same secret, new ratchet keys are fresh, and no chain
  uses up its 32-bit index.\<close>

theorem conversation_stays_in_step:
  assumes "dh_agrees S" "blank ra" "blank rb" "rt_kdf_info ra = rt_kdf_info rb"
    "rt_ratchet_cipher ra = rt_ratchet_cipher rb" "curve25519_pair S k"
    and "reachable S
      \<lparr>cv_left = olm_ratchet_initialise_as_alice S ra secret k,
       cv_right = olm_ratchet_initialise_as_bob S rb secret (ckp_public_key k),
       cv_lost_left = 0, cv_lost_right = 0\<rparr> v"
    and "(x, y) = (cv_left v, cv_right v) \<or> (x, y) = (cv_right v, cv_left v)"
    and "olm_ratchet_encrypt S x p random m = (x', m', Some len)" "sendable S x p random m" "fresh_key S x y random"
    and "length (cbc_padded p) \<le> length buf" "olm_ratchet_decrypt S y (take len m') buf = (y', buf', res)"
  shows "res = Some (length p) \<and> take (length p) buf' = p"
proof -
  have "cv_in_step S v"
    using in_step_reachable [OF assms(1) _ assms(7)] in_step_initial [OF assms(2-6)] by (simp add: cv_in_step_def)
  then obtain la lb where inv: "in_step S x y la lb" using assms(8) in_step_sym by (auto simp: cv_in_step_def)
  then have ok: "ratchet_ok x" by (simp add: in_step_def peers_def)
  note e = encrypt_Some [OF ok _ _ assms(9)]
  show ?thesis
    using in_step_delivered [OF assms(1) inv, of random p buf y' buf' res] e assms(10-13) by (simp add: sendable_def)
qed

lemma conversation_stays_in_step_witness:
  "(let (x', m', len) = olm_ratchet_encrypt sample_sodium sample_bob [5, 6] (replicate 32 1) (zeros 200);
        (y', buf', res) = olm_ratchet_decrypt sample_sodium sample_alice (take (the len) m') (zeros 32)
    in len \<noteq> None \<and> res = Some (length [5, 6 :: u8]) \<and> take (length [5, 6 :: u8]) buf' = [5, 6])"
proof -
  let ?S = sample_sodium and ?r = "replicate 32 1 :: bytes" and ?p = "[5, 6] :: bytes"
  have e: "elems (rt_sender_chain sample_bob) = []" "elems (rt_receiver_chains sample_alice) = []"
    by (simp_all add: sample_bob_def sample_alice_def olm_ratchet_initialise_as_bob_def
        olm_ratchet_initialise_as_alice_def Let_def)
  have em: "olm_list_empty (rt_sender_chain sample_bob)"
    using e(1) olm_list_empty_iff [OF ratchet_list_ok(1) [OF sample_ratchets_ok(2)]] by simp
  then have rl: "olm_ratchet_encrypt_random_length sample_bob \<le> length ?r"
    by (simp add: olm_ratchet_encrypt_random_length_def)
  have i: "ck_index (sc_chain_key (sending_chain ?S sample_bob ?r)) = 0"
    using em start_sender_index [OF sample_ratchets_ok(2), of ?S ?r] by simp
  have "length (ckp_public_key (sc_ratchet_key (sending_chain ?S sample_bob ?r))) = 32"
    using sending_ok(2) [OF sample_ratchets_ok(2) rl, of ?S] by (simp add: sender_chain_ok_def curve25519_key_pair_ok_def)
  then have "length (sent_message ?S sample_bob ?r ?p) \<le> 200"
    using length_ratchet_body_le [of "ckp_public_key (sc_ratchet_key (sending_chain ?S sample_bob ?r))" ?p ?S
        "rt_ratchet_cipher sample_bob" "create_message_keys ?S (sc_chain_key (sending_chain ?S sample_bob ?r))"]
    by (simp add: sent_message_def length_ratchet_message Let_def)
  then obtain x' m' len where enc: "olm_ratchet_encrypt ?S sample_bob ?p ?r (zeros 200) = (x', m', Some len)"
    using ratchet_encrypt_eq [OF sample_ratchets_ok(2) rl, of ?p ?S "zeros 200"] by simp
  obtain y' buf' res where dec: "olm_ratchet_decrypt ?S sample_alice (take len m') (zeros 32) = (y', buf', res)"
    by (rule prod_cases3)
  have b: "blank blank_ratchet" by (simp add: blank_def)
  have s: "sendable ?S sample_bob ?p ?r (zeros 200)" by (simp add: sendable_def i)
  have f: "fresh_key ?S sample_bob sample_alice ?r" by (simp add: fresh_key_def e)
  have "res = Some (length ?p) \<and> take (length ?p) buf' = ?p"
    by (rule conversation_stays_in_step [OF sample_dh_agrees b b refl refl sample_key_ok(2) reachable.start _
          enc s f _ dec, where secret = "[9]"])
       (simp_all add: sample_alice_def sample_bob_def)
  then show ?thesis by (simp add: enc dec)
qed

end
