(* ===== verification/Ratchet_Pickle.thy ===== *)
theory Ratchet_Pickle
  imports Ratchet_Messages
begin

text \<open>
  The pickling functions of \<open>src/ratchet.c\<close>: the root key and the three lists. The structs
  have fixed widths and fulfil \<open>fixed_codec\<close>; the lists are read back by its lemmas.
\<close>

section \<open>Structs\<close>

definition shared_key_pickle_length :: nat where
  "shared_key_pickle_length = OLM_SHARED_KEY_LENGTH"

definition shared_key_pickle :: "bytes \<Rightarrow> bytes" where
  "shared_key_pickle value = olm_pickle_bytes value OLM_SHARED_KEY_LENGTH"

definition shared_key_unpickle :: "bytes \<Rightarrow> bytes \<Rightarrow> bytes unpickled" where
  "shared_key_unpickle = olm_unpickle_bytes OLM_SHARED_KEY_LENGTH"

definition sender_chain_pickle_length :: "sender_chain \<Rightarrow> nat" where
  "sender_chain_pickle_length value =
     olm_pickle_curve25519_key_pair_length + shared_key_pickle_length + 4"

definition sender_chain_pickle :: "sender_chain \<Rightarrow> bytes" where
  "sender_chain_pickle value =
     olm_pickle_curve25519_key_pair (sc_ratchet_key value)
     @ shared_key_pickle (ck_key (sc_chain_key value)) @ olm_pickle_uint32 (ck_index (sc_chain_key value))"

definition sender_chain_unpickle :: "bytes \<Rightarrow> sender_chain \<Rightarrow> sender_chain unpickled" where
  "sender_chain_unpickle pos value =
     then_unpickle (then_unpickle
       (on_field sc_ratchet_key (\<lambda>v s. s\<lparr>sc_ratchet_key := v\<rparr>) olm_unpickle_curve25519_key_pair pos value)
       (on_field (\<lambda>s. ck_key (sc_chain_key s)) (\<lambda>v s. s\<lparr>sc_chain_key := (sc_chain_key s)\<lparr>ck_key := v\<rparr>\<rparr>)
          shared_key_unpickle))
       (on_field (\<lambda>s. ck_index (sc_chain_key s)) (\<lambda>v s. s\<lparr>sc_chain_key := (sc_chain_key s)\<lparr>ck_index := v\<rparr>\<rparr>)
          olm_unpickle_uint32)"

definition receiver_chain_pickle_length :: "receiver_chain \<Rightarrow> nat" where
  "receiver_chain_pickle_length value =
     olm_pickle_curve25519_public_key_length + shared_key_pickle_length + 4"

definition receiver_chain_pickle :: "receiver_chain \<Rightarrow> bytes" where
  "receiver_chain_pickle value =
     olm_pickle_curve25519_public_key (rc_ratchet_key value)
     @ shared_key_pickle (ck_key (rc_chain_key value)) @ olm_pickle_uint32 (ck_index (rc_chain_key value))"

definition receiver_chain_unpickle :: "bytes \<Rightarrow> receiver_chain \<Rightarrow> receiver_chain unpickled" where
  "receiver_chain_unpickle pos value =
     then_unpickle (then_unpickle
       (on_field rc_ratchet_key (\<lambda>v s. s\<lparr>rc_ratchet_key := v\<rparr>) olm_unpickle_curve25519_public_key pos value)
       (on_field (\<lambda>s. ck_key (rc_chain_key s)) (\<lambda>v s. s\<lparr>rc_chain_key := (rc_chain_key s)\<lparr>ck_key := v\<rparr>\<rparr>)
          shared_key_unpickle))
       (on_field (\<lambda>s. ck_index (rc_chain_key s)) (\<lambda>v s. s\<lparr>rc_chain_key := (rc_chain_key s)\<lparr>ck_index := v\<rparr>\<rparr>)
          olm_unpickle_uint32)"

definition skipped_message_key_pickle_length :: "skipped_message_key \<Rightarrow> nat" where
  "skipped_message_key_pickle_length value =
     olm_pickle_curve25519_public_key_length + shared_key_pickle_length + 4"

definition skipped_message_key_pickle :: "skipped_message_key \<Rightarrow> bytes" where
  "skipped_message_key_pickle value =
     olm_pickle_curve25519_public_key (sm_ratchet_key value)
     @ shared_key_pickle (mk_key (sm_message_key value)) @ olm_pickle_uint32 (mk_index (sm_message_key value))"

definition skipped_message_key_unpickle :: "bytes \<Rightarrow> skipped_message_key \<Rightarrow> skipped_message_key unpickled" where
  "skipped_message_key_unpickle pos value =
     then_unpickle (then_unpickle
       (on_field sm_ratchet_key (\<lambda>v s. s\<lparr>sm_ratchet_key := v\<rparr>) olm_unpickle_curve25519_public_key pos value)
       (on_field (\<lambda>s. mk_key (sm_message_key s)) (\<lambda>v s. s\<lparr>sm_message_key := (sm_message_key s)\<lparr>mk_key := v\<rparr>\<rparr>)
          shared_key_unpickle))
       (on_field (\<lambda>s. mk_index (sm_message_key s)) (\<lambda>v s. s\<lparr>sm_message_key := (sm_message_key s)\<lparr>mk_index := v\<rparr>\<rparr>)
          olm_unpickle_uint32)"

section \<open>Lists\<close>

definition sender_chain_list_pickle_length :: "sender_chain olm_list \<Rightarrow> nat" where
  "sender_chain_list_pickle_length value = fold (\<lambda>c n. n + sender_chain_pickle_length c) (elems value) 4"

definition sender_chain_list_pickle :: "sender_chain olm_list \<Rightarrow> bytes" where
  "sender_chain_list_pickle = list_pickle sender_chain_pickle"

definition sender_chain_list_unpickle :: "bytes \<Rightarrow> sender_chain olm_list \<Rightarrow> sender_chain olm_list unpickled" where
  "sender_chain_list_unpickle = list_unpickle sender_chain_unpickle"

definition receiver_chain_list_pickle_length :: "receiver_chain olm_list \<Rightarrow> nat" where
  "receiver_chain_list_pickle_length value = fold (\<lambda>c n. n + receiver_chain_pickle_length c) (elems value) 4"

definition receiver_chain_list_pickle :: "receiver_chain olm_list \<Rightarrow> bytes" where
  "receiver_chain_list_pickle = list_pickle receiver_chain_pickle"

definition receiver_chain_list_unpickle :: "bytes \<Rightarrow> receiver_chain olm_list \<Rightarrow> receiver_chain olm_list unpickled" where
  "receiver_chain_list_unpickle = list_unpickle receiver_chain_unpickle"

definition skipped_message_key_list_pickle_length :: "skipped_message_key olm_list \<Rightarrow> nat" where
  "skipped_message_key_list_pickle_length value =
     fold (\<lambda>c n. n + skipped_message_key_pickle_length c) (elems value) 4"

definition skipped_message_key_list_pickle :: "skipped_message_key olm_list \<Rightarrow> bytes" where
  "skipped_message_key_list_pickle = list_pickle skipped_message_key_pickle"

definition skipped_message_key_list_unpickle ::
    "bytes \<Rightarrow> skipped_message_key olm_list \<Rightarrow> skipped_message_key olm_list unpickled" where
  "skipped_message_key_list_unpickle = list_unpickle skipped_message_key_unpickle"

section \<open>The ratchet\<close>

definition olm_ratchet_pickle_length :: "ratchet \<Rightarrow> nat" where
  "olm_ratchet_pickle_length r =
     OLM_SHARED_KEY_LENGTH + sender_chain_list_pickle_length (rt_sender_chain r)
     + receiver_chain_list_pickle_length (rt_receiver_chains r)
     + skipped_message_key_list_pickle_length (rt_skipped_message_keys r)"

definition olm_ratchet_pickle :: "ratchet \<Rightarrow> bytes" where
  "olm_ratchet_pickle r =
     shared_key_pickle (rt_root_key r) @ sender_chain_list_pickle (rt_sender_chain r)
     @ receiver_chain_list_pickle (rt_receiver_chains r)
     @ skipped_message_key_list_pickle (rt_skipped_message_keys r)"

text \<open>A pickle of version \<open>0x80000001\<close> has a chain index after the lists, which is not kept.\<close>

definition olm_ratchet_unpickle :: "bool \<Rightarrow> bytes \<Rightarrow> ratchet \<Rightarrow> ratchet unpickled" where
  "olm_ratchet_unpickle includes_chain_index pos r =
     then_unpickle (then_unpickle (then_unpickle (then_unpickle
       (on_field rt_root_key (\<lambda>v s. s\<lparr>rt_root_key := v\<rparr>) shared_key_unpickle pos r)
       (on_field rt_sender_chain (\<lambda>v s. s\<lparr>rt_sender_chain := v\<rparr>) sender_chain_list_unpickle))
       (on_field rt_receiver_chains (\<lambda>v s. s\<lparr>rt_receiver_chains := v\<rparr>) receiver_chain_list_unpickle))
       (on_field rt_skipped_message_keys (\<lambda>v s. s\<lparr>rt_skipped_message_keys := v\<rparr>)
          skipped_message_key_list_unpickle))
       (\<lambda>pos s. if includes_chain_index then (s, snd (olm_unpickle_uint32 pos 0)) else (s, Some pos))"

section \<open>The structs are fixed-width codecs\<close>

lemmas chain_codec_simps = shared_key_pickle_def shared_key_unpickle_def olm_pickle_curve25519_key_pair_def
  olm_unpickle_curve25519_key_pair_def olm_pickle_curve25519_public_key_def
  olm_unpickle_curve25519_public_key_def unpickle_bytes_simps

interpretation sender_chain_codec: fixed_codec sender_chain_pickle sender_chain_unpickle 100 sender_chain_ok
  by unfold_locales
    (auto simp: sender_chain_pickle_def sender_chain_unpickle_def sender_chain_ok_def chain_key_ok_def
      curve25519_key_pair_ok_def chain_codec_simps then_unpickle_def olm_pickle_uint32_def olm_unpickle_uint32_def
      be32_word_bytes [unfolded be32_word_def] split: option.splits)

interpretation receiver_chain_codec: fixed_codec receiver_chain_pickle receiver_chain_unpickle 68 receiver_chain_ok
  by unfold_locales
    (auto simp: receiver_chain_pickle_def receiver_chain_unpickle_def receiver_chain_ok_def chain_key_ok_def
      chain_codec_simps then_unpickle_def olm_pickle_uint32_def olm_unpickle_uint32_def
      be32_word_bytes [unfolded be32_word_def] split: option.splits)

interpretation skipped_key_codec: fixed_codec skipped_message_key_pickle skipped_message_key_unpickle 68
    skipped_message_key_ok
  by unfold_locales
    (auto simp: skipped_message_key_pickle_def skipped_message_key_unpickle_def skipped_message_key_ok_def
      chain_codec_simps then_unpickle_def olm_pickle_uint32_def olm_unpickle_uint32_def
      be32_word_bytes [unfolded be32_word_def] split: option.splits)

section \<open>Pickling and unpickling a ratchet\<close>

lemma fold_lengths: "fold (\<lambda>c n. n + w) cs a = a + w * length cs" for w a :: nat
  by (induction cs arbitrary: a) simp_all

lemma slots_elems_ok: "slots_ok cap ok l \<Longrightarrow> \<forall>x \<in> set (elems l). ok x"
  using slots_ok_elems [of cap ok l] by simp

lemma length_ratchet_pickle:
  assumes "ratchet_ok r"
  shows "length (olm_ratchet_pickle r) = olm_ratchet_pickle_length r" "olm_ratchet_pickle_length r \<le> 3204"
proof -
  have s: "slots_ok 1 sender_chain_ok (rt_sender_chain r)" "slots_ok 5 receiver_chain_ok (rt_receiver_chains r)"
    "slots_ok 40 skipped_message_key_ok (rt_skipped_message_keys r)" and root: "length (rt_root_key r) = 32"
    using assms by (simp_all add: ratchet_ok_def)
  note ok = ratchet_list_ok [OF assms]
  note l = length_elems [OF ok(1)] length_elems [OF ok(2)] length_elems [OF ok(3)]
  note len = sender_chain_codec.length_list_pickle [OF ok(1) slots_elems_ok [OF s(1)]]
    receiver_chain_codec.length_list_pickle [OF ok(2) slots_elems_ok [OF s(2)]]
    skipped_key_codec.length_list_pickle [OF ok(3) slots_elems_ok [OF s(3)]]
  have f: "sender_chain_list_pickle_length (rt_sender_chain r) = 4 + 100 * ol_length (rt_sender_chain r)"
    "receiver_chain_list_pickle_length (rt_receiver_chains r) = 4 + 68 * ol_length (rt_receiver_chains r)"
    "skipped_message_key_list_pickle_length (rt_skipped_message_keys r) = 4 + 68 * ol_length (rt_skipped_message_keys r)"
    by (simp_all add: sender_chain_list_pickle_length_def receiver_chain_list_pickle_length_def
        skipped_message_key_list_pickle_length_def sender_chain_pickle_length_def receiver_chain_pickle_length_def
        skipped_message_key_pickle_length_def shared_key_pickle_length_def olm_pickle_curve25519_key_pair_length_def
        olm_pickle_curve25519_public_key_length_def fold_lengths l)
  show "length (olm_ratchet_pickle r) = olm_ratchet_pickle_length r"
    using root by (simp add: olm_ratchet_pickle_def olm_ratchet_pickle_length_def f sender_chain_list_pickle_def
        receiver_chain_list_pickle_def skipped_message_key_list_pickle_def len shared_key_pickle_def olm_pickle_bytes_def)
  show "olm_ratchet_pickle_length r \<le> 3204"
    using ok by (simp add: olm_ratchet_pickle_length_def f list_ok_def)
qed

text \<open>Two ratchets with the same root key and the same live list elements.\<close>

definition same_ratchet_keys :: "ratchet \<Rightarrow> ratchet \<Rightarrow> bool" where
  "same_ratchet_keys r r' \<longleftrightarrow> rt_root_key r = rt_root_key r'
     \<and> elems (rt_sender_chain r) = elems (rt_sender_chain r')
     \<and> elems (rt_receiver_chains r) = elems (rt_receiver_chains r')
     \<and> elems (rt_skipped_message_keys r) = elems (rt_skipped_message_keys r')"

lemma ratchet_unpickle_pickle:
  assumes r: "ratchet_ok r" and old: "ratchet_ok old"
  shows "\<exists>r'. olm_ratchet_unpickle b (olm_ratchet_pickle r @ (if b then olm_pickle_uint32 i else []) @ rest) old =
      (r', Some rest)
    \<and> same_ratchet_keys r' r \<and> ratchet_ok r' \<and> rt_kdf_info r' = rt_kdf_info old
    \<and> rt_ratchet_cipher r' = rt_ratchet_cipher old \<and> rt_last_error r' = rt_last_error old"
proof -
  have s: "slots_ok 1 sender_chain_ok (rt_sender_chain r)" "slots_ok 5 receiver_chain_ok (rt_receiver_chains r)"
    "slots_ok 40 skipped_message_key_ok (rt_skipped_message_keys r)" and root: "length (rt_root_key r) = 32"
    using r by (simp_all add: ratchet_ok_def)
  have o: "slots_ok 1 sender_chain_ok (rt_sender_chain old)" "slots_ok 5 receiver_chain_ok (rt_receiver_chains old)"
    "slots_ok 40 skipped_message_key_ok (rt_skipped_message_keys old)" and oroot: "length (rt_root_key old) = 32"
    using old by (simp_all add: ratchet_ok_def)
  let ?S = "sender_chain_list_pickle (rt_sender_chain r)" and ?C = "receiver_chain_list_pickle (rt_receiver_chains r)"
    and ?K = "skipped_message_key_list_pickle (rt_skipped_message_keys r)"
  have S: "\<exists>l. sender_chain_list_unpickle (?S @ x) (rt_sender_chain old) = (l, Some x)
      \<and> elems l = elems (rt_sender_chain r) \<and> slots_ok 1 sender_chain_ok l" for x
    using sender_chain_codec.list_unpickle_pickle [of 1 "rt_sender_chain r" "rt_sender_chain old" x]
      s(1) o(1) slots_elems_ok [OF s(1)]
    by (auto simp: sender_chain_list_unpickle_def sender_chain_list_pickle_def slots_ok_def)
  have C: "\<exists>l. receiver_chain_list_unpickle (?C @ x) (rt_receiver_chains old) = (l, Some x)
      \<and> elems l = elems (rt_receiver_chains r) \<and> slots_ok 5 receiver_chain_ok l" for x
    using receiver_chain_codec.list_unpickle_pickle [of 5 "rt_receiver_chains r" "rt_receiver_chains old" x]
      s(2) o(2) slots_elems_ok [OF s(2)]
    by (auto simp: receiver_chain_list_unpickle_def receiver_chain_list_pickle_def slots_ok_def)
  have K: "\<exists>l. skipped_message_key_list_unpickle (?K @ x) (rt_skipped_message_keys old) = (l, Some x)
      \<and> elems l = elems (rt_skipped_message_keys r) \<and> slots_ok 40 skipped_message_key_ok l" for x
    using skipped_key_codec.list_unpickle_pickle [of 40 "rt_skipped_message_keys r" "rt_skipped_message_keys old" x]
      s(3) o(3) slots_elems_ok [OF s(3)]
    by (auto simp: skipped_message_key_list_unpickle_def skipped_message_key_list_pickle_def slots_ok_def)
  define E where "E = (if b then olm_pickle_uint32 i else []) @ rest"
  obtain l3 where l3: "skipped_message_key_list_unpickle (?K @ E) (rt_skipped_message_keys old) = (l3, Some E)"
      "elems l3 = elems (rt_skipped_message_keys r)" "slots_ok 40 skipped_message_key_ok l3" using K by blast
  obtain l2 where l2: "receiver_chain_list_unpickle (?C @ ?K @ E) (rt_receiver_chains old) = (l2, Some (?K @ E))"
      "elems l2 = elems (rt_receiver_chains r)" "slots_ok 5 receiver_chain_ok l2" using C by blast
  obtain l1 where l1: "sender_chain_list_unpickle (?S @ ?C @ ?K @ E) (rt_sender_chain old) = (l1, Some (?C @ ?K @ E))"
      "elems l1 = elems (rt_sender_chain r)" "slots_ok 1 sender_chain_ok l1" using S by blast
  have k: "shared_key_unpickle (shared_key_pickle (rt_root_key r) @ x) (rt_root_key old) = (rt_root_key r, Some x)" for x
    using root oroot key32_codec.unpickle_pickle by (simp add: shared_key_unpickle_def shared_key_pickle_def)
  have e: "(if b then snd (olm_unpickle_uint32 E 0) else Some E) = Some rest"
    by (simp add: E_def uint32_codec.unpickle_pickle)
  have "olm_ratchet_unpickle b (olm_ratchet_pickle r @ E) old =
      (old\<lparr>rt_root_key := rt_root_key r, rt_sender_chain := l1, rt_receiver_chains := l2,
           rt_skipped_message_keys := l3\<rparr>, Some rest)"
    using e by (auto simp: olm_ratchet_unpickle_def olm_ratchet_pickle_def on_field_def k l1(1) l2(1) l3(1) split: if_splits)
  then show ?thesis
    using l1 l2 l3 root by (simp add: E_def same_ratchet_keys_def ratchet_ok_def)
qed

section \<open>Any input leaves a well-formed ratchet\<close>

context fixed_codec
begin

lemma slots_unpickle_loop: "slots_ok cap ok l \<Longrightarrow> slots_ok cap ok (fst (list_unpickle_loop unpickle n pos l))"
proof (induction n arbitrary: pos l)
  case (Suc n)
  obtain l1 i where ins: "olm_list_insert_end l = (l1, i)" by fastforce
  have l1: "slots_ok cap ok l1"
    using slots_ok_insert [OF Suc(2), of "ol_length l"] ins by (simp add: olm_list_insert_end_def)
  obtain v r where un: "unpickle pos (olm_list_get l1 i) = (v, r)" by fastforce
  have set: "slots_ok cap ok (olm_list_set l1 i v)"
  proof (cases "i < cap")
    case True
    then show ?thesis using l1 unpickle_ok [OF slots_ok_get [OF l1 True], of pos] un by (simp add: slots_ok_set)
  next
    case False
    then have "(ol_data l1)[i := v] = ol_data l1"
      using l1 by (intro list_update_beyond) (simp add: slots_ok_def list_ok_def)
    then show ?thesis using l1 by (simp add: olm_list_set_def)
  qed
  then show ?case
    using Suc by (auto simp: ins un Let_def split: option.splits)
qed simp

lemma slots_unpickle: "slots_ok cap ok l \<Longrightarrow> slots_ok cap ok (fst (list_unpickle unpickle pos l))"
  by (auto simp: list_unpickle_def Let_def slots_unpickle_loop slots_ok_init split: prod.splits option.splits)

end

lemma fst_then_unpickle:
  "P (fst r) \<Longrightarrow> (\<And>pos s. P s \<Longrightarrow> P (fst (f pos s))) \<Longrightarrow> P (fst (then_unpickle r f))"
  by (auto simp: then_unpickle_def split: prod.splits option.splits)

lemma fst_on_field:
  "(\<And>v. Q v \<Longrightarrow> P (put v s)) \<Longrightarrow> Q (fst (u pos (get s))) \<Longrightarrow> P (fst (on_field get put u pos s))"
  by (auto simp: on_field_def split: prod.splits)

lemma ratchet_unpickle_ok:
  assumes "ratchet_ok old"
  shows "ratchet_ok (fst (olm_ratchet_unpickle b pos old))"
  unfolding olm_ratchet_unpickle_def
proof (intro fst_then_unpickle [where P = ratchet_ok])
  fix pos s assume s: "ratchet_ok s"
  show "ratchet_ok (fst (on_field rt_sender_chain (\<lambda>v s. s\<lparr>rt_sender_chain := v\<rparr>) sender_chain_list_unpickle pos s))"
    by (rule fst_on_field [where Q = "slots_ok 1 sender_chain_ok"])
      (use s in \<open>simp_all add: ratchet_ok_def sender_chain_list_unpickle_def sender_chain_codec.slots_unpickle\<close>)
  show "ratchet_ok (fst (on_field rt_receiver_chains (\<lambda>v s. s\<lparr>rt_receiver_chains := v\<rparr>) receiver_chain_list_unpickle pos s))"
    by (rule fst_on_field [where Q = "slots_ok 5 receiver_chain_ok"])
      (use s in \<open>simp_all add: ratchet_ok_def receiver_chain_list_unpickle_def receiver_chain_codec.slots_unpickle\<close>)
  show "ratchet_ok (fst (on_field rt_skipped_message_keys (\<lambda>v s. s\<lparr>rt_skipped_message_keys := v\<rparr>)
      skipped_message_key_list_unpickle pos s))"
    by (rule fst_on_field [where Q = "slots_ok 40 skipped_message_key_ok"])
      (use s in \<open>simp_all add: ratchet_ok_def skipped_message_key_list_unpickle_def skipped_key_codec.slots_unpickle\<close>)
  show "ratchet_ok (fst (if b then (s, snd (olm_unpickle_uint32 pos 0)) else (s, Some pos)))" using s by simp
next
  show "ratchet_ok (fst (on_field rt_root_key (\<lambda>v s. s\<lparr>rt_root_key := v\<rparr>) shared_key_unpickle pos old))"
    by (rule fst_on_field [where Q = "\<lambda>k. length k = 32"])
      (use assms in \<open>simp_all add: ratchet_ok_def shared_key_unpickle_def key32_codec.unpickle_ok\<close>)
qed

section \<open>What an unpickling takes from its input\<close>

context fixed_codec
begin

lemma insert_end_length:
  "list_ok cap l \<Longrightarrow> 0 < cap \<Longrightarrow> ol_length (fst (olm_list_insert_end l)) = min cap (ol_length l + 1)"
  by (auto simp: olm_list_insert_end_def olm_list_insert_def olm_list_capacity_def list_ok_def Let_def)

lemma loop_consumes:
  "list_ok cap l \<Longrightarrow> 0 < cap \<Longrightarrow> list_unpickle_loop unpickle n pos l = (l', Some rest) \<Longrightarrow>
   \<exists>consumed m. pos = consumed @ rest \<and> length consumed = width * m \<and> ol_length l' = min cap (ol_length l + m)
     \<and> m \<le> n \<and> (m = n \<or> rest = [])"
proof (induction n arbitrary: pos l)
  case 0
  then show ?case by (auto simp: list_ok_def)
next
  case (Suc n)
  show ?case
  proof (cases "pos = []")
    case True
    then show ?thesis using Suc.prems by (intro exI [of _ "[]"] exI [of _ 0]) (auto simp: list_ok_def)
  next
    case False
    obtain l1 i where ins: "olm_list_insert_end l = (l1, i)" by fastforce
    obtain v r where un: "unpickle pos (olm_list_get l1 i) = (v, r)" by fastforce
    have l1: "list_ok cap (olm_list_set l1 i v)" "ol_length (olm_list_set l1 i v) = min cap (ol_length l + 1)"
      using list_ok_insert [OF Suc.prems(1), of "ol_length l"] insert_end_length [OF Suc.prems(1,2)] ins
      by (simp_all add: olm_list_insert_end_def olm_list_set_def list_ok_def)
    have long: "width \<le> length pos"
      using short [of pos "olm_list_get l1 i"] un Suc.prems(3) False ins by (fastforce simp: Let_def)
    then have r: "r = Some (drop width pos)" using consume [OF long, of "olm_list_get l1 i"] un by simp
    have "list_unpickle_loop unpickle n (drop width pos) (olm_list_set l1 i v) = (l', Some rest)"
      using Suc.prems(3) False ins un r by (simp add: Let_def)
    from Suc.IH [OF l1(1) Suc.prems(2) this] obtain c m where
      m: "drop width pos = c @ rest" "length c = width * m" "ol_length l' = min cap (min cap (ol_length l + 1) + m)"
        "m \<le> n" "m = n \<or> rest = []"
      using l1(2) by auto
    have "pos = (take width pos @ c) @ rest" using m(1) by (metis append_assoc append_take_drop_id)
    moreover have "length (take width pos @ c) = width * Suc m" using long m(2) by simp
    moreover have "ol_length l' = min cap (ol_length l + Suc m)" using m(3) by (simp add: min_def)
    ultimately show ?thesis using m(4,5) by (intro exI [of _ "take width pos @ c"] exI [of _ "Suc m"]) auto
  qed
qed

lemma list_consumes:
  assumes l: "list_ok cap l" and cap: "0 < cap" and un: "list_unpickle unpickle pos l = (l', Some rest)"
  shows "\<exists>consumed m. pos = consumed @ rest \<and> length consumed = 4 + width * m \<and> ol_length l' = min cap m"
proof -
  obtain size r where u: "olm_unpickle_uint32 pos 0 = (size, r)" by fastforce
  have long: "4 \<le> length pos" and r: "r = Some (drop 4 pos)"
    using un u by (auto simp: list_unpickle_def olm_unpickle_uint32_def Let_def split: if_splits)
  have "list_unpickle_loop unpickle (unat size) (drop 4 pos) (olm_list_init l) = (l', Some rest)"
    using un u r by (simp add: list_unpickle_def)
  moreover have "list_ok cap (olm_list_init l)" "ol_length (olm_list_init l) = 0"
    using l by (simp_all add: olm_list_init_def list_ok_def)
  ultimately obtain c m where "drop 4 pos = c @ rest" "length c = width * m" "ol_length l' = min cap m"
    using loop_consumes [of cap "olm_list_init l" "unat size" "drop 4 pos" l' rest] cap by auto
  then show ?thesis
    using long by (intro exI [of _ "take 4 pos @ c"] exI [of _ m]) (auto simp: min_def, metis append_take_drop_id)
qed

end

lemma ratchet_unpickle_parts:
  assumes "olm_ratchet_unpickle b pos old = (r', Some rest)"
  obtains key p1 l1 p2 l2 p3 l3 p4 where
    "shared_key_unpickle pos (rt_root_key old) = (key, Some p1)"
    "sender_chain_list_unpickle p1 (rt_sender_chain old) = (l1, Some p2)"
    "receiver_chain_list_unpickle p2 (rt_receiver_chains old) = (l2, Some p3)"
    "skipped_message_key_list_unpickle p3 (rt_skipped_message_keys old) = (l3, Some p4)"
    "(if b then snd (olm_unpickle_uint32 p4 0) else Some p4) = Some rest"
    "r' = old\<lparr>rt_root_key := key, rt_sender_chain := l1, rt_receiver_chains := l2, rt_skipped_message_keys := l3\<rparr>"
  using assms
  by (auto simp: olm_ratchet_unpickle_def on_field_def then_unpickle_def split: prod.splits option.splits if_splits)

lemma ratchet_unpickle_consumes:
  assumes old: "ratchet_ok old" and un: "olm_ratchet_unpickle b pos old = (r', Some rest)"
  shows "\<exists>consumed s c k. pos = consumed @ rest
    \<and> length consumed = 32 + (4 + 100 * s) + (4 + 68 * c) + (4 + 68 * k) + (if b then 4 else 0)
    \<and> rt_root_key r' = take 32 pos \<and> length (elems (rt_sender_chain r')) = min 1 s
    \<and> length (elems (rt_receiver_chains r')) = min 5 c \<and> length (elems (rt_skipped_message_keys r')) = min 40 k"
proof -
  obtain key p1 l1 p2 l2 p3 l3 p4 where
    key: "shared_key_unpickle pos (rt_root_key old) = (key, Some p1)"
    and l1: "sender_chain_list_unpickle p1 (rt_sender_chain old) = (l1, Some p2)"
    and l2: "receiver_chain_list_unpickle p2 (rt_receiver_chains old) = (l2, Some p3)"
    and l3: "skipped_message_key_list_unpickle p3 (rt_skipped_message_keys old) = (l3, Some p4)"
    and last: "(if b then snd (olm_unpickle_uint32 p4 0) else Some p4) = Some rest"
    and r': "r' = old\<lparr>rt_root_key := key, rt_sender_chain := l1, rt_receiver_chains := l2, rt_skipped_message_keys := l3\<rparr>"
    using un by (rule ratchet_unpickle_parts)
  note ok = ratchet_list_ok [OF old]
  have k: "pos = take 32 pos @ p1" "length (take 32 pos) = 32" "key = take 32 pos"
    using key old by (auto simp: shared_key_unpickle_def olm_unpickle_bytes_eq ratchet_ok_def write_at_def split: if_splits)
  obtain a s where a: "p1 = a @ p2" "length a = 4 + 100 * s" "ol_length l1 = min 1 s"
    using sender_chain_codec.list_consumes [OF ok(1) _ l1 [unfolded sender_chain_list_unpickle_def]] by auto
  obtain d c where d: "p2 = d @ p3" "length d = 4 + 68 * c" "ol_length l2 = min 5 c"
    using receiver_chain_codec.list_consumes [OF ok(2) _ l2 [unfolded receiver_chain_list_unpickle_def]] by auto
  obtain e m where e: "p3 = e @ p4" "length e = 4 + 68 * m" "ol_length l3 = min 40 m"
    using skipped_key_codec.list_consumes [OF ok(3) _ l3 [unfolded skipped_message_key_list_unpickle_def]] by auto
  have f: "p4 = take (if b then 4 else 0) p4 @ rest" "length (take (if b then 4 else 0) p4) = (if b then 4 else 0)"
    using last by (auto simp: olm_unpickle_uint32_def split: if_splits)
  have "ratchet_ok r'" using ratchet_unpickle_ok [OF old, of b pos] un by simp
  note ok' = ratchet_list_ok [OF this]
  have "pos = (take 32 pos @ a @ d @ e @ take (if b then 4 else 0) p4) @ rest"
    using k(1) a(1) d(1) e(1) f(1) by (metis append_assoc)
  moreover have "length (take 32 pos @ a @ d @ e @ take (if b then 4 else 0) p4) =
      32 + (4 + 100 * s) + (4 + 68 * c) + (4 + 68 * m) + (if b then 4 else 0)"
    unfolding length_append k(2) a(2) d(2) e(2) f(2) by simp
  ultimately show ?thesis
    using k(3) a(3) d(3) e(3) length_elems [OF ok'(1)] length_elems [OF ok'(2)] length_elems [OF ok'(3)]
    by (intro exI [of _ "take 32 pos @ a @ d @ e @ take (if b then 4 else 0) p4"] exI [of _ s] exI [of _ c] exI [of _ m])
       (simp add: r')
qed

section \<open>Properties\<close>

text \<open>C25: A pickled ratchet has the length its length function says and is read back, into any
  other ratchet, with the same root key and the same chains and skipped keys in the same
  order; reading stops where the pickle ends.\<close>

theorem ratchet_pickle_roundtrip:
  assumes "ratchet_ok r" "ratchet_ok old"
  shows "\<exists>r'. olm_ratchet_unpickle False (olm_ratchet_pickle r @ rest) old = (r', Some rest)
    \<and> same_ratchet_keys r' r \<and> ratchet_ok r' \<and> length (olm_ratchet_pickle r) = olm_ratchet_pickle_length r"
  using ratchet_unpickle_pickle [OF assms, of False undefined rest] length_ratchet_pickle(1) [OF assms(1)] by auto

text \<open>C26: Whatever bytes a ratchet is unpickled from, and wherever the input turns out to be
  broken, all keys of the ratchet keep their sizes and its lists their bounds; nothing would be known of
  a key that was read past the end of the input. When it succeeds every byte it took was there: the input begins with the bytes of the root key, of the three
  list lengths, of each element read and, in the old format, of the chain index, 100 bytes a
  sender chain and 68 a receiver chain or skipped key, and reading goes on right behind them;
  of more elements than a list holds the list's capacity is kept.\<close>

theorem ratchet_unpickle_safe:
  assumes "ratchet_ok old"
  shows "(let (r', res) = olm_ratchet_unpickle includes_chain_index input old in ratchet_ok r' \<and>
    (case res of None \<Rightarrow> True
     | Some rest \<Rightarrow> \<exists>consumed s c k. input = consumed @ rest
         \<and> length consumed = 32 + (4 + 100 * s) + (4 + 68 * c) + (4 + 68 * k) + (if includes_chain_index then 4 else 0)
         \<and> rt_root_key r' = take 32 input \<and> length (elems (rt_sender_chain r')) = min 1 s
         \<and> length (elems (rt_receiver_chains r')) = min 5 c \<and> length (elems (rt_skipped_message_keys r')) = min 40 k))"
proof -
  obtain r' res where u: "olm_ratchet_unpickle includes_chain_index input old = (r', res)" by fastforce
  have "ratchet_ok r'" using ratchet_unpickle_ok [OF assms, of includes_chain_index input] u by simp
  then show ?thesis
    using ratchet_unpickle_consumes [OF assms, of includes_chain_index input r'] u
    by (cases res) simp_all
qed

lemma ratchet_pickle_roundtrip_witness:
  "\<exists>r'. olm_ratchet_unpickle False (olm_ratchet_pickle sample_bob @ [7]) blank_ratchet = (r', Some [7])
    \<and> same_ratchet_keys r' sample_bob \<and> ratchet_ok r'
    \<and> length (olm_ratchet_pickle sample_bob) = olm_ratchet_pickle_length sample_bob"
  by (rule ratchet_pickle_roundtrip [OF sample_ratchets_ok(2) blank_ratchet_ok])

lemma ratchet_unpickle_safe_witness:
  "ratchet_ok (fst (olm_ratchet_unpickle True [1, 2, 3] blank_ratchet))
    \<and> (\<exists>r'. olm_ratchet_unpickle False (olm_ratchet_pickle sample_bob @ [7]) blank_ratchet = (r', Some [7])
         \<and> rt_root_key r' = take 32 (olm_ratchet_pickle sample_bob @ [7]))"
proof
  show "ratchet_ok (fst (olm_ratchet_unpickle True [1, 2, 3] blank_ratchet))"
    using ratchet_unpickle_safe [OF blank_ratchet_ok, of True "[1, 2, 3]"] by (simp add: case_prod_unfold Let_def)
  obtain r' where u: "olm_ratchet_unpickle False (olm_ratchet_pickle sample_bob @ [7]) blank_ratchet = (r', Some [7])"
    using ratchet_unpickle_pickle [OF sample_ratchets_ok(2) blank_ratchet_ok, of False undefined "[7]"] by auto
  then show "\<exists>r'. olm_ratchet_unpickle False (olm_ratchet_pickle sample_bob @ [7]) blank_ratchet = (r', Some [7])
      \<and> rt_root_key r' = take 32 (olm_ratchet_pickle sample_bob @ [7])"
    using ratchet_unpickle_safe [OF blank_ratchet_ok, of False "olm_ratchet_pickle sample_bob @ [7]"] by auto
qed

end
