(* ===== verification/Base64.thy ===== *)
theory Base64
  imports Prelude
begin

text \<open>
  \<open>base64.c\<close>: unpadded base64. The length functions are over \<open>size_t\<close>. The encoder and the
  decoder are modelled over one memory with an input and an output offset, because every
  caller in the library encodes or decodes in place: \<open>olm_encode_base64\<close> and
  \<open>olm_decode_base64\<close> are the loops of the source, group by group, with their stores in the
  source's order. \<open>b64_encode\<close> and \<open>b64_decode\<close> are the reference functions on byte strings;
  the refinement lemmas say when the loops compute them although input and output overlap.
\<close>

section \<open>The tables\<close>

definition ENCODE_BASE64 :: bytes where
  "ENCODE_BASE64 =
    [0x41, 0x42, 0x43, 0x44, 0x45, 0x46, 0x47, 0x48,
     0x49, 0x4A, 0x4B, 0x4C, 0x4D, 0x4E, 0x4F, 0x50,
     0x51, 0x52, 0x53, 0x54, 0x55, 0x56, 0x57, 0x58,
     0x59, 0x5A, 0x61, 0x62, 0x63, 0x64, 0x65, 0x66,
     0x67, 0x68, 0x69, 0x6A, 0x6B, 0x6C, 0x6D, 0x6E,
     0x6F, 0x70, 0x71, 0x72, 0x73, 0x74, 0x75, 0x76,
     0x77, 0x78, 0x79, 0x7A, 0x30, 0x31, 0x32, 0x33,
     0x34, 0x35, 0x36, 0x37, 0x38, 0x39, 0x2B, 0x2F]"

text \<open>\<open>E\<close> is \<open>-1\<close>, stored in an \<open>uint8_t\<close>.\<close>

definition DECODE_BASE64 :: bytes where
  "DECODE_BASE64 =
    [255, 255, 255, 255, 255, 255, 255, 255, 255, 255, 255, 255, 255, 255, 255, 255,
     255, 255, 255, 255, 255, 255, 255, 255, 255, 255, 255, 255, 255, 255, 255, 255,
     255, 255, 255, 255, 255, 255, 255, 255, 255, 255, 255,  62, 255, 255, 255,  63,
      52,  53,  54,  55,  56,  57,  58,  59,  60,  61, 255, 255, 255, 255, 255, 255,
     255,   0,   1,   2,   3,   4,   5,   6,   7,   8,   9,  10,  11,  12,  13,  14,
      15,  16,  17,  18,  19,  20,  21,  22,  23,  24,  25, 255, 255, 255, 255, 255,
     255,  26,  27,  28,  29,  30,  31,  32,  33,  34,  35,  36,  37,  38,  39,  40,
      41,  42,  43,  44,  45,  46,  47,  48,  49,  50,  51, 255, 255, 255, 255, 255]"

definition enc_char :: "u32 \<Rightarrow> u8" where
  "enc_char v = ENCODE_BASE64 ! unat v"

definition dec_char :: "u8 \<Rightarrow> u32" where
  "dec_char c = ucast (DECODE_BASE64 ! unat (c AND 0x7F))"

section \<open>Lengths\<close>

definition olm_encode_base64_length :: "nat \<Rightarrow> nat" where
  "olm_encode_base64_length input_length =
     size_sub (size_add (size_mul 4 (size_add input_length 2 div 3)) (size_add input_length 2 mod 3)) 2"

definition olm_decode_base64_length :: "nat \<Rightarrow> nat" where
  "olm_decode_base64_length input_length =
     (if input_length mod 4 = 1 then SIZE_MAX
      else size_sub (size_add (size_mul 3 (size_add input_length 2 div 4))
                              (size_add input_length 2 mod 4)) 2)"

section \<open>The loops over memory\<close>

text \<open>The body of the encoder's loop: read three bytes at \<open>pos\<close>, store four at \<open>out\<close>.\<close>

definition encode_group :: "bytes \<Rightarrow> nat \<Rightarrow> nat \<Rightarrow> bytes" where
  "encode_group m pos out =
     (let value = ucast (m ! pos) :: u32;
          value = push_bit 8 value OR ucast (m ! (pos + 1));
          value = push_bit 8 value OR ucast (m ! (pos + 2));
          m = m[out + 3 := enc_char (value AND 0x3F)];
          value = drop_bit 6 value; m = m[out + 2 := enc_char (value AND 0x3F)];
          value = drop_bit 6 value; m = m[out + 1 := enc_char (value AND 0x3F)];
          value = drop_bit 6 value; m = m[out := enc_char value]
      in m)"

fun encode_loop :: "bytes \<Rightarrow> nat \<Rightarrow> nat \<Rightarrow> nat \<Rightarrow> bytes" where
  "encode_loop m pos out 0 = m"
| "encode_loop m pos out (Suc n) = encode_loop (encode_group m pos out) (pos + 3) (out + 4) n"

text \<open>The remainder of one or two bytes; the second component is the result pointer's advance.\<close>

definition encode_tail :: "bytes \<Rightarrow> nat \<Rightarrow> nat \<Rightarrow> nat \<Rightarrow> bytes \<times> nat" where
  "encode_tail m pos out remainder =
     (if remainder = 0 then (m, 0)
      else
        let value = ucast (m ! pos) :: u32;
            (value, m, adv) =
              (if remainder = 2 then
                 let value = push_bit 8 value OR ucast (m ! (pos + 1));
                     value = push_bit 2 value;
                     m = m[out + 2 := enc_char (value AND 0x3F)];
                     value = drop_bit 6 value
                 in (value, m, 3)
               else (push_bit 4 value, m, 2));
            m = m[out + 1 := enc_char (value AND 0x3F)];
            value = drop_bit 6 value;
            m = m[out := enc_char value]
        in (m, adv))"

text \<open>\<open>_olm_encode_base64\<close>: the memory after the call and the number of bytes written.\<close>

definition olm_encode_base64 :: "bytes \<Rightarrow> nat \<Rightarrow> nat \<Rightarrow> nat \<Rightarrow> bytes \<times> nat" where
  "olm_encode_base64 m input input_length output =
     (let groups = input_length div 3;
          m' = encode_loop m input output groups;
          (m'', adv) = encode_tail m' (input + groups * 3) (output + groups * 4)
                         (input_length - groups * 3)
      in (m'', groups * 4 + adv))"

definition decode_group :: "bytes \<Rightarrow> nat \<Rightarrow> nat \<Rightarrow> bytes" where
  "decode_group m pos out =
     (let value = dec_char (m ! pos);
          value = push_bit 6 value OR dec_char (m ! (pos + 1));
          value = push_bit 6 value OR dec_char (m ! (pos + 2));
          value = push_bit 6 value OR dec_char (m ! (pos + 3));
          m = m[out + 2 := ucast value];
          value = drop_bit 8 value; m = m[out + 1 := ucast value];
          value = drop_bit 8 value; m = m[out := ucast value]
      in m)"

fun decode_loop :: "bytes \<Rightarrow> nat \<Rightarrow> nat \<Rightarrow> nat \<Rightarrow> bytes" where
  "decode_loop m pos out 0 = m"
| "decode_loop m pos out (Suc n) = decode_loop (decode_group m pos out) (pos + 4) (out + 3) n"

definition decode_tail :: "bytes \<Rightarrow> nat \<Rightarrow> nat \<Rightarrow> nat \<Rightarrow> bytes" where
  "decode_tail m pos out remainder =
     (if remainder = 0 then m
      else
        let value = dec_char (m ! pos);
            value = push_bit 6 value OR dec_char (m ! (pos + 1));
            (value, m) =
              (if remainder = 3 then
                 let value = push_bit 6 value OR dec_char (m ! (pos + 2));
                     value = drop_bit 2 value;
                     m = m[out + 1 := ucast value];
                     value = drop_bit 8 value
                 in (value, m)
               else (drop_bit 4 value, m))
        in m[out := ucast value])"

text \<open>\<open>_olm_decode_base64\<close>: the memory after the call and the returned length.\<close>

definition olm_decode_base64 :: "bytes \<Rightarrow> nat \<Rightarrow> nat \<Rightarrow> nat \<Rightarrow> bytes \<times> nat" where
  "olm_decode_base64 m input input_length output =
     (let raw_length = olm_decode_base64_length input_length;
          groups = input_length div 4
      in if raw_length = SIZE_MAX then (m, SIZE_MAX)
         else (decode_tail (decode_loop m input output groups)
                 (input + groups * 4) (output + groups * 3) (input_length - groups * 4),
               raw_length))"

section \<open>The reference functions\<close>

definition enc3_value :: "u8 \<Rightarrow> u8 \<Rightarrow> u8 \<Rightarrow> u32" where
  "enc3_value a b c = push_bit 8 (push_bit 8 (ucast a) OR ucast b) OR ucast c"

definition enc2_value :: "u8 \<Rightarrow> u8 \<Rightarrow> u32" where
  "enc2_value a b = push_bit 2 (push_bit 8 (ucast a) OR ucast b)"

definition enc1_value :: "u8 \<Rightarrow> u32" where
  "enc1_value a = push_bit 4 (ucast a)"

definition dec2_value :: "u8 \<Rightarrow> u8 \<Rightarrow> u32" where
  "dec2_value a b = push_bit 6 (dec_char a) OR dec_char b"

definition dec3_value :: "u8 \<Rightarrow> u8 \<Rightarrow> u8 \<Rightarrow> u32" where
  "dec3_value a b c = push_bit 6 (dec2_value a b) OR dec_char c"

definition dec4_value :: "u8 \<Rightarrow> u8 \<Rightarrow> u8 \<Rightarrow> u8 \<Rightarrow> u32" where
  "dec4_value a b c d = push_bit 6 (dec3_value a b c) OR dec_char d"

fun b64_encode :: "bytes \<Rightarrow> bytes" where
  "b64_encode (a # b # c # xs) =
     enc_char (drop_bit 18 (enc3_value a b c)) # enc_char (drop_bit 12 (enc3_value a b c) AND 0x3F)
     # enc_char (drop_bit 6 (enc3_value a b c) AND 0x3F) # enc_char (enc3_value a b c AND 0x3F)
     # b64_encode xs"
| "b64_encode [a, b] =
     [enc_char (drop_bit 12 (enc2_value a b)), enc_char (drop_bit 6 (enc2_value a b) AND 0x3F),
      enc_char (enc2_value a b AND 0x3F)]"
| "b64_encode [a] = [enc_char (drop_bit 6 (enc1_value a)), enc_char (enc1_value a AND 0x3F)]"
| "b64_encode [] = []"

fun b64_decode :: "bytes \<Rightarrow> bytes" where
  "b64_decode (a # b # c # d # xs) =
     ucast (drop_bit 16 (dec4_value a b c d)) # ucast (drop_bit 8 (dec4_value a b c d))
     # ucast (dec4_value a b c d) # b64_decode xs"
| "b64_decode [a, b, c] =
     [ucast (drop_bit 10 (dec3_value a b c)), ucast (drop_bit 2 (dec3_value a b c))]"
| "b64_decode [a, b] = [ucast (drop_bit 4 (dec2_value a b))]"
| "b64_decode [a] = []"
| "b64_decode [] = []"

definition b64_length :: "nat \<Rightarrow> nat" where
  "b64_length n = n div 3 * 4 + (if n mod 3 = 0 then 0 else n mod 3 + 1)"

definition raw_length :: "nat \<Rightarrow> nat" where
  "raw_length n = n div 4 * 3 + (n mod 4 - 1)"

lemma group3_cases:
  fixes n :: nat
  obtains (zero) q where "n = 3 * q" | (one) q where "n = 3 * q + 1" | (two) q where "n = 3 * q + 2"
proof -
  have split: "n = 3 * (n div 3) + n mod 3" by simp
  have "n mod 3 < 3" by simp
  then consider "n mod 3 = 0" | "n mod 3 = 1" | "n mod 3 = 2" by linarith
  then show ?thesis using that split by cases (metis add_0_right)+
qed

lemma group4_cases:
  fixes n :: nat
  obtains (zero) q where "n = 4 * q" | (one) q where "n = 4 * q + 1"
    | (two) q where "n = 4 * q + 2" | (three) q where "n = 4 * q + 3"
proof -
  have split: "n = 4 * (n div 4) + n mod 4" by simp
  have "n mod 4 < 4" by simp
  then consider "n mod 4 = 0" | "n mod 4 = 1" | "n mod 4 = 2" | "n mod 4 = 3" by linarith
  then show ?thesis using that split by cases (metis add_0_right)+
qed

lemma div_mod_3 [simp]:
  fixes q :: nat
  shows "(3 * q) div 3 = q" "(3 * q + 1) div 3 = q" "(3 * q + 2) div 3 = q"
    "(3 * q) mod 3 = 0" "(3 * q + 1) mod 3 = 1" "(3 * q + 2) mod 3 = 2"
  by presburger+

lemma div_mod_4 [simp]:
  fixes q :: nat
  shows "(4 * q) div 4 = q" "(4 * q + 1) div 4 = q" "(4 * q + 2) div 4 = q" "(4 * q + 3) div 4 = q"
    "(4 * q) mod 4 = 0" "(4 * q + 1) mod 4 = 1" "(4 * q + 2) mod 4 = 2" "(4 * q + 3) mod 4 = 3"
  by presburger+

lemma b64_length_groups:
  "b64_length (3 * q) = 4 * q" "b64_length (3 * q + 1) = 4 * q + 2"
  "b64_length (3 * q + 2) = 4 * q + 3"
  unfolding b64_length_def div_mod_3 by simp_all

lemma raw_length_groups:
  "raw_length (4 * q) = 3 * q" "raw_length (4 * q + 1) = 3 * q"
  "raw_length (4 * q + 2) = 3 * q + 1" "raw_length (4 * q + 3) = 3 * q + 2"
  unfolding raw_length_def div_mod_4 by simp_all

lemma b64_length_3: "b64_length (n + 3) = b64_length n + 4"
proof (cases n rule: group3_cases)
  case (zero q)
  then show ?thesis using b64_length_groups(1) [of "Suc q"] b64_length_groups(1) [of q]
    by (simp add: algebra_simps)
next
  case (one q)
  then show ?thesis using b64_length_groups(2) [of "Suc q"] b64_length_groups(2) [of q]
    by (simp add: algebra_simps)
next
  case (two q)
  then show ?thesis using b64_length_groups(3) [of "Suc q"] b64_length_groups(3) [of q]
    by (simp add: algebra_simps)
qed

lemma raw_length_4: "raw_length (n + 4) = raw_length n + 3"
proof (cases n rule: group4_cases)
  case (zero q)
  then show ?thesis using raw_length_groups(1) [of "Suc q"] raw_length_groups(1) [of q]
    by (simp add: algebra_simps)
next
  case (one q)
  then show ?thesis using raw_length_groups(2) [of "Suc q"] raw_length_groups(2) [of q]
    by (simp add: algebra_simps)
next
  case (two q)
  then show ?thesis using raw_length_groups(3) [of "Suc q"] raw_length_groups(3) [of q]
    by (simp add: algebra_simps)
next
  case (three q)
  then show ?thesis using raw_length_groups(4) [of "Suc q"] raw_length_groups(4) [of q]
    by (simp add: algebra_simps)
qed

lemma b64_length_Suc3 [simp]: "b64_length (Suc (Suc (Suc n))) = Suc (Suc (Suc (Suc (b64_length n))))"
  using b64_length_3 [of n] by (simp add: eval_nat_numeral)

lemma raw_length_Suc4 [simp]: "raw_length (Suc (Suc (Suc (Suc n)))) = Suc (Suc (Suc (raw_length n)))"
  using raw_length_4 [of n] by (simp add: eval_nat_numeral)

lemma b64_length_small [simp]: "b64_length 0 = 0" "b64_length (Suc 0) = 2" "b64_length (Suc (Suc 0)) = 3"
  by (simp_all add: b64_length_def)

lemma raw_length_small [simp]: "raw_length 0 = 0" "raw_length (Suc 0) = 0"
  "raw_length (Suc (Suc 0)) = 1" "raw_length (Suc (Suc (Suc 0))) = 2"
  by (simp_all add: raw_length_def)

lemma length_b64_encode [simp]: "length (b64_encode xs) = b64_length (length xs)"
  by (induction xs rule: b64_encode.induct) simp_all

lemma length_b64_decode [simp]: "length (b64_decode xs) = raw_length (length xs)"
  by (induction xs rule: b64_decode.induct) simp_all

lemma b64_length_ge: "n \<le> b64_length n"
  by (cases n rule: group3_cases) (simp_all only: b64_length_groups)

lemma raw_length_le: "raw_length n \<le> n"
  by (cases n rule: group4_cases) (simp_all only: raw_length_groups)

lemma raw_b64_length: "raw_length (b64_length n) = n"
  by (cases n rule: group3_cases) (simp_all only: b64_length_groups raw_length_groups)

lemma b64_length_mod: "b64_length n mod 4 \<noteq> 1"
  by (cases n rule: group3_cases) (simp_all only: b64_length_groups div_mod_4)

lemma b64_length_bound: "b64_length n \<le> 4 * n"
  by (cases n rule: group3_cases) (simp_all only: b64_length_groups, simp_all)

text \<open>On lengths a buffer can have, the \<open>size_t\<close> functions compute the intended numbers.\<close>

lemma olm_encode_base64_length_eq:
  assumes "n < 2 ^ 62"
  shows "olm_encode_base64_length n = b64_length n"
proof -
  have small: "4 * ((n + 2) div 3) < 2 ^ 63" using assms by simp
  have shape: "4 * ((n + 2) div 3) + (n + 2) mod 3 - 2 = b64_length n"
    "2 \<le> 4 * ((n + 2) div 3) + (n + 2) mod 3"
  proof -
    have "4 * ((n + 2) div 3) + (n + 2) mod 3 = b64_length n + 2"
    proof (cases n rule: group3_cases)
      case (zero q)
      then show ?thesis by (simp only: b64_length_groups div_mod_3)
    next
      case (one q)
      then have "n + 2 = 3 * (q + 1)" by simp
      then show ?thesis using one by (simp only: b64_length_groups div_mod_3)
    next
      case (two q)
      then have "n + 2 = 3 * (q + 1) + 1" by simp
      then show ?thesis using two by (simp only: b64_length_groups div_mod_3)
    qed
    then show "4 * ((n + 2) div 3) + (n + 2) mod 3 - 2 = b64_length n"
      "2 \<le> 4 * ((n + 2) div 3) + (n + 2) mod 3" by simp_all
  qed
  have "(n + 2) mod 3 < 3" by simp
  then show ?thesis
    using assms small shape unfolding olm_encode_base64_length_def
    by (simp add: size_arith)
qed

lemma olm_decode_base64_length_eq:
  assumes "n < 2 ^ 62" and ok: "n mod 4 \<noteq> 1"
  shows "olm_decode_base64_length n = raw_length n"
proof -
  have small: "3 * ((n + 2) div 4) < 2 ^ 63" using assms by simp
  have shape: "3 * ((n + 2) div 4) + (n + 2) mod 4 = raw_length n + 2"
  proof (cases n rule: group4_cases)
    case (zero q)
    then show ?thesis by (simp only: raw_length_groups div_mod_4)
  next
    case (one q)
    then show ?thesis using ok by (simp only: div_mod_4)
  next
    case (two q)
    then have "n + 2 = 4 * (q + 1)" by simp
    then show ?thesis using two by (simp only: raw_length_groups div_mod_4)
  next
    case (three q)
    then have "n + 2 = 4 * (q + 1) + 1" by simp
    then show ?thesis using three by (simp only: raw_length_groups div_mod_4)
  qed
  have "(n + 2) mod 4 < 4" by simp
  then show ?thesis
    using assms small shape unfolding olm_decode_base64_length_def
    by (simp add: size_arith)
qed

lemma raw_length_lt_SIZE_MAX: "n < 2 ^ 62 \<Longrightarrow> raw_length n < SIZE_MAX"
  using raw_length_le [of n] by (simp add: SIZE_MAX_def)

lemma decode_length_SIZE_MAX_iff:
  assumes "n < 2 ^ 62"
  shows "olm_decode_base64_length n = SIZE_MAX \<longleftrightarrow> n mod 4 = 1"
proof (cases "n mod 4 = 1")
  case True
  then show ?thesis by (simp add: olm_decode_base64_length_def)
next
  case False
  then show ?thesis
    using olm_decode_base64_length_eq [OF assms False] raw_length_lt_SIZE_MAX [OF assms] by simp
qed

section \<open>The loops compute the reference functions, in place\<close>

lemma update2_eq_write_at:
  assumes "p + 2 \<le> length m"
  shows "m[p + 1 := b, p := a] = write_at m p [a, b]"
proof -
  have "m[p + 1 := b, p := a] = write_at (write_at m (p + 1) [b]) p [a]"
    using assms by (simp add: write_at_1)
  also have "\<dots> = write_at m p [a, b]"
    using assms by (subst write_at_write_at_adj_rev) simp_all
  finally show ?thesis .
qed

lemma update3_eq_write_at:
  assumes "p + 3 \<le> length m"
  shows "m[p + 2 := c, p + 1 := b, p := a] = write_at m p [a, b, c]"
proof -
  have "m[p + 2 := c, p + 1 := b, p := a] = write_at (write_at m (p + 2) [c]) p [a, b]"
    using assms by (subst update2_eq_write_at) (simp_all add: write_at_1)
  also have "\<dots> = write_at m p [a, b, c]"
    using assms by (subst write_at_write_at_adj_rev) simp_all
  finally show ?thesis .
qed

lemma update4_eq_write_at:
  assumes "p + 4 \<le> length m"
  shows "m[p + 3 := d, p + 2 := c, p + 1 := b, p := a] = write_at m p [a, b, c, d]"
proof -
  have "m[p + 3 := d, p + 2 := c, p + 1 := b, p := a] = write_at (write_at m (p + 3) [d]) p [a, b, c]"
    using assms by (subst update3_eq_write_at) (simp_all add: write_at_1)
  also have "\<dots> = write_at m p [a, b, c, d]"
    using assms by (subst write_at_write_at_adj_rev) simp_all
  finally show ?thesis .
qed

lemma read_at_3: "p + 3 \<le> length m \<Longrightarrow> read_at m p 3 = [m ! p, m ! (p + 1), m ! (p + 2)]"
  by (simp add: eval_nat_numeral read_at_Cons)

lemma read_at_4:
  "p + 4 \<le> length m \<Longrightarrow> read_at m p 4 = [m ! p, m ! (p + 1), m ! (p + 2), m ! (p + 3)]"
  by (simp add: eval_nat_numeral read_at_Cons)

lemma encode_group_eq:
  assumes "pos + 3 \<le> length m" and "out + 4 \<le> length m"
  shows "encode_group m pos out = write_at m out (b64_encode (read_at m pos 3))"
proof -
  define v where "v = enc3_value (m ! pos) (m ! (pos + 1)) (m ! (pos + 2))"
  have "encode_group m pos out =
    m[out + 3 := enc_char (v AND 0x3F), out + 2 := enc_char (drop_bit 6 v AND 0x3F),
      out + 1 := enc_char (drop_bit 6 (drop_bit 6 v) AND 0x3F),
      out := enc_char (drop_bit 6 (drop_bit 6 (drop_bit 6 v)))]"
    by (simp only: encode_group_def Let_def v_def enc3_value_def)
  also have "\<dots> = write_at m out [enc_char (drop_bit 18 v), enc_char (drop_bit 12 v AND 0x3F),
      enc_char (drop_bit 6 v AND 0x3F), enc_char (v AND 0x3F)]"
    using assms(2) by (subst update4_eq_write_at) (simp_all add: drop_bit_drop_bit)
  finally show ?thesis
    using assms(1) by (simp only: read_at_3 b64_encode.simps v_def)
qed

lemma decode_group_eq:
  assumes "pos + 4 \<le> length m" and "out + 3 \<le> length m"
  shows "decode_group m pos out = write_at m out (b64_decode (read_at m pos 4))"
proof -
  define v where "v = dec4_value (m ! pos) (m ! (pos + 1)) (m ! (pos + 2)) (m ! (pos + 3))"
  have "decode_group m pos out =
    m[out + 2 := ucast v, out + 1 := ucast (drop_bit 8 v), out := ucast (drop_bit 8 (drop_bit 8 v))]"
    by (simp only: decode_group_def Let_def v_def dec4_value_def dec3_value_def dec2_value_def)
  also have "\<dots> = write_at m out [ucast (drop_bit 16 v), ucast (drop_bit 8 v), ucast v]"
    using assms(2) by (subst update3_eq_write_at) (simp_all add: drop_bit_drop_bit)
  finally show ?thesis
    using assms(1) by (simp only: read_at_4 b64_decode.simps v_def)
qed

text \<open>
  A run of groups. The output may overlap the input as long as it stays ahead of the reads:
  \<open>out + n \<le> pos\<close> for the encoder (each group grows by one byte), \<open>out \<le> pos\<close> for the decoder.
\<close>

lemma b64_encode_append:
  "length xs = 3 * n \<Longrightarrow> b64_encode (xs @ ys) = b64_encode xs @ b64_encode ys"
proof (induction n arbitrary: xs)
  case 0
  then show ?case by simp
next
  case (Suc n)
  then obtain a b c zs where "xs = a # b # c # zs" "length zs = 3 * n"
    by (auto simp: length_Suc_conv eval_nat_numeral)
  with Suc.IH show ?case by simp
qed

lemma b64_decode_append:
  "length xs = 4 * n \<Longrightarrow> b64_decode (xs @ ys) = b64_decode xs @ b64_decode ys"
proof (induction n arbitrary: xs)
  case 0
  then show ?case by simp
next
  case (Suc n)
  then obtain a b c d zs where "xs = a # b # c # d # zs" "length zs = 4 * n"
    by (auto simp: length_Suc_conv eval_nat_numeral)
  with Suc.IH show ?case by simp
qed

lemma encode_loop_eq:
  assumes "pos + 3 * n \<le> length m" and "out + 4 * n \<le> length m"
    and "out + n \<le> pos \<or> pos + 3 * n \<le> out"
  shows "encode_loop m pos out n = write_at m out (b64_encode (read_at m pos (3 * n)))"
  using assms
proof (induction n arbitrary: m pos out)
  case 0
  then show ?case by simp
next
  case (Suc n)
  define m1 where "m1 = encode_group m pos out"
  have m1: "m1 = write_at m out (b64_encode (read_at m pos 3))"
    using Suc.prems by (simp add: m1_def encode_group_eq)
  have lens: "length (read_at m pos 3) = 3" "length (b64_encode (read_at m pos 3)) = 4"
    using Suc.prems by (simp_all add: b64_length_def)
  have keep: "read_at m1 (pos + 3) (3 * n) = read_at m (pos + 3) (3 * n)"
    using Suc.prems lens unfolding m1
    by (auto intro: read_write_at_after read_write_at_before)
  have "encode_loop m pos out (Suc n) =
      write_at m1 (out + 4) (b64_encode (read_at m1 (pos + 3) (3 * n)))"
    unfolding encode_loop.simps m1_def [symmetric]
    by (rule Suc.IH) (use Suc.prems lens in \<open>auto simp: m1\<close>)
  also have "\<dots> = write_at m out (b64_encode (read_at m pos 3) @ b64_encode (read_at m (pos + 3) (3 * n)))"
    using Suc.prems lens unfolding keep unfolding m1 by (intro write_at_write_at_adj) simp_all
  also have "b64_encode (read_at m pos 3) @ b64_encode (read_at m (pos + 3) (3 * n)) =
      b64_encode (read_at m pos (3 + 3 * n))"
    using lens by (simp add: read_at_append b64_encode_append [of _ 1])
  finally show ?case by simp
qed

lemma decode_loop_eq:
  assumes "pos + 4 * n \<le> length m" and "out + 3 * n \<le> length m"
    and "out \<le> pos \<or> pos + 4 * n \<le> out"
  shows "decode_loop m pos out n = write_at m out (b64_decode (read_at m pos (4 * n)))"
  using assms
proof (induction n arbitrary: m pos out)
  case 0
  then show ?case by simp
next
  case (Suc n)
  define m1 where "m1 = decode_group m pos out"
  have m1: "m1 = write_at m out (b64_decode (read_at m pos 4))"
    using Suc.prems by (simp add: m1_def decode_group_eq)
  have lens: "length (read_at m pos 4) = 4" "length (b64_decode (read_at m pos 4)) = 3"
    using Suc.prems by (simp_all add: raw_length_def)
  have keep: "read_at m1 (pos + 4) (4 * n) = read_at m (pos + 4) (4 * n)"
    using Suc.prems lens unfolding m1
    by (auto intro: read_write_at_after read_write_at_before)
  have "decode_loop m pos out (Suc n) =
      write_at m1 (out + 3) (b64_decode (read_at m1 (pos + 4) (4 * n)))"
    unfolding decode_loop.simps m1_def [symmetric]
    by (rule Suc.IH) (use Suc.prems lens in \<open>auto simp: m1\<close>)
  also have "\<dots> = write_at m out (b64_decode (read_at m pos 4) @ b64_decode (read_at m (pos + 4) (4 * n)))"
    using Suc.prems lens unfolding keep unfolding m1 by (intro write_at_write_at_adj) simp_all
  also have "b64_decode (read_at m pos 4) @ b64_decode (read_at m (pos + 4) (4 * n)) =
      b64_decode (read_at m pos (4 + 4 * n))"
    using lens by (simp add: read_at_append b64_decode_append [of _ 1])
  finally show ?case by simp
qed

lemma read_at_1: "p + 1 \<le> length m \<Longrightarrow> read_at m p (Suc 0) = [m ! p]"
  by (simp add: read_at_Cons)

lemma read_at_2: "p + 2 \<le> length m \<Longrightarrow> read_at m p (Suc (Suc 0)) = [m ! p, m ! (p + 1)]"
  by (simp add: read_at_Cons)

lemma encode_tail_eq:
  assumes "r < 3" and "pos + r \<le> length m" and "out + b64_length r \<le> length m"
  shows "encode_tail m pos out r = (write_at m out (b64_encode (read_at m pos r)), b64_length r)"
proof -
  consider "r = 0" | "r = 1" | "r = 2" using assms(1) by linarith
  then show ?thesis
  proof cases
    case 1
    then show ?thesis by (simp add: encode_tail_def)
  next
    case 2
    define v where "v = enc1_value (m ! pos)"
    have "encode_tail m pos out r =
        (m[out + 1 := enc_char (v AND 0x3F), out := enc_char (drop_bit 6 v)], 2)"
      using 2 by (simp add: encode_tail_def Let_def v_def enc1_value_def)
    also have "\<dots> = (write_at m out [enc_char (drop_bit 6 v), enc_char (v AND 0x3F)], 2)"
      using assms 2 by (subst update2_eq_write_at) simp_all
    finally show ?thesis
      using assms 2 by (simp add: read_at_1 v_def)
  next
    case 3
    define v where "v = enc2_value (m ! pos) (m ! (pos + 1))"
    have "encode_tail m pos out r =
        (m[out + 2 := enc_char (v AND 0x3F), out + 1 := enc_char (drop_bit 6 v AND 0x3F),
           out := enc_char (drop_bit 6 (drop_bit 6 v))], 3)"
      using 3 by (simp only: encode_tail_def Let_def v_def enc2_value_def) simp
    also have "\<dots> = (write_at m out [enc_char (drop_bit 12 v), enc_char (drop_bit 6 v AND 0x3F),
        enc_char (v AND 0x3F)], 3)"
      using assms 3 by (subst update3_eq_write_at) (simp_all add: drop_bit_drop_bit eval_nat_numeral)
    finally show ?thesis
      using assms 3 by (simp add: eval_nat_numeral read_at_2 v_def)
  qed
qed

lemma decode_tail_eq:
  assumes "r < 4" and "r \<noteq> 1" and "pos + r \<le> length m" and "out + raw_length r \<le> length m"
  shows "decode_tail m pos out r = write_at m out (b64_decode (read_at m pos r))"
proof -
  consider "r = 0" | "r = 2" | "r = 3" using assms(1,2) by linarith
  then show ?thesis
  proof cases
    case 1
    then show ?thesis by (simp add: decode_tail_def)
  next
    case 2
    have "decode_tail m pos out r =
        m[out := ucast (drop_bit 4 (dec2_value (m ! pos) (m ! (pos + 1))))]"
      using 2 by (simp only: decode_tail_def Let_def dec2_value_def) simp
    then show ?thesis
      using assms 2 by (simp add: eval_nat_numeral read_at_2 write_at_1)
  next
    case 3
    define v where "v = dec3_value (m ! pos) (m ! (pos + 1)) (m ! (pos + 2))"
    have "decode_tail m pos out r =
        m[out + 1 := ucast (drop_bit 2 v), out := ucast (drop_bit 8 (drop_bit 2 v))]"
      using 3 by (simp only: decode_tail_def Let_def v_def dec3_value_def dec2_value_def) simp
    also have "\<dots> = write_at m out [ucast (drop_bit 10 v), ucast (drop_bit 2 v)]"
      using assms 3 by (subst update2_eq_write_at) (simp_all add: drop_bit_drop_bit eval_nat_numeral)
    finally show ?thesis
      using assms 3 by (simp only: read_at_3 b64_decode.simps v_def)
  qed
qed

theorem olm_encode_base64_eq:
  assumes "input + n \<le> length m" and "output + b64_length n \<le> length m"
    and overlap: "output + b64_length n \<le> input + n \<or> input + n \<le> output"
  shows "olm_encode_base64 m input n output =
    (write_at m output (b64_encode (read_at m input n)), b64_length n)"
proof -
  define g r where "g = n div 3" and "r = n mod 3"
  have n: "n = 3 * g + r" and r: "r < 3" by (simp_all add: g_def r_def)
  have bl: "b64_length n = 4 * g + b64_length r"
    using r by (auto simp: b64_length_def g_def r_def)
  have rg: "r \<le> b64_length r" by (rule b64_length_ge)
  let ?A = "read_at m input (3 * g)" and ?B = "read_at m (input + 3 * g) r"
  define m1 where "m1 = encode_loop m input output g"
  have m1: "m1 = write_at m output (b64_encode ?A)"
    unfolding m1_def by (rule encode_loop_eq) (use assms n bl rg in auto)
  have lenA: "length ?A = 3 * g" using assms(1) n by simp
  have len1: "length (b64_encode ?A) = 4 * g"
    using lenA b64_length_groups(1) [of g] by simp
  have keep: "read_at m1 (input + 3 * g) r = ?B"
    using assms n bl rg len1 unfolding m1
    by (auto intro: read_write_at_after read_write_at_before)
  have "encode_tail m1 (input + 3 * g) (output + 4 * g) r =
      (write_at m1 (output + 4 * g) (b64_encode ?B), b64_length r)"
    using assms n bl r len1 by (subst encode_tail_eq) (simp_all add: keep, simp_all add: m1)
  also have "write_at m1 (output + 4 * g) (b64_encode ?B) =
      write_at m output (b64_encode ?A @ b64_encode ?B)"
    unfolding m1 by (rule write_at_write_at_adj) (use assms n bl len1 in simp_all)
  also have "b64_encode ?A @ b64_encode ?B = b64_encode (read_at m input n)"
    using lenA by (simp add: n read_at_append b64_encode_append)
  finally have tail: "encode_tail m1 (input + g * 3) (output + g * 4) r =
      (write_at m output (b64_encode (read_at m input n)), b64_length r)"
    by (simp add: mult.commute)
  have "n div 3 = g" and "n - g * 3 = r" using n by (simp_all add: g_def)
  then show ?thesis
    using tail bl by (simp add: olm_encode_base64_def Let_def m1_def)
qed

theorem olm_decode_base64_eq:
  assumes "n < 2 ^ 62" and "n mod 4 \<noteq> 1"
    and "input + n \<le> length m" and "output + raw_length n \<le> length m"
    and overlap: "output \<le> input \<or> input + n \<le> output"
  shows "olm_decode_base64 m input n output =
    (write_at m output (b64_decode (read_at m input n)), raw_length n)"
proof -
  define g r where "g = n div 4" and "r = n mod 4"
  have n: "n = 4 * g + r" and r: "r < 4" "r \<noteq> 1" using assms(2) by (simp_all add: g_def r_def)
  have rl: "raw_length n = 3 * g + raw_length r"
    using r by (simp add: raw_length_def g_def r_def)
  let ?A = "read_at m input (4 * g)" and ?B = "read_at m (input + 4 * g) r"
  define m1 where "m1 = decode_loop m input output g"
  have m1: "m1 = write_at m output (b64_decode ?A)"
    unfolding m1_def by (rule decode_loop_eq) (use assms n rl in auto)
  have lenA: "length ?A = 4 * g" using assms(3) n by simp
  have len1: "length (b64_decode ?A) = 3 * g"
    using lenA raw_length_groups(1) [of g] by simp
  have keep: "read_at m1 (input + 4 * g) r = ?B"
    using assms n rl len1 unfolding m1
    by (auto intro: read_write_at_after read_write_at_before)
  have "decode_tail m1 (input + 4 * g) (output + 3 * g) r =
      write_at m1 (output + 3 * g) (b64_decode ?B)"
    using assms n rl r len1 by (subst decode_tail_eq) (simp_all add: keep, simp_all add: m1)
  also have "\<dots> = write_at m output (b64_decode ?A @ b64_decode ?B)"
    unfolding m1 by (rule write_at_write_at_adj) (use assms n rl len1 in simp_all)
  also have "b64_decode ?A @ b64_decode ?B = b64_decode (read_at m input n)"
    using lenA by (simp add: n read_at_append b64_decode_append)
  finally have tail: "decode_tail m1 (input + g * 4) (output + g * 3) r =
      write_at m output (b64_decode (read_at m input n))"
    by (simp add: mult.commute)
  have "n div 4 = g" and "n - g * 4 = r" using n by (simp_all add: g_def)
  then show ?thesis
    using tail raw_length_lt_SIZE_MAX [OF assms(1)] olm_decode_base64_length_eq [OF assms(1,2)]
    by (simp add: olm_decode_base64_def Let_def m1_def)
qed

section \<open>Decoding undoes encoding\<close>

lemma dec_enc_table: "list_all (\<lambda>i. DECODE_BASE64 ! unat (ENCODE_BASE64 ! i AND 0x7F) = of_nat i) [0..<64]"
  by code_simp

lemma dec_enc_char:
  assumes "unat v < 64"
  shows "dec_char (enc_char v) = v"
proof -
  have "DECODE_BASE64 ! unat (ENCODE_BASE64 ! unat v AND 0x7F) = of_nat (unat v)"
    using dec_enc_table assms by (auto simp: list_all_iff)
  then show ?thesis
    using assms
    by (simp add: dec_char_def enc_char_def word_unat_eq_iff unsigned_ucast_eq unsigned_of_nat
        take_bit_eq_mod)
qed

lemma and_63: "(v :: u32) AND 63 = take_bit 6 v"
  by (simp add: take_bit_eq_mask mask_eq_exp_minus_1)

lemma unat_and_63: "unat ((v :: u32) AND 63) < 64"
proof -
  have "unat (take_bit 6 v) < 2 ^ 6"
    unfolding unsigned_take_bit_eq by (rule take_bit_nat_less_exp)
  then show ?thesis by (simp add: and_63)
qed

lemma dec_enc_char_and [simp]: "dec_char (enc_char (v AND 63)) = v AND 63"
  by (rule dec_enc_char) (rule unat_and_63)

text \<open>The high character is not masked: its index is small because the value is.\<close>

lemma bit_u8_ucast: "bit (ucast (a :: u8) :: u32) n \<longleftrightarrow> n < 8 \<and> bit a n"
  by (auto simp: bit_simps dest: bit_imp_le_length)

lemmas value_bits = and_63 bit_drop_bit_eq bit_push_bit_iff bit_or_iff bit_take_bit_iff
  bit_u8_ucast possible_bit_word

lemma high_chars_masked:
  "drop_bit 18 (enc3_value a b c) = drop_bit 18 (enc3_value a b c) AND 63"
  "drop_bit 12 (enc2_value a b) = drop_bit 12 (enc2_value a b) AND 63"
  "drop_bit 6 (enc1_value a) = drop_bit 6 (enc1_value a) AND 63"
  unfolding enc3_value_def enc2_value_def enc1_value_def and_63
  by (rule bit_word_eqI; auto simp: value_bits)+

lemma sixbit_pieces:
  "push_bit 6 (push_bit 6 (push_bit 6 (drop_bit 18 v AND 63) OR (drop_bit 12 v AND 63))
     OR (drop_bit 6 v AND 63)) OR (v AND 63) = take_bit 24 (v :: u32)"
proof (rule bit_word_eqI)
  fix n assume "n < LENGTH(32)"
  then show "bit (push_bit 6 (push_bit 6 (push_bit 6 (drop_bit 18 v AND 63) OR (drop_bit 12 v AND 63))
     OR (drop_bit 6 v AND 63)) OR (v AND 63)) n = bit (take_bit 24 v) n"
    unfolding value_bits
    by (cases "n < 6"; cases "n < 12"; cases "n < 18"; cases "n < 24"; simp; arith)
qed

lemma sixbit_pieces_3:
  "push_bit 6 (push_bit 6 (drop_bit 12 v AND 63) OR (drop_bit 6 v AND 63)) OR (v AND 63)
     = take_bit 18 (v :: u32)"
proof (rule bit_word_eqI)
  fix n assume "n < LENGTH(32)"
  then show "bit (push_bit 6 (push_bit 6 (drop_bit 12 v AND 63) OR (drop_bit 6 v AND 63))
     OR (v AND 63)) n = bit (take_bit 18 v) n"
    unfolding value_bits
    by (cases "n < 6"; cases "n < 12"; cases "n < 18"; simp; arith)
qed

lemma sixbit_pieces_2:
  "push_bit 6 (drop_bit 6 v AND 63) OR (v AND 63) = take_bit 12 (v :: u32)"
proof (rule bit_word_eqI)
  fix n assume "n < LENGTH(32)"
  then show "bit (push_bit 6 (drop_bit 6 v AND 63) OR (v AND 63)) n = bit (take_bit 12 v) n"
    unfolding value_bits
    by (cases "n < 6"; cases "n < 12"; simp; arith)
qed

lemma dec4_enc3:
  "dec4_value (enc_char (drop_bit 18 (enc3_value a b c))) (enc_char (drop_bit 12 (enc3_value a b c) AND 63))
     (enc_char (drop_bit 6 (enc3_value a b c) AND 63)) (enc_char (enc3_value a b c AND 63))
   = take_bit 24 (enc3_value a b c)"
  by (subst high_chars_masked(1))
    (simp only: dec4_value_def dec3_value_def dec2_value_def dec_enc_char_and sixbit_pieces)

lemma dec3_enc2:
  "dec3_value (enc_char (drop_bit 12 (enc2_value a b))) (enc_char (drop_bit 6 (enc2_value a b) AND 63))
     (enc_char (enc2_value a b AND 63)) = take_bit 18 (enc2_value a b)"
  by (subst high_chars_masked(2))
    (simp only: dec3_value_def dec2_value_def dec_enc_char_and sixbit_pieces_3)

lemma dec2_enc1:
  "dec2_value (enc_char (drop_bit 6 (enc1_value a))) (enc_char (enc1_value a AND 63))
   = take_bit 12 (enc1_value a)"
  by (subst high_chars_masked(3)) (simp only: dec2_value_def dec_enc_char_and sixbit_pieces_2)

lemma bytes_of_value:
  "ucast (drop_bit 16 (take_bit 24 (enc3_value a b c))) = a"
  "ucast (drop_bit 8 (take_bit 24 (enc3_value a b c))) = b"
  "ucast (take_bit 24 (enc3_value a b c)) = c"
  "ucast (drop_bit 10 (take_bit 18 (enc2_value a b))) = a"
  "ucast (drop_bit 2 (take_bit 18 (enc2_value a b))) = b"
  "ucast (drop_bit 4 (take_bit 12 (enc1_value a))) = a"
  unfolding enc3_value_def enc2_value_def enc1_value_def
  by (rule bit_word_eqI; auto simp: bit_simps dest: bit_imp_le_length)+

theorem b64_decode_encode [simp]: "b64_decode (b64_encode xs) = xs"
  by (induction xs rule: b64_encode.induct)
    (simp_all only: b64_encode.simps b64_decode.simps dec4_enc3 dec3_enc2 dec2_enc1 bytes_of_value)


section \<open>Properties\<close>

text \<open>Base64 encoding may write over its own input: when the output ends no later than the
  input (or does not reach into it), \<open>_olm_encode_base64\<close> leaves exactly the encoding of the
  bytes that were the input before the call, touches nothing else, and returns its length.\<close>

theorem base64_encode_overlapping:
  assumes "input + n \<le> length m" and "output + b64_length n \<le> length m"
    and "output + b64_length n \<le> input + n \<or> input + n \<le> output"
  shows "olm_encode_base64 m input n output =
    (write_at m output (b64_encode (read_at m input n)), b64_length n)"
  using assms by (rule olm_encode_base64_eq)

lemma base64_encode_overlapping_witness:
  "olm_encode_base64 [0, 0, 1, 2, 3, 4] 2 4 0 =
   (write_at [0, 0, 1, 2, 3, 4] 0 (b64_encode (read_at [0, 0, 1, 2, 3, 4] 2 4)), b64_length 4)"
  by (rule base64_encode_overlapping) (simp_all add: b64_length_def)

text \<open>Encoding bytes at the end of a buffer to its start and decoding the result where it
  stands gives the bytes back: the two memory routines are inverse to each other in place,
  and the length functions agree with what they write.\<close>

theorem base64_roundtrip_in_place:
  assumes "n < 2 ^ 59" and "length m = b64_length n"
  shows "(let (m1, k) = olm_encode_base64 m (b64_length n - n) n 0;
              (m2, r) = olm_decode_base64 m1 0 k 0
          in k = olm_encode_base64_length n \<and> r = n \<and> r = olm_decode_base64_length k
             \<and> take n m2 = read_at m (b64_length n - n) n)"
proof -
  let ?x = "read_at m (b64_length n - n) n" and ?k = "b64_length n"
  have ge: "n \<le> ?k" by (rule b64_length_ge)
  have k: "?k < 2 ^ 62" using b64_length_bound [of n] assms(1) by simp
  have x: "length ?x = n" using ge assms(2) by simp
  have e: "olm_encode_base64 m (?k - n) n 0 = (b64_encode ?x, ?k)"
    using ge assms(2) x by (subst olm_encode_base64_eq) simp_all
  have "olm_decode_base64 (b64_encode ?x) 0 ?k 0 =
      (write_at (b64_encode ?x) 0 (b64_decode (read_at (b64_encode ?x) 0 ?k)), raw_length ?k)"
    using k ge x b64_length_mod [of n] by (intro olm_decode_base64_eq) (simp_all add: raw_b64_length)
  moreover have "read_at (b64_encode ?x) 0 ?k = b64_encode ?x" using x by (simp add: read_at_def)
  ultimately have d: "olm_decode_base64 (b64_encode ?x) 0 ?k 0 = (write_at (b64_encode ?x) 0 ?x, n)"
    by (simp add: raw_b64_length)
  have "?k = olm_encode_base64_length n" "n = olm_decode_base64_length ?k"
    using assms(1) k olm_decode_base64_length_eq [OF k b64_length_mod]
    by (simp_all add: olm_encode_base64_length_eq raw_b64_length)
  moreover have "take n (write_at (b64_encode ?x) 0 ?x) = ?x" using x by (simp add: write_at_def)
  ultimately show ?thesis unfolding e d Let_def prod.case by blast
qed

lemma base64_roundtrip_in_place_witness:
  "(let (m1, k) = olm_encode_base64 [0, 0, 1, 2, 3, 4] (b64_length 4 - 4) 4 0;
        (m2, r) = olm_decode_base64 m1 0 k 0
    in k = olm_encode_base64_length 4 \<and> r = 4 \<and> r = olm_decode_base64_length k
       \<and> take 4 m2 = read_at [0, 0, 1, 2, 3, 4] (b64_length 4 - 4) 4)"
  by (rule base64_roundtrip_in_place) (simp_all add: b64_length_def)

end
