(* ===== verification/Pickle_Encoding.thy ===== *)
theory Pickle_Encoding
  imports Cipher Base64
begin

text \<open>
  \<open>src/pickle_encoding.c\<close>: a raw pickle is encrypted, authenticated and base64-encoded in
  place, at the end of the output buffer, and the reverse on the way in. The same few lines
  around it in \<open>src/olm.c\<close>, \<open>src/pk.c\<close> and the group session files pickle a whole object;
  they are modelled once, over the object's own pickling functions.

  The locale \<open>object_codec\<close> is the contract of those functions. Inside it: a pickled object
  unpickles, under the same key, to what was pickled. The components interpret it on their
  own pickling functions.
\<close>

section \<open>The encoding\<close>

definition ascii :: "string \<Rightarrow> bytes" where
  "ascii s = map of_char s"

definition PICKLE_INFO :: bytes where
  "PICKLE_INFO = ascii ''Pickle''"

definition olm_enc_output_length :: "nat \<Rightarrow> nat" where
  "olm_enc_output_length raw_len =
     (let n = aes_sha_256_cipher_encrypt_ciphertext_length raw_len;
          n = size_add n aes_sha_256_cipher_mac_length
      in olm_encode_base64_length n)"

text \<open>The offset in the output at which the caller puts the raw pickle.\<close>

definition olm_enc_output_pos :: "nat \<Rightarrow> nat" where
  "olm_enc_output_pos raw_len =
     (let n = aes_sha_256_cipher_encrypt_ciphertext_length raw_len;
          n = size_add n aes_sha_256_cipher_mac_length
      in size_sub (olm_encode_base64_length n) n)"

definition olm_enc_output :: "sodium \<Rightarrow> bytes \<Rightarrow> bytes \<Rightarrow> nat \<Rightarrow> bytes \<times> nat" where
  "olm_enc_output S key output raw_len =
     (let ciphertext_length = aes_sha_256_cipher_encrypt_ciphertext_length raw_len;
          n = size_add ciphertext_length aes_sha_256_cipher_mac_length;
          base64_length = olm_encode_base64_length n;
          raw_output = size_sub base64_length n;
          (region, _) = aes_sha_256_cipher_encrypt S PICKLE_INFO key
                          (read_at output raw_output raw_len) 0 ciphertext_length
                          (read_at output raw_output n);
          output = write_at output raw_output region;
          (output, _) = olm_encode_base64 output raw_output n 0
      in (output, base64_length))"

text \<open>The input buffer after the call, and the error or the length of the raw pickle in it.\<close>

definition olm_enc_input ::
    "sodium \<Rightarrow> bytes \<Rightarrow> bytes \<Rightarrow> nat \<Rightarrow> bytes \<times> (olm_error_code + nat)" where
  "olm_enc_input S key input b64_len =
     (let enc_len = olm_decode_base64_length b64_len in
      if enc_len = SIZE_MAX then (input, Inl OLM_INVALID_BASE64)
      else let (input, _) = olm_decode_base64 input 0 b64_len 0;
               raw_len = size_sub enc_len aes_sha_256_cipher_mac_length;
               (plain, result) = aes_sha_256_cipher_decrypt S PICKLE_INFO key
                                   (read_at input 0 enc_len) (read_at input 0 raw_len)
                                   (read_at input 0 raw_len);
               input = write_at input 0 plain
           in case result of None \<Rightarrow> (input, Inl OLM_BAD_ACCOUNT_KEY)
                           | Some n \<Rightarrow> (input, Inr n))"

subsection \<open>The lengths\<close>

definition enc_length :: "nat \<Rightarrow> nat" where
  "enc_length n = n + (16 - n mod 16) + 8"

lemma enc_length_bounds: "n + 8 < enc_length n" "enc_length n \<le> n + 24"
proof -
  have "n mod 16 < 16" by simp
  then show "n + 8 < enc_length n" "enc_length n \<le> n + 24" by (simp_all add: enc_length_def)
qed

lemma enc_lengths:
  assumes "n < 2 ^ 61"
  shows "aes_sha_256_cipher_encrypt_ciphertext_length n = enc_length n - 8"
    and "size_add (enc_length n - 8) aes_sha_256_cipher_mac_length = enc_length n"
    and "olm_encode_base64_length (enc_length n) = b64_length (enc_length n)"
    and "olm_enc_output_length n = b64_length (enc_length n)"
    and "olm_enc_output_pos n = b64_length (enc_length n) - enc_length n"
proof -
  have b: "enc_length n < 2 ^ 62" using enc_length_bounds(2) [of n] assms by simp
  show c: "aes_sha_256_cipher_encrypt_ciphertext_length n = enc_length n - 8"
    using assms by (simp add: aes_sha_256_cipher_encrypt_ciphertext_length_def
        aes_encrypt_cbc_length_eq enc_length_def)
  show s: "size_add (enc_length n - 8) aes_sha_256_cipher_mac_length = enc_length n"
    using b enc_length_bounds(1) [of n] by (simp add: aes_sha_256_cipher_mac_length_def size_add_exact)
  show e: "olm_encode_base64_length (enc_length n) = b64_length (enc_length n)"
    using b by (simp add: olm_encode_base64_length_eq)
  show "olm_enc_output_length n = b64_length (enc_length n)"
    by (simp add: olm_enc_output_length_def c s e Let_def)
  have "b64_length (enc_length n) < 2 ^ 64" using b64_length_bound [of "enc_length n"] b by simp
  then show "olm_enc_output_pos n = b64_length (enc_length n) - enc_length n"
    using b64_length_ge [of "enc_length n"] by (simp add: olm_enc_output_pos_def c s e Let_def size_sub_exact)
qed

subsection \<open>What the encoding writes\<close>

text \<open>The ciphertext and MAC of a raw pickle.\<close>

definition sealed :: "sodium \<Rightarrow> bytes \<Rightarrow> bytes \<Rightarrow> bytes \<Rightarrow> bytes" where
  "sealed S kdf_info key x =
     (let c = aes_sha_256_ciphertext S kdf_info key x in c @ aes_sha_256_mac S kdf_info key c)"

lemma length_sealed: "length (sealed S i key x) = enc_length (length x)"
  by (simp add: sealed_def Let_def enc_length_def length_aes_sha_256_ciphertext)

lemma encrypt_region:
  assumes "length x + 16 < 2 ^ 64" "length m = enc_length (length x)"
  shows "aes_sha_256_cipher_encrypt S i key x 0 (enc_length (length x) - 8) m =
    (sealed S i key x, Some (enc_length (length x)))"
proof -
  have l: "length (aes_sha_256_ciphertext S i key x) = enc_length (length x) - 8"
    by (simp add: enc_length_def length_aes_sha_256_ciphertext)
  then have "aes_sha_256_cipher_encrypt S i key x 0 (length (aes_sha_256_ciphertext S i key x)) m =
      (let m = write_at m 0 (aes_sha_256_ciphertext S i key x)
       in (write_at m (length m - 8) (aes_sha_256_mac S i key (take (length m - 8) m)), Some (length m)))"
    using assms enc_length_bounds(1) [of "length x"] by (intro aes_sha_256_encrypt_eq) simp_all
  then show ?thesis
    using l assms enc_length_bounds(1) [of "length x"]
    by (simp add: sealed_def Let_def write_at_def)
qed

lemma olm_enc_output_eq:
  assumes "length x < 2 ^ 61" and "b64_length (enc_length (length x)) \<le> length m"
    and raw: "read_at m (olm_enc_output_pos (length x)) (length x) = x"
  shows "olm_enc_output S key m (length x) =
    (write_at (write_at m (olm_enc_output_pos (length x)) (sealed S PICKLE_INFO key x)) 0
       (b64_encode (sealed S PICKLE_INFO key x)),
     b64_length (enc_length (length x)))"
proof -
  let ?n = "enc_length (length x)"
  have ge: "?n \<le> b64_length ?n" by (rule b64_length_ge)
  note L = enc_lengths [OF assms(1)]
  have pos: "size_sub (b64_length ?n) ?n = b64_length ?n - ?n"
    using L(5) by (simp add: olm_enc_output_pos_def L(1-3) Let_def)
  have e: "aes_sha_256_cipher_encrypt S PICKLE_INFO key x 0 (?n - 8) (read_at m (b64_length ?n - ?n) ?n) =
      (sealed S PICKLE_INFO key x, Some ?n)"
    using assms ge by (intro encrypt_region) simp_all
  let ?w = "write_at m (b64_length ?n - ?n) (sealed S PICKLE_INFO key x)"
  have w: "length ?w = length m" using assms(2) ge by (simp add: length_sealed)
  have r: "read_at ?w (b64_length ?n - ?n) ?n = sealed S PICKLE_INFO key x"
    using assms(2) ge by (intro read_write_at_same) (simp_all add: length_sealed)
  have "olm_encode_base64 ?w (b64_length ?n - ?n) ?n 0 =
      (write_at ?w 0 (b64_encode (read_at ?w (b64_length ?n - ?n) ?n)), b64_length ?n)"
    by (rule olm_encode_base64_eq) (use assms(2) ge w in simp_all)
  then have "olm_encode_base64 ?w (b64_length ?n - ?n) ?n 0 =
      (write_at ?w 0 (b64_encode (sealed S PICKLE_INFO key x)), b64_length ?n)"
    by (simp only: r)
  then show ?thesis
    using raw by (simp add: olm_enc_output_def L Let_def pos e)
qed

lemma olm_enc_input_sealed:
  assumes "length x < 2 ^ 59" and "n = b64_length (enc_length (length x))"
    and "n \<le> length m" "take n m = b64_encode (sealed S PICKLE_INFO key x)"
  shows "\<exists>m'. olm_enc_input S key m n = (m', Inr (length x)) \<and> length m' = length m
    \<and> take (length x) m' = x"
proof -
  let ?e = "enc_length (length x)" and ?s = "sealed S PICKLE_INFO key x"
  have b: "?e < 2 ^ 60" using enc_length_bounds(2) [of "length x"] assms(1) by simp
  have n62: "n < 2 ^ 62" using b64_length_bound [of ?e] b by (simp add: assms(2))
  have d: "olm_decode_base64_length n = ?e"
    using n62 olm_decode_base64_length_eq [OF _ b64_length_mod, of ?e] by (simp add: assms(2) raw_b64_length)
  have "?e \<noteq> SIZE_MAX" using b by (simp add: SIZE_MAX_def)
  have "olm_decode_base64 m 0 n 0 = (write_at m 0 (b64_decode (read_at m 0 n)), raw_length n)"
    using n62 assms(2,3) b64_length_ge [of ?e] b64_length_mod [of ?e]
    by (intro olm_decode_base64_eq) (simp_all add: raw_b64_length)
  moreover have "read_at m 0 n = b64_encode ?s" using assms(4) by (simp add: read_at_def)
  ultimately have dec: "olm_decode_base64 m 0 n 0 = (write_at m 0 ?s, ?e)"
    by (simp add: assms(2) raw_b64_length)
  let ?m = "write_at m 0 ?s" and ?c = "aes_sha_256_ciphertext S PICKLE_INFO key x"
  have lm: "?e \<le> length m" using assms(2,3) b64_length_ge [of ?e] by simp
  have c: "length ?c = ?e - 8" by (simp add: enc_length_def length_aes_sha_256_ciphertext)
  have sub: "size_sub ?e aes_sha_256_cipher_mac_length = ?e - 8"
    using b enc_length_bounds(1) [of "length x"]
    by (simp add: size_sub_exact aes_sha_256_cipher_mac_length_def)
  have r: "read_at ?m 0 ?e = ?s" "read_at ?m 0 (?e - 8) = ?c"
    using lm c by (simp_all add: read_at_def write_at_def length_sealed)
      (simp add: sealed_def Let_def)
  have dc: "aes_sha_256_cipher_decrypt S PICKLE_INFO key ?s ?c ?c =
      (write_at ?c 0 (cbc_padded x), Some (length x))"
    unfolding sealed_def Let_def by (rule aes_sha_256_decrypt_ok) simp
  have "length (cbc_padded x) = length ?c"
    by (simp add: length_cbc_padded length_aes_sha_256_ciphertext)
  then have "aes_sha_256_cipher_decrypt S PICKLE_INFO key ?s ?c ?c = (cbc_padded x, Some (length x))"
    using dc by simp
  then have "olm_enc_input S key m n = (write_at ?m 0 (cbc_padded x), Inr (length x))"
    using \<open>?e \<noteq> SIZE_MAX\<close> by (simp add: olm_enc_input_def d dec sub r)
  moreover have "length (cbc_padded x) \<le> length m"
    using lm enc_length_bounds(1) [of "length x"] by (simp add: length_cbc_padded enc_length_def)
  ultimately show ?thesis
    using lm by (simp add: length_sealed write_at_def cbc_padded_def)
qed


section \<open>Whole objects\<close>

text \<open>
  The body of \<open>olm_pickle_account\<close>, \<open>olm_pickle_session\<close> and the others: \<open>raw\<close> is what the
  object's pickling function writes and \<open>raw_len\<close> what its length function says. \<open>None\<close> is
  a buffer that is too small.
\<close>

definition api_pickle_object ::
    "sodium \<Rightarrow> bytes \<Rightarrow> nat \<Rightarrow> bytes \<Rightarrow> bytes \<Rightarrow> bytes \<times> nat option" where
  "api_pickle_object S raw raw_len key pickled =
     (if length pickled < olm_enc_output_length raw_len then (pickled, None)
      else let pickled = write_at pickled (olm_enc_output_pos raw_len) raw;
               (pickled, n) = olm_enc_output S key pickled raw_len
           in (pickled, Some n))"

text \<open>
  The body of \<open>olm_unpickle_account\<close> and the others, over the object's unpickling function
  and its \<open>last_error\<close>: the object, the buffer and the result.
\<close>

definition api_unpickle_object ::
    "sodium \<Rightarrow> (bytes \<Rightarrow> 'o \<Rightarrow> 'o unpickled) \<Rightarrow> ('o \<Rightarrow> olm_error_code) \<Rightarrow>
     (olm_error_code \<Rightarrow> 'o \<Rightarrow> 'o) \<Rightarrow> 'o \<Rightarrow> bytes \<Rightarrow> bytes \<Rightarrow> 'o \<times> bytes \<times> nat option" where
  "api_unpickle_object S unpickle get_error set_error obj key pickled =
     (let pickled_length = length pickled;
          (input, result) = olm_enc_input S key pickled pickled_length
      in case result of
           Inl e \<Rightarrow> (set_error e obj, input, None)
         | Inr raw_len \<Rightarrow>
             (case unpickle (take raw_len input) obj of
                (obj, None) \<Rightarrow>
                  (if get_error obj = OLM_SUCCESS then set_error OLM_CORRUPTED_PICKLE obj else obj,
                   input, None)
              | (obj, Some pos) \<Rightarrow>
                  if pos \<noteq> [] then (set_error OLM_PICKLE_EXTRA_DATA obj, input, None)
                  else (obj, input, Some pickled_length)))"

lemma api_pickle_object_eq:
  assumes "length raw < 2 ^ 61" "api_pickle_object S raw (length raw) key m = (m', Some n)"
  shows "n = b64_length (enc_length (length raw))" "n \<le> length m" "length m' = length m"
    "take n m' = b64_encode (sealed S PICKLE_INFO key raw)"
proof -
  let ?n = "b64_length (enc_length (length raw))" and ?pos = "olm_enc_output_pos (length raw)"
  note L = enc_lengths [OF assms(1)]
  have fit: "?n \<le> length m" using assms(2) by (simp add: api_pickle_object_def L(4) split: if_splits)
  have ge: "enc_length (length raw) \<le> ?n" "length raw \<le> enc_length (length raw)"
    using b64_length_ge enc_length_bounds(1) [of "length raw"] by simp_all
  have r: "read_at (write_at m ?pos raw) ?pos (length raw) = raw"
    using fit ge by (intro read_write_at_same) (simp_all add: L(5))
  have l: "length (write_at m ?pos raw) = length m" using fit ge by (simp add: L(5))
  have out: "olm_enc_output S key (write_at m ?pos raw) (length raw) = (m', n)"
    using assms(2) by (auto simp: api_pickle_object_def Let_def split: if_splits prod.splits)
  have e: "olm_enc_output S key (write_at m ?pos raw) (length raw) =
      (write_at (write_at (write_at m ?pos raw) ?pos (sealed S PICKLE_INFO key raw)) 0
         (b64_encode (sealed S PICKLE_INFO key raw)), ?n)"
    using assms(1) r l fit by (intro olm_enc_output_eq) simp_all
  show n: "n = ?n" using out e by simp
  show "n \<le> length m" using n fit by simp
  have w: "length (write_at (write_at m ?pos raw) ?pos (sealed S PICKLE_INFO key raw)) = length m"
    using fit ge l by (simp add: L(5) length_sealed)
  have m': "m' = write_at (write_at (write_at m ?pos raw) ?pos (sealed S PICKLE_INFO key raw)) 0
      (b64_encode (sealed S PICKLE_INFO key raw))"
    using out e by simp
  show "length m' = length m" unfolding m' using w fit by (simp add: length_sealed)
  show "take n m' = b64_encode (sealed S PICKLE_INFO key raw)"
    unfolding m' n write_at_def [of _ 0] by (simp add: length_sealed)
qed

locale object_codec =
  fixes pickle :: "'o \<Rightarrow> bytes"
    and pickle_length :: "'o \<Rightarrow> nat"
    and unpickle :: "bytes \<Rightarrow> 'o \<Rightarrow> 'o unpickled"
    and ok :: "'o \<Rightarrow> bool"
    and sized :: "'o \<Rightarrow> bool"
    and restored :: "'o \<Rightarrow> 'o \<Rightarrow> 'o \<Rightarrow> bool"
  assumes length_pickle: "ok v \<Longrightarrow> length (pickle v) = pickle_length v"
    and pickle_small: "ok v \<Longrightarrow> pickle_length v < 2 ^ 59"
    and unpickle_raw: "ok v \<Longrightarrow> sized old \<Longrightarrow> \<exists>new. unpickle (pickle v) old = (new, Some []) \<and> restored v old new"
begin

text \<open>
  An object that was pickled is restored, whatever the object unpickled into held before
  (\<open>sized\<close> says only that its arrays have their declared sizes); \<open>restored\<close> relates the pickled
  object, the object unpickled into and the result.
\<close>

lemma unpickle_pickle_object:
  assumes "ok v" "sized old" and "api_pickle_object S (pickle v) (pickle_length v) key m = (m', Some n)"
  shows "\<exists>new b. api_unpickle_object S unpickle get_error set_error old key (take n m') = (new, b, Some n)
    \<and> restored v old new"
proof -
  have l: "pickle_length v = length (pickle v)" using length_pickle assms(1) by simp
  have small: "length (pickle v) < 2 ^ 59" using pickle_small [OF assms(1)] by (simp only: l)
  have p: "n = b64_length (enc_length (length (pickle v)))" "n \<le> length m" "length m' = length m"
    "take n m' = b64_encode (sealed S PICKLE_INFO key (pickle v))"
    using api_pickle_object_eq [of "pickle v" S key m m' n] assms(3) small by (simp_all add: l)
  obtain b where "olm_enc_input S key (take n m') n = (b, Inr (length (pickle v)))"
      "take (length (pickle v)) b = pickle v"
    using olm_enc_input_sealed [OF small p(1), of "take n m'" S key] p by auto
  then show ?thesis
    using unpickle_raw [OF assms(1,2)] p by (auto simp: api_unpickle_object_def Let_def length_sealed)
qed

text \<open>Pickling succeeds exactly when the buffer has the length the length function asks for.\<close>

lemma pickle_object_fits:
  assumes "ok v"
  shows "snd (api_pickle_object S (pickle v) (pickle_length v) key m) =
    (if length m < olm_enc_output_length (pickle_length v) then None
     else Some (olm_enc_output_length (pickle_length v)))"
proof (cases "length m < olm_enc_output_length (pickle_length v)")
  case False
  have l: "pickle_length v = length (pickle v)" using length_pickle assms by simp
  have small: "length (pickle v) < 2 ^ 61"
    using pickle_small [OF assms] by (simp only: l) simp
  obtain m' n where "olm_enc_output S key (write_at m (olm_enc_output_pos (pickle_length v)) (pickle v))
      (pickle_length v) = (m', n)" by force
  then have e: "api_pickle_object S (pickle v) (pickle_length v) key m = (m', Some n)"
    using False by (simp add: api_pickle_object_def Let_def)
  then show ?thesis
    using False api_pickle_object_eq(1) [OF small, of S key m m' n] enc_lengths(4) [OF small]
    by (simp add: l)
qed (simp add: api_pickle_object_def)

end

text \<open>A pickle that cannot be opened leaves the object as it was, but for the error.\<close>

lemma unpickle_object_rejected:
  "olm_enc_input S key b (length b) = (b', Inl e) \<Longrightarrow>
   api_unpickle_object S unpickle get_error set_error obj key b = (set_error e obj, b', None)"
  by (simp add: api_unpickle_object_def)

section \<open>Properties\<close>

text \<open>The encoding of pickles is undone in place: what \<open>_olm_enc_output\<close> makes of a raw
  pickle at the end of its buffer, \<open>_olm_enc_input\<close> turns back into the raw pickle at the
  start of the buffer, under the same key, although encryption, base64-encoding, decoding
  and decryption all overwrite their own input.\<close>

theorem pickle_encoding_roundtrip:
  assumes "length x < 2 ^ 59" and "olm_enc_output_length (length x) \<le> length m"
  shows "(let m = write_at m (olm_enc_output_pos (length x)) x;
              (m, n) = olm_enc_output S key m (length x);
              (b, r) = olm_enc_input S key (take n m) n
          in n = olm_enc_output_length (length x) \<and> r = Inr (length x) \<and> take (length x) b = x)"
proof -
  have small: "length x < 2 ^ 61" using assms(1) by simp
  obtain m' n where o: "olm_enc_output S key (write_at m (olm_enc_output_pos (length x)) x) (length x) =
      (m', n)" by force
  then have e: "api_pickle_object S x (length x) key m = (m', Some n)"
    using assms(2) by (simp add: api_pickle_object_def Let_def)
  note p = api_pickle_object_eq [OF small e]
  obtain b where "olm_enc_input S key (take n m') n = (b, Inr (length x))" "take (length x) b = x"
    using olm_enc_input_sealed [OF assms(1) p(1), of "take n m'" S key] p by auto
  then show ?thesis using p(1) enc_lengths(4) [OF small] by (simp add: o)
qed

lemma pickle_encoding_roundtrip_witness:
  "(let m = write_at (zeros 40) (olm_enc_output_pos (length [1, 2, 3 :: u8])) [1, 2, 3];
        (m, n) = olm_enc_output sample_sodium [7] m (length [1, 2, 3 :: u8]);
        (b, r) = olm_enc_input sample_sodium [7] (take n m) n
    in n = olm_enc_output_length (length [1, 2, 3 :: u8]) \<and> r = Inr (length [1, 2, 3 :: u8])
       \<and> take (length [1, 2, 3 :: u8]) b = [1, 2, 3])"
  by (rule pickle_encoding_roundtrip)
     (simp_all add: enc_lengths(4) enc_length_def b64_length_def)

end
