(* ===== verification/Megolm.thy ===== *)
theory Megolm
  imports Pickle_Encoding
begin

text \<open>
  \<open>src/megolm.c\<close>: the ratchet of a group session. It has four parts of 32 bytes and a 32-bit
  counter; part \<open>h\<close> is rehashed each time the counter passes a multiple of \<open>2 ^ (8 * (3 - h))\<close>,
  and the parts after it are then derived from it. \<open>megolm_advance\<close> makes one step,
  \<open>megolm_advance_to\<close> jumps.

  The lemmas relate the jump to single steps: it ends in the
  same state as the single steps, over the wrap-around of the counter too. The argument runs
  the single steps on an unbounded counter (\<open>run\<close>), where part \<open>j\<close> changes exactly at the
  multiples of its \<open>period\<close>.
\<close>

section \<open>State\<close>

abbreviation MEGOLM_RATCHET_PART_LENGTH :: nat where "MEGOLM_RATCHET_PART_LENGTH \<equiv> 32"
abbreviation MEGOLM_RATCHET_PARTS :: nat where "MEGOLM_RATCHET_PARTS \<equiv> 4"
abbreviation MEGOLM_RATCHET_LENGTH :: nat where "MEGOLM_RATCHET_LENGTH \<equiv> 128"

record megolm =
  mg_data :: "bytes list"
  mg_counter :: u32

definition MEGOLM_CIPHER_INFO :: bytes where
  "MEGOLM_CIPHER_INFO = ascii ''MEGOLM_KEYS''"

definition HASH_KEY_SEEDS :: "bytes list" where
  "HASH_KEY_SEEDS = [[0], [1], [2], [3]]"

definition parts_ok :: "bytes list \<Rightarrow> bool" where
  "parts_ok d \<longleftrightarrow> length d = MEGOLM_RATCHET_PARTS \<and> (\<forall>p \<in> set d. length p = 32)"

definition megolm_ok :: "megolm \<Rightarrow> bool" where
  "megolm_ok m \<longleftrightarrow> parts_ok (mg_data m)"

text \<open>The four parts as one array, and an array of 128 bytes as four parts.\<close>

definition megolm_get_data :: "megolm \<Rightarrow> bytes" where
  "megolm_get_data m = concat (mg_data m)"

definition parts_of :: "bytes \<Rightarrow> bytes list" where
  "parts_of b = [read_at b 0 32, read_at b 32 32, read_at b 64 32, read_at b 96 32]"

section \<open>Operations\<close>

definition rehash_part :: "sodium \<Rightarrow> bytes list \<Rightarrow> nat \<Rightarrow> nat \<Rightarrow> bytes list" where
  "rehash_part S data rehash_from_part rehash_to_part =
     data[rehash_to_part :=
       olm_crypto_hmac_sha256 S (data ! rehash_from_part) (HASH_KEY_SEEDS ! rehash_to_part)]"

definition megolm_init :: "bytes \<Rightarrow> u32 \<Rightarrow> megolm" where
  "megolm_init random_data counter = \<lparr>mg_data = parts_of random_data, mg_counter = counter\<rparr>"

definition megolm_pickle_length :: "megolm \<Rightarrow> nat" where
  "megolm_pickle_length m = MEGOLM_RATCHET_LENGTH + 4"

definition megolm_pickle :: "megolm \<Rightarrow> bytes" where
  "megolm_pickle m =
     olm_pickle_bytes (megolm_get_data m) MEGOLM_RATCHET_LENGTH @ olm_pickle_uint32 (mg_counter m)"

definition megolm_unpickle :: "bytes \<Rightarrow> megolm \<Rightarrow> megolm unpickled" where
  "megolm_unpickle pos m =
     then_unpickle
       (on_field megolm_get_data (\<lambda>v s. s\<lparr>mg_data := parts_of v\<rparr>)
          (olm_unpickle_bytes MEGOLM_RATCHET_LENGTH) pos m)
       (on_field mg_counter (\<lambda>v s. s\<lparr>mg_counter := v\<rparr>) olm_unpickle_uint32)"

text \<open>The first part whose turn has not come: \<open>h\<close>, with \<open>msk\<close> the mask, as the loop leaves them.\<close>

function advance_level :: "u32 \<Rightarrow> nat \<Rightarrow> u32 \<Rightarrow> nat" where
  "advance_level counter h msk =
     (if h < MEGOLM_RATCHET_PARTS then
        if counter AND msk = 0 then h
        else advance_level counter (h + 1) (drop_bit 8 msk)
      else h)"
  by pat_completeness auto
termination by (relation "measure (\<lambda>(c, h, m). MEGOLM_RATCHET_PARTS - h)") auto

declare advance_level.simps [simp del]

text \<open>\<open>for (i = 3; i >= h; i--) rehash_part(data, h, i)\<close>.\<close>

definition rehash_from :: "sodium \<Rightarrow> nat \<Rightarrow> bytes list \<Rightarrow> bytes list" where
  "rehash_from S h data =
     fold (\<lambda>i d. rehash_part S d h i) (rev [h..<MEGOLM_RATCHET_PARTS]) data"

definition megolm_advance :: "sodium \<Rightarrow> megolm \<Rightarrow> megolm" where
  "megolm_advance S m =
     (let m = m\<lparr>mg_counter := mg_counter m + 1\<rparr>;
          h = advance_level (mg_counter m) 0 0x00FFFFFF
      in m\<lparr>mg_data := rehash_from S h (mg_data m)\<rparr>)"

text \<open>The body of the loop of \<open>megolm_advance_to\<close>.\<close>

definition advance_part :: "sodium \<Rightarrow> u32 \<Rightarrow> nat \<Rightarrow> megolm \<Rightarrow> megolm" where
  "advance_part S advance_to j m =
     (let shift = (MEGOLM_RATCHET_PARTS - j - 1) * 8;
          msk = push_bit shift (NOT (0 :: u32));
          steps = (drop_bit shift advance_to - drop_bit shift (mg_counter m)) AND 0xff;
          steps = (if steps = 0 \<and> advance_to < mg_counter m then 0x100 else steps)
      in if steps = 0 then m
         else let data = ((\<lambda>d. rehash_part S d j j) ^^ (unat steps - 1)) (mg_data m);
                  data = rehash_from S j data
              in \<lparr>mg_data = data, mg_counter = advance_to AND msk\<rparr>)"

definition megolm_advance_to :: "sodium \<Rightarrow> u32 \<Rightarrow> megolm \<Rightarrow> megolm" where
  "megolm_advance_to S advance_to m =
     fold (advance_part S advance_to) [0..<MEGOLM_RATCHET_PARTS] m"

section \<open>The data stays four parts of 32 bytes\<close>

lemma concat_parts:
  assumes "parts_ok ps"
  shows "length (concat ps) = 128" "parts_of (concat ps) = ps"
  using assms by (auto simp: length_eq_4 parts_of_def read_at_def parts_ok_def)

lemma parts_of_ok: "128 \<le> length b \<Longrightarrow> parts_ok (parts_of b)"
  by (simp add: parts_ok_def parts_of_def)

lemma megolm_init_ok: "128 \<le> length r \<Longrightarrow> megolm_ok (megolm_init r c)"
  by (simp add: megolm_init_def megolm_ok_def parts_of_ok)

lemma rehash_part_ok: "parts_ok d \<Longrightarrow> parts_ok (rehash_part S d h i)"
  using set_update_subset_insert [of d i] by (fastforce simp: rehash_part_def parts_ok_def)

lemma rehash_from_ok: "parts_ok d \<Longrightarrow> parts_ok (rehash_from S h d)"
proof -
  have "parts_ok d \<Longrightarrow> parts_ok (fold (\<lambda>i d. rehash_part S d h i) is d)" for "is"
    by (induction "is" arbitrary: d) (simp_all add: rehash_part_ok)
  then show "parts_ok d \<Longrightarrow> parts_ok (rehash_from S h d)" by (simp only: rehash_from_def)
qed

lemma rehash_power_ok: "parts_ok d \<Longrightarrow> parts_ok (((\<lambda>d. rehash_part S d j j) ^^ n) d)"
  by (induction n) (simp_all add: rehash_part_ok)

lemma megolm_advance_ok: "megolm_ok m \<Longrightarrow> megolm_ok (megolm_advance S m)"
  by (simp add: megolm_advance_def megolm_ok_def Let_def rehash_from_ok)

lemma advance_part_ok: "megolm_ok m \<Longrightarrow> megolm_ok (advance_part S a j m)"
  by (simp only: advance_part_def megolm_ok_def Let_def split: if_split)
    (intro conjI impI; simp only: megolm.simps; intro rehash_from_ok rehash_power_ok)

lemma megolm_advance_to_ok: "megolm_ok m \<Longrightarrow> megolm_ok (megolm_advance_to S a m)"
proof -
  have "megolm_ok m \<Longrightarrow> megolm_ok (fold (advance_part S a) js m)" for js
    by (induction js arbitrary: m) (simp_all add: advance_part_ok)
  then show "megolm_ok m \<Longrightarrow> megolm_ok (megolm_advance_to S a m)" by (simp only: megolm_advance_to_def)
qed

section \<open>Pickling\<close>

interpretation megolm_codec: fixed_codec megolm_pickle megolm_unpickle 132 megolm_ok
proof unfold_locales
  fix v assume v: "megolm_ok v"
  then show "length (megolm_pickle v) = 132"
    by (simp add: megolm_pickle_def megolm_ok_def olm_pickle_bytes_def olm_pickle_uint32_def
        megolm_get_data_def concat_parts)
  fix s rest assume s: "megolm_ok s"
  have "megolm_unpickle (megolm_pickle v @ rest) s =
      (v, Some rest)"
    using v s by (simp add: megolm_unpickle_def megolm_pickle_def megolm_ok_def unpickle_bytes_simps
        megolm_get_data_def concat_parts)
  then show "fst (megolm_unpickle (megolm_pickle v @ rest) s) = v" by simp
next
  fix pos :: bytes and s
  assume "length pos < 132"
  then show "snd (megolm_unpickle pos s) = None"
    by (auto simp: megolm_unpickle_def unpickle_bytes_simps olm_unpickle_uint32_def)
next
  fix pos :: bytes and s
  assume "132 \<le> length pos"
  then show "snd (megolm_unpickle pos s) = Some (drop 132 pos)"
    by (auto simp: megolm_unpickle_def unpickle_bytes_simps olm_unpickle_uint32_def)
next
  fix s pos
  assume s: "megolm_ok s"
  then have "length (megolm_get_data s) = 128"
    by (simp add: megolm_ok_def megolm_get_data_def concat_parts)
  then show "megolm_ok (fst (megolm_unpickle pos s))"
    using s by (auto simp: megolm_unpickle_def unpickle_bytes_simps olm_unpickle_uint32_def
        megolm_ok_def parts_of_ok)
qed

lemma megolm_unpickle_raw:
  "megolm_ok v \<Longrightarrow> megolm_ok old \<Longrightarrow> megolm_unpickle (megolm_pickle v) old = (v, Some [])"
  using megolm_codec.unpickle_pickle [of v old "[]"] by simp

interpretation megolm_object: object_codec megolm_pickle megolm_pickle_length megolm_unpickle
    megolm_ok megolm_ok "\<lambda>v old new. new = v"
  by unfold_locales (simp_all add: megolm_codec.length_pickle megolm_pickle_length_def megolm_unpickle_raw)

section \<open>The jump is the single steps\<close>

subsection \<open>Rehashing\<close>

text \<open>Part \<open>i\<close> as derived from the content of part \<open>h\<close>.\<close>

definition derived_part :: "sodium \<Rightarrow> nat \<Rightarrow> bytes \<Rightarrow> bytes" where
  "derived_part S i x = olm_crypto_hmac_sha256 S x (HASH_KEY_SEEDS ! i)"

lemma less_4: "n < (4::nat) \<longleftrightarrow> n = 0 \<or> n = 1 \<or> n = 2 \<or> n = 3"
  by linarith

lemma rehash_from_nth:
  assumes "length d = 4" "h < 4"
  shows "rehash_from S h d =
    map (\<lambda>i. if i < h then d ! i else derived_part S i (d ! h)) [0..<4]"
proof -
  obtain a b c e where d: "d = [a, b, c, e]" using assms(1) by (auto simp: length_eq_4)
  consider "h = 0" | "h = 1" | "h = 2" | "h = 3" using assms(2) by (auto simp: less_4)
  then show ?thesis
    by cases (simp_all add: d rehash_from_def rehash_part_def derived_part_def upt_rec numeral_eq_Suc)
qed

lemma rehash_from_cong:
  assumes "length d = 4" "length e = 4" "h < 4" and t: "take (Suc h) d = take (Suc h) e"
  shows "rehash_from S h d = rehash_from S h e"
proof -
  have "d ! i = e ! i" if "i < Suc h" for i
    using that nth_take [of i "Suc h" d] nth_take [of i "Suc h" e] t by simp
  then show ?thesis using assms(1-3) by (simp add: rehash_from_nth)
qed

lemma length_rehash_from [simp]: "length (rehash_from S h d) = length d"
proof -
  have "length (fold (\<lambda>i d. rehash_part S d h i) is d) = length d" for "is"
    by (induction "is" arbitrary: d) (simp_all add: rehash_part_def)
  then show ?thesis by (simp only: rehash_from_def)
qed

lemma length_rehash_power [simp]: "length (((\<lambda>d. rehash_part S d j j) ^^ n) d) = length d"
  by (induction n) (simp_all add: rehash_part_def)

lemma take_rehash_from: "length d = 4 \<Longrightarrow> j \<le> h \<Longrightarrow> h < 4 \<Longrightarrow> take j (rehash_from S h d) = take j d"
  by (rule nth_equalityI) (auto simp: rehash_from_nth)

lemma rehash_from_twice:
  assumes "length d = 4" "h < 4"
  shows "rehash_from S h (rehash_from S h d) = rehash_from S h (rehash_part S d h h)"
  using assms by (simp add: rehash_from_nth [of d h])
    (auto simp: rehash_from_nth rehash_part_def derived_part_def)

subsection \<open>Single steps on an unbounded counter\<close>

definition period :: "nat \<Rightarrow> nat" where
  "period j = 2 ^ (8 * (3 - j))"

definition level :: "nat \<Rightarrow> nat" where
  "level c = (if period 0 dvd c then 0 else if period 1 dvd c then 1 else if period 2 dvd c then 2 else 3)"

fun run :: "sodium \<Rightarrow> bytes list \<Rightarrow> nat \<Rightarrow> nat \<Rightarrow> bytes list" where
  "run S d c 0 = d"
| "run S d c (Suc n) = rehash_from S (level (c + Suc n)) (run S d c n)"

lemma period_pos [simp]: "0 < period j"
  by (simp add: period_def)

lemma period_dvd: "i \<le> j \<Longrightarrow> period j dvd period i"
  by (simp add: period_def le_imp_power_dvd)

lemma level_less [simp]: "level c < 4"
  by (simp add: level_def)

lemma level_le:
  assumes "j < 4"
  shows "level c \<le> j \<longleftrightarrow> period j dvd c"
proof -
  have 3: "period 3 dvd c" by (simp add: period_def)
  have 0: "period 0 dvd c \<Longrightarrow> period 1 dvd c" by (rule dvd_trans [OF period_dvd]) simp_all
  have 1: "period 1 dvd c \<Longrightarrow> period 2 dvd c" by (rule dvd_trans [OF period_dvd]) simp_all
  consider "j = 0" | "j = 1" | "j = 2" | "j = 3" using assms by (auto simp: less_4)
  then show ?thesis
    using 0 1 3 unfolding level_def by cases (simp_all split: if_split)
qed

lemma length_run [simp]: "length (run S d c n) = length d"
  by (induction n) simp_all

lemma run_add: "run S d c (a + b) = run S (run S d c a) (c + a) b"
  by (induction b) (simp_all add: ac_simps)

text \<open>While the counter passes no multiple of its period, a part stays.\<close>

lemma run_quiet:
  assumes "length d = 4" "j < 4" "\<And>i. 0 < i \<Longrightarrow> i \<le> n \<Longrightarrow> j < level (c + i)"
  shows "take (Suc j) (run S d c n) = take (Suc j) d"
  using assms(3)
proof (induction n)
  case (Suc n)
  have "j < level (c + Suc n)" using Suc.prems [of "Suc n"] by simp
  then have "take (Suc j) (rehash_from S (level (c + Suc n)) (run S d c n)) = take (Suc j) (run S d c n)"
    using assms(1) by (intro take_rehash_from) simp_all
  then show ?case using Suc by simp
qed simp

lemma no_multiple:
  fixes p c i :: nat
  assumes "p dvd c + i" "0 < i" "0 < p"
  shows "(c div p + 1) * p \<le> c + i"
proof -
  obtain k where k: "c + i = k * p" using assms(1) by (metis dvd_def mult.commute)
  have "c div p * p \<le> c" by simp
  then have "c div p * p < k * p" using k assms(2) by linarith
  then have "c div p + 1 \<le> k" by simp
  then have "(c div p + 1) * p \<le> k * p" by (rule mult_le_mono1)
  then show ?thesis using k by simp
qed

text \<open>The crossing of the period of part \<open>j\<close> that is none of the period before it.\<close>

lemma run_crossing:
  assumes "length d = 4" "j < 4" "j \<le> level ((c div period j + 1) * period j)"
  shows "run S d c ((c div period j + 1) * period j - c) = rehash_from S j d"
proof -
  let ?p = "period j" and ?q = "c div period j"
  have lt: "c < (?q + 1) * ?p" using dividend_less_times_div [of ?p c] by (simp add: mult.commute)
  define n where "n = (?q + 1) * ?p - c - 1"
  have n: "c + Suc n = (?q + 1) * ?p" using lt by (simp add: n_def)
  have quiet: "j < level (c + i)" if "0 < i" "i \<le> n" for i
  proof (rule ccontr)
    assume "\<not> j < level (c + i)"
    then have "?p dvd c + i" using level_le [OF assms(2), of "c + i"] by simp
    then have "(?q + 1) * ?p \<le> c + i" using \<open>0 < i\<close> by (intro no_multiple) simp_all
    then show False using n \<open>i \<le> n\<close> by linarith
  qed
  have "period j dvd c + Suc n" unfolding n by (rule dvd_triv_right)
  then have "level (c + Suc n) = j"
    using level_le [OF assms(2), of "c + Suc n"] assms(3) unfolding n by simp
  then have "run S d c (Suc n) = rehash_from S j (run S d c n)" by simp
  also have "\<dots> = rehash_from S j d"
    using run_quiet [OF assms(1,2) quiet] assms(1,2) by (intro rehash_from_cong) simp_all
  finally show ?thesis by (simp only: n [symmetric] diff_add_inverse)
qed

lemma run_crossings:
  assumes "length d = 4" "j < 4"
    and "\<And>k. k \<le> s \<Longrightarrow> j \<le> level ((c div period j + Suc k) * period j)"
  shows "run S d c ((c div period j + Suc s) * period j - c) =
    rehash_from S j (((\<lambda>d. rehash_part S d j j) ^^ s) d)"
  using assms(3)
proof (induction s)
  case 0
  then show ?case using run_crossing [OF assms(1,2)] by simp
next
  case (Suc s)
  let ?p = "period j" and ?q = "c div period j"
  define C where "C = (?q + Suc s) * ?p"
  let ?D = "rehash_from S j (((\<lambda>d. rehash_part S d j j) ^^ s) d)"
  have C: "C div ?p = ?q + Suc s" by (simp add: C_def)
  have "c < (?q + 1) * ?p" using dividend_less_times_div [of ?p c] by (simp add: mult.commute)
  also have "\<dots> \<le> C" unfolding C_def by (intro mult_le_mono1) simp
  finally have c: "c \<le> C" by simp
  have next_C: "(?q + Suc (Suc s)) * ?p = C + ?p" by (simp add: C_def)
  then have D: "(C div ?p + 1) * ?p - C = ?p" "(C div ?p + 1) * ?p = C + ?p" unfolding C by simp_all
  have "run S d c (C - c) = ?D" using Suc by (simp add: C_def)
  then have "run S d c ((C - c) + ?p) = run S ?D C ?p" using c unfolding run_add by simp
  also have "\<dots> = rehash_from S j ?D"
    using run_crossing [of ?D j C S] assms(1,2) Suc.prems [of "Suc s"] unfolding D next_C by simp
  also have "\<dots> = rehash_from S j (((\<lambda>d. rehash_part S d j j) ^^ Suc s) d)"
    using assms(1,2) by (simp add: rehash_from_twice)
  finally have "run S d c ((C - c) + ?p) = rehash_from S j (((\<lambda>d. rehash_part S d j j) ^^ Suc s) d)" .
  moreover have "(C - c) + ?p = C + ?p - c" using c by simp
  ultimately show ?case unfolding next_C by simp
qed

subsection \<open>The counter of the code\<close>

lemma mask_word_dvd:
  "n \<le> 32 \<Longrightarrow> (c AND mask n = (0 :: u32)) = (2 ^ n dvd unat c)"
proof -
  assume n: "n \<le> 32"
  have "unat (c AND mask n) = unat c mod 2 ^ n"
    by (simp only: take_bit_eq_mask [symmetric] unsigned_take_bit_eq) (simp add: take_bit_eq_mod)
  then show ?thesis by (simp only: unat_eq_zero [symmetric] dvd_eq_mod_eq_0)
qed

lemma advance_level_eq: "advance_level c 0 0x00FFFFFF = level (unat c)"
proof -
  have m: "(0x00FFFFFF :: u32) = mask 24" "(0xFFFF :: u32) = mask 16" "(0xFF :: u32) = mask 8"
    by (simp_all add: mask_eq_decr_exp)
  have s: "drop_bit 8 (mask 24 :: u32) = mask 16" "drop_bit 8 (mask 16 :: u32) = mask 8"
    "drop_bit 8 (mask 8 :: u32) = 0"
    by (rule bit_word_eqI; auto simp: bit_simps)+
  show ?thesis
    by (simp add: advance_level.simps [of c 0] advance_level.simps [of c "Suc 0"] advance_level.simps [of c "Suc (Suc 0)"]
        advance_level.simps [of c "Suc (Suc (Suc 0))"] m(1) s mask_word_dvd level_def period_def)
qed

lemma level_mod: "level (c mod 2 ^ 32) = level c"
proof -
  have "period j dvd 2 ^ 32" for j unfolding period_def by (rule le_imp_power_dvd) simp
  then have "period j dvd c mod 2 ^ 32 \<longleftrightarrow> period j dvd c" for j
    by (simp only: dvd_mod_iff)
  then show ?thesis by (simp add: level_def)
qed

lemma advance_run:
  "(megolm_advance S ^^ n) m =
   \<lparr>mg_data = run S (mg_data m) (unat (mg_counter m)) n, mg_counter = mg_counter m + of_nat n\<rparr>"
proof (induction n)
  case (Suc n)
  have "unat (mg_counter m + of_nat (Suc n)) = (unat (mg_counter m) + Suc n) mod 2 ^ 32"
    by (simp only: unat_word_ariths unat_of_nat mod_add_right_eq) simp
  then have "level (unat (mg_counter m + of_nat (Suc n))) = level (unat (mg_counter m) + Suc n)"
    by (simp only: level_mod)
  moreover have "mg_counter m + of_nat n + 1 = mg_counter m + of_nat (Suc n)" by simp
  ultimately show ?case
    by (simp only: funpow.simps comp_apply Suc) (simp only: megolm_advance_def Let_def megolm.simps
        advance_level_eq run.simps)
qed simp

subsection \<open>The jump\<close>

text \<open>
  The steps of one part, with the counter and the target read as residues of unbounded
  counters \<open>C\<close> and \<open>A\<close>: the number of multiples of the period between them.
\<close>

lemma unat_drop_bit_of_nat: "unat (drop_bit i (of_nat X :: u32)) = X mod 2 ^ 32 div 2 ^ i"
proof -
  have "unat (of_nat X :: u32) = X mod 2 ^ 32" by (simp only: unat_of_nat) simp
  then show ?thesis by (simp only: unat_drop_bit_eq) (simp only: drop_bit_eq_div)
qed

lemma drop_bit_residue:
  assumes "i \<le> 24"
  shows "unat (drop_bit i (of_nat X :: u32)) mod 2 ^ 8 = (X div 2 ^ i) mod 2 ^ 8"
proof -
  have "(2::nat) ^ (i + 8) dvd 2 ^ 32" using assms by (intro le_imp_power_dvd) simp
  then show ?thesis
    by (simp only: unat_drop_bit_of_nat div_exp_mod_exp_eq mod_mod_cancel)
qed

lemma steps_residue:
  assumes "i \<le> 24" "C \<le> A"
  shows "unat ((drop_bit i (of_nat A) - drop_bit i (of_nat C)) AND 0xff :: u32) =
    (A div 2 ^ i - C div 2 ^ i) mod 2 ^ 8"
proof -
  let ?a = "drop_bit i (of_nat A) :: u32" and ?c = "drop_bit i (of_nat C) :: u32"
  define s where "s = A div 2 ^ i - C div 2 ^ i"
  have s: "A div 2 ^ i = C div 2 ^ i + s" using assms(2) by (simp add: s_def div_le_mono)
  have "(0xff :: u32) = mask 8" by (simp add: mask_eq_decr_exp)
  then have u: "unat ((?a - ?c) AND 0xff) = unat (?a - ?c) mod 2 ^ 8"
    by (simp only: take_bit_eq_mask [symmetric] unsigned_take_bit_eq) (simp add: take_bit_eq_mod)
  have "(unat (?a - ?c) + unat ?c) mod 2 ^ 32 = unat ?a"
    using unat_word_ariths(1) [of "?a - ?c" ?c] by simp
  then have "(unat (?a - ?c) + unat ?c) mod 2 ^ 32 mod 2 ^ 8 = unat ?a mod 2 ^ 8" by (simp only:)
  then have "(unat (?a - ?c) + unat ?c) mod 2 ^ 8 = unat ?a mod 2 ^ 8" by (simp add: mod_mod_cancel)
  then have "(unat (?a - ?c) + C div 2 ^ i) mod 2 ^ 8 = (C div 2 ^ i + s) mod 2 ^ 8"
    by (metis drop_bit_residue [OF assms(1)] mod_add_right_eq s)
  then obtain p q where "unat (?a - ?c) + C div 2 ^ i + 2 ^ 8 * p = C div 2 ^ i + s + 2 ^ 8 * q"
    unfolding nat_mod_eq_iff by blast
  then have "unat (?a - ?c) + 2 ^ 8 * p = s + 2 ^ 8 * q" by linarith
  then have "unat (?a - ?c) mod 2 ^ 8 = s mod 2 ^ 8" unfolding nat_mod_eq_iff by blast
  then show ?thesis unfolding u s_def .
qed

lemma less_mod_iff:
  fixes N :: nat
  assumes "C \<le> A" "A < C + N"
  shows "A mod N < C mod N \<longleftrightarrow> A div N \<noteq> C div N"
proof -
  have N: "0 < N" using assms by simp
  have A: "A = A div N * N + A mod N" and C: "C = C div N * N + C mod N" by simp_all
  have le: "C div N \<le> A div N" using assms(1) by (rule div_le_mono)
  have r: "A mod N < N" "C mod N < N" using N by simp_all
  show ?thesis
  proof (cases "A div N = C div N")
    case True
    have "\<not> A mod N < C mod N" using A C assms(1) unfolding True by linarith
    then show ?thesis using True by simp
  next
    case False
    then have "(C div N + 1) * N \<le> A div N * N" using le by (intro mult_le_mono1) simp
    then have "C div N * N + N \<le> A div N * N" by (simp add: add_mult_distrib)
    then have "A mod N < C mod N" using A C assms(2) by linarith
    then show ?thesis using False by simp
  qed
qed

lemma less_residue:
  assumes "C \<le> A" "A < C + 2 ^ 32"
  shows "(of_nat A :: u32) < of_nat C \<longleftrightarrow> A div 2 ^ 32 \<noteq> C div 2 ^ 32"
proof -
  have u: "unat (of_nat X :: u32) = X mod 2 ^ 32" for X by (simp only: unat_of_nat) simp
  show ?thesis unfolding word_less_nat_alt u using less_mod_iff [OF assms] .
qed

text \<open>How many multiples there can be.\<close>

lemma div_diff_less:
  fixes p :: nat
  assumes "C \<le> A" "A div (k * p) = C div (k * p)" "0 < p" "0 < k"
  shows "A div p - C div p < k"
proof -
  have e: "A div p div k = C div p div k" using assms(2) by (simp only: mult.commute [of k p] div_mult2_eq)
  have "A div p < k + A div p div k * k"
    using dividend_less_times_div [of k "A div p"] assms(4) by (simp add: mult.commute)
  then have "A div p < k + C div p div k * k" by (simp only: e)
  moreover have "C div p div k * k \<le> C div p" by (rule div_times_less_eq_dividend)
  ultimately show ?thesis using assms(4) by linarith
qed

text \<open>Within an epoch of 2^32 messages a part is stepped less than 256 times.\<close>

lemma steps_in_epoch:
  assumes "j < 4" "C \<le> A" "j \<noteq> 0 \<Longrightarrow> A div period (j - 1) = C div period (j - 1)"
    and "A div 2 ^ 32 = C div 2 ^ 32"
  shows "A div period j - C div period j < 256"
proof (cases "j = 0")
  case True
  then have "256 * period j = 2 ^ 32" by (simp add: period_def)
  then have "A div (256 * period j) = C div (256 * period j)" using assms(4) by (simp only:)
  then show ?thesis by (intro div_diff_less [OF assms(2)]) simp_all
next
  case False
  then have "8 * (3 - (j - 1)) = 8 + 8 * (3 - j)" using assms(1) by simp
  then have "period (j - 1) = 256 * period j" unfolding period_def by (simp only: power_add) simp
  then show ?thesis using assms(2,3) False by (intro div_diff_less) simp_all
qed

text \<open>Across the end of an epoch the first part is stepped, up to 256 times.\<close>

lemma steps_across_epochs:
  assumes "C \<le> A" "A < C + 2 ^ 32" "j \<noteq> 0 \<Longrightarrow> A div period (j - 1) = C div period (j - 1)"
    and e: "A div 2 ^ 32 \<noteq> C div 2 ^ 32"
  shows "A div period j - C div period j \<le> 256" "A div period j - C div period j \<noteq> 0"
proof -
  have "j = 0"
  proof (rule ccontr)
    assume j: "j \<noteq> 0"
    have "period (j - 1) dvd 2 ^ 32" unfolding period_def by (rule le_imp_power_dvd) simp
    then obtain k where "2 ^ 32 = period (j - 1) * k" ..
    then show False using e assms(3) [OF j] by (simp only: div_mult2_eq)
  qed
  then have p24: "period j = 2 ^ 24" by (simp add: period_def)
  have "A div 2 ^ 24 \<le> (C + 256 * 2 ^ 24) div 2 ^ 24" using assms(2) by (intro div_le_mono) simp
  then show "A div period j - C div period j \<le> 256" unfolding p24 by simp
  show "A div period j - C div period j \<noteq> 0"
  proof
    assume "A div period j - C div period j = 0"
    then have "A div 2 ^ 24 = C div 2 ^ 24" using assms(1) div_le_mono [of C A "2 ^ 24"] p24 by simp
    then have "A div (2 ^ 24 * 2 ^ 8) = C div (2 ^ 24 * 2 ^ 8)" by (simp only: div_mult2_eq)
    then show False using e by simp
  qed
qed

lemma steps_eq:
  assumes "j < 4" "C \<le> A" "A < C + 2 ^ 32" and "j \<noteq> 0 \<Longrightarrow> A div period (j - 1) = C div period (j - 1)"
  shows "unat (let shift = (MEGOLM_RATCHET_PARTS - j - 1) * 8;
          steps = (drop_bit shift (of_nat A) - drop_bit shift (of_nat C)) AND 0xff :: u32
      in if steps = 0 \<and> (of_nat A :: u32) < of_nat C then 0x100 else steps) =
    A div period j - C div period j"
proof -
  let ?i = "(4 - j - 1) * 8" and ?s = "A div period j - C div period j"
  define w :: u32 where "w = (drop_bit ?i (of_nat A) - drop_bit ?i (of_nat C)) AND 0xff"
  have w: "unat w = ?s mod 256"
    using steps_residue [of ?i C A] assms(2) by (simp add: w_def period_def mult.commute)
  then have w0: "w = 0 \<longleftrightarrow> ?s mod 256 = 0" by (metis unat_eq_zero)
  have lt: "(of_nat A :: u32) < of_nat C \<longleftrightarrow> A div 2 ^ 32 \<noteq> C div 2 ^ 32"
    using less_residue [OF assms(2,3)] by simp
  show ?thesis
  proof (cases "?s = 256")
    case True
    then have "A div 2 ^ 32 \<noteq> C div 2 ^ 32" using steps_in_epoch [OF assms(1,2,4)] by auto
    then show ?thesis using True w0 lt unfolding Let_def w_def [symmetric] by simp
  next
    case False
    have "?s < 256 \<and> (?s = 0 \<longrightarrow> \<not> (of_nat A :: u32) < of_nat C)"
      using steps_in_epoch [OF assms(1,2,4)] steps_across_epochs [OF assms(2-4)] False lt by fastforce
    then show ?thesis using w w0 unfolding Let_def w_def [symmetric] by simp
  qed
qed

lemma and_high_bits:
  "(of_nat A :: u32) AND push_bit i (NOT 0) = of_nat (A div 2 ^ i * 2 ^ i)"
proof -
  have e: "A div 2 ^ i * 2 ^ i = push_bit i (drop_bit i A)" by (simp add: push_bit_eq_mult drop_bit_eq_div)
  show ?thesis unfolding e
    by (rule bit_word_eqI) (auto simp: bit_simps)
qed

text \<open>
  The multiples of the period of part \<open>j\<close> that are passed are no multiples of the longer periods, as
  the parts before \<open>j\<close> are at the target already.
\<close>

lemma passed_level:
  assumes j: "j < 4" and q: "C div period j + Suc n = A div period j" and k: "k \<le> n"
    and same: "j \<noteq> 0 \<Longrightarrow> A div period (j - 1) = C div period (j - 1)"
  shows "j \<le> level ((C div period j + Suc k) * period j)"
proof (cases "j = 0")
  case F: False
  let ?p = "period j"
  let ?x = "(C div ?p + Suc k) * ?p"
  have "?x \<le> A div ?p * ?p" unfolding q [symmetric] using k by (intro mult_le_mono1) simp
  then have le: "?x \<le> A" using div_times_less_eq_dividend [of A ?p] by (rule le_trans)
  have "C < (C div ?p + 1) * ?p" using dividend_less_times_div [of ?p C] by (simp add: mult.commute)
  also have "\<dots> \<le> ?x" by (intro mult_le_mono1) simp
  finally have less: "C < ?x" .
  have "\<not> period (j - 1) dvd ?x"
  proof
    assume "period (j - 1) dvd ?x"
    then have "period (j - 1) dvd C + (?x - C)" using less by simp
    then have "(C div period (j - 1) + 1) * period (j - 1) \<le> C + (?x - C)"
      by (rule no_multiple) (use less in simp_all)
    then have "(A div period (j - 1) + 1) * period (j - 1) \<le> A" using less le same [OF F] by simp
    then show False using dividend_less_times_div [of "period (j - 1)" A] by (simp add: mult.commute)
  qed
  then have "\<not> level ?x \<le> j - 1" using level_le [of "j - 1" ?x] j by linarith
  then show ?thesis using F by linarith
qed simp

lemma run_to_multiple:
  assumes "length d = 4" "j < 4" and q: "C div period j + Suc n = A div period j"
    and "j \<noteq> 0 \<Longrightarrow> A div period (j - 1) = C div period (j - 1)"
  shows "C \<le> A div period j * period j"
    "run S d C (A div period j * period j - C) = rehash_from S j (((\<lambda>d. rehash_part S d j j) ^^ n) d)"
proof -
  have "C < (C div period j + 1) * period j"
    using dividend_less_times_div [of "period j" C] by (simp add: mult.commute)
  also have "\<dots> \<le> A div period j * period j" using q by (intro mult_le_mono1) simp
  finally show "C \<le> A div period j * period j" by simp
  show "run S d C (A div period j * period j - C) = rehash_from S j (((\<lambda>d. rehash_part S d j j) ^^ n) d)"
    using run_crossings [of d j n C S] passed_level [OF assms(2,3) _ assms(4)] assms(1,2) unfolding q by simp
qed

text \<open>One round of the loop moves the counter to the last multiple of the period below the target.\<close>

lemma advance_part_run:
  assumes "length d = 4" "j < 4" "c \<le> C" "C \<le> A" "A < C + 2 ^ 32"
    and "j \<noteq> 0 \<Longrightarrow> A div period (j - 1) = C div period (j - 1)"
  shows "\<exists>C' \<ge> C. C' \<le> A \<and> A div period j = C' div period j \<and>
    advance_part S (of_nat A) j \<lparr>mg_data = run S d c (C - c), mg_counter = of_nat C\<rparr> =
    \<lparr>mg_data = run S d c (C' - c), mg_counter = of_nat C'\<rparr>"
proof -
  let ?p = "period j" and ?d = "run S d c (C - c)"
  define s where "s = A div ?p - C div ?p"
  have le: "C div ?p \<le> A div ?p" using assms(4) by (rule div_le_mono)
  define steps :: u32 where "steps = (let shift = (MEGOLM_RATCHET_PARTS - j - 1) * 8;
      steps = (drop_bit shift (of_nat A) - drop_bit shift (of_nat C)) AND 0xff
    in if steps = 0 \<and> (of_nat A :: u32) < of_nat C then 0x100 else steps)"
  have st: "unat steps = s" unfolding steps_def s_def by (rule steps_eq) (use assms in auto)
  then have st0: "steps = 0 \<longleftrightarrow> s = 0" by (metis unat_eq_zero)
  have part: "advance_part S (of_nat A) j \<lparr>mg_data = ?d, mg_counter = of_nat C\<rparr> =
      (if s = 0 then \<lparr>mg_data = ?d, mg_counter = of_nat C\<rparr>
       else \<lparr>mg_data = rehash_from S j (((\<lambda>d. rehash_part S d j j) ^^ (s - 1)) ?d),
             mg_counter = of_nat A AND push_bit ((MEGOLM_RATCHET_PARTS - j - 1) * 8) (NOT 0)\<rparr>)"
    using st st0 by (simp add: advance_part_def Let_def steps_def)
  show ?thesis
  proof (cases "s = 0")
    case True
    then show ?thesis using le assms(4) part by (intro exI [of _ C]) (simp add: s_def)
  next
    case False
    then have q: "C div ?p + Suc (s - 1) = A div ?p" using le by (simp add: s_def)
    have d: "length ?d = 4" using assms(1) by simp
    note R = run_to_multiple [OF d assms(2) q assms(6)]
    have "run S d c (A div ?p * ?p - c) = rehash_from S j (((\<lambda>d. rehash_part S d j j) ^^ (s - 1)) ?d)"
      using run_add [of S d c "C - c" "A div ?p * ?p - C"] R assms(3) by simp
    then show ?thesis
      using part False R(1) and_high_bits [of A "(MEGOLM_RATCHET_PARTS - j - 1) * 8"]
      by (intro exI [of _ "A div ?p * ?p"]) (simp add: period_def mult.commute)
  qed
qed

lemma advance_to_run:
  assumes "megolm_ok m"
  shows "megolm_advance_to S a m = (megolm_advance S ^^ unat (a - mg_counter m)) m"
proof -
  define c where "c = unat (mg_counter m)"
  define A where "A = c + unat (a - mg_counter m)"
  have d: "length (mg_data m) = 4" using assms by (simp add: megolm_ok_def parts_ok_def)
  have a: "of_nat A = a" by (simp add: A_def c_def)
  define st where "st C = \<lparr>mg_data = run S (mg_data m) c (C - c), mg_counter = of_nat C\<rparr>" for C
  have m: "m = st c" by (simp add: c_def st_def)
  have A: "c \<le> A" "A < c + 2 ^ 32" using unsigned_less [of "a - mg_counter m"] by (simp_all add: A_def)
  have round: "\<exists>C' \<ge> c. C' \<le> A \<and> A div period j = C' div period j \<and> advance_part S a j x = st C'"
    if "x = st C" "c \<le> C" "C \<le> A" "j < 4" "j = 0 \<or> A div period (j - 1) = C div period (j - 1)" for j x C
  proof -
    note h = that
    have "A < C + 2 ^ 32" using h A(2) by simp
    then obtain C' where "C \<le> C'" "C' \<le> A" "A div period j = C' div period j" "advance_part S a j x = st C'"
      using advance_part_run [OF d h(4,2,3), of S] h(5) unfolding h(1) st_def a by blast
    then show ?thesis using \<open>c \<le> C\<close> by (intro exI [of _ C']) simp
  qed
  obtain C0 where C0: "c \<le> C0" "C0 \<le> A" "A div period 0 = C0 div period 0" "advance_part S a 0 m = st C0"
    using round [OF m _ A(1), of 0] by auto
  obtain C1 where C1: "c \<le> C1" "C1 \<le> A" "A div period 1 = C1 div period 1"
      "advance_part S a 1 (advance_part S a 0 m) = st C1"
    using round [OF C0(4,1,2), of 1] C0(3) by auto
  obtain C2 where C2: "c \<le> C2" "C2 \<le> A" "A div period 2 = C2 div period 2"
      "advance_part S a 2 (advance_part S a 1 (advance_part S a 0 m)) = st C2"
    using round [OF C1(4,1,2), of 2] C1(3) by auto
  obtain C3 where C3: "A div period 3 = C3 div period 3"
      "advance_part S a 3 (advance_part S a 2 (advance_part S a 1 (advance_part S a 0 m))) = st C3"
    using round [OF C2(4,1,2), of 3] C2(3) by auto
  have "C3 = A" using C3(1) by (simp add: period_def)
  moreover have "megolm_advance_to S a m =
      advance_part S a 3 (advance_part S a 2 (advance_part S a 1 (advance_part S a 0 m)))"
    by (simp add: megolm_advance_to_def upt_rec numeral_eq_Suc)
  ultimately have "megolm_advance_to S a m = \<lparr>mg_data = run S (mg_data m) c (A - c), mg_counter = of_nat A\<rparr>"
    using C3(2) by (simp add: st_def)
  then show ?thesis by (simp add: advance_run A_def c_def)
qed

lemma advance_to_compose:
  assumes "megolm_ok m" "unat (a - mg_counter m) \<le> unat (b - mg_counter m)"
  shows "megolm_advance_to S b (megolm_advance_to S a m) = megolm_advance_to S b m"
proof -
  let ?n = "unat (a - mg_counter m)"
  have c: "mg_counter (megolm_advance_to S a m) = a" by (simp add: advance_to_run assms(1) advance_run)
  have "unat (b - a) = unat (b - mg_counter m) - ?n"
    using assms(2) unat_sub [of "a - mg_counter m" "b - mg_counter m"] by (simp add: word_le_nat_alt)
  then have "unat (b - mg_counter m) = unat (b - a) + ?n" using assms(2) by simp
  moreover have "megolm_advance_to S b (megolm_advance_to S a m) =
      (megolm_advance S ^^ unat (b - a)) ((megolm_advance S ^^ ?n) m)"
    using advance_to_run [OF megolm_advance_to_ok [OF assms(1)], of S b S a] c
    by (simp only: advance_to_run [OF assms(1), of S a])
  ultimately show ?thesis by (simp add: advance_to_run assms(1) funpow_add)
qed

section \<open>Properties\<close>

text \<open>C36: The jump \<open>megolm_advance_to\<close> ends in exactly the state that as many single steps
  \<open>megolm_advance\<close> reach, over the wrap-around of the 32-bit counter too: the number of single
  steps is the difference of the counters modulo \<open>2 ^ 32\<close>.\<close>

theorem megolm_jump_is_steps:
  assumes "megolm_ok m"
  shows "megolm_advance_to S advance_to m = (megolm_advance S ^^ unat (advance_to - mg_counter m)) m"
  using assms by (rule advance_to_run)

lemma megolm_jump_is_steps_witness:
  "megolm_advance_to sample_sodium 3 (megolm_init (zeros 128) 0xFFFFFFFE) =
   (megolm_advance sample_sodium ^^ unat (3 - mg_counter (megolm_init (zeros 128) 0xFFFFFFFE)))
     (megolm_init (zeros 128) 0xFFFFFFFE)"
  by (rule megolm_jump_is_steps) (simp add: megolm_init_ok)

end
