(* ===== verification/Buffers.thy ===== *)
theory Buffers
  imports Base64 Memory
begin

text \<open>
  Base64 at the border of the library: \<open>olm.c\<close> and the group session files write a raw value
  to the end of the caller's buffer and encode it in place, and decode what the caller hands
  in where it stands. The helpers of \<open>olm.c\<close> for this, and what they do to the buffer.
\<close>

section \<open>The helpers of \<open>olm.c\<close>\<close>

definition b64_output_length :: "nat \<Rightarrow> nat" where
  "b64_output_length raw_len = olm_encode_base64_length raw_len"

definition b64_output_pos :: "nat \<Rightarrow> nat" where
  "b64_output_pos raw_len = size_sub (olm_encode_base64_length raw_len) raw_len"

definition b64_output :: "bytes \<Rightarrow> nat \<Rightarrow> bytes \<times> nat" where
  "b64_output output raw_len =
     (let base64_length = olm_encode_base64_length raw_len;
          raw_output = size_sub base64_length raw_len;
          (output, _) = olm_encode_base64 output raw_output raw_len 0
      in (output, base64_length))"

text \<open>\<open>None\<close> is \<open>OLM_INVALID_BASE64\<close>.\<close>

definition b64_input :: "bytes \<Rightarrow> nat \<Rightarrow> bytes \<times> nat option" where
  "b64_input input b64_len =
     (let raw_len = olm_decode_base64_length b64_len in
      if raw_len = SIZE_MAX then (input, None)
      else let (input, _) = olm_decode_base64 input 0 b64_len 0 in (input, Some raw_len))"

text \<open>Encoding and decoding from one array into another.\<close>

definition encode_base64_to :: "bytes \<Rightarrow> bytes \<Rightarrow> bytes \<times> nat" where
  "encode_base64_to input output =
     (let (m, n) = olm_encode_base64 (output @ input) (length output) (length input) 0
      in (take (length output) m, n))"

definition decode_base64_to :: "bytes \<Rightarrow> bytes \<Rightarrow> bytes \<times> nat" where
  "decode_base64_to input output =
     (let (m, n) = olm_decode_base64 (output @ input) (length output) (length input) 0
      in (take (length output) m, n))"

section \<open>What they do\<close>

lemma b64_lengths:
  assumes "n < 2 ^ 61"
  shows "b64_output_length n = b64_length n" "olm_encode_base64_length n = b64_length n"
    "b64_output_pos n = b64_length n - n" "size_sub (b64_length n) n = b64_length n - n"
    "olm_decode_base64_length (b64_length n) = n" "n \<noteq> SIZE_MAX"
proof -
  show e: "olm_encode_base64_length n = b64_length n" using assms by (simp add: olm_encode_base64_length_eq)
  have b: "b64_length n < 2 ^ 63" using b64_length_bound [of n] assms by simp
  show s: "size_sub (b64_length n) n = b64_length n - n"
    using b b64_length_ge [of n] by (simp add: size_sub_exact)
  show "b64_output_length n = b64_length n" "b64_output_pos n = b64_length n - n"
    by (simp_all add: b64_output_length_def b64_output_pos_def e s)
  have "b64_length n \<le> 4 * (n div 3) + 3" by (auto simp: b64_length_def)
  then have "b64_length n < 2 ^ 62" using assms by simp
  then show "olm_decode_base64_length (b64_length n) = n"
    using olm_decode_base64_length_eq [OF _ b64_length_mod, of n] by (simp add: raw_b64_length)
  show "n \<noteq> SIZE_MAX" using assms by (simp add: SIZE_MAX_def)
qed

text \<open>A raw value at its place in the buffer is turned into its encoding at the front.\<close>

lemma encode_in_place:
  assumes "n < 2 ^ 61" "b64_length n \<le> length m" "read_at m (b64_length n - n) n = raw"
  shows "olm_encode_base64 m (b64_length n - n) n 0 = (write_at m 0 (b64_encode raw), b64_length n)"
  using olm_encode_base64_eq [of "b64_length n - n" n m 0] assms b64_length_ge [of n] by simp

lemma b64_output_eq:
  assumes "length raw < 2 ^ 61" "b64_length (length raw) \<le> length m"
    and "read_at m (b64_length (length raw) - length raw) (length raw) = raw"
  shows "b64_output m (length raw) = (write_at m 0 (b64_encode raw), b64_length (length raw))"
  using encode_in_place [OF assms(1-3)] by (simp add: b64_output_def b64_lengths [OF assms(1)] Let_def)

lemma b64_output_write:
  assumes "length raw < 2 ^ 61" "b64_length (length raw) \<le> length m"
  shows "\<exists>m'. b64_output (write_at m (b64_output_pos (length raw)) raw) (length raw) = (m', b64_length (length raw))
    \<and> take (b64_length (length raw)) m' = b64_encode raw \<and> length m' = length m"
proof -
  let ?n = "length raw"
  have l: "length (write_at m (b64_length ?n - ?n) raw) = length m"
    using assms b64_length_ge [of ?n] by simp
  have "read_at (write_at m (b64_length ?n - ?n) raw) (b64_length ?n - ?n) ?n = raw"
    using assms b64_length_ge [of ?n] by (intro read_write_at_same) simp_all
  then have "b64_output (write_at m (b64_length ?n - ?n) raw) ?n =
      (write_at (write_at m (b64_length ?n - ?n) raw) 0 (b64_encode raw), b64_length ?n)"
    using assms l by (intro b64_output_eq) simp_all
  then show ?thesis
    using assms l by (simp add: b64_lengths [OF assms(1)]) (simp add: write_at_def [of _ 0])
qed

lemma b64_input_encoded:
  assumes "length raw < 2 ^ 60" "n = b64_length (length raw)" "n \<le> length m" "take n m = b64_encode raw"
  shows "b64_input m n = (write_at m 0 raw, Some (length raw))"
proof -
  have "b64_length (length raw) < 2 ^ 62" using b64_length_bound [of "length raw"] assms(1) by simp
  then have "olm_decode_base64 m 0 n 0 = (write_at m 0 (b64_decode (read_at m 0 n)), raw_length n)"
    using assms b64_length_ge [of "length raw"] b64_length_mod [of "length raw"]
    by (intro olm_decode_base64_eq) (simp_all add: raw_b64_length)
  moreover have "read_at m 0 n = b64_encode raw" using assms(4) by (simp add: read_at_def)
  ultimately show ?thesis
    using assms(1) b64_lengths [of "length raw"] by (simp add: b64_input_def assms(2) Let_def)
qed

lemma encode_base64_to_eq:
  assumes "b64_length (length input) \<le> length output"
  shows "encode_base64_to input output = (write_at output 0 (b64_encode input), b64_length (length input))"
  using olm_encode_base64_eq [of "length output" "length input" "output @ input" 0] assms
  by (simp add: encode_base64_to_def read_at_def write_at_def)

lemma decode_base64_to_encoded:
  assumes "length raw < 2 ^ 60" "length raw \<le> length output"
  shows "decode_base64_to (b64_encode raw) output = (write_at output 0 raw, length raw)"
proof -
  have "b64_length (length raw) < 2 ^ 62" using b64_length_bound [of "length raw"] assms(1) by simp
  then show ?thesis
    using olm_decode_base64_eq [of "b64_length (length raw)" "length output" "output @ b64_encode raw" 0]
      assms b64_length_mod [of "length raw"]
    by (simp add: decode_base64_to_def read_at_def write_at_def raw_b64_length)
qed

end
