(* ===== verification/Outbound_Group.thy ===== *)
theory Outbound_Group
  imports Megolm Message Buffers
begin

text \<open>
  \<open>src/outbound_group_session.c\<close>: the sending side of a group session, a Megolm ratchet and an
  Ed25519 key pair. A message is laid out, encrypted under the ratchet's data, signed, and
  encoded to base64 in place; the session key that other devices get is the ratchet with the
  public key, signed.
\<close>

abbreviation GROUP_PROTOCOL_VERSION :: u8 where "GROUP_PROTOCOL_VERSION \<equiv> 3"
abbreviation GROUP_SESSION_ID_LENGTH :: nat where "GROUP_SESSION_ID_LENGTH \<equiv> 32"
abbreviation OUTBOUND_PICKLE_VERSION :: u32 where "OUTBOUND_PICKLE_VERSION \<equiv> 1"
abbreviation SESSION_KEY_VERSION :: u8 where "SESSION_KEY_VERSION \<equiv> 2"
abbreviation SESSION_KEY_RAW_LENGTH :: nat where "SESSION_KEY_RAW_LENGTH \<equiv> 229"

record outbound_group_session =
  og_ratchet :: megolm
  og_signing_key :: ed25519_key_pair
  og_last_error :: olm_error_code

definition outbound_ok :: "outbound_group_session \<Rightarrow> bool" where
  "outbound_ok s \<longleftrightarrow> megolm_ok (og_ratchet s) \<and> ed25519_key_pair_ok (og_signing_key s)"

section \<open>Creation\<close>

text \<open>The zeroed struct: \<open>OLM_SUCCESS\<close> is zero.\<close>

definition olm_clear_outbound_group_session :: outbound_group_session where
  "olm_clear_outbound_group_session =
     \<lparr>og_ratchet = \<lparr>mg_data = replicate 4 (zeros 32), mg_counter = 0\<rparr>,
      og_signing_key = \<lparr>ekp_public_key = zeros 32, ekp_private_key = zeros 64\<rparr>,
      og_last_error = OLM_SUCCESS\<rparr>"

definition olm_outbound_group_session :: outbound_group_session where
  "olm_outbound_group_session = olm_clear_outbound_group_session"

definition olm_outbound_group_session_last_error :: "outbound_group_session \<Rightarrow> string" where
  "olm_outbound_group_session_last_error s = olm_error_to_string (error_value (og_last_error s))"

definition olm_outbound_group_session_last_error_code :: "outbound_group_session \<Rightarrow> olm_error_code" where
  "olm_outbound_group_session_last_error_code s = og_last_error s"

definition olm_init_outbound_group_session_random_length :: nat where
  "olm_init_outbound_group_session_random_length = MEGOLM_RATCHET_LENGTH + ED25519_RANDOM_LENGTH"

text \<open>The session, the cleared random bytes and the result.\<close>

definition olm_init_outbound_group_session ::
    "sodium \<Rightarrow> outbound_group_session \<Rightarrow> bytes \<Rightarrow> outbound_group_session \<times> bytes \<times> nat option" where
  "olm_init_outbound_group_session S s random =
     (if length random < olm_init_outbound_group_session_random_length then
        (s\<lparr>og_last_error := OLM_NOT_ENOUGH_RANDOM\<rparr>, random, None)
      else (s\<lparr>og_ratchet := megolm_init random 0,
              og_signing_key := olm_crypto_ed25519_generate_key S (drop MEGOLM_RATCHET_LENGTH random)\<rparr>,
            zeros (length random), Some 0))"

section \<open>Pickling\<close>

definition outbound_raw_pickle_length :: "outbound_group_session \<Rightarrow> nat" where
  "outbound_raw_pickle_length s =
     4 + megolm_pickle_length (og_ratchet s) + olm_pickle_ed25519_key_pair_length"

definition outbound_raw_pickle :: "outbound_group_session \<Rightarrow> bytes" where
  "outbound_raw_pickle s =
     olm_pickle_uint32 OUTBOUND_PICKLE_VERSION @ megolm_pickle (og_ratchet s)
     @ olm_pickle_ed25519_key_pair (og_signing_key s)"

definition olm_pickle_outbound_group_session_length :: "outbound_group_session \<Rightarrow> nat" where
  "olm_pickle_outbound_group_session_length s = olm_enc_output_length (outbound_raw_pickle_length s)"

definition olm_pickle_outbound_group_session ::
    "sodium \<Rightarrow> outbound_group_session \<Rightarrow> bytes \<Rightarrow> bytes \<Rightarrow> outbound_group_session \<times> bytes \<times> nat option" where
  "olm_pickle_outbound_group_session S s key pickled =
     (case api_pickle_object S (outbound_raw_pickle s) (outbound_raw_pickle_length s) key pickled of
        (pickled, None) \<Rightarrow> (s\<lparr>og_last_error := OLM_OUTPUT_BUFFER_TOO_SMALL\<rparr>, pickled, None)
      | (pickled, Some n) \<Rightarrow> (s, pickled, Some n))"

text \<open>\<open>FAIL_ON_CORRUPTED_PICKLE\<close>: a read past the end sets the error.\<close>

definition outbound_corrupted :: "outbound_group_session unpickled \<Rightarrow> outbound_group_session unpickled" where
  "outbound_corrupted r =
     (case r of (s, None) \<Rightarrow> (s\<lparr>og_last_error := OLM_CORRUPTED_PICKLE\<rparr>, None) | (s, Some pos) \<Rightarrow> (s, Some pos))"

definition outbound_raw_unpickle ::
    "bytes \<Rightarrow> outbound_group_session \<Rightarrow> outbound_group_session unpickled" where
  "outbound_raw_unpickle pos s =
     (case olm_unpickle_uint32 pos 0 of
        (_, None) \<Rightarrow> (s\<lparr>og_last_error := OLM_CORRUPTED_PICKLE\<rparr>, None)
      | (pickle_version, Some pos) \<Rightarrow>
          if pickle_version \<noteq> OUTBOUND_PICKLE_VERSION then
            (s\<lparr>og_last_error := OLM_UNKNOWN_PICKLE_VERSION\<rparr>, None)
          else
            outbound_corrupted (then_unpickle
              (on_field og_ratchet (\<lambda>v s. s\<lparr>og_ratchet := v\<rparr>) megolm_unpickle pos s)
              (on_field og_signing_key (\<lambda>v s. s\<lparr>og_signing_key := v\<rparr>) olm_unpickle_ed25519_key_pair)))"

definition olm_unpickle_outbound_group_session ::
    "sodium \<Rightarrow> outbound_group_session \<Rightarrow> bytes \<Rightarrow> bytes \<Rightarrow> outbound_group_session \<times> bytes \<times> nat option" where
  "olm_unpickle_outbound_group_session S =
     api_unpickle_object S outbound_raw_unpickle og_last_error (\<lambda>e s. s\<lparr>og_last_error := e\<rparr>)"

section \<open>Messages\<close>

definition raw_message_length :: "outbound_group_session \<Rightarrow> nat \<Rightarrow> nat" where
  "raw_message_length s plaintext_length =
     (let ciphertext_length = aes_sha_256_cipher_encrypt_ciphertext_length plaintext_length;
          mac_length = aes_sha_256_cipher_mac_length
      in olm_encode_group_message_length (mg_counter (og_ratchet s)) ciphertext_length mac_length
           ED25519_SIGNATURE_LENGTH)"

definition olm_group_encrypt_message_length :: "outbound_group_session \<Rightarrow> nat \<Rightarrow> nat" where
  "olm_group_encrypt_message_length s plaintext_length =
     olm_encode_base64_length (raw_message_length s plaintext_length)"

text \<open>\<open>_encrypt\<close>, on the part of the buffer that starts at \<open>message_pos\<close>.\<close>

definition outbound_encrypt ::
    "sodium \<Rightarrow> outbound_group_session \<Rightarrow> bytes \<Rightarrow> bytes \<Rightarrow> outbound_group_session \<times> bytes \<times> nat option" where
  "outbound_encrypt S s plaintext buffer =
     (let ciphertext_length = aes_sha_256_cipher_encrypt_ciphertext_length (length plaintext);
          mac_length = aes_sha_256_cipher_mac_length;
          (buffer, message_length, ciphertext_ptr) =
            olm_encode_group_message GROUP_PROTOCOL_VERSION (mg_counter (og_ratchet s)) ciphertext_length buffer;
          message_length = size_add message_length mac_length;
          (region, result) =
            aes_sha_256_cipher_encrypt S MEGOLM_CIPHER_INFO
              (take MEGOLM_RATCHET_LENGTH (megolm_get_data (og_ratchet s))) plaintext
              ciphertext_ptr ciphertext_length (take message_length buffer);
          buffer = write_at buffer 0 region
      in case result of
           None \<Rightarrow> (s, buffer, None)
         | Some n \<Rightarrow>
             let s = s\<lparr>og_ratchet := megolm_advance S (og_ratchet s)\<rparr>;
                 signature = olm_crypto_ed25519_sign S (og_signing_key s) (take message_length buffer)
             in (s, write_at buffer message_length signature, Some n))"

definition olm_group_encrypt ::
    "sodium \<Rightarrow> outbound_group_session \<Rightarrow> bytes \<Rightarrow> bytes \<Rightarrow> outbound_group_session \<times> bytes \<times> nat option" where
  "olm_group_encrypt S s plaintext message =
     (let rawmsglen = raw_message_length s (length plaintext) in
      if length message < olm_encode_base64_length rawmsglen then
        (s\<lparr>og_last_error := OLM_OUTPUT_BUFFER_TOO_SMALL\<rparr>, message, None)
      else
        let message_pos = size_sub (olm_encode_base64_length rawmsglen) rawmsglen;
            (s, region, result) = outbound_encrypt S s plaintext (read_at message message_pos rawmsglen);
            message = write_at message message_pos region
        in case result of
             None \<Rightarrow> (s, message, None)
           | Some _ \<Rightarrow>
               let (message, n) = olm_encode_base64 message message_pos rawmsglen 0
               in (s, message, Some n))"

section \<open>The session id and key\<close>

definition olm_outbound_group_session_id_length :: nat where
  "olm_outbound_group_session_id_length = olm_encode_base64_length GROUP_SESSION_ID_LENGTH"

definition olm_outbound_group_session_id ::
    "outbound_group_session \<Rightarrow> bytes \<Rightarrow> outbound_group_session \<times> bytes \<times> nat option" where
  "olm_outbound_group_session_id s ident =
     (if length ident < olm_outbound_group_session_id_length then
        (s\<lparr>og_last_error := OLM_OUTPUT_BUFFER_TOO_SMALL\<rparr>, ident, None)
      else let (ident, n) = encode_base64_to (take GROUP_SESSION_ID_LENGTH (ekp_public_key (og_signing_key s))) ident
           in (s, ident, Some n))"

definition olm_outbound_group_session_message_index :: "outbound_group_session \<Rightarrow> u32" where
  "olm_outbound_group_session_message_index s = mg_counter (og_ratchet s)"

definition olm_outbound_group_session_key_length :: nat where
  "olm_outbound_group_session_key_length = olm_encode_base64_length SESSION_KEY_RAW_LENGTH"

text \<open>\<open>*ptr++ = 0xFF & (counter >> 24); counter <<= 8\<close>, \<open>n\<close> times.\<close>

primrec counter_bytes :: "nat \<Rightarrow> u32 \<Rightarrow> bytes" where
  "counter_bytes 0 counter = []"
| "counter_bytes (Suc n) counter = ucast (0xFF AND drop_bit 24 counter) # counter_bytes n (push_bit 8 counter)"

definition olm_outbound_group_session_key ::
    "sodium \<Rightarrow> outbound_group_session \<Rightarrow> bytes \<Rightarrow> outbound_group_session \<times> bytes \<times> nat option" where
  "olm_outbound_group_session_key S s key =
     (let encoded_length = olm_outbound_group_session_key_length in
      if length key < encoded_length then
        (s\<lparr>og_last_error := OLM_OUTPUT_BUFFER_TOO_SMALL\<rparr>, key, None)
      else
        let raw = encoded_length - SESSION_KEY_RAW_LENGTH;
            signed = SESSION_KEY_VERSION # counter_bytes 4 (mg_counter (og_ratchet s))
              @ take MEGOLM_RATCHET_LENGTH (megolm_get_data (og_ratchet s))
              @ take ED25519_PUBLIC_KEY_LENGTH (ekp_public_key (og_signing_key s));
            key = write_at key raw signed;
            key = write_at key (raw + length signed) (olm_crypto_ed25519_sign S (og_signing_key s) signed);
            (key, n) = olm_encode_base64 key raw SESSION_KEY_RAW_LENGTH 0
        in (s, key, Some n))"

section \<open>Well-formedness\<close>

lemma megolm_data_length: "megolm_ok m \<Longrightarrow> length (megolm_get_data m) = 128"
  by (simp add: megolm_ok_def megolm_get_data_def concat_parts)

lemma init_outbound_ok:
  "olm_init_outbound_group_session S s random = (s', r, Some n) \<Longrightarrow> outbound_ok s' \<and>
     ed25519_key S (og_signing_key s') \<and> mg_counter (og_ratchet s') = 0"
  by (auto simp: olm_init_outbound_group_session_def olm_init_outbound_group_session_random_length_def
      outbound_ok_def ed25519_key_pair_ok_def ed25519_generate_key megolm_init_ok split: if_splits)
    (simp add: megolm_init_def)

interpretation outbound_object: object_codec outbound_raw_pickle outbound_raw_pickle_length outbound_raw_unpickle
    outbound_ok outbound_ok "\<lambda>v old new. new = v\<lparr>og_last_error := og_last_error old\<rparr>"
proof unfold_locales
  fix v assume v: "outbound_ok v"
  show "length (outbound_raw_pickle v) = outbound_raw_pickle_length v"
    using v by (simp add: outbound_raw_pickle_def outbound_raw_pickle_length_def outbound_ok_def
        megolm_codec.length_pickle ed25519_pair_codec.length_pickle uint32_codec.length_pickle megolm_pickle_length_def)
  show "outbound_raw_pickle_length v < 2 ^ 59"
    by (simp add: outbound_raw_pickle_length_def megolm_pickle_length_def olm_pickle_ed25519_key_pair_length_def)
  fix old assume "outbound_ok old"
  then show "\<exists>new. outbound_raw_unpickle (outbound_raw_pickle v) old = (new, Some [])
      \<and> new = v\<lparr>og_last_error := og_last_error old\<rparr>"
    using v ed25519_pair_codec.unpickle_pickle [of "og_signing_key v" "og_signing_key old" "[]"]
    by (simp add: outbound_raw_unpickle_def outbound_raw_pickle_def outbound_ok_def on_field_def
        outbound_corrupted_def)
qed

section \<open>What encryption writes\<close>

definition group_ciphertext :: "sodium \<Rightarrow> megolm \<Rightarrow> bytes \<Rightarrow> bytes" where
  "group_ciphertext S m p = aes_sha_256_ciphertext S MEGOLM_CIPHER_INFO (megolm_get_data m) p"

definition group_authenticated :: "sodium \<Rightarrow> megolm \<Rightarrow> bytes \<Rightarrow> bytes" where
  "group_authenticated S m p =
     (let body = group_body GROUP_PROTOCOL_VERSION (mg_counter m) (group_ciphertext S m p)
      in body @ aes_sha_256_mac S MEGOLM_CIPHER_INFO (megolm_get_data m) body)"

definition group_message :: "sodium \<Rightarrow> megolm \<Rightarrow> ed25519_key_pair \<Rightarrow> bytes \<Rightarrow> bytes" where
  "group_message S m k p = group_authenticated S m p @ olm_crypto_ed25519_sign S k (group_authenticated S m p)"

lemma length_group_ciphertext: "length (group_ciphertext S m p) = length p + (16 - length p mod 16)"
  by (simp add: group_ciphertext_def length_aes_sha_256_ciphertext)

lemma length_group_message:
  "length (group_message S m k p) =
   length (group_body GROUP_PROTOCOL_VERSION (mg_counter m) (group_ciphertext S m p)) + 72"
  by (simp add: group_message_def group_authenticated_def Let_def)

lemma length_group_body_le:
  assumes "length p < 2 ^ 60"
  shows "length (group_body v i (group_ciphertext S m p)) \<le> length p + 34"
proof -
  have ct: "length (group_ciphertext S m p) \<le> length p + 16" by (simp add: length_group_ciphertext)
  then show ?thesis
    using assms length_varint_64 [of "length (group_ciphertext S m p)"] length_varint_unat32 [of i]
    by (simp add: group_body_def length_field)
qed

lemma raw_message_length_eq:
  assumes "length p < 2 ^ 60"
  shows "raw_message_length s (length p) = length (group_message S (og_ratchet s) k p)"
proof -
  have ct: "length (group_ciphertext S (og_ratchet s) p) = aes_sha_256_cipher_encrypt_ciphertext_length (length p)"
    using assms by (simp add: group_ciphertext_def aes_sha_256.ciphertext_length)
  have "length (group_body GROUP_PROTOCOL_VERSION (mg_counter (og_ratchet s)) (group_ciphertext S (og_ratchet s) p)) + 8 + 64 < 2 ^ 64"
    using length_group_body_le [OF assms, of GROUP_PROTOCOL_VERSION "mg_counter (og_ratchet s)" S "og_ratchet s"] assms by simp
  then show ?thesis
    using olm_encode_group_length_eq [of GROUP_PROTOCOL_VERSION "mg_counter (og_ratchet s)"
        "group_ciphertext S (og_ratchet s) p" 8 64]
    by (simp add: raw_message_length_def length_group_message ct aes_sha_256_cipher_mac_length_def)
qed

lemma outbound_encrypt_eq:
  assumes ok: "outbound_ok s" and p: "length p < 2 ^ 60"
    and m: "length m = length (group_message S (og_ratchet s) (og_signing_key s) p)"
  shows "\<exists>n. outbound_encrypt S s p m =
    (s\<lparr>og_ratchet := megolm_advance S (og_ratchet s)\<rparr>, group_message S (og_ratchet s) (og_signing_key s) p, Some n)"
proof -
  let ?r = "og_ratchet s" and ?k = "og_signing_key s"
  let ?ct = "group_ciphertext S ?r p" and ?key = "megolm_get_data ?r"
  let ?body = "group_body GROUP_PROTOCOL_VERSION (mg_counter ?r) ?ct" and ?auth = "group_authenticated S ?r p"
  have data: "length ?key = 128" using ok by (simp add: outbound_ok_def megolm_data_length)
  have ct: "length ?ct = aes_sha_256_cipher_encrypt_ciphertext_length (length p)"
    using p by (simp add: group_ciphertext_def aes_sha_256.ciphertext_length)
  have B: "length ?body \<le> length p + 34" using p by (rule length_group_body_le)
  have lm: "length m = length ?body + 72" using m by (simp add: length_group_message)
  have lm64: "length m < 2 ^ 64" "length ?body \<le> length m" using lm B p by simp_all
  obtain m' n c where enc: "olm_encode_group_message GROUP_PROTOCOL_VERSION (mg_counter ?r) (length ?ct) m = (m', n, c)"
    using prod_cases3 by blast
  note L = encode_group_layout [OF enc lm64(2,1)]
  have add: "size_add n aes_sha_256_cipher_mac_length = length ?body + 8"
    using L(3) B p by (simp add: aes_sha_256_cipher_mac_length_def size_add_exact)
  let ?x = "take (length ?body + 8) m'"
  have lx: "length ?x = length ?body + 8" using lm L(2) by simp
  have cn: "c + length ?ct = length ?body" using L(3,4) by simp
  have w: "write_at ?x c ?ct = ?body @ read_at m (length ?body) 8"
  proof -
    have "write_at ?x c ?ct = take (length ?body + 8) (write_at m' c ?ct)"
      using cn lm L(2) by (simp add: write_at_def min_def drop_take)
    then show ?thesis using lm unfolding L(1) by (simp add: write_at_def read_at_def)
  qed
  have e: "aes_sha_256_cipher_encrypt S MEGOLM_CIPHER_INFO ?key p c (length ?ct) ?x =
      (?auth, Some (length ?body + 8))"
    using aes_sha_256_encrypt_eq [of p c S MEGOLM_CIPHER_INFO ?key ?x] p cn lx lm
    unfolding group_ciphertext_def [symmetric] w
    by (simp add: write_at_def group_authenticated_def Let_def)
  have la: "length ?auth = length ?body + 8" by (simp add: group_authenticated_def Let_def)
  have t: "take (length ?body + 8) (write_at m' 0 ?auth) = ?auth" using la by (simp add: write_at_def)
  have "write_at (write_at m' 0 ?auth) (length ?body + 8) (olm_crypto_ed25519_sign S ?k ?auth) =
      write_at m' 0 (group_message S ?r ?k p)"
    using la lm L(2) by (simp add: group_message_def write_at_write_at_adj)
  also have "\<dots> = group_message S ?r ?k p" using L(2) m by simp
  finally show ?thesis
    using enc e t by (simp add: outbound_encrypt_def Let_def data add flip: ct)
qed

lemma group_encrypt_eq:
  assumes ok: "outbound_ok s" and p: "length p < 2 ^ 60"
    and raw: "raw = group_message S (og_ratchet s) (og_signing_key s) p" and m: "b64_length (length raw) \<le> length m"
  shows "\<exists>m'. olm_group_encrypt S s p m =
    (s\<lparr>og_ratchet := megolm_advance S (og_ratchet s)\<rparr>, m', Some (b64_length (length raw)))
    \<and> take (b64_length (length raw)) m' = b64_encode raw \<and> length m' = length m"
proof -
  let ?n = "length raw"
  have n: "raw_message_length s (length p) = ?n" using p by (simp add: raw raw_message_length_eq)
  have small: "?n < 2 ^ 61"
    using length_group_body_le [OF p, of GROUP_PROTOCOL_VERSION "mg_counter (og_ratchet s)" S "og_ratchet s"] p
    by (simp add: raw length_group_message)
  note b = b64_lengths [OF small]
  let ?pos = "b64_length ?n - ?n"
  have fit: "?pos + ?n \<le> length m" using m b64_length_ge [of ?n] by simp
  obtain k where e: "outbound_encrypt S s p (read_at m ?pos ?n) =
      (s\<lparr>og_ratchet := megolm_advance S (og_ratchet s)\<rparr>, raw, Some k)"
    using outbound_encrypt_eq [OF ok p, of "read_at m ?pos ?n" S] fit by (auto simp: raw)
  have l: "length (write_at m ?pos raw) = length m" using fit by simp
  have "olm_encode_base64 (write_at m ?pos raw) ?pos ?n 0 =
      (write_at (write_at m ?pos raw) 0 (b64_encode raw), b64_length ?n)"
    using small m l fit by (intro encode_in_place) simp_all
  then show ?thesis
    using m l e by (simp add: olm_group_encrypt_def n b Let_def) (simp add: write_at_def [of _ 0])
qed

section \<open>The session key\<close>

lemma counter_bytes_be32: "counter_bytes 4 c = be32_bytes c"
proof -
  have "(0xFF :: u32) = mask 8" by (simp add: mask_eq_exp_minus_1)
  then have "ucast (0xFF AND x :: u32) = (ucast x :: u8)" for x
    by (simp add: bit_eq_iff bit_simps)
  moreover have "(ucast (drop_bit 24 (push_bit n c)) :: u8) = ucast (drop_bit (24 - n) c)" if "n \<le> 24" for n
    by (rule bit_word_eqI) (use that in \<open>auto simp: bit_simps\<close>)
  note this [of 8] this [of 16] this [of 24]
  ultimately show ?thesis by (simp add: numeral_eq_Suc be32_bytes_def push_bit_push_bit)
qed

definition session_key_signed :: "outbound_group_session \<Rightarrow> bytes" where
  "session_key_signed s = SESSION_KEY_VERSION # be32_bytes (mg_counter (og_ratchet s))
     @ megolm_get_data (og_ratchet s) @ ekp_public_key (og_signing_key s)"

definition session_key_raw :: "sodium \<Rightarrow> outbound_group_session \<Rightarrow> bytes" where
  "session_key_raw S s = session_key_signed s @ olm_crypto_ed25519_sign S (og_signing_key s) (session_key_signed s)"

lemma length_session_key:
  "outbound_ok s \<Longrightarrow> length (session_key_signed s) = 165" "outbound_ok s \<Longrightarrow> length (session_key_raw S s) = 229"
  by (simp_all add: session_key_signed_def session_key_raw_def outbound_ok_def ed25519_key_pair_ok_def megolm_data_length)

lemma outbound_session_key_eq:
  assumes "outbound_ok s" "olm_outbound_group_session_key_length \<le> length m"
  shows "\<exists>m'. olm_outbound_group_session_key S s m = (s, m', Some olm_outbound_group_session_key_length)
    \<and> take olm_outbound_group_session_key_length m' = b64_encode (session_key_raw S s)"
proof -
  let ?raw = "session_key_raw S s" and ?pos = "b64_length 229 - 229"
  have b: "olm_outbound_group_session_key_length = b64_length 229" "b64_length 229 = 306"
    by (simp_all add: olm_outbound_group_session_key_length_def b64_lengths b64_length_def)
  have l: "length ?raw = 229" "length (session_key_signed s) = 165" using assms(1) by (simp_all add: length_session_key)
  have s: "SESSION_KEY_VERSION # counter_bytes 4 (mg_counter (og_ratchet s)) @ take 128 (megolm_get_data (og_ratchet s))
      @ take 32 (ekp_public_key (og_signing_key s)) = session_key_signed s"
    using assms(1) by (simp add: session_key_signed_def counter_bytes_be32 outbound_ok_def ed25519_key_pair_ok_def megolm_data_length)
  have w: "write_at (write_at m ?pos (session_key_signed s)) (?pos + length (session_key_signed s))
      (olm_crypto_ed25519_sign S (og_signing_key s) (session_key_signed s)) = write_at m ?pos ?raw"
    using assms(2) b l unfolding session_key_raw_def by (intro write_at_write_at_adj) simp_all
  have "olm_encode_base64 (write_at m ?pos ?raw) ?pos 229 0 = (write_at (write_at m ?pos ?raw) 0 (b64_encode ?raw), b64_length 229)"
    using assms(2) b l by (intro encode_in_place) simp_all
  then show ?thesis
    using assms(2) l s w b by (simp add: olm_outbound_group_session_key_def Let_def) (simp add: write_at_def [of _ 0])
qed

end
