(* ===== verification/Inbound_Group.thy ===== *)
theory Inbound_Group
  imports Outbound_Group
begin

text \<open>
  \<open>src/inbound_group_session.c\<close>: the receiving side of a group session. It keeps the earliest
  ratchet it was given and the most recent one it used; a message is decrypted with a ratchet
  advanced from one of the two to the index the message claims, after its signature was
  checked.
\<close>

abbreviation INBOUND_PICKLE_VERSION :: u32 where "INBOUND_PICKLE_VERSION \<equiv> 2"
abbreviation SESSION_EXPORT_VERSION :: u8 where "SESSION_EXPORT_VERSION \<equiv> 1"
abbreviation SESSION_EXPORT_RAW_LENGTH :: nat where "SESSION_EXPORT_RAW_LENGTH \<equiv> 165"

record inbound_group_session =
  ig_initial_ratchet :: megolm
  ig_latest_ratchet :: megolm
  ig_signing_key :: ed25519_public_key
  ig_signing_key_verified :: bool
  ig_last_error :: olm_error_code

definition inbound_ok :: "inbound_group_session \<Rightarrow> bool" where
  "inbound_ok s \<longleftrightarrow> megolm_ok (ig_initial_ratchet s) \<and> megolm_ok (ig_latest_ratchet s)
     \<and> length (ig_signing_key s) = 32"

section \<open>Creation\<close>

definition olm_clear_inbound_group_session :: inbound_group_session where
  "olm_clear_inbound_group_session =
     \<lparr>ig_initial_ratchet = \<lparr>mg_data = replicate 4 (zeros 32), mg_counter = 0\<rparr>,
      ig_latest_ratchet = \<lparr>mg_data = replicate 4 (zeros 32), mg_counter = 0\<rparr>,
      ig_signing_key = zeros 32, ig_signing_key_verified = False, ig_last_error = OLM_SUCCESS\<rparr>"

definition olm_inbound_group_session :: inbound_group_session where
  "olm_inbound_group_session = olm_clear_inbound_group_session"

definition olm_inbound_group_session_last_error :: "inbound_group_session \<Rightarrow> string" where
  "olm_inbound_group_session_last_error s = olm_error_to_string (error_value (ig_last_error s))"

definition olm_inbound_group_session_last_error_code :: "inbound_group_session \<Rightarrow> olm_error_code" where
  "olm_inbound_group_session_last_error_code s = ig_last_error s"

text \<open>\<open>for (i = 0; i < 4; i++) { counter <<= 8; counter |= *ptr++; }\<close>\<close>

definition read_counter :: "bytes \<Rightarrow> u32" where
  "read_counter bs = foldl (\<lambda>counter b. push_bit 8 counter OR ucast b) 0 bs"

definition init_group_session_keys ::
    "sodium \<Rightarrow> inbound_group_session \<Rightarrow> bytes \<Rightarrow> bool \<Rightarrow> inbound_group_session \<times> nat option" where
  "init_group_session_keys S s key_buf export_format =
     (let expected_version = (if export_format then SESSION_EXPORT_VERSION else SESSION_KEY_VERSION);
          version = hd key_buf;
          ptr = tl key_buf
      in if version \<noteq> expected_version then (s\<lparr>ig_last_error := OLM_BAD_SESSION_KEY\<rparr>, None)
         else
           let counter = read_counter (take 4 ptr);
               ptr = drop 4 ptr;
               s = s\<lparr>ig_initial_ratchet := megolm_init ptr counter, ig_latest_ratchet := megolm_init ptr counter\<rparr>;
               ptr = drop MEGOLM_RATCHET_LENGTH ptr;
               s = s\<lparr>ig_signing_key := take ED25519_PUBLIC_KEY_LENGTH ptr\<rparr>;
               ptr = drop ED25519_PUBLIC_KEY_LENGTH ptr
           in if export_format then (s, Some 0)
              else if \<not> olm_crypto_ed25519_verify S (ig_signing_key s)
                          (take (length key_buf - length ptr) key_buf) (take ED25519_SIGNATURE_LENGTH ptr)
              then (s\<lparr>ig_last_error := OLM_BAD_SIGNATURE\<rparr>, None)
              else (s\<lparr>ig_signing_key_verified := True\<rparr>, Some 0))"

text \<open>The local \<open>key_buf\<close> has the length the raw key must have.\<close>

definition olm_init_inbound_group_session ::
    "sodium \<Rightarrow> inbound_group_session \<Rightarrow> bytes \<Rightarrow> inbound_group_session \<times> nat option" where
  "olm_init_inbound_group_session S s session_key =
     (let raw_len = olm_decode_base64_length (length session_key) in
      if raw_len = SIZE_MAX then (s\<lparr>ig_last_error := OLM_INVALID_BASE64\<rparr>, None)
      else if raw_len \<noteq> SESSION_KEY_RAW_LENGTH then (s\<lparr>ig_last_error := OLM_BAD_SESSION_KEY\<rparr>, None)
      else let (key_buf, _) = decode_base64_to session_key (zeros SESSION_KEY_RAW_LENGTH)
           in init_group_session_keys S s key_buf False)"

definition olm_import_inbound_group_session ::
    "sodium \<Rightarrow> inbound_group_session \<Rightarrow> bytes \<Rightarrow> inbound_group_session \<times> nat option" where
  "olm_import_inbound_group_session S s session_key =
     (let raw_len = olm_decode_base64_length (length session_key) in
      if raw_len = SIZE_MAX then (s\<lparr>ig_last_error := OLM_INVALID_BASE64\<rparr>, None)
      else if raw_len \<noteq> SESSION_EXPORT_RAW_LENGTH then (s\<lparr>ig_last_error := OLM_BAD_SESSION_KEY\<rparr>, None)
      else let (key_buf, _) = decode_base64_to session_key (zeros SESSION_EXPORT_RAW_LENGTH)
           in init_group_session_keys S s key_buf True)"

section \<open>Pickling\<close>

definition inbound_raw_pickle_length :: "inbound_group_session \<Rightarrow> nat" where
  "inbound_raw_pickle_length s =
     4 + megolm_pickle_length (ig_initial_ratchet s) + megolm_pickle_length (ig_latest_ratchet s)
     + olm_pickle_ed25519_public_key_length + 1"

definition inbound_raw_pickle :: "inbound_group_session \<Rightarrow> bytes" where
  "inbound_raw_pickle s =
     olm_pickle_uint32 INBOUND_PICKLE_VERSION @ megolm_pickle (ig_initial_ratchet s)
     @ megolm_pickle (ig_latest_ratchet s) @ olm_pickle_ed25519_public_key (ig_signing_key s)
     @ olm_pickle_bool (ig_signing_key_verified s)"

definition olm_pickle_inbound_group_session_length :: "inbound_group_session \<Rightarrow> nat" where
  "olm_pickle_inbound_group_session_length s = olm_enc_output_length (inbound_raw_pickle_length s)"

definition olm_pickle_inbound_group_session ::
    "sodium \<Rightarrow> inbound_group_session \<Rightarrow> bytes \<Rightarrow> bytes \<Rightarrow> inbound_group_session \<times> bytes \<times> nat option" where
  "olm_pickle_inbound_group_session S s key pickled =
     (case api_pickle_object S (inbound_raw_pickle s) (inbound_raw_pickle_length s) key pickled of
        (pickled, None) \<Rightarrow> (s\<lparr>ig_last_error := OLM_OUTPUT_BUFFER_TOO_SMALL\<rparr>, pickled, None)
      | (pickled, Some n) \<Rightarrow> (s, pickled, Some n))"

definition inbound_corrupted :: "inbound_group_session unpickled \<Rightarrow> inbound_group_session unpickled" where
  "inbound_corrupted r =
     (case r of (s, None) \<Rightarrow> (s\<lparr>ig_last_error := OLM_CORRUPTED_PICKLE\<rparr>, None) | (s, Some pos) \<Rightarrow> (s, Some pos))"

definition inbound_raw_unpickle :: "bytes \<Rightarrow> inbound_group_session \<Rightarrow> inbound_group_session unpickled" where
  "inbound_raw_unpickle pos s =
     (case olm_unpickle_uint32 pos 0 of
        (_, None) \<Rightarrow> (s\<lparr>ig_last_error := OLM_CORRUPTED_PICKLE\<rparr>, None)
      | (pickle_version, Some pos) \<Rightarrow>
          if pickle_version < 1 \<or> pickle_version > INBOUND_PICKLE_VERSION then
            (s\<lparr>ig_last_error := OLM_UNKNOWN_PICKLE_VERSION\<rparr>, None)
          else
            inbound_corrupted (then_unpickle (then_unpickle (then_unpickle
              (on_field ig_initial_ratchet (\<lambda>v s. s\<lparr>ig_initial_ratchet := v\<rparr>) megolm_unpickle pos s)
              (on_field ig_latest_ratchet (\<lambda>v s. s\<lparr>ig_latest_ratchet := v\<rparr>) megolm_unpickle))
              (on_field ig_signing_key (\<lambda>v s. s\<lparr>ig_signing_key := v\<rparr>) olm_unpickle_ed25519_public_key))
              (\<lambda>pos s. if pickle_version = 1 then (s\<lparr>ig_signing_key_verified := True\<rparr>, Some pos)
                 else on_field ig_signing_key_verified (\<lambda>v s. s\<lparr>ig_signing_key_verified := v\<rparr>)
                        olm_unpickle_bool pos s)))"

definition olm_unpickle_inbound_group_session ::
    "sodium \<Rightarrow> inbound_group_session \<Rightarrow> bytes \<Rightarrow> bytes \<Rightarrow> inbound_group_session \<times> bytes \<times> nat option" where
  "olm_unpickle_inbound_group_session S =
     api_unpickle_object S inbound_raw_unpickle ig_last_error (\<lambda>e s. s\<lparr>ig_last_error := e\<rparr>)"

section \<open>Messages\<close>

definition decrypt_max_plaintext_length :: "inbound_group_session \<Rightarrow> bytes \<Rightarrow> inbound_group_session \<times> nat option" where
  "decrypt_max_plaintext_length s message =
     (let decoded = olm_decode_group_message message aes_sha_256_cipher_mac_length ED25519_SIGNATURE_LENGTH in
      if gr_version decoded \<noteq> GROUP_PROTOCOL_VERSION then (s\<lparr>ig_last_error := OLM_BAD_MESSAGE_VERSION\<rparr>, None)
      else case gr_ciphertext decoded of
             None \<Rightarrow> (s\<lparr>ig_last_error := OLM_BAD_MESSAGE_FORMAT\<rparr>, None)
           | Some c \<Rightarrow> (s, Some (aes_sha_256_cipher_decrypt_max_plaintext_length (length c))))"

definition olm_group_decrypt_max_plaintext_length ::
    "inbound_group_session \<Rightarrow> bytes \<Rightarrow> inbound_group_session \<times> bytes \<times> nat option" where
  "olm_group_decrypt_max_plaintext_length s message =
     (let (message, raw_len) = olm_decode_base64 message 0 (length message) 0 in
      if raw_len = SIZE_MAX then (s\<lparr>ig_last_error := OLM_INVALID_BASE64\<rparr>, message, None)
      else let (s, n) = decrypt_max_plaintext_length s (take raw_len message) in (s, message, n))"

text \<open>The session and the ratchet for a message index; the most recent ratchet may move on.\<close>

definition get_megolm :: "sodium \<Rightarrow> inbound_group_session \<Rightarrow> u32 \<Rightarrow> inbound_group_session \<times> megolm option" where
  "get_megolm S s message_index =
     (if message_index - mg_counter (ig_latest_ratchet s) < push_bit 31 1 then
        let latest = megolm_advance_to S message_index (ig_latest_ratchet s)
        in (s\<lparr>ig_latest_ratchet := latest\<rparr>, Some latest)
      else if message_index - mg_counter (ig_initial_ratchet s) \<ge> push_bit 31 1 then
        (s\<lparr>ig_last_error := OLM_UNKNOWN_MESSAGE_INDEX\<rparr>, None)
      else (s, Some (megolm_advance_to S message_index (ig_initial_ratchet s))))"

text \<open>
  \<open>_decrypt\<close>: the session, the plaintext buffer, what is stored to \<open>*message_index\<close>, and the
  length of the plaintext.
\<close>

definition inbound_decrypt ::
    "sodium \<Rightarrow> inbound_group_session \<Rightarrow> bytes \<Rightarrow> bytes \<Rightarrow>
     inbound_group_session \<times> bytes \<times> u32 option \<times> nat option" where
  "inbound_decrypt S s message plaintext =
     (let decoded = olm_decode_group_message message aes_sha_256_cipher_mac_length ED25519_SIGNATURE_LENGTH in
      if gr_version decoded \<noteq> GROUP_PROTOCOL_VERSION then
        (s\<lparr>ig_last_error := OLM_BAD_MESSAGE_VERSION\<rparr>, plaintext, None, None)
      else if \<not> gr_has_message_index decoded \<or> gr_ciphertext decoded = None then
        (s\<lparr>ig_last_error := OLM_BAD_MESSAGE_FORMAT\<rparr>, plaintext, None, None)
      else
        let message_index = Some (gr_message_index decoded);
            ciphertext = the (gr_ciphertext decoded);
            message_length = length message - ED25519_SIGNATURE_LENGTH
        in if \<not> olm_crypto_ed25519_verify S (ig_signing_key s) (take message_length message)
                  (drop message_length message) then
             (s\<lparr>ig_last_error := OLM_BAD_SIGNATURE\<rparr>, plaintext, message_index, None)
           else if length plaintext < aes_sha_256_cipher_decrypt_max_plaintext_length (length ciphertext) then
             (s\<lparr>ig_last_error := OLM_OUTPUT_BUFFER_TOO_SMALL\<rparr>, plaintext, message_index, None)
           else
             case get_megolm S s (gr_message_index decoded) of
               (s, None) \<Rightarrow> (s, plaintext, message_index, None)
             | (s, Some m) \<Rightarrow>
                 (case aes_sha_256_cipher_decrypt S MEGOLM_CIPHER_INFO
                         (take MEGOLM_RATCHET_LENGTH (megolm_get_data m)) (take message_length message)
                         ciphertext plaintext of
                    (plaintext, None) \<Rightarrow>
                      (s\<lparr>ig_last_error := OLM_BAD_MESSAGE_MAC\<rparr>, plaintext, message_index, None)
                  | (plaintext, Some n) \<Rightarrow>
                      (s\<lparr>ig_signing_key_verified := True\<rparr>, plaintext, message_index, Some n)))"

text \<open>The message is decoded in its buffer, which is the second result.\<close>

definition olm_group_decrypt ::
    "sodium \<Rightarrow> inbound_group_session \<Rightarrow> bytes \<Rightarrow> bytes \<Rightarrow>
     inbound_group_session \<times> bytes \<times> bytes \<times> u32 option \<times> nat option" where
  "olm_group_decrypt S s message plaintext =
     (let (message, raw_len) = olm_decode_base64 message 0 (length message) 0 in
      if raw_len = SIZE_MAX then (s\<lparr>ig_last_error := OLM_INVALID_BASE64\<rparr>, message, plaintext, None, None)
      else let (s, plaintext, message_index, n) = inbound_decrypt S s (take raw_len message) plaintext
           in (s, message, plaintext, message_index, n))"

section \<open>Queries and export\<close>

definition olm_inbound_group_session_id_length :: nat where
  "olm_inbound_group_session_id_length = olm_encode_base64_length GROUP_SESSION_ID_LENGTH"

definition olm_inbound_group_session_id ::
    "inbound_group_session \<Rightarrow> bytes \<Rightarrow> inbound_group_session \<times> bytes \<times> nat option" where
  "olm_inbound_group_session_id s ident =
     (if length ident < olm_inbound_group_session_id_length then
        (s\<lparr>ig_last_error := OLM_OUTPUT_BUFFER_TOO_SMALL\<rparr>, ident, None)
      else let (ident, n) = encode_base64_to (take GROUP_SESSION_ID_LENGTH (ig_signing_key s)) ident
           in (s, ident, Some n))"

definition olm_inbound_group_session_first_known_index :: "inbound_group_session \<Rightarrow> u32" where
  "olm_inbound_group_session_first_known_index s = mg_counter (ig_initial_ratchet s)"

definition olm_inbound_group_session_is_verified :: "inbound_group_session \<Rightarrow> bool" where
  "olm_inbound_group_session_is_verified s = ig_signing_key_verified s"

definition olm_export_inbound_group_session_length :: nat where
  "olm_export_inbound_group_session_length = olm_encode_base64_length SESSION_EXPORT_RAW_LENGTH"

definition olm_export_inbound_group_session ::
    "sodium \<Rightarrow> inbound_group_session \<Rightarrow> bytes \<Rightarrow> u32 \<Rightarrow> inbound_group_session \<times> bytes \<times> nat option" where
  "olm_export_inbound_group_session S s key message_index =
     (let encoded_length = olm_export_inbound_group_session_length in
      if length key < encoded_length then
        (s\<lparr>ig_last_error := OLM_OUTPUT_BUFFER_TOO_SMALL\<rparr>, key, None)
      else case get_megolm S s message_index of
             (s, None) \<Rightarrow> (s, key, None)
           | (s, Some m) \<Rightarrow>
               let raw = encoded_length - SESSION_EXPORT_RAW_LENGTH;
                   key = write_at key raw
                     (SESSION_EXPORT_VERSION # counter_bytes 4 message_index
                      @ take MEGOLM_RATCHET_LENGTH (megolm_get_data m)
                      @ take ED25519_PUBLIC_KEY_LENGTH (ig_signing_key s));
                   (key, n) = olm_encode_base64 key raw SESSION_EXPORT_RAW_LENGTH 0
               in (s, key, Some n))"

section \<open>Pickles\<close>

interpretation inbound_object: object_codec inbound_raw_pickle inbound_raw_pickle_length inbound_raw_unpickle
    inbound_ok inbound_ok "\<lambda>v old new. new = v\<lparr>ig_last_error := ig_last_error old\<rparr>"
proof unfold_locales
  fix v assume v: "inbound_ok v"
  show "length (inbound_raw_pickle v) = inbound_raw_pickle_length v"
    using v by (simp add: inbound_raw_pickle_def inbound_raw_pickle_length_def inbound_ok_def
        megolm_codec.length_pickle ed25519_public_codec.length_pickle uint32_codec.length_pickle
        bool_codec.length_pickle megolm_pickle_length_def)
  show "inbound_raw_pickle_length v < 2 ^ 59"
    by (simp add: inbound_raw_pickle_length_def megolm_pickle_length_def olm_pickle_ed25519_public_key_length_def)
  fix old assume "inbound_ok old"
  then show "\<exists>new. inbound_raw_unpickle (inbound_raw_pickle v) old = (new, Some [])
      \<and> new = v\<lparr>ig_last_error := ig_last_error old\<rparr>"
    using v bool_codec.unpickle_pickle [where rest = "[]"]
    by (simp add: inbound_raw_unpickle_def inbound_raw_pickle_def inbound_ok_def on_field_def
        inbound_corrupted_def)
qed

end
