(* ===== verification/Group_Sync.thy ===== *)
theory Group_Sync
  imports Inbound_Group
begin

text \<open>
  The two sides of a group session together: the session key carries the sending side's ratchet
  to the receivers, every message is decrypted by every receiver that has a ratchet from
  before it, in whatever order the messages arrive, and exporting a session hands its ratchet on.
\<close>

section \<open>Keys\<close>

lemma read_counter_be32: "read_counter (be32_bytes c) = c"
proof -
  have "read_counter [a, b, x, y] = be32_word a b x y" for a b x y
    by (simp add: read_counter_def be32_word_def) (rule bit_word_eqI; auto simp: bit_simps)
  then show ?thesis using be32_word_bytes [of c] by (simp add: be32_bytes_def)
qed

lemma parts_of_append: "parts_ok ps \<Longrightarrow> parts_of (concat ps @ rest) = ps"
  by (auto simp: parts_ok_def length_eq_4 parts_of_def read_at_def)

lemma megolm_init_data: "megolm_ok m \<Longrightarrow> megolm_init (megolm_get_data m @ rest) (mg_counter m) = m"
  by (simp add: megolm_init_def megolm_get_data_def megolm_ok_def parts_of_append)

lemma init_session_keys_eq:
  assumes o: "outbound_ok og" and S: "ed25519_verifies S" "ed25519_key S (og_signing_key og)"
      "signs S (og_signing_key og) (session_key_signed og)"
  shows "init_group_session_keys S s (session_key_raw S og) False =
    (s\<lparr>ig_initial_ratchet := og_ratchet og, ig_latest_ratchet := og_ratchet og,
       ig_signing_key := ekp_public_key (og_signing_key og), ig_signing_key_verified := True\<rparr>, Some 0)"
proof -
  let ?pub = "ekp_public_key (og_signing_key og)" and ?d = "megolm_get_data (og_ratchet og)"
  let ?sig = "olm_crypto_ed25519_sign S (og_signing_key og) (session_key_signed og)"
  have l: "length ?d = 128" "length ?pub = 32" "length (session_key_signed og) = 165" "megolm_ok (og_ratchet og)"
    using o by (simp_all add: outbound_ok_def ed25519_key_pair_ok_def megolm_data_length length_session_key)
  have raw: "session_key_raw S og = SESSION_KEY_VERSION # be32_bytes (mg_counter (og_ratchet og)) @ ?d @ ?pub @ ?sig"
    by (simp add: session_key_raw_def session_key_signed_def)
  have t: "take 165 (session_key_raw S og) = session_key_signed og" using l by (simp add: session_key_raw_def)
  have "length (session_key_raw S og) - 64 = 165" using o by (simp add: length_session_key)
  then show ?thesis
    using t l ed25519_verify_sign [OF S]
    by (simp add: init_group_session_keys_def Let_def) (simp add: raw read_counter_be32 megolm_init_data)
qed

lemma decode_b64:
  assumes "length raw < 2 ^ 60"
  shows "olm_decode_base64 (b64_encode raw) 0 (b64_length (length raw)) 0 =
    (write_at (b64_encode raw) 0 raw, length raw)"
proof -
  have "b64_length (length raw) < 2 ^ 62" using b64_length_bound [of "length raw"] assms by simp
  then show ?thesis
    using olm_decode_base64_eq [of "b64_length (length raw)" 0 "b64_encode raw" 0] b64_length_ge [of "length raw"]
      b64_length_mod [of "length raw"] read_at_all [of "b64_encode raw"]
    by (simp add: raw_b64_length del: read_at_all)
qed

section \<open>Ratchets\<close>

abbreviation megolm_after :: "sodium \<Rightarrow> nat \<Rightarrow> megolm \<Rightarrow> megolm" where
  "megolm_after S n m \<equiv> (megolm_advance S ^^ n) m"

lemma megolm_after_ok: "megolm_ok m \<Longrightarrow> megolm_ok (megolm_after S n m)"
  by (induction n) (simp_all add: megolm_advance_ok)

lemma unat_of_nat32: "n < 2 ^ 32 \<Longrightarrow> unat (of_nat n :: u32) = n"
  by (simp add: unsigned_of_nat take_bit_nat_eq_self)

lemma counter_after: "mg_counter (megolm_after S n m) = mg_counter m + of_nat n"
  by (simp add: advance_run)

lemma advance_to_after:
  assumes "megolm_ok m" "l \<le> k" "k < 2 ^ 32"
  shows "megolm_advance_to S (mg_counter m + of_nat k) (megolm_after S l m) = megolm_after S k m"
proof -
  obtain d where d: "k = d + l" "d < 2 ^ 32"
    using assms(2,3) le_Suc_ex [of l k] by (metis add.commute le_add1 le_trans not_le)
  have "mg_counter m + of_nat k - mg_counter (megolm_after S l m) = of_nat d"
    by (simp add: counter_after d(1))
  moreover have "unat (of_nat d :: u32) = d" using d(2) by (rule unat_of_nat32)
  ultimately have "megolm_advance_to S (mg_counter m + of_nat k) (megolm_after S l m) =
      megolm_after S d (megolm_after S l m)"
    using advance_to_run [OF megolm_after_ok [OF assms(1)]] by simp
  then show ?thesis by (simp add: d(1) funpow_add)
qed

lemma get_megolm_eq:
  assumes ok: "megolm_ok (ig_initial_ratchet s)" and l: "ig_latest_ratchet s = megolm_after S l (ig_initial_ratchet s)"
    and k: "k < 2 ^ 31" "l < 2 ^ 31"
  shows "get_megolm S s (mg_counter (ig_initial_ratchet s) + of_nat k) =
    (s\<lparr>ig_latest_ratchet := megolm_after S (max k l) (ig_initial_ratchet s)\<rparr>,
     Some (megolm_after S k (ig_initial_ratchet s)))"
proof -
  let ?r = "ig_initial_ratchet s"
  have u: "unat (of_nat n :: u32) = n" if "n < 2 ^ 31" for n
    using that by (intro unat_of_nat32) simp
  have c: "mg_counter ?r + of_nat k - mg_counter (megolm_after S l ?r) = of_nat k - of_nat l"
    by (simp add: counter_after)
  have b: "unat (push_bit 31 1 :: u32) = 2 ^ 31" by (simp add: push_bit_eq_mult)
  show ?thesis
  proof (cases "l \<le> k")
    case True
    obtain d where d: "k = d + l" using True le_Suc_ex [of l k] by (metis add.commute)
    have lt: "(of_nat k - of_nat l :: u32) < push_bit 31 1"
      using u [of d] b k by (simp add: word_less_nat_alt d)
    show ?thesis
      using lt True advance_to_after [OF ok True, of S] k by (simp add: get_megolm_def c Let_def l max_def)
  next
    case False
    obtain d where d: "l = d + k" "0 < d" "d < 2 ^ 31"
      using False k le_Suc_ex [of k l] by (metis add.commute add_cancel_left_left gr0I le_add2 le_less_trans nat_le_linear)
    have "(of_nat (2 ^ 32 - d) :: u32) = of_nat (2 ^ 32) - of_nat d" using d by (intro of_nat_diff) simp
    also have "(of_nat (2 ^ 32) :: u32) = 0" by simp
    finally have w: "(of_nat k - of_nat l :: u32) = of_nat (2 ^ 32 - d)" by (simp add: d(1))
    have "unat (of_nat (2 ^ 32 - d) :: u32) = 2 ^ 32 - d" by (rule unat_of_nat32) (use d in simp)
    then have ge: "\<not> (of_nat k - of_nat l :: u32) < push_bit 31 1"
      using b d(3) by (simp only: w word_less_nat_alt) simp
    have lt: "(of_nat k :: u32) < push_bit 31 1" using u k b by (simp add: word_less_nat_alt)
    have s: "s\<lparr>ig_latest_ratchet := megolm_after S l ?r\<rparr> = s" by (simp add: l [symmetric])
    have m: "max k l = l" using False by simp
    show ?thesis
      using ge lt advance_to_after [OF ok, of 0 k S] k
      by (simp add: get_megolm_def c l [symmetric] m s not_le) (simp add: c l m s)
  qed
qed

section \<open>Decrypting a message\<close>

lemma inbound_decrypt_message:
  assumes S: "ed25519_verifies S" "ed25519_key S k" "signs S k (group_authenticated S m p)"
    and key: "ig_signing_key s = ekp_public_key k"
    and m: "megolm_ok m" and p: "length p < 2 ^ 60" and b: "length p + (16 - length p mod 16) \<le> length b"
    and got: "get_megolm S s (mg_counter m) = (s', Some m)"
  shows "inbound_decrypt S s (group_message S m k p) b =
    (s'\<lparr>ig_signing_key_verified := True\<rparr>, write_at b 0 (cbc_padded p), Some (mg_counter m), Some (length p))"
proof -
  let ?auth = "group_authenticated S m p" and ?ct = "group_ciphertext S m p"
  let ?body = "group_body GROUP_PROTOCOL_VERSION (mg_counter m) ?ct"
  let ?sig = "olm_crypto_ed25519_sign S k ?auth" and ?mac = "aes_sha_256_mac S MEGOLM_CIPHER_INFO (megolm_get_data m) ?body"
  have ct: "length ?ct \<le> length p + 16" by (simp add: length_group_ciphertext)
  have auth: "?auth = ?body @ ?mac" by (simp add: group_authenticated_def Let_def)
  have d: "olm_decode_group_message (group_message S m k p) 8 64 =
      \<lparr>gr_version = GROUP_PROTOCOL_VERSION, gr_message_index = mg_counter m, gr_has_message_index = True,
       gr_ciphertext = Some ?ct\<rparr>"
    using decode_group_body [of ?ct ?mac ?sig GROUP_PROTOCOL_VERSION "mg_counter m"] ct p
    by (simp add: group_message_def auth)
  have l: "length (group_message S m k p) - 64 = length ?auth" by (simp add: group_message_def)
  have v: "olm_crypto_ed25519_verify S (ekp_public_key k) ?auth ?sig" using S by (rule ed25519_verify_sign)
  have lc: "length ?ct \<le> length b" using b by (simp add: length_group_ciphertext)
  then have e: "aes_sha_256_cipher_decrypt S MEGOLM_CIPHER_INFO (megolm_get_data m) ?auth ?ct b =
      (write_at b 0 (cbc_padded p), Some (length p))"
    using aes_sha_256_decrypt_ok [of S MEGOLM_CIPHER_INFO "megolm_get_data m" p b ?body]
    by (simp add: auth group_ciphertext_def)
  have t: "take (length ?auth) (group_message S m k p) = ?auth" "drop (length ?auth) (group_message S m k p) = ?sig"
    by (simp_all add: group_message_def)
  show ?thesis
    using lc v e m
    by (simp add: inbound_decrypt_def Let_def aes_sha_256_cipher_mac_length_def d l t key got megolm_data_length
        aes_sha_256_cipher_decrypt_max_plaintext_length_def)
qed

lemma group_decrypt_encoded:
  assumes "length raw < 2 ^ 60"
  shows "olm_group_decrypt S s (b64_encode raw) b =
    (let (s, b, i, n) = inbound_decrypt S s raw b in (s, write_at (b64_encode raw) 0 raw, b, i, n))"
  using assms b64_lengths(6) [of "length raw"] b64_length_ge [of "length raw"]
  by (simp add: olm_group_decrypt_def decode_b64) (simp add: write_at_def)

lemma group_max_plaintext_encoded:
  assumes "length p < 2 ^ 59"
  shows "\<exists>b. olm_group_decrypt_max_plaintext_length s (b64_encode (group_message S m k p)) =
    (s, b, Some (length p + (16 - length p mod 16)))"
proof -
  let ?raw = "group_message S m k p" and ?ct = "group_ciphertext S m p"
  have small: "length ?raw < 2 ^ 60" using assms length_group_body_le [of p GROUP_PROTOCOL_VERSION "mg_counter m" S m]
    by (simp add: length_group_message)
  have "olm_decode_group_message ?raw 8 64 =
      \<lparr>gr_version = GROUP_PROTOCOL_VERSION, gr_message_index = mg_counter m, gr_has_message_index = True,
       gr_ciphertext = Some ?ct\<rparr>"
    using decode_group_body [of ?ct "aes_sha_256_mac S MEGOLM_CIPHER_INFO (megolm_get_data m)
        (group_body GROUP_PROTOCOL_VERSION (mg_counter m) ?ct)" "olm_crypto_ed25519_sign S k (group_authenticated S m p)"
        GROUP_PROTOCOL_VERSION "mg_counter m"] assms
    by (simp add: group_message_def group_authenticated_def Let_def length_group_ciphertext)
  then show ?thesis
    using small b64_lengths(6) [of "length ?raw"] b64_length_ge [of "length ?raw"]
    by (simp add: olm_group_decrypt_max_plaintext_length_def decode_b64 decrypt_max_plaintext_length_def
        aes_sha_256_cipher_mac_length_def aes_sha_256_cipher_decrypt_max_plaintext_length_def)
      (simp add: write_at_def length_group_ciphertext aes_sha_256_cipher_decrypt_max_plaintext_length_def)
qed

section \<open>A whole exchange\<close>

text \<open>A caller that sends plaintexts one after the other, each in a buffer of the length the
  library asks for, and one that decrypts the messages it is handed.\<close>

fun send_group :: "sodium \<Rightarrow> outbound_group_session \<Rightarrow> bytes list \<Rightarrow> outbound_group_session \<times> bytes list" where
  "send_group S og [] = (og, [])"
| "send_group S og (p # ps) =
     (let (og, message, n) =
            olm_group_encrypt S og p (zeros (olm_group_encrypt_message_length og (length p)));
          (og, messages) = send_group S og ps
      in (og, take (the n) message # messages))"

definition receive_one :: "sodium \<Rightarrow> inbound_group_session \<Rightarrow> bytes \<Rightarrow> inbound_group_session \<times> (bytes \<times> u32) option" where
  "receive_one S s message =
     (case olm_group_decrypt_max_plaintext_length s message of
        (s, _, None) \<Rightarrow> (s, None)
      | (s, _, Some n) \<Rightarrow>
          (case olm_group_decrypt S s message (zeros n) of
             (s, _, plaintext, Some index, Some n) \<Rightarrow> (s, Some (take n plaintext, index))
           | (s, _, _, _, _) \<Rightarrow> (s, None)))"

fun receive_group ::
    "sodium \<Rightarrow> inbound_group_session \<Rightarrow> bytes list \<Rightarrow> inbound_group_session \<times> (bytes \<times> u32) option list" where
  "receive_group S s [] = (s, [])"
| "receive_group S s (message # messages) =
     (let (s, r) = receive_one S s message;
          (s, rs) = receive_group S s messages
      in (s, r # rs))"

lemma send_group_eq:
  assumes "outbound_ok og" "\<forall>p \<in> set ps. length p < 2 ^ 59"
  shows "send_group S og ps =
    (og\<lparr>og_ratchet := megolm_after S (length ps) (og_ratchet og)\<rparr>,
     map (\<lambda>(i, p). b64_encode (group_message S (megolm_after S i (og_ratchet og)) (og_signing_key og) p))
       (enumerate 0 ps))"
  using assms
proof (induction ps arbitrary: og)
  case (Cons p ps)
  let ?og = "og\<lparr>og_ratchet := megolm_advance S (og_ratchet og)\<rparr>"
  let ?raw = "group_message S (og_ratchet og) (og_signing_key og) p"
  have p: "length p < 2 ^ 60" "length p < 2 ^ 59" using Cons.prems by simp_all
  have small: "length ?raw < 2 ^ 61"
    using length_group_body_le [OF p(1), of GROUP_PROTOCOL_VERSION "mg_counter (og_ratchet og)" S "og_ratchet og"] p
    by (simp add: length_group_message)
  have len: "olm_group_encrypt_message_length og (length p) = b64_length (length ?raw)"
    using raw_message_length_eq [OF p(1), of og S "og_signing_key og"] b64_lengths(2) [OF small]
    by (simp add: olm_group_encrypt_message_length_def)
  obtain m' where m': "olm_group_encrypt S og p (zeros (b64_length (length ?raw))) = (?og, m', Some (b64_length (length ?raw)))"
      "take (b64_length (length ?raw)) m' = b64_encode ?raw"
    using group_encrypt_eq [OF Cons.prems(1) p(1) refl, of S "zeros (b64_length (length ?raw))"] by auto
  have "outbound_ok ?og" using Cons.prems(1) by (simp add: outbound_ok_def megolm_advance_ok)
  then have "send_group S ?og ps = (?og\<lparr>og_ratchet := megolm_after S (length ps) (og_ratchet ?og)\<rparr>,
      map (\<lambda>(i, p). b64_encode (group_message S (megolm_after S i (og_ratchet ?og)) (og_signing_key ?og) p))
        (enumerate 0 ps))"
    using Cons.prems by (intro Cons.IH) simp_all
  moreover have "enumerate (Suc 0) ps = map (\<lambda>(i, p). (Suc i, p)) (enumerate 0 ps)"
    by (simp add: list_eq_iff_nth_eq nth_enumerate_eq)
  ultimately show ?case
    using m' by (simp add: len comp_def case_prod_unfold funpow_swap1)
qed simp

lemma receive_one_eq:
  assumes S: "ed25519_verifies S" "ed25519_key S k"
      "signs S k (group_authenticated S (megolm_after S i (ig_initial_ratchet s)) p)" "ig_signing_key s = ekp_public_key k"
    and ok: "megolm_ok (ig_initial_ratchet s)" and l: "ig_latest_ratchet s = megolm_after S l (ig_initial_ratchet s)"
    and i: "i < 2 ^ 31" "l < 2 ^ 31" and p: "length p < 2 ^ 59"
  shows "receive_one S s (b64_encode (group_message S (megolm_after S i (ig_initial_ratchet s)) k p)) =
    (s\<lparr>ig_latest_ratchet := megolm_after S (max i l) (ig_initial_ratchet s), ig_signing_key_verified := True\<rparr>,
     Some (p, mg_counter (ig_initial_ratchet s) + of_nat i))"
proof -
  let ?m = "megolm_after S i (ig_initial_ratchet s)" and ?n = "length p + (16 - length p mod 16)"
  let ?raw = "group_message S ?m k p"
  have small: "length ?raw < 2 ^ 60" using p length_group_body_le [of p GROUP_PROTOCOL_VERSION "mg_counter ?m" S ?m]
    by (simp add: length_group_message)
  obtain b where b: "olm_group_decrypt_max_plaintext_length s (b64_encode ?raw) = (s, b, Some ?n)"
    using group_max_plaintext_encoded [OF p] by blast
  have pad: "length (cbc_padded p) = ?n" "take (length p) (cbc_padded p) = p" by (simp_all add: cbc_padded_def)
  have "get_megolm S s (mg_counter ?m) =
      (s\<lparr>ig_latest_ratchet := megolm_after S (max i l) (ig_initial_ratchet s)\<rparr>, Some ?m)"
    using get_megolm_eq [OF ok l i] by (simp add: counter_after)
  then have "olm_group_decrypt S s (b64_encode ?raw) (zeros ?n) =
      (s\<lparr>ig_latest_ratchet := megolm_after S (max i l) (ig_initial_ratchet s), ig_signing_key_verified := True\<rparr>,
       write_at (b64_encode ?raw) 0 ?raw, cbc_padded p, Some (mg_counter ?m), Some (length p))"
    using group_decrypt_encoded [OF small]
      inbound_decrypt_message [OF S megolm_after_ok [OF ok], of "zeros ?n"] p pad
    by simp
  then show ?thesis using b pad by (simp add: receive_one_def counter_after)
qed

lemma receive_group_eq:
  assumes S: "ed25519_verifies S" "ed25519_key S k"
    and ps: "\<forall>p \<in> set ps. length p < 2 ^ 59" "length ps \<le> 2 ^ 31"
  shows "set order \<subseteq> {..<length ps} \<Longrightarrow>
    (\<And>i. i < length ps \<Longrightarrow> signs S k (group_authenticated S (megolm_after S i (ig_initial_ratchet s)) (ps ! i))) \<Longrightarrow>
    ig_signing_key s = ekp_public_key k \<Longrightarrow>
    megolm_ok (ig_initial_ratchet s) \<Longrightarrow> ig_latest_ratchet s = megolm_after S l (ig_initial_ratchet s) \<Longrightarrow> l < 2 ^ 31 \<Longrightarrow>
    snd (receive_group S s
      (map (\<lambda>i. b64_encode (group_message S (megolm_after S i (ig_initial_ratchet s)) k (ps ! i))) order)) =
    map (\<lambda>i. Some (ps ! i, mg_counter (ig_initial_ratchet s) + of_nat i)) order"
proof (induction order arbitrary: s l)
  case (Cons i order)
  let ?s = "s\<lparr>ig_latest_ratchet := megolm_after S (max i l) (ig_initial_ratchet s), ig_signing_key_verified := True\<rparr>"
  have i: "i < 2 ^ 31" "length (ps ! i) < 2 ^ 59" using Cons.prems(1) ps by auto
  have "receive_one S s (b64_encode (group_message S (megolm_after S i (ig_initial_ratchet s)) k (ps ! i))) =
      (?s, Some (ps ! i, mg_counter (ig_initial_ratchet s) + of_nat i))"
    using Cons.prems i S by (intro receive_one_eq) auto
  moreover have "max i l < 2 ^ 31" using i(1) Cons.prems(6) by simp
  ultimately show ?case
    using Cons.prems Cons.IH [of ?s "max i l"] by (simp add: case_prod_unfold)
qed simp

section \<open>What decryption accepts\<close>

definition decoded_message :: "bytes \<Rightarrow> bytes" where
  "decoded_message message = (let (m, n) = olm_decode_base64 message 0 (length message) 0 in take n m)"

lemma get_megolm_outcome:
  assumes "inbound_ok s" "get_megolm S s i = (s', r)"
  shows "inbound_ok s'" "ig_initial_ratchet s' = ig_initial_ratchet s" "ig_signing_key s' = ig_signing_key s"
    "ig_signing_key_verified s' = ig_signing_key_verified s"
    "r = None \<Longrightarrow> ig_last_error s' = OLM_UNKNOWN_MESSAGE_INDEX"
    "r = Some m \<Longrightarrow> i - mg_counter (ig_initial_ratchet s) < push_bit 31 1
       \<or> i - mg_counter (ig_latest_ratchet s) < push_bit 31 1"
  using assms by (auto simp: get_megolm_def Let_def inbound_ok_def megolm_advance_to_ok split: if_splits)

text \<open>The two ways a decryption ends.\<close>

definition rejected_by :: "inbound_group_session \<Rightarrow> bytes \<Rightarrow> inbound_group_session \<Rightarrow> bytes \<Rightarrow> bool" where
  "rejected_by s b s' b' \<longleftrightarrow> inbound_ok s' \<and> ig_initial_ratchet s' = ig_initial_ratchet s
     \<and> ig_signing_key s' = ig_signing_key s \<and> length b' = length b
     \<and> ig_signing_key_verified s' = ig_signing_key_verified s
     \<and> ig_last_error s' \<in> {OLM_INVALID_BASE64, OLM_BAD_MESSAGE_VERSION, OLM_BAD_MESSAGE_FORMAT,
         OLM_BAD_SIGNATURE, OLM_OUTPUT_BUFFER_TOO_SMALL, OLM_UNKNOWN_MESSAGE_INDEX, OLM_BAD_MESSAGE_MAC}"

definition signed_and_reached :: "sodium \<Rightarrow> inbound_group_session \<Rightarrow> bytes \<Rightarrow> u32 option \<Rightarrow> bool" where
  "signed_and_reached S s raw i \<longleftrightarrow>
     olm_crypto_ed25519_verify S (ig_signing_key s) (take (length raw - 64) raw) (drop (length raw - 64) raw)
     \<and> i = Some (gr_message_index (olm_decode_group_message raw 8 64))
     \<and> (the i - mg_counter (ig_initial_ratchet s) < push_bit 31 1
        \<or> the i - mg_counter (ig_latest_ratchet s) < push_bit 31 1)"

lemma four_checks:
  "(if a then x1 else if b then x2 else if \<not> v then x3 else if c then x4 else y) = z \<Longrightarrow>
   z = x1 \<or> z = x2 \<or> z = x3 \<or> z = x4 \<or> (v \<and> z = y)"
  by (auto split: if_splits)

lemma inbound_decrypt_outcome:
  assumes ok: "inbound_ok s" and d: "inbound_decrypt S s raw b = (s', b', i, r)"
  shows "if r = None then rejected_by s b s' b'
    else inbound_ok s' \<and> ig_initial_ratchet s' = ig_initial_ratchet s \<and> ig_signing_key s' = ig_signing_key s
      \<and> length b' = length b \<and> the r \<le> length b \<and> signed_and_reached S s raw i"
proof -
  let ?d = "olm_decode_group_message raw 8 64"
  let ?ct = "the (gr_ciphertext ?d)" and ?n = "length raw - 64"
  consider (early) e j where "(s', b', i, r) = (s\<lparr>ig_last_error := e\<rparr>, b, j, None)"
      "e \<in> {OLM_BAD_MESSAGE_VERSION, OLM_BAD_MESSAGE_FORMAT, OLM_BAD_SIGNATURE, OLM_OUTPUT_BUFFER_TOO_SMALL}"
    | (late) "olm_crypto_ed25519_verify S (ig_signing_key s) (take ?n raw) (drop ?n raw)"
      "(s', b', i, r) = (case get_megolm S s (gr_message_index ?d) of
         (s, None) \<Rightarrow> (s, b, Some (gr_message_index ?d), None)
       | (s, Some m) \<Rightarrow>
           (case aes_sha_256_cipher_decrypt S MEGOLM_CIPHER_INFO (take 128 (megolm_get_data m)) (take ?n raw) ?ct b of
              (b, None) \<Rightarrow> (s\<lparr>ig_last_error := OLM_BAD_MESSAGE_MAC\<rparr>, b, Some (gr_message_index ?d), None)
            | (b, Some n) \<Rightarrow> (s\<lparr>ig_signing_key_verified := True\<rparr>, b, Some (gr_message_index ?d), Some n)))"
    using four_checks [OF d [unfolded inbound_decrypt_def Let_def aes_sha_256_cipher_mac_length_def]]
    by (elim disjE conjE; blast intro: that)
  then show ?thesis
  proof cases
    case early
    then show ?thesis using ok by (auto simp: rejected_by_def inbound_ok_def)
  next
    case late
    obtain s1 g where g: "get_megolm S s (gr_message_index ?d) = (s1, g)" by force
    note G = get_megolm_outcome [OF ok g]
    show ?thesis
    proof (cases g)
      case None
      then show ?thesis using late g G by (simp add: rejected_by_def)
    next
      case (Some m)
      obtain b1 q where q: "aes_sha_256_cipher_decrypt S MEGOLM_CIPHER_INFO (take 128 (megolm_get_data m))
          (take ?n raw) ?ct b = (b1, q)" by force
      show ?thesis
        using late g G(1-4) G(6) [OF Some] Some aes_sha_256_decrypt_bound [OF q]
        by (cases q) (simp_all add: q rejected_by_def signed_and_reached_def inbound_ok_def)
    qed
  qed
qed

section \<open>Sharing the session key\<close>

lemma init_inbound_from_key:
  assumes "outbound_ok og" "ed25519_verifies S" "ed25519_key S (og_signing_key og)"
      "signs S (og_signing_key og) (session_key_signed og)"
    and "olm_outbound_group_session_key S og m = (og', m', Some n)"
  shows "og' = og" and "olm_init_inbound_group_session S s (take n m') =
    (s\<lparr>ig_initial_ratchet := og_ratchet og, ig_latest_ratchet := og_ratchet og,
       ig_signing_key := ekp_public_key (og_signing_key og), ig_signing_key_verified := True\<rparr>, Some 0)"
proof -
  have fit: "olm_outbound_group_session_key_length \<le> length m"
    using assms(5) by (auto simp: olm_outbound_group_session_key_def Let_def split: if_splits)
  have b: "b64_length 229 = 306" "olm_decode_base64_length 306 = 229" "(306 :: nat) \<noteq> SIZE_MAX" "(229 :: nat) \<noteq> SIZE_MAX"
    using b64_lengths(5) [of 229] by (simp_all add: b64_length_def SIZE_MAX_def)
  show "og' = og" using outbound_session_key_eq [OF assms(1) fit, of S] assms(5) by simp
  have t: "take n m' = b64_encode (session_key_raw S og)"
    using outbound_session_key_eq [OF assms(1) fit, of S] assms(5) by auto
  have l: "length (session_key_raw S og) = 229" using assms(1) by (simp add: length_session_key)
  have "fst (decode_base64_to (b64_encode (session_key_raw S og)) (zeros 229)) = session_key_raw S og"
    using l by (simp add: decode_base64_to_encoded)
  then show "olm_init_inbound_group_session S s (take n m') =
    (s\<lparr>ig_initial_ratchet := og_ratchet og, ig_latest_ratchet := og_ratchet og,
       ig_signing_key := ekp_public_key (og_signing_key og), ig_signing_key_verified := True\<rparr>, Some 0)"
    using init_session_keys_eq [OF assms(1-4), of s]
    by (simp add: olm_init_inbound_group_session_def t l b case_prod_unfold)
qed

section \<open>Exporting a session\<close>

definition export_raw :: "megolm \<Rightarrow> bytes \<Rightarrow> bytes" where
  "export_raw m key = SESSION_EXPORT_VERSION # be32_bytes (mg_counter m) @ megolm_get_data m @ key"

lemma export_eq:
  assumes "inbound_ok s" "olm_export_inbound_group_session_length \<le> length b"
    and got: "get_megolm S s i = (s', Some m)" "ig_signing_key s' = ig_signing_key s" "megolm_ok m" "mg_counter m = i"
  shows "\<exists>b'. olm_export_inbound_group_session S s b i = (s', b', Some 220)
    \<and> take 220 b' = b64_encode (export_raw m (ig_signing_key s))"
proof -
  let ?raw = "export_raw m (ig_signing_key s)"
  have b: "olm_export_inbound_group_session_length = 220" "b64_length 165 = 220"
    by (simp_all add: olm_export_inbound_group_session_length_def b64_lengths b64_length_def)
  have l: "length ?raw = 165" using assms(1,5) by (simp add: export_raw_def megolm_data_length inbound_ok_def)
  have raw: "SESSION_EXPORT_VERSION # counter_bytes 4 i @ take 128 (megolm_get_data m) @ take 32 (ig_signing_key s) = ?raw"
    using assms(1,5) got(4) by (simp add: export_raw_def counter_bytes_be32 megolm_data_length inbound_ok_def)
  have "olm_encode_base64 (write_at b (b64_length 165 - 165) ?raw) (b64_length 165 - 165) 165 0 =
      (write_at (write_at b (b64_length 165 - 165) ?raw) 0 (b64_encode ?raw), b64_length 165)"
    using assms(2) b l by (intro encode_in_place) simp_all
  then show ?thesis
    using assms(2) l raw b got by (simp add: olm_export_inbound_group_session_def Let_def) (simp add: write_at_def [of _ 0])
qed

lemma import_eq:
  assumes "megolm_ok m" "length key = 32"
  shows "olm_import_inbound_group_session S t (b64_encode (export_raw m key)) =
    (t\<lparr>ig_initial_ratchet := m, ig_latest_ratchet := m, ig_signing_key := key\<rparr>, Some 0)"
proof -
  have b: "b64_length 165 = 220" "olm_decode_base64_length 220 = 165" "(220 :: nat) \<noteq> SIZE_MAX" "(165 :: nat) \<noteq> SIZE_MAX"
    using b64_lengths(5) [of 165] by (simp_all add: b64_length_def SIZE_MAX_def)
  have l: "length (export_raw m key) = 165" using assms by (simp add: export_raw_def megolm_data_length)
  have "fst (decode_base64_to (b64_encode (export_raw m key)) (zeros 165)) = export_raw m key"
    using l by (simp add: decode_base64_to_encoded)
  moreover have "init_group_session_keys S t (export_raw m key) True =
      (t\<lparr>ig_initial_ratchet := m, ig_latest_ratchet := m, ig_signing_key := key\<rparr>, Some 0)"
    using assms
    by (simp add: init_group_session_keys_def export_raw_def Let_def read_counter_be32 megolm_init_data megolm_data_length)
  ultimately show ?thesis
    by (simp add: olm_import_inbound_group_session_def l b case_prod_unfold)
qed

section \<open>Properties\<close>

text \<open>C8: A group session delivers every message, in any order and any number of times. After the
  sender's \<open>olm_outbound_group_session_key\<close> is given to \<open>olm_init_inbound_group_session\<close>, the
  receiver decrypts each of the next \<open>2 ^ 31\<close> messages the sender encrypts to its plaintext and its
  index, whichever of them it is handed, whenever, and however often. The signing key is one the
  library generates (its private scalar is clamped), and no nonce of the signatures is zero: the
  code does not look at that, and for a random message it happens once in \<open>2 ^ 252\<close>.\<close>

theorem group_delivers_in_any_order:
  assumes "ed25519_verifies S" "ed25519_key S (og_signing_key og)" "outbound_ok og"
    and signs: "signs S (og_signing_key og) (session_key_signed og)"
      "\<forall>i < length ps. signs S (og_signing_key og) (group_authenticated S (megolm_after S i (og_ratchet og)) (ps ! i))"
    and key: "olm_outbound_group_session_key S og m = (og1, m', Some n)"
    and ps: "\<forall>p \<in> set ps. length p < 2 ^ 59" "length ps \<le> 2 ^ 31"
    and order: "set order \<subseteq> {..<length ps}"
  shows "(let (s, r) = olm_init_inbound_group_session S s0 (take n m');
              (og2, messages) = send_group S og1 ps;
              (s', results) = receive_group S s (map ((!) messages) order)
          in r = Some 0
             \<and> results = map (\<lambda>i. Some (ps ! i, olm_outbound_group_session_message_index og1 + of_nat i)) order)"
proof -
  let ?r = "og_ratchet og" and ?k = "og_signing_key og"
  let ?s = "s0\<lparr>ig_initial_ratchet := ?r, ig_latest_ratchet := ?r, ig_signing_key := ekp_public_key ?k,
      ig_signing_key_verified := True\<rparr>"
  note k = init_inbound_from_key [OF assms(3,1,2) signs(1) key]
  let ?msgs = "map (\<lambda>(i, p). b64_encode (group_message S (megolm_after S i ?r) ?k p)) (enumerate 0 ps)"
  have msgs: "map ((!) ?msgs) order =
      map (\<lambda>i. b64_encode (group_message S (megolm_after S i (ig_initial_ratchet ?s)) ?k (ps ! i))) order"
    using order by (auto simp: nth_enumerate_eq)
  have "snd (receive_group S ?s (map ((!) ?msgs) order)) =
      map (\<lambda>i. Some (ps ! i, mg_counter ?r + of_nat i)) order"
    unfolding msgs using receive_group_eq [OF assms(1,2) ps order, of ?s 0] assms(3) signs(2)
    by (simp add: outbound_ok_def)
  then show ?thesis
    using k(2) [of s0] send_group_eq [OF assms(3) ps(1), of S]
    by (simp del: map_map add: k(1) case_prod_unfold olm_outbound_group_session_message_index_def)
qed

text \<open>C16: Exporting an inbound session at an index and importing the result gives a session that
  starts at that index, with the ratchet advanced to it and the same signing key: the importer
  reads what the exporter reads from there on, and nothing before.\<close>

theorem group_export_import:
  assumes "inbound_ok s" "ig_latest_ratchet s = megolm_after S l (ig_initial_ratchet s)" "k < 2 ^ 31" "l < 2 ^ 31"
    and "olm_export_inbound_group_session S s b
           (olm_inbound_group_session_first_known_index s + of_nat k) = (s', b', Some n)"
  shows "olm_import_inbound_group_session S t (take n b') =
    (t\<lparr>ig_initial_ratchet := megolm_after S k (ig_initial_ratchet s),
       ig_latest_ratchet := megolm_after S k (ig_initial_ratchet s), ig_signing_key := ig_signing_key s\<rparr>, Some 0)
    \<and> s' = s\<lparr>ig_latest_ratchet := megolm_after S (max k l) (ig_initial_ratchet s)\<rparr>"
proof -
  let ?m = "megolm_after S k (ig_initial_ratchet s)"
  have ok: "megolm_ok (ig_initial_ratchet s)" "length (ig_signing_key s) = 32"
    using assms(1) by (simp_all add: inbound_ok_def)
  have fit: "olm_export_inbound_group_session_length \<le> length b"
    using assms(5) by (auto simp: olm_export_inbound_group_session_def Let_def split: if_splits)
  note got = get_megolm_eq [OF ok(1) assms(2-4)]
  obtain b1 where "olm_export_inbound_group_session S s b (mg_counter (ig_initial_ratchet s) + of_nat k) =
      (s\<lparr>ig_latest_ratchet := megolm_after S (max k l) (ig_initial_ratchet s)\<rparr>, b1, Some 220)"
      "take 220 b1 = b64_encode (export_raw ?m (ig_signing_key s))"
    using export_eq [OF assms(1) fit got] megolm_after_ok [OF ok(1)] counter_after by auto
  then show ?thesis
    using import_eq [OF megolm_after_ok [OF ok(1)] ok(2)] assms(5)
    by (simp add: olm_inbound_group_session_first_known_index_def)
qed

text \<open>C15: What an inbound group session accepts is signed: \<open>olm_group_decrypt\<close> returns a plaintext
  only for a message whose decoded bytes carry a valid signature under the session's signing
  key, and for an index the session's ratchets reach; every other input fails with a reason and
  leaves the keys, the earliest ratchet and the verified flag as they were.\<close>

theorem group_decrypt_authentic:
  assumes "inbound_ok s" "olm_group_decrypt S s message b = (s', message', b', i, r)"
  shows "if r = None then rejected_by s b s' b'
    else inbound_ok s' \<and> ig_initial_ratchet s' = ig_initial_ratchet s \<and> ig_signing_key s' = ig_signing_key s
      \<and> length b' = length b \<and> the r \<le> length b \<and> signed_and_reached S s (decoded_message message) i"
proof (cases "snd (olm_decode_base64 message 0 (length message) 0) = SIZE_MAX")
  case True
  then show ?thesis
    using assms by (auto simp: olm_group_decrypt_def case_prod_unfold rejected_by_def inbound_ok_def)
next
  case False
  then have "inbound_decrypt S s (decoded_message message) b = (s', b', i, r)"
    using assms(2) by (cases "inbound_decrypt S s (decoded_message message) b")
      (auto simp: olm_group_decrypt_def decoded_message_def Let_def split: prod.splits)
  then show ?thesis by (rule inbound_decrypt_outcome [OF assms(1)])
qed

text \<open>C17: The two kinds of group session survive being pickled under a key and unpickled into any
  object of their type: ratchets, keys and the verified flag come back, and the only field that
  is not restored is the error of the object unpickled into.\<close>

theorem group_sessions_pickle:
  assumes "outbound_ok og" "outbound_ok og0" "inbound_ok s" "inbound_ok s0"
    and "olm_pickle_outbound_group_session S og key m = (og1, m1, Some n)"
    and "olm_pickle_inbound_group_session S s key m = (s1, m2, Some l)"
  shows "(let (og2, _, r) = olm_unpickle_outbound_group_session S og0 key (take n m1)
          in og2 = og\<lparr>og_last_error := og_last_error og0\<rparr> \<and> r = Some n)
    \<and> (let (s2, _, r) = olm_unpickle_inbound_group_session S s0 key (take l m2)
       in s2 = s\<lparr>ig_last_error := ig_last_error s0\<rparr> \<and> r = Some l)"
proof
  have "api_pickle_object S (outbound_raw_pickle og) (outbound_raw_pickle_length og) key m = (m1, Some n)"
    using assms(5) by (auto simp: olm_pickle_outbound_group_session_def split: prod.splits option.splits)
  then show "let (og2, _, r) = olm_unpickle_outbound_group_session S og0 key (take n m1)
      in og2 = og\<lparr>og_last_error := og_last_error og0\<rparr> \<and> r = Some n"
    using outbound_object.unpickle_pickle_object [OF assms(1,2), of S key m m1 n og_last_error "\<lambda>e s. s\<lparr>og_last_error := e\<rparr>"]
    by (auto simp: olm_unpickle_outbound_group_session_def)
  have "api_pickle_object S (inbound_raw_pickle s) (inbound_raw_pickle_length s) key m = (m2, Some l)"
    using assms(6) by (auto simp: olm_pickle_inbound_group_session_def split: prod.splits option.splits)
  then show "let (s2, _, r) = olm_unpickle_inbound_group_session S s0 key (take l m2)
      in s2 = s\<lparr>ig_last_error := ig_last_error s0\<rparr> \<and> r = Some l"
    using inbound_object.unpickle_pickle_object [OF assms(3,4), of S key m m2 l ig_last_error "\<lambda>e s. s\<lparr>ig_last_error := e\<rparr>"]
    by (auto simp: olm_unpickle_inbound_group_session_def)
qed

section \<open>Witnesses\<close>

definition sample_group :: outbound_group_session where
  "sample_group = fst (olm_init_outbound_group_session sample_sodium olm_outbound_group_session (zeros 160))"

lemma sample_group_ok: "outbound_ok sample_group" "ed25519_key sample_sodium (og_signing_key sample_group)"
  using init_outbound_ok [of sample_sodium olm_outbound_group_session "zeros 160" sample_group "zeros 160" 0]
  by (simp_all add: sample_group_def olm_init_outbound_group_session_def olm_init_outbound_group_session_random_length_def)

lemma sample_group_key:
  obtains m' where "olm_outbound_group_session_key sample_sodium sample_group (zeros 306) =
    (sample_group, m', Some olm_outbound_group_session_key_length)"
proof -
  have "olm_outbound_group_session_key_length \<le> length (zeros 306)"
    by (simp add: olm_outbound_group_session_key_length_def b64_lengths b64_length_def)
  then show thesis using outbound_session_key_eq [OF sample_group_ok(1)] that by blast
qed

definition sample_receiver :: inbound_group_session where
  "sample_receiver = olm_inbound_group_session
     \<lparr>ig_initial_ratchet := og_ratchet sample_group, ig_latest_ratchet := og_ratchet sample_group\<rparr>"

lemma sample_receiver_ok: "inbound_ok sample_receiver" "ig_initial_ratchet sample_receiver = og_ratchet sample_group"
  "ig_latest_ratchet sample_receiver = og_ratchet sample_group"
  using sample_group_ok(1)
  by (simp_all add: sample_receiver_def inbound_ok_def outbound_ok_def olm_inbound_group_session_def
      olm_clear_inbound_group_session_def)

lemma group_delivers_in_any_order_witness:
  "\<exists>og1 m' n. olm_outbound_group_session_key sample_sodium sample_group (zeros 306) = (og1, m', Some n) \<and>
     (let (s, r) = olm_init_inbound_group_session sample_sodium olm_inbound_group_session (take n m');
          (og2, messages) = send_group sample_sodium og1 [[1], [2, 3], []];
          (s', results) = receive_group sample_sodium s (map ((!) messages) [2, 0, 1, 2])
      in r = Some 0 \<and> results = map (\<lambda>i. Some ([[1], [2, 3], []] ! i,
        olm_outbound_group_session_message_index og1 + of_nat i)) [2, 0, 1, 2])"
proof -
  obtain m' where "olm_outbound_group_session_key sample_sodium sample_group (zeros 306) =
      (sample_group, m', Some olm_outbound_group_session_key_length)" by (rule sample_group_key)
  then show ?thesis
    using group_delivers_in_any_order [OF sample_ed25519_verifies sample_group_ok(2,1) sample_signs, where ps = "[[1], [2, 3], []]"
        and order = "[2, 0, 1, 2]" and ?s0.0 = olm_inbound_group_session]
    by (intro exI conjI) (simp_all add: sample_signs)
qed

lemma group_export_import_witness:
  "\<exists>s' b' n. olm_export_inbound_group_session sample_sodium sample_receiver (zeros 220)
       (olm_inbound_group_session_first_known_index sample_receiver + of_nat 3) = (s', b', Some n)
     \<and> olm_import_inbound_group_session sample_sodium olm_inbound_group_session (take n b') =
       (olm_inbound_group_session\<lparr>ig_initial_ratchet := megolm_after sample_sodium 3 (og_ratchet sample_group),
          ig_latest_ratchet := megolm_after sample_sodium 3 (og_ratchet sample_group),
          ig_signing_key := ig_signing_key sample_receiver\<rparr>, Some 0)"
proof -
  have l: "ig_latest_ratchet sample_receiver = megolm_after sample_sodium 0 (ig_initial_ratchet sample_receiver)"
    by (simp add: sample_receiver_ok)
  have ok: "megolm_ok (og_ratchet sample_group)" using sample_group_ok(1) by (simp add: outbound_ok_def)
  have fit: "olm_export_inbound_group_session_length \<le> length (zeros 220)"
    by (simp add: olm_export_inbound_group_session_length_def b64_lengths b64_length_def)
  have "get_megolm sample_sodium sample_receiver (mg_counter (og_ratchet sample_group) + of_nat 3) =
      (sample_receiver\<lparr>ig_latest_ratchet := megolm_after sample_sodium 3 (og_ratchet sample_group)\<rparr>,
       Some (megolm_after sample_sodium 3 (og_ratchet sample_group)))"
    using get_megolm_eq [OF _ l, where k = 3] ok by (simp only: sample_receiver_ok) simp
  then obtain b' where b': "olm_export_inbound_group_session sample_sodium sample_receiver (zeros 220)
       (olm_inbound_group_session_first_known_index sample_receiver + of_nat 3) =
      (sample_receiver\<lparr>ig_latest_ratchet := megolm_after sample_sodium 3 (og_ratchet sample_group)\<rparr>, b', Some 220)"
    using export_eq [OF sample_receiver_ok(1) fit] megolm_after_ok [OF ok, where n = 3 and S = sample_sodium]
      counter_after [where n = 3 and S = sample_sodium and m = "og_ratchet sample_group"]
    by (fastforce simp: olm_inbound_group_session_first_known_index_def sample_receiver_ok)
  show ?thesis
    using group_export_import [OF sample_receiver_ok(1) l _ _ b'] b' by (auto simp: sample_receiver_ok)
qed

lemma group_decrypt_authentic_witness:
  "\<exists>s' m' b'. olm_group_decrypt sample_sodium
       (sample_receiver\<lparr>ig_signing_key := ekp_public_key (og_signing_key sample_group)\<rparr>)
       (b64_encode (group_message sample_sodium (og_ratchet sample_group) (og_signing_key sample_group) [7]))
       (zeros 16) = (s', m', b', Some (mg_counter (og_ratchet sample_group)), Some 1)
     \<and> inbound_ok s' \<and> signed_and_reached sample_sodium
         (sample_receiver\<lparr>ig_signing_key := ekp_public_key (og_signing_key sample_group)\<rparr>)
         (decoded_message (b64_encode (group_message sample_sodium (og_ratchet sample_group) (og_signing_key sample_group) [7])))
         (Some (mg_counter (og_ratchet sample_group)))"
proof -
  let ?s = "sample_receiver\<lparr>ig_signing_key := ekp_public_key (og_signing_key sample_group)\<rparr>"
  let ?m = "og_ratchet sample_group" and ?k = "og_signing_key sample_group"
  have ok: "megolm_ok ?m" "inbound_ok ?s" using sample_group_ok(1) sample_receiver_ok
    by (simp_all add: outbound_ok_def inbound_ok_def ed25519_key_pair_ok_def)
  have small: "length (group_message sample_sodium ?m ?k [7]) < 2 ^ 60"
    using length_group_body_le [of "[7]" GROUP_PROTOCOL_VERSION "mg_counter ?m" sample_sodium ?m]
    by (simp add: length_group_message)
  have "get_megolm sample_sodium ?s (mg_counter ?m) = (?s, Some ?m)"
    using get_megolm_eq [of ?s 0 sample_sodium 0] ok sample_receiver_ok by simp
  then have e: "olm_group_decrypt sample_sodium ?s (b64_encode (group_message sample_sodium ?m ?k [7])) (zeros 16) =
      (?s\<lparr>ig_signing_key_verified := True\<rparr>,
       write_at (b64_encode (group_message sample_sodium ?m ?k [7])) 0 (group_message sample_sodium ?m ?k [7]),
       write_at (zeros 16) 0 (cbc_padded [7]), Some (mg_counter ?m), Some 1)"
    using inbound_decrypt_message [OF sample_ed25519_verifies sample_group_ok(2) sample_signs, of ?s ?m "[7]" "zeros 16" ?s] ok
    by (simp add: group_decrypt_encoded [OF small])
  show ?thesis using group_decrypt_authentic [OF ok(2) e] e by auto
qed

lemma group_sessions_pickle_witness:
  "\<exists>og1 m1 n s1 m2 l.
     olm_pickle_outbound_group_session sample_sodium sample_group [1] (zeros 500) = (og1, m1, Some n)
     \<and> olm_pickle_inbound_group_session sample_sodium sample_receiver [1] (zeros 500) = (s1, m2, Some l)
     \<and> (let (og2, _, r) = olm_unpickle_outbound_group_session sample_sodium sample_group [1] (take n m1)
        in og2 = sample_group \<and> r = Some n)
     \<and> (let (s2, _, r) = olm_unpickle_inbound_group_session sample_sodium sample_receiver [1] (take l m2)
        in s2 = sample_receiver \<and> r = Some l)"
proof -
  have l: "olm_enc_output_length (outbound_raw_pickle_length sample_group) \<le> 500"
      "olm_enc_output_length (inbound_raw_pickle_length sample_receiver) \<le> 500"
    by (simp_all add: outbound_raw_pickle_length_def inbound_raw_pickle_length_def megolm_pickle_length_def
        olm_pickle_ed25519_key_pair_length_def olm_pickle_ed25519_public_key_length_def enc_lengths enc_length_def b64_length_def)
  obtain m1 n where 1: "api_pickle_object sample_sodium (outbound_raw_pickle sample_group)
      (outbound_raw_pickle_length sample_group) [1] (zeros 500) = (m1, Some n)"
    using outbound_object.pickle_object_fits [OF sample_group_ok(1), of sample_sodium "[1]" "zeros 500"] l(1)
    by (auto simp: prod_eq_iff)
  obtain m2 k where 2: "api_pickle_object sample_sodium (inbound_raw_pickle sample_receiver)
      (inbound_raw_pickle_length sample_receiver) [1] (zeros 500) = (m2, Some k)"
    using inbound_object.pickle_object_fits [OF sample_receiver_ok(1), of sample_sodium "[1]" "zeros 500"] l(2)
    by (auto simp: prod_eq_iff)
  have e: "olm_pickle_outbound_group_session sample_sodium sample_group [1] (zeros 500) = (sample_group, m1, Some n)"
    "olm_pickle_inbound_group_session sample_sodium sample_receiver [1] (zeros 500) = (sample_receiver, m2, Some k)"
    using 1 2 by (simp_all add: olm_pickle_outbound_group_session_def olm_pickle_inbound_group_session_def)
  show ?thesis
    by (intro exI conjI, rule e(1), rule e(2))
      (use group_sessions_pickle [OF sample_group_ok(1) sample_group_ok(1) sample_receiver_ok(1) sample_receiver_ok(1) e]
       in simp_all)
qed

end
