(* ===== verification/Account.thy ===== *)
theory Account
  imports Ratchet_Pickle Buffers Pickle_Encoding
begin

text \<open>
  \<open>src/account.c\<close>: a device's long-term identity keys, its one-time keys and its fallback keys.
  The one-time keys are a bounded list, newest first: generating keys drops the oldest ones, a
  key that was used for a session is removed. The public keys are handed out as JSON texts,
  which the code writes with a cursor into the caller's buffer.
\<close>

abbreviation MAX_ONE_TIME_KEYS :: nat where "MAX_ONE_TIME_KEYS \<equiv> 100"
abbreviation ACCOUNT_PICKLE_VERSION :: u32 where "ACCOUNT_PICKLE_VERSION \<equiv> 4"

record identity_keys =
  ik_ed25519_key :: ed25519_key_pair
  ik_curve25519_key :: curve25519_key_pair

record one_time_key =
  otk_id :: u32
  otk_published :: bool
  otk_key :: curve25519_key_pair

record account =
  ac_last_error :: olm_error_code
  ac_identity_keys :: identity_keys
  ac_one_time_keys :: "one_time_key olm_list"
  ac_current_fallback_key :: one_time_key
  ac_prev_fallback_key :: one_time_key
  ac_num_fallback_keys :: u8
  ac_next_one_time_key_id :: u32
  ac_ed25519_seed :: bytes
  ac_ed25519_seed_known :: bool

abbreviation otk_public :: "one_time_key \<Rightarrow> bytes" where
  "otk_public k \<equiv> ckp_public_key (otk_key k)"

section \<open>Creation\<close>

definition olm_account_init :: "account \<Rightarrow> account" where
  "olm_account_init a =
     a\<lparr>ac_last_error := OLM_SUCCESS, ac_num_fallback_keys := 0, ac_next_one_time_key_id := 0,
       ac_ed25519_seed_known := False, ac_one_time_keys := olm_list_init (ac_one_time_keys a)\<rparr>"

definition olm_account_new_account_random_length :: nat where
  "olm_account_new_account_random_length = ED25519_RANDOM_LENGTH + CURVE25519_RANDOM_LENGTH"

definition olm_account_new_account :: "sodium \<Rightarrow> account \<Rightarrow> bytes \<Rightarrow> account \<times> nat option" where
  "olm_account_new_account S a random =
     (if length random < olm_account_new_account_random_length then
        (a\<lparr>ac_last_error := OLM_NOT_ENOUGH_RANDOM\<rparr>, None)
      else
        let a = a\<lparr>ac_identity_keys := (ac_identity_keys a)
                    \<lparr>ik_ed25519_key := olm_crypto_ed25519_generate_key S random\<rparr>,
                  ac_ed25519_seed := take ED25519_RANDOM_LENGTH random, ac_ed25519_seed_known := True\<rparr>;
            random = drop ED25519_RANDOM_LENGTH random
        in (a\<lparr>ac_identity_keys := (ac_identity_keys a)
                \<lparr>ik_curve25519_key := olm_crypto_curve25519_generate_key S random\<rparr>\<rparr>, Some 0))"

section \<open>Writing JSON\<close>

text \<open>A cursor: the buffer and the position of the next byte.\<close>

type_synonym cursor = "bytes \<times> nat"

definition KEY_JSON_ED25519 :: bytes where "KEY_JSON_ED25519 = ascii ''\"ed25519\":''"
definition KEY_JSON_CURVE25519 :: bytes where "KEY_JSON_CURVE25519 = ascii ''\"curve25519\":''"

definition olm_account_write_string_uint8 :: "bytes \<Rightarrow> cursor \<Rightarrow> cursor" where
  "olm_account_write_string_uint8 value c = (case c of (m, pos) \<Rightarrow> (write_at m pos value, pos + length value))"

text \<open>\<open>*(pos++) = c\<close>, for each of the characters.\<close>

definition put_chars :: "string \<Rightarrow> cursor \<Rightarrow> cursor" where
  "put_chars s c = fold (\<lambda>b (m, pos). (m[pos := b], pos + 1)) (ascii s) c"

text \<open>\<open>pos += _olm_encode_base64(value, sizeof(value), pos)\<close>.\<close>

definition put_base64 :: "bytes \<Rightarrow> cursor \<Rightarrow> cursor" where
  "put_base64 value c =
     (case c of (m, pos) \<Rightarrow>
        let (m', n) = olm_encode_base64 (m @ value) (length m) (length value) pos
        in (take (length m) m', pos + n))"

definition olm_account_get_identity_json_length :: "account \<Rightarrow> nat" where
  "olm_account_get_identity_json_length a =
     1 + length KEY_JSON_CURVE25519 + 1 + olm_encode_base64_length 32 + 2
     + length KEY_JSON_ED25519 + 1 + olm_encode_base64_length 32 + 2"

definition olm_account_get_identity_json :: "account \<Rightarrow> bytes \<Rightarrow> account \<times> bytes \<times> nat option" where
  "olm_account_get_identity_json a identity_json =
     (if length identity_json < olm_account_get_identity_json_length a then
        (a\<lparr>ac_last_error := OLM_OUTPUT_BUFFER_TOO_SMALL\<rparr>, identity_json, None)
      else
        let c = put_chars ''{'' (identity_json, 0);
            c = olm_account_write_string_uint8 KEY_JSON_CURVE25519 c;
            c = put_chars ''\"'' c;
            c = put_base64 (ckp_public_key (ik_curve25519_key (ac_identity_keys a))) c;
            c = put_chars ''\",'' c;
            c = olm_account_write_string_uint8 KEY_JSON_ED25519 c;
            c = put_chars ''\"'' c;
            c = put_base64 (ekp_public_key (ik_ed25519_key (ac_identity_keys a))) c;
            (m, pos) = put_chars ''\"}'' c
        in (a, m, Some pos))"

section \<open>Signing\<close>

definition olm_account_signature_length :: nat where
  "olm_account_signature_length = ED25519_SIGNATURE_LENGTH"

definition olm_account_sign :: "sodium \<Rightarrow> account \<Rightarrow> bytes \<Rightarrow> bytes \<Rightarrow> account \<times> bytes \<times> nat option" where
  "olm_account_sign S a message signature =
     (if length signature < olm_account_signature_length then
        (a\<lparr>ac_last_error := OLM_OUTPUT_BUFFER_TOO_SMALL\<rparr>, signature, None)
      else
        (a, write_at signature 0 (olm_crypto_ed25519_sign S (ik_ed25519_key (ac_identity_keys a)) message),
         Some olm_account_signature_length))"

section \<open>One-time keys\<close>

text \<open>The loop adds to the length and says whether an unpublished key was met.\<close>

fun one_time_keys_length_loop :: "one_time_key list \<Rightarrow> nat \<times> bool \<Rightarrow> nat \<times> bool" where
  "one_time_keys_length_loop [] r = r"
| "one_time_keys_length_loop (key # keys) (n, is_empty) =
     one_time_keys_length_loop keys
       (if otk_published key then (n, is_empty)
        else (n + 2 + olm_encode_base64_length 4 + 3 + olm_encode_base64_length 32 + 1, False))"

definition olm_account_get_one_time_keys_json_length :: "account \<Rightarrow> nat" where
  "olm_account_get_one_time_keys_json_length a =
     (let (n, is_empty) = one_time_keys_length_loop (elems (ac_one_time_keys a)) (0, True)
      in (if is_empty then n + 1 else n) + 3 + length KEY_JSON_CURVE25519)"

text \<open>The quoted id, a colon, and the quoted key.\<close>

definition put_key :: "one_time_key \<Rightarrow> cursor \<Rightarrow> cursor" where
  "put_key key c =
     (let c = put_chars ''\"'' c;
          c = put_base64 (olm_pickle_uint32 (otk_id key)) c;
          c = put_chars ''\":\"'' c;
          c = put_base64 (otk_public key) c
      in put_chars ''\"'' c)"

fun put_unpublished_keys :: "one_time_key list \<Rightarrow> string \<times> cursor \<Rightarrow> string \<times> cursor" where
  "put_unpublished_keys [] r = r"
| "put_unpublished_keys (key # keys) (sep, c) =
     put_unpublished_keys keys
       (if otk_published key then (sep, c) else ('','', put_key key (put_chars sep c)))"

definition olm_account_get_one_time_keys_json :: "account \<Rightarrow> bytes \<Rightarrow> account \<times> bytes \<times> nat option" where
  "olm_account_get_one_time_keys_json a one_time_json =
     (if length one_time_json < olm_account_get_one_time_keys_json_length a then
        (a\<lparr>ac_last_error := OLM_OUTPUT_BUFFER_TOO_SMALL\<rparr>, one_time_json, None)
      else
        let c = put_chars ''{'' (one_time_json, 0);
            c = olm_account_write_string_uint8 KEY_JSON_CURVE25519 c;
            (sep, c) = put_unpublished_keys (elems (ac_one_time_keys a)) (''{'', c);
            c = (if sep \<noteq> '','' then put_chars sep c else c);
            (m, pos) = put_chars ''}}'' c
        in (a, m, Some pos))"

fun mark_loop :: "one_time_key list \<Rightarrow> one_time_key list \<times> nat" where
  "mark_loop [] = ([], 0)"
| "mark_loop (key # keys) =
     (let (keys, count) = mark_loop keys
      in if otk_published key then (key # keys, count) else (key\<lparr>otk_published := True\<rparr> # keys, count + 1))"

definition olm_account_mark_keys_as_published :: "account \<Rightarrow> account \<times> nat" where
  "olm_account_mark_keys_as_published a =
     (let l = ac_one_time_keys a;
          (keys, count) = mark_loop (elems l)
      in (a\<lparr>ac_one_time_keys := l\<lparr>ol_data := keys @ drop (ol_length l) (ol_data l)\<rparr>,
            ac_current_fallback_key := (ac_current_fallback_key a)\<lparr>otk_published := True\<rparr>\<rparr>, count))"

definition olm_account_max_number_of_one_time_keys :: nat where
  "olm_account_max_number_of_one_time_keys = MAX_ONE_TIME_KEYS"

definition olm_account_generate_one_time_keys_random_length :: "nat \<Rightarrow> nat" where
  "olm_account_generate_one_time_keys_random_length number_of_keys =
     size_mul CURVE25519_RANDOM_LENGTH number_of_keys"

text \<open>The body of the loop: a new key at the front of the list.\<close>

definition add_one_time_key :: "sodium \<Rightarrow> bytes \<Rightarrow> account \<Rightarrow> account" where
  "add_one_time_key S random a =
     (let (keys, i) = olm_list_insert_front (ac_one_time_keys a);
          next_id = ac_next_one_time_key_id a + 1
      in a\<lparr>ac_one_time_keys := olm_list_set keys i
             \<lparr>otk_id = next_id, otk_published = False, otk_key = olm_crypto_curve25519_generate_key S random\<rparr>,
           ac_next_one_time_key_id := next_id\<rparr>)"

text \<open>
  \<open>for (unsigned i = 0; i < number_of_keys; ++i)\<close>: the counter has 32 bits, the bound 64, so the
  loop need not stop at the bound. \<open>random\<close> are the bytes from the pointer \<open>random\<close> to the end
  of the caller's buffer, which every round moves on by 32; \<open>None\<close> is a round in which fewer
  than 32 bytes are left, where the code reads past the end of the buffer.
\<close>

function generate_loop :: "sodium \<Rightarrow> nat \<Rightarrow> u32 \<Rightarrow> bytes \<Rightarrow> account \<Rightarrow> account option" where
  "generate_loop S number_of_keys i random a =
     (if unat i < number_of_keys
      then if length random < CURVE25519_RANDOM_LENGTH then None
           else generate_loop S number_of_keys (i + 1) (drop CURVE25519_RANDOM_LENGTH random)
                  (add_one_time_key S random a)
      else Some a)"
  by pat_completeness auto
termination by (relation "measure (\<lambda>(_, _, _, random, _). length random)") auto

declare generate_loop.simps [simp del]

text \<open>\<open>None\<close> is a read past the random bytes; a return value has the account and the result.\<close>

definition olm_account_generate_one_time_keys ::
    "sodium \<Rightarrow> account \<Rightarrow> nat \<Rightarrow> bytes \<Rightarrow> (account \<times> nat option) option" where
  "olm_account_generate_one_time_keys S a number_of_keys random =
     (if length random < olm_account_generate_one_time_keys_random_length number_of_keys then
        Some (a\<lparr>ac_last_error := OLM_NOT_ENOUGH_RANDOM\<rparr>, None)
      else case generate_loop S number_of_keys 0 random a of
             None \<Rightarrow> None
           | Some a \<Rightarrow> Some (a, Some number_of_keys))"

section \<open>Fallback keys\<close>

definition olm_account_generate_fallback_key_random_length :: nat where
  "olm_account_generate_fallback_key_random_length = CURVE25519_RANDOM_LENGTH"

definition olm_account_generate_fallback_key :: "sodium \<Rightarrow> account \<Rightarrow> bytes \<Rightarrow> account \<times> nat option" where
  "olm_account_generate_fallback_key S a random =
     (if length random < olm_account_generate_fallback_key_random_length then
        (a\<lparr>ac_last_error := OLM_NOT_ENOUGH_RANDOM\<rparr>, None)
      else
        let a = (if ac_num_fallback_keys a < 2
                 then a\<lparr>ac_num_fallback_keys := ac_num_fallback_keys a + 1\<rparr> else a);
            a = a\<lparr>ac_prev_fallback_key := ac_current_fallback_key a,
                  ac_next_one_time_key_id := ac_next_one_time_key_id a + 1\<rparr>
        in (a\<lparr>ac_current_fallback_key :=
                \<lparr>otk_id = ac_next_one_time_key_id a, otk_published = False,
                 otk_key = olm_crypto_curve25519_generate_key S random\<rparr>\<rparr>, Some 1))"

definition olm_account_get_fallback_key_json_length :: "account \<Rightarrow> nat" where
  "olm_account_get_fallback_key_json_length a =
     4 + length KEY_JSON_CURVE25519
     + (if ac_num_fallback_keys a \<ge> 1
        then 1 + olm_encode_base64_length 4 + 3 + olm_encode_base64_length 32 + 1 else 0)"

definition olm_account_get_fallback_key_json :: "account \<Rightarrow> bytes \<Rightarrow> account \<times> bytes \<times> nat option" where
  "olm_account_get_fallback_key_json a fallback_json =
     (if length fallback_json < olm_account_get_fallback_key_json_length a then
        (a\<lparr>ac_last_error := OLM_OUTPUT_BUFFER_TOO_SMALL\<rparr>, fallback_json, None)
      else
        let c = put_chars ''{'' (fallback_json, 0);
            c = olm_account_write_string_uint8 KEY_JSON_CURVE25519 c;
            c = put_chars ''{'' c;
            c = (if ac_num_fallback_keys a \<ge> 1 then put_key (ac_current_fallback_key a) c else c);
            (m, pos) = put_chars ''}}'' c
        in (a, m, Some pos))"

definition olm_account_get_unpublished_fallback_key_json_length :: "account \<Rightarrow> nat" where
  "olm_account_get_unpublished_fallback_key_json_length a =
     4 + length KEY_JSON_CURVE25519
     + (if ac_num_fallback_keys a \<ge> 1 \<and> \<not> otk_published (ac_current_fallback_key a)
        then 1 + olm_encode_base64_length 4 + 3 + olm_encode_base64_length 32 + 1 else 0)"

definition olm_account_get_unpublished_fallback_key_json :: "account \<Rightarrow> bytes \<Rightarrow> account \<times> bytes \<times> nat option" where
  "olm_account_get_unpublished_fallback_key_json a fallback_json =
     (if length fallback_json < olm_account_get_unpublished_fallback_key_json_length a then
        (a\<lparr>ac_last_error := OLM_OUTPUT_BUFFER_TOO_SMALL\<rparr>, fallback_json, None)
      else
        let c = put_chars ''{'' (fallback_json, 0);
            c = olm_account_write_string_uint8 KEY_JSON_CURVE25519 c;
            c = put_chars ''{'' c;
            key = ac_current_fallback_key a;
            c = (if ac_num_fallback_keys a \<ge> 1 \<and> \<not> otk_published key then put_key key c else c);
            (m, pos) = put_chars ''}}'' c
        in (a, m, Some pos))"

definition unset_one_time_key :: one_time_key where
  "unset_one_time_key =
     \<lparr>otk_id = 0, otk_published = False, otk_key = \<lparr>ckp_public_key = zeros 32, ckp_private_key = zeros 32\<rparr>\<rparr>"

definition olm_account_forget_old_fallback_key :: "account \<Rightarrow> account" where
  "olm_account_forget_old_fallback_key a =
     (if ac_num_fallback_keys a \<ge> 2
      then a\<lparr>ac_num_fallback_keys := 1, ac_prev_fallback_key := unset_one_time_key\<rparr> else a)"

section \<open>Looking up and removing a key\<close>

text \<open>The position of the first key that matches.\<close>

fun key_position :: "curve25519_public_key \<Rightarrow> one_time_key list \<Rightarrow> nat \<Rightarrow> nat option" where
  "key_position public_key [] i = None"
| "key_position public_key (key # keys) i =
     (if olm_is_equal (otk_public key) public_key 32 then Some i else key_position public_key keys (i + 1))"

definition olm_account_lookup_key :: "account \<Rightarrow> curve25519_public_key \<Rightarrow> one_time_key option" where
  "olm_account_lookup_key a public_key =
     (case key_position public_key (elems (ac_one_time_keys a)) 0 of
        Some i \<Rightarrow> Some (olm_list_get (ac_one_time_keys a) i)
      | None \<Rightarrow>
          if ac_num_fallback_keys a \<ge> 1 \<and> olm_is_equal (otk_public (ac_current_fallback_key a)) public_key 32
          then Some (ac_current_fallback_key a)
          else if ac_num_fallback_keys a \<ge> 2 \<and> olm_is_equal (otk_public (ac_prev_fallback_key a)) public_key 32
          then Some (ac_prev_fallback_key a)
          else None)"



definition olm_account_remove_key :: "account \<Rightarrow> curve25519_public_key \<Rightarrow> account \<times> nat option" where
  "olm_account_remove_key a public_key =
     (case key_position public_key (elems (ac_one_time_keys a)) 0 of
        Some i \<Rightarrow>
          (let key_id = otk_id (olm_list_get (ac_one_time_keys a) i)
           in (a\<lparr>ac_one_time_keys := olm_list_erase (ac_one_time_keys a) i\<rparr>, Some (unat key_id)))
      | None \<Rightarrow>
          (a, if ac_num_fallback_keys a \<ge> 1 \<and> olm_is_equal (otk_public (ac_current_fallback_key a)) public_key 32
              then Some (unat (otk_id (ac_current_fallback_key a)))
              else if ac_num_fallback_keys a \<ge> 2 \<and> olm_is_equal (otk_public (ac_prev_fallback_key a)) public_key 32
              then Some (unat (otk_id (ac_prev_fallback_key a)))
              else None))"

section \<open>Pickling\<close>

definition olm_pickle_identity_keys_length :: nat where
  "olm_pickle_identity_keys_length =
     olm_pickle_ed25519_key_pair_length + olm_pickle_curve25519_key_pair_length"

definition olm_pickle_identity_keys :: "identity_keys \<Rightarrow> bytes" where
  "olm_pickle_identity_keys value =
     olm_pickle_ed25519_key_pair (ik_ed25519_key value) @ olm_pickle_curve25519_key_pair (ik_curve25519_key value)"

definition olm_unpickle_identity_keys :: "bytes \<Rightarrow> identity_keys \<Rightarrow> identity_keys unpickled" where
  "olm_unpickle_identity_keys pos value =
     then_unpickle
       (on_field ik_ed25519_key (\<lambda>v s. s\<lparr>ik_ed25519_key := v\<rparr>) olm_unpickle_ed25519_key_pair pos value)
       (on_field ik_curve25519_key (\<lambda>v s. s\<lparr>ik_curve25519_key := v\<rparr>) olm_unpickle_curve25519_key_pair)"

definition olm_pickle_one_time_key_length :: nat where
  "olm_pickle_one_time_key_length = 4 + 1 + olm_pickle_curve25519_key_pair_length"

definition olm_pickle_one_time_key :: "one_time_key \<Rightarrow> bytes" where
  "olm_pickle_one_time_key value =
     olm_pickle_uint32 (otk_id value) @ olm_pickle_bool (otk_published value)
     @ olm_pickle_curve25519_key_pair (otk_key value)"

text \<open>The flag is read into a local and stored after the key has been read.\<close>

definition olm_unpickle_one_time_key :: "bytes \<Rightarrow> one_time_key \<Rightarrow> one_time_key unpickled" where
  "olm_unpickle_one_time_key pos value =
     (case on_field otk_id (\<lambda>v s. s\<lparr>otk_id := v\<rparr>) olm_unpickle_uint32 pos value of
        (value, None) \<Rightarrow> (value, None)
      | (value, Some pos) \<Rightarrow>
          (case olm_unpickle_bool pos False of
             (_, None) \<Rightarrow> (value, None)
           | (published, Some pos) \<Rightarrow>
               then_unpickle
                 (on_field otk_key (\<lambda>v s. s\<lparr>otk_key := v\<rparr>) olm_unpickle_curve25519_key_pair pos value)
                 (\<lambda>pos value. (value\<lparr>otk_published := published\<rparr>, Some pos))))"

definition olm_pickle_one_time_key_list_length :: "one_time_key olm_list \<Rightarrow> nat" where
  "olm_pickle_one_time_key_list_length value =
     fold (\<lambda>key n. n + olm_pickle_one_time_key_length) (elems value) 4"

definition olm_pickle_one_time_key_list :: "one_time_key olm_list \<Rightarrow> bytes" where
  "olm_pickle_one_time_key_list = list_pickle olm_pickle_one_time_key"

definition olm_unpickle_one_time_key_list :: "bytes \<Rightarrow> one_time_key olm_list \<Rightarrow> one_time_key olm_list unpickled" where
  "olm_unpickle_one_time_key_list = list_unpickle olm_unpickle_one_time_key"

definition olm_pickle_account_length :: "account \<Rightarrow> nat" where
  "olm_pickle_account_length a =
     4 + olm_pickle_identity_keys_length + olm_pickle_one_time_key_list_length (ac_one_time_keys a) + 1
     + (if ac_num_fallback_keys a \<ge> 1
        then olm_pickle_one_time_key_length
          + (if ac_num_fallback_keys a \<ge> 2 then olm_pickle_one_time_key_length else 0)
        else 0)
     + 4"

definition olm_pickle_account :: "account \<Rightarrow> bytes" where
  "olm_pickle_account a =
     olm_pickle_uint32 ACCOUNT_PICKLE_VERSION @ olm_pickle_identity_keys (ac_identity_keys a)
     @ olm_pickle_one_time_key_list (ac_one_time_keys a) @ olm_pickle_uint8 (ac_num_fallback_keys a)
     @ (if ac_num_fallback_keys a \<ge> 1
        then olm_pickle_one_time_key (ac_current_fallback_key a)
          @ (if ac_num_fallback_keys a \<ge> 2 then olm_pickle_one_time_key (ac_prev_fallback_key a) else [])
        else [])
     @ olm_pickle_uint32 (ac_next_one_time_key_id a)"

abbreviation unpickle_current_fallback :: "bytes \<Rightarrow> account \<Rightarrow> account unpickled" where
  "unpickle_current_fallback \<equiv>
     on_field ac_current_fallback_key (\<lambda>v s. s\<lparr>ac_current_fallback_key := v\<rparr>) olm_unpickle_one_time_key"

abbreviation unpickle_prev_fallback :: "bytes \<Rightarrow> account \<Rightarrow> account unpickled" where
  "unpickle_prev_fallback \<equiv>
     on_field ac_prev_fallback_key (\<lambda>v s. s\<lparr>ac_prev_fallback_key := v\<rparr>) olm_unpickle_one_time_key"

text \<open>The fallback keys, as the version of the pickle has them.\<close>

definition unpickle_fallback_keys :: "u32 \<Rightarrow> bytes \<Rightarrow> account \<Rightarrow> account unpickled" where
  "unpickle_fallback_keys pickle_version pos a =
     (if pickle_version \<le> 2 then (a\<lparr>ac_num_fallback_keys := 0\<rparr>, Some pos)
      else if pickle_version = 3 then
        then_unpickle (then_unpickle (unpickle_current_fallback pos a) unpickle_prev_fallback)
          (\<lambda>pos a. (a\<lparr>ac_num_fallback_keys :=
             (if otk_published (ac_current_fallback_key a)
              then if otk_published (ac_prev_fallback_key a) then 2 else 1 else 0)\<rparr>, Some pos))
      else
        then_unpickle
          (on_field ac_num_fallback_keys (\<lambda>v s. s\<lparr>ac_num_fallback_keys := v\<rparr>) olm_unpickle_uint8 pos a)
          (\<lambda>pos a.
             if ac_num_fallback_keys a \<ge> 1 then
               then_unpickle (unpickle_current_fallback pos a)
                 (\<lambda>pos a.
                    if ac_num_fallback_keys a \<ge> 2 then
                      then_unpickle (unpickle_prev_fallback pos a)
                        (\<lambda>pos a. if ac_num_fallback_keys a \<ge> 3
                                 then (a\<lparr>ac_last_error := OLM_CORRUPTED_PICKLE\<rparr>, None) else (a, Some pos))
                    else (a, Some pos))
             else (a, Some pos)))"

definition olm_unpickle_account :: "bytes \<Rightarrow> account \<Rightarrow> account unpickled" where
  "olm_unpickle_account pos a =
     (case olm_unpickle_uint32 pos 0 of
        (_, None) \<Rightarrow> (a, None)
      | (pickle_version, Some pos) \<Rightarrow>
          if pickle_version = 1 then (a\<lparr>ac_last_error := OLM_BAD_LEGACY_ACCOUNT_PICKLE\<rparr>, None)
          else if pickle_version \<notin> {ACCOUNT_PICKLE_VERSION, 3, 2} then
            (a\<lparr>ac_last_error := OLM_UNKNOWN_PICKLE_VERSION\<rparr>, None)
          else
            then_unpickle (then_unpickle (then_unpickle
              (on_field ac_identity_keys (\<lambda>v s. s\<lparr>ac_identity_keys := v\<rparr>) olm_unpickle_identity_keys pos a)
              (on_field ac_one_time_keys (\<lambda>v s. s\<lparr>ac_one_time_keys := v\<rparr>) olm_unpickle_one_time_key_list))
              (unpickle_fallback_keys pickle_version))
              (on_field ac_next_one_time_key_id (\<lambda>v s. s\<lparr>ac_next_one_time_key_id := v\<rparr>) olm_unpickle_uint32))"

section \<open>Well-formedness\<close>

definition one_time_key_ok :: "one_time_key \<Rightarrow> bool" where
  "one_time_key_ok k \<longleftrightarrow> curve25519_key_pair_ok (otk_key k)"

definition identity_keys_ok :: "identity_keys \<Rightarrow> bool" where
  "identity_keys_ok k \<longleftrightarrow> ed25519_key_pair_ok (ik_ed25519_key k) \<and> curve25519_key_pair_ok (ik_curve25519_key k)"

text \<open>The arrays have their sizes.\<close>

definition account_sized :: "account \<Rightarrow> bool" where
  "account_sized a \<longleftrightarrow> identity_keys_ok (ac_identity_keys a)
     \<and> slots_ok MAX_ONE_TIME_KEYS one_time_key_ok (ac_one_time_keys a)
     \<and> one_time_key_ok (ac_current_fallback_key a) \<and> one_time_key_ok (ac_prev_fallback_key a)
     \<and> length (ac_ed25519_seed a) = 32"

definition account_ok :: "account \<Rightarrow> bool" where
  "account_ok a \<longleftrightarrow> account_sized a \<and> ac_num_fallback_keys a \<le> 2"

interpretation identity_codec: fixed_codec olm_pickle_identity_keys olm_unpickle_identity_keys 160 identity_keys_ok
  by unfold_locales
    (auto simp: olm_pickle_identity_keys_def olm_unpickle_identity_keys_def identity_keys_ok_def
      olm_pickle_ed25519_key_pair_def olm_unpickle_ed25519_key_pair_def ed25519_key_pair_ok_def
      curve25519_key_pair_ok_def chain_codec_simps then_unpickle_def split: option.splits)

lemma unpickle_bool_eq:
  "olm_unpickle_bool pos v = (if pos = [] then (v, None) else (hd pos \<noteq> 0, Some (drop 1 pos)))"
  by (cases pos) (simp_all add: olm_unpickle_bool_def)

interpretation one_time_key_codec: fixed_codec olm_pickle_one_time_key olm_unpickle_one_time_key 69 one_time_key_ok
proof unfold_locales
  fix v s :: one_time_key and rest assume "one_time_key_ok v" "one_time_key_ok s"
  then show "fst (olm_unpickle_one_time_key (olm_pickle_one_time_key v @ rest) s) = v"
    by (simp add: olm_pickle_one_time_key_def olm_unpickle_one_time_key_def on_field_def one_time_key_ok_def)
qed (auto simp: olm_pickle_one_time_key_def olm_unpickle_one_time_key_def one_time_key_ok_def
      curve25519_key_pair_ok_def chain_codec_simps then_unpickle_def olm_pickle_uint32_def olm_unpickle_uint32_def
      olm_pickle_bool_def unpickle_bool_eq tl_drop [symmetric] drop_Suc [symmetric] split: option.splits if_splits)

section \<open>Pickling a whole account\<close>

lemma length_account_pickle:
  assumes "account_ok a"
  shows "length (olm_pickle_account a) = olm_pickle_account_length a" "olm_pickle_account_length a \<le> 7211"
proof -
  have s: "slots_ok 100 one_time_key_ok (ac_one_time_keys a)" using assms by (simp add: account_ok_def account_sized_def)
  note l = slots_list_ok [OF s]
  have keys: "length (olm_pickle_one_time_key_list (ac_one_time_keys a)) = 4 + 69 * ol_length (ac_one_time_keys a)"
    using one_time_key_codec.length_list_pickle [OF l slots_elems_ok [OF s]] by (simp add: olm_pickle_one_time_key_list_def)
  have e: "olm_pickle_one_time_key_list_length (ac_one_time_keys a) = 4 + 69 * ol_length (ac_one_time_keys a)"
    by (simp add: olm_pickle_one_time_key_list_length_def olm_pickle_one_time_key_length_def
        olm_pickle_curve25519_key_pair_length_def fold_lengths length_elems [OF l])
  show "length (olm_pickle_account a) = olm_pickle_account_length a"
    using assms by (simp add: olm_pickle_account_def olm_pickle_account_length_def keys e account_ok_def account_sized_def
        identity_codec.length_pickle one_time_key_codec.length_pickle uint32_codec.length_pickle
        uint8_codec.length_pickle olm_pickle_identity_keys_length_def olm_pickle_ed25519_key_pair_length_def
        olm_pickle_curve25519_key_pair_length_def olm_pickle_one_time_key_length_def)
  show "olm_pickle_account_length a \<le> 7211"
    using l by (simp add: olm_pickle_account_length_def e list_ok_def olm_pickle_identity_keys_length_def
        olm_pickle_ed25519_key_pair_length_def olm_pickle_curve25519_key_pair_length_def olm_pickle_one_time_key_length_def)
qed

text \<open>Two accounts with the same keys; fallback keys count as far as the account has them.\<close>

definition same_account_keys :: "account \<Rightarrow> account \<Rightarrow> bool" where
  "same_account_keys a b \<longleftrightarrow> ac_identity_keys a = ac_identity_keys b
     \<and> elems (ac_one_time_keys a) = elems (ac_one_time_keys b)
     \<and> ac_num_fallback_keys a = ac_num_fallback_keys b
     \<and> (1 \<le> ac_num_fallback_keys a \<longrightarrow> ac_current_fallback_key a = ac_current_fallback_key b)
     \<and> (2 \<le> ac_num_fallback_keys a \<longrightarrow> ac_prev_fallback_key a = ac_prev_fallback_key b)
     \<and> ac_next_one_time_key_id a = ac_next_one_time_key_id b"

text \<open>What unpickling restores, and what it leaves of the account unpickled into: the error, the
  seed and the flag that says the seed is known.\<close>

definition account_restored :: "account \<Rightarrow> account \<Rightarrow> account \<Rightarrow> bool" where
  "account_restored v old new \<longleftrightarrow> same_account_keys new v \<and> account_ok new
     \<and> ac_ed25519_seed new = ac_ed25519_seed old \<and> ac_ed25519_seed_known new = ac_ed25519_seed_known old
     \<and> ac_last_error new = ac_last_error old"

lemma unpickle_one_time_key_field:
  "one_time_key_ok v \<Longrightarrow> one_time_key_ok (get a) \<Longrightarrow>
   on_field get put olm_unpickle_one_time_key (olm_pickle_one_time_key v @ rest) a = (put v a, Some rest)"
  by (simp add: on_field_def)

lemma account_unpickle_pickle:
  assumes v: "account_ok v" and old: "account_sized old"
  shows "\<exists>new. olm_unpickle_account (olm_pickle_account v) old = (new, Some []) \<and> account_restored v old new"
proof -
  have s: "slots_ok 100 one_time_key_ok (ac_one_time_keys v)" "slots_ok 100 one_time_key_ok (ac_one_time_keys old)"
    and id: "identity_keys_ok (ac_identity_keys v)" "identity_keys_ok (ac_identity_keys old)"
    and f: "one_time_key_ok (ac_current_fallback_key v)" "one_time_key_ok (ac_prev_fallback_key v)"
    "one_time_key_ok (ac_current_fallback_key old)" "one_time_key_ok (ac_prev_fallback_key old)"
    and n: "ac_num_fallback_keys v \<le> 2"
    using v old by (simp_all add: account_ok_def account_sized_def)
  define next_id where "next_id = olm_pickle_uint32 (ac_next_one_time_key_id v)"
  define fallback where "fallback = olm_pickle_uint8 (ac_num_fallback_keys v)
     @ (if ac_num_fallback_keys v \<ge> 1
        then olm_pickle_one_time_key (ac_current_fallback_key v)
          @ (if ac_num_fallback_keys v \<ge> 2 then olm_pickle_one_time_key (ac_prev_fallback_key v) else [])
        else [])"
  have p: "olm_pickle_account v = olm_pickle_uint32 4 @ olm_pickle_identity_keys (ac_identity_keys v)
     @ olm_pickle_one_time_key_list (ac_one_time_keys v) @ fallback @ next_id"
    by (simp add: olm_pickle_account_def fallback_def next_id_def)
  obtain l where l: "olm_unpickle_one_time_key_list
        (olm_pickle_one_time_key_list (ac_one_time_keys v) @ fallback @ next_id) (ac_one_time_keys old) =
      (l, Some (fallback @ next_id))" "elems l = elems (ac_one_time_keys v)" "slots_ok 100 one_time_key_ok l"
    using one_time_key_codec.list_unpickle_pickle [of 100 "ac_one_time_keys v" "ac_one_time_keys old" "fallback @ next_id"]
      s slots_elems_ok [OF s(1)]
    by (auto simp: olm_unpickle_one_time_key_list_def olm_pickle_one_time_key_list_def slots_ok_def)
  let ?a = "old\<lparr>ac_identity_keys := ac_identity_keys v, ac_one_time_keys := l\<rparr>"
  let ?b = "?a\<lparr>ac_num_fallback_keys := ac_num_fallback_keys v,
    ac_current_fallback_key := if ac_num_fallback_keys v \<ge> 1 then ac_current_fallback_key v else ac_current_fallback_key old,
    ac_prev_fallback_key := if ac_num_fallback_keys v \<ge> 2 then ac_prev_fallback_key v else ac_prev_fallback_key old\<rparr>"
  have le: "1 \<le> n" if "2 \<le> n" for n :: u8 using that by (simp add: word_le_nat_alt)
  have three: "\<not> 3 \<le> ac_num_fallback_keys v" using n by (simp add: word_le_nat_alt)
  have fb: "unpickle_fallback_keys 4 (fallback @ next_id) ?a = (?b, Some next_id)"
    using f three le [of "ac_num_fallback_keys v"]
    by (auto simp: unpickle_fallback_keys_def fallback_def on_field_def uint8_codec.unpickle_pickle)
  have e: "on_field ac_next_one_time_key_id (\<lambda>v s. s\<lparr>ac_next_one_time_key_id := v\<rparr>) olm_unpickle_uint32 next_id ?b =
      (?b\<lparr>ac_next_one_time_key_id := ac_next_one_time_key_id v\<rparr>, Some [])"
    using uint32_codec.unpickle_pickle [where rest = "[]"] by (simp add: on_field_def next_id_def)
  have "olm_unpickle_account (olm_pickle_account v) old =
      (?b\<lparr>ac_next_one_time_key_id := ac_next_one_time_key_id v\<rparr>, Some [])"
    using id fb e l(1)
    by (simp add: olm_unpickle_account_def p uint32_codec.unpickle_pickle on_field_def [of ac_identity_keys]
        on_field_def [of ac_one_time_keys])
  then show ?thesis
    using v old l f id n by (auto simp: account_restored_def same_account_keys_def account_ok_def account_sized_def)
qed

interpretation account_object: object_codec olm_pickle_account olm_pickle_account_length olm_unpickle_account
    account_ok account_sized account_restored
proof unfold_locales
  fix v assume v: "account_ok v"
  show "length (olm_pickle_account v) = olm_pickle_account_length v" "olm_pickle_account_length v < 2 ^ 59"
    using length_account_pickle [OF v] by simp_all
  fix old assume "account_sized old"
  with v show "\<exists>new. olm_unpickle_account (olm_pickle_account v) old = (new, Some []) \<and> account_restored v old new"
    by (rule account_unpickle_pickle)
qed

end
