(* ===== verification/Session.thy ===== *)
theory Session
  imports Account Conversation "HOL-Library.Monad_Syntax"
begin

text \<open>
  \<open>src/session.c\<close>: a session between two devices, an Olm ratchet with the three public keys of
  the handshake. Alice starts a session from Bob's identity key and one of his one-time keys
  (triple Diffie-Hellman); until she has received something, each of her messages carries the
  keys Bob needs to start his side.
\<close>

abbreviation SESSION_PICKLE_VERSION :: u32 where "SESSION_PICKLE_VERSION \<equiv> 1"

definition ROOT_KDF_INFO :: bytes where "ROOT_KDF_INFO = ascii ''OLM_ROOT''"
definition RATCHET_KDF_INFO :: bytes where "RATCHET_KDF_INFO = ascii ''OLM_RATCHET''"
definition CIPHER_KDF_INFO :: bytes where "CIPHER_KDF_INFO = ascii ''OLM_KEYS''"

definition OLM_KDF_INFO :: kdf_info where
  "OLM_KDF_INFO = \<lparr>ki_root_info = ROOT_KDF_INFO, ki_ratchet_info = RATCHET_KDF_INFO\<rparr>"

datatype message_type = MESSAGE_TYPE_PRE_KEY | MESSAGE_TYPE_MESSAGE

record session =
  se_last_error :: olm_error_code
  se_ratchet :: ratchet
  se_alice_identity_key :: curve25519_public_key
  se_alice_base_key :: curve25519_public_key
  se_bob_one_time_key :: curve25519_public_key
  se_received_message :: bool

section \<open>Starting a session\<close>

fun has_length :: "nat \<Rightarrow> bytes option \<Rightarrow> bool" where
  "has_length n None = False"
| "has_length n (Some x) = (length x = n)"

definition check_message_fields :: "pre_key_message_reader \<Rightarrow> bool \<Rightarrow> bool" where
  "check_message_fields reader have_their_identity_key \<longleftrightarrow>
     (have_their_identity_key \<or> pr_identity_key reader \<noteq> None)
     \<and> (pr_identity_key reader \<noteq> None \<longrightarrow> has_length CURVE25519_KEY_LENGTH (pr_identity_key reader))
     \<and> pr_message reader \<noteq> None
     \<and> has_length CURVE25519_KEY_LENGTH (pr_base_key reader)
     \<and> has_length CURVE25519_KEY_LENGTH (pr_one_time_key reader)"

definition olm_session_init :: "session \<Rightarrow> session" where
  "olm_session_init s =
     s\<lparr>se_last_error := OLM_SUCCESS, se_received_message := False,
       se_ratchet := olm_ratchet_init OLM_KDF_INFO CIPHER_KDF_INFO (se_ratchet s)\<rparr>"

definition olm_session_new_outbound_session_random_length :: nat where
  "olm_session_new_outbound_session_random_length = CURVE25519_RANDOM_LENGTH * 2"

definition olm_session_new_outbound_session ::
    "sodium \<Rightarrow> session \<Rightarrow> account \<Rightarrow> curve25519_public_key \<Rightarrow> curve25519_public_key \<Rightarrow> bytes \<Rightarrow>
     session \<times> nat option" where
  "olm_session_new_outbound_session S s local_account identity_key one_time_key random =
     (if length random < olm_session_new_outbound_session_random_length then
        (s\<lparr>se_last_error := OLM_NOT_ENOUGH_RANDOM\<rparr>, None)
      else
        let base_key = olm_crypto_curve25519_generate_key S random;
            ratchet_key = olm_crypto_curve25519_generate_key S (drop CURVE25519_RANDOM_LENGTH random);
            alice_identity_key_pair = ik_curve25519_key (ac_identity_keys local_account);
            s = s\<lparr>se_received_message := False, se_alice_identity_key := ckp_public_key alice_identity_key_pair,
                  se_alice_base_key := ckp_public_key base_key, se_bob_one_time_key := one_time_key\<rparr>;
            secret = olm_crypto_curve25519_shared_secret S alice_identity_key_pair one_time_key
              @ olm_crypto_curve25519_shared_secret S base_key identity_key
              @ olm_crypto_curve25519_shared_secret S base_key one_time_key
        in (s\<lparr>se_ratchet := olm_ratchet_initialise_as_alice S (se_ratchet s) secret ratchet_key\<rparr>, Some 0))"

text \<open>
  \<open>None\<close> is the read through the null pointer: the caller knows the identity key and the message
  has none, which the check of the fields lets pass.
\<close>

definition olm_session_new_inbound_session ::
    "sodium \<Rightarrow> session \<Rightarrow> account \<Rightarrow> curve25519_public_key option \<Rightarrow> bytes \<Rightarrow> (session \<times> nat option) option" where
  "olm_session_new_inbound_session S s local_account their_identity_key pre_key_message =
     (let reader = olm_decode_one_time_key_message pre_key_message in
      if \<not> check_message_fields reader (their_identity_key \<noteq> None) then
        Some (s\<lparr>se_last_error := OLM_BAD_MESSAGE_FORMAT\<rparr>, None)
      else if pr_identity_key reader \<noteq> None \<and> their_identity_key \<noteq> None
          \<and> pr_identity_key reader \<noteq> their_identity_key then
        Some (s\<lparr>se_last_error := OLM_BAD_MESSAGE_KEY_ID\<rparr>, None)
      else
        case pr_identity_key reader of
          None \<Rightarrow> None
        | Some identity_key \<Rightarrow>
            let s = s\<lparr>se_alice_identity_key := identity_key, se_alice_base_key := the (pr_base_key reader),
                      se_bob_one_time_key := the (pr_one_time_key reader)\<rparr>;
                message_reader = olm_decode_message (the (pr_message reader)) aes_sha_256_cipher_mac_length
            in if \<not> has_length CURVE25519_KEY_LENGTH (mr_ratchet_key message_reader) then
                 Some (s\<lparr>se_last_error := OLM_BAD_MESSAGE_FORMAT\<rparr>, None)
               else
                 case olm_account_lookup_key local_account (se_bob_one_time_key s) of
                   None \<Rightarrow> Some (s\<lparr>se_last_error := OLM_BAD_MESSAGE_KEY_ID\<rparr>, None)
                 | Some our_one_time_key \<Rightarrow>
                     let ratchet_key = the (mr_ratchet_key message_reader);
                         bob_identity_key = ik_curve25519_key (ac_identity_keys local_account);
                         bob_one_time_key = otk_key our_one_time_key;
                         secret = olm_crypto_curve25519_shared_secret S bob_one_time_key (se_alice_identity_key s)
                           @ olm_crypto_curve25519_shared_secret S bob_identity_key (se_alice_base_key s)
                           @ olm_crypto_curve25519_shared_secret S bob_one_time_key (se_alice_base_key s)
                     in Some (s\<lparr>se_ratchet := olm_ratchet_initialise_as_bob S (se_ratchet s) secret ratchet_key\<rparr>, Some 0))"

section \<open>Identifying a session\<close>

definition olm_session_session_id_length :: nat where
  "olm_session_session_id_length = SHA256_OUTPUT_LENGTH"

definition olm_session_session_id :: "sodium \<Rightarrow> session \<Rightarrow> bytes \<Rightarrow> session \<times> bytes \<times> nat option" where
  "olm_session_session_id S s ident =
     (if length ident < olm_session_session_id_length then
        (s\<lparr>se_last_error := OLM_OUTPUT_BUFFER_TOO_SMALL\<rparr>, ident, None)
      else
        let tmp = se_alice_identity_key s @ se_alice_base_key s @ se_bob_one_time_key s
        in (s, write_at ident 0 (olm_crypto_sha256 S tmp), Some olm_session_session_id_length))"

definition olm_session_matches_inbound_session ::
    "session \<Rightarrow> curve25519_public_key option \<Rightarrow> bytes \<Rightarrow> bool" where
  "olm_session_matches_inbound_session s their_identity_key pre_key_message =
     (let reader = olm_decode_one_time_key_message pre_key_message in
      if \<not> check_message_fields reader (their_identity_key \<noteq> None) then False
      else
        (pr_identity_key reader \<noteq> None \<longrightarrow> pr_identity_key reader = Some (se_alice_identity_key s))
        \<and> (their_identity_key \<noteq> None \<longrightarrow> their_identity_key = Some (se_alice_identity_key s))
        \<and> pr_base_key reader = Some (se_alice_base_key s)
        \<and> pr_one_time_key reader = Some (se_bob_one_time_key s))"

section \<open>Encryption\<close>

definition olm_session_encrypt_message_type :: "session \<Rightarrow> message_type" where
  "olm_session_encrypt_message_type s =
     (if se_received_message s then MESSAGE_TYPE_MESSAGE else MESSAGE_TYPE_PRE_KEY)"

definition olm_session_encrypt_message_length :: "session \<Rightarrow> nat \<Rightarrow> nat" where
  "olm_session_encrypt_message_length s plaintext_length =
     (let message_length = olm_ratchet_encrypt_output_length (se_ratchet s) plaintext_length in
      if se_received_message s then message_length
      else olm_encode_one_time_key_message_length CURVE25519_KEY_LENGTH CURVE25519_KEY_LENGTH
             CURVE25519_KEY_LENGTH message_length)"

definition olm_session_encrypt_random_length :: "session \<Rightarrow> nat" where
  "olm_session_encrypt_random_length s = olm_ratchet_encrypt_random_length (se_ratchet s)"

text \<open>The message buffer with the header of a pre-key message, and where the body goes.\<close>

definition start_message :: "session \<Rightarrow> nat \<Rightarrow> bytes \<Rightarrow> bytes \<times> nat" where
  "start_message s message_body_length message =
     (if se_received_message s then (message, 0)
      else
        let (message, writer) =
              olm_encode_one_time_key_message PROTOCOL_VERSION CURVE25519_KEY_LENGTH CURVE25519_KEY_LENGTH
                CURVE25519_KEY_LENGTH message_body_length message;
            message = write_at message (pw_one_time_key writer) (se_bob_one_time_key s);
            message = write_at message (pw_identity_key writer) (se_alice_identity_key s);
            message = write_at message (pw_base_key writer) (se_alice_base_key s)
        in (message, pw_message writer))"

definition olm_session_encrypt ::
    "sodium \<Rightarrow> session \<Rightarrow> bytes \<Rightarrow> bytes \<Rightarrow> bytes \<Rightarrow> session \<times> bytes \<times> nat option" where
  "olm_session_encrypt S s plaintext random message =
     (if length message < olm_session_encrypt_message_length s (length plaintext) then
        (s\<lparr>se_last_error := OLM_OUTPUT_BUFFER_TOO_SMALL\<rparr>, message, None)
      else
        let message_body_length = olm_ratchet_encrypt_output_length (se_ratchet s) (length plaintext);
            (message, pos) = start_message s message_body_length message;
            (r, body, result) =
              olm_ratchet_encrypt S (se_ratchet s) plaintext random (read_at message pos message_body_length);
            message = write_at message pos body
        in case result of
             None \<Rightarrow> (s\<lparr>se_ratchet := r\<lparr>rt_last_error := OLM_SUCCESS\<rparr>, se_last_error := rt_last_error r\<rparr>, message, None)
           | Some n \<Rightarrow> (s\<lparr>se_ratchet := r\<rparr>, message, Some n))"

section \<open>Decryption\<close>

definition message_body_of :: "message_type \<Rightarrow> bytes \<Rightarrow> bytes option" where
  "message_body_of message_type message =
     (if message_type = MESSAGE_TYPE_MESSAGE then Some message
      else pr_message (olm_decode_one_time_key_message message))"

definition olm_session_decrypt_max_plaintext_length ::
    "session \<Rightarrow> message_type \<Rightarrow> bytes \<Rightarrow> session \<times> nat option" where
  "olm_session_decrypt_max_plaintext_length s message_type message =
     (case message_body_of message_type message of
        None \<Rightarrow> (s\<lparr>se_last_error := OLM_BAD_MESSAGE_FORMAT\<rparr>, None)
      | Some body \<Rightarrow>
          (case olm_ratchet_decrypt_max_plaintext_length (se_ratchet s) body of
             (r, None) \<Rightarrow>
               (s\<lparr>se_ratchet := r\<lparr>rt_last_error := OLM_SUCCESS\<rparr>, se_last_error := rt_last_error r\<rparr>, None)
           | (r, Some n) \<Rightarrow> (s\<lparr>se_ratchet := r\<rparr>, Some n)))"

definition olm_session_decrypt ::
    "sodium \<Rightarrow> session \<Rightarrow> message_type \<Rightarrow> bytes \<Rightarrow> bytes \<Rightarrow> session \<times> bytes \<times> nat option" where
  "olm_session_decrypt S s message_type message plaintext =
     (case message_body_of message_type message of
        None \<Rightarrow> (s\<lparr>se_last_error := OLM_BAD_MESSAGE_FORMAT\<rparr>, plaintext, None)
      | Some body \<Rightarrow>
          (case olm_ratchet_decrypt S (se_ratchet s) body plaintext of
             (r, plaintext, None) \<Rightarrow>
               (s\<lparr>se_ratchet := r\<lparr>rt_last_error := OLM_SUCCESS\<rparr>, se_last_error := rt_last_error r\<rparr>, plaintext, None)
           | (r, plaintext, Some n) \<Rightarrow>
               (s\<lparr>se_ratchet := r, se_received_message := True\<rparr>, plaintext, Some n)))"

section \<open>Describing a session\<close>

text \<open>\<open>%d\<close>: the 32-bit index is printed as a signed number.\<close>

fun decimal :: "nat \<Rightarrow> string" where
  "decimal n = (if n < 10 then [char_of (48 + n)] else decimal (n div 10) @ [char_of (48 + n mod 10)])"

declare decimal.simps [simp del]

definition show_index :: "u32 \<Rightarrow> string" where
  "show_index w = (if sint w < 0 then ''-'' @ decimal (nat (- sint w)) else decimal (nat (sint w)))"

definition NUL :: char where "NUL = char_of (0 :: nat)"

text \<open>A write to \<open>buf[i]\<close>, where \<open>i\<close> is a signed index; \<open>None\<close> is a write outside the buffer.\<close>

definition put_char :: "string \<Rightarrow> int \<Rightarrow> char \<Rightarrow> string option" where
  "put_char buf i c = (if 0 \<le> i \<and> i < int (length buf) then Some (buf[nat i := c]) else None)"

text \<open>\<open>snprintf(buf + pos, remaining, "%s", text)\<close>; its result is the length of the text.\<close>

definition snprintf :: "string \<Rightarrow> nat \<Rightarrow> nat \<Rightarrow> string \<Rightarrow> string option" where
  "snprintf buf pos remaining text =
     (if remaining = 0 then Some buf
      else let written = take (remaining - 1) text @ [NUL]
           in if pos + length written \<le> length buf then Some (write_at buf pos written) else None)"

text \<open>\<open>elide_description(buf + e)\<close>: \<open>...\<close> and the terminator, up to \<open>buf[e]\<close>.\<close>

definition elide_description :: "string \<Rightarrow> int \<Rightarrow> string option" where
  "elide_description buf e = do {
     buf \<leftarrow> put_char buf (e - 3) CHR ''.'';
     buf \<leftarrow> put_char buf (e - 2) CHR ''.'';
     buf \<leftarrow> put_char buf (e - 1) CHR ''.'';
     put_char buf e NUL
   }"

text \<open>The buffer with the position and the number of bytes remaining, or the buffer returned.\<close>

datatype describing = Describing string nat nat | Described string

fun describe_text :: "string \<Rightarrow> describing \<Rightarrow> describing option" where
  "describe_text text (Described buf) = Some (Described buf)"
| "describe_text text (Describing buf pos remaining) = do {
     buf \<leftarrow> snprintf buf pos remaining text;
     let size = length text;
     if size > remaining then map_option Described (elide_description buf (int pos + int remaining - 1))
     else if size > 0 then Some (Describing buf (pos + size) (remaining - size))
     else Some (Described buf)
   }"

fun described_buffer :: "describing \<Rightarrow> string" where
  "described_buffer (Described buf) = buf"
| "described_buffer (Describing buf pos remaining) = buf"

fun describe_all :: "string list \<Rightarrow> describing \<Rightarrow> string option" where
  "describe_all [] d = Some (described_buffer d)"
| "describe_all (text # texts) d = do { d \<leftarrow> describe_text text d; describe_all texts d }"

definition describe_texts :: "session \<Rightarrow> string list" where
  "describe_texts s =
     [''sender chain index: '' @ show_index (ck_index (sc_chain_key (olm_list_get (rt_sender_chain (se_ratchet s)) 0))) @ '' '',
      ''receiver chain indices:'']
     @ map (\<lambda>c. '' '' @ show_index (ck_index (rc_chain_key c))) (elems (rt_receiver_chains (se_ratchet s)))
     @ ['' skipped message keys:'']
     @ map (\<lambda>k. '' '' @ show_index (mk_index (sm_message_key k))) (elems (rt_skipped_message_keys (se_ratchet s)))"

text \<open>\<open>int remaining = buflen\<close> keeps the low 32 bits.\<close>

definition olm_session_describe :: "session \<Rightarrow> string \<Rightarrow> string option" where
  "olm_session_describe s buf =
     (let remaining = sint (of_nat (length buf) :: u32) in
      if remaining \<le> 0 then Some buf
      else do {
        buf \<leftarrow> put_char buf 0 NUL;
        if remaining < 23 then Some buf
        else describe_all (describe_texts s) (Describing buf 0 (nat remaining))
      })"

section \<open>Pickling\<close>

definition olm_pickle_session_length :: "session \<Rightarrow> nat" where
  "olm_pickle_session_length s =
     4 + 1 + olm_pickle_curve25519_public_key_length + olm_pickle_curve25519_public_key_length
     + olm_pickle_curve25519_public_key_length + olm_ratchet_pickle_length (se_ratchet s)"

definition olm_pickle_session :: "session \<Rightarrow> bytes" where
  "olm_pickle_session s =
     olm_pickle_uint32 SESSION_PICKLE_VERSION @ olm_pickle_bool (se_received_message s)
     @ olm_pickle_curve25519_public_key (se_alice_identity_key s)
     @ olm_pickle_curve25519_public_key (se_alice_base_key s)
     @ olm_pickle_curve25519_public_key (se_bob_one_time_key s)
     @ olm_ratchet_pickle (se_ratchet s)"

definition olm_unpickle_session :: "bytes \<Rightarrow> session \<Rightarrow> session unpickled" where
  "olm_unpickle_session pos s =
     (let s = olm_session_init s in
      case olm_unpickle_uint32 pos 0 of
        (_, None) \<Rightarrow> (s, None)
      | (pickle_version, Some pos) \<Rightarrow>
          if pickle_version \<noteq> 1 \<and> pickle_version \<noteq> 0x80000001 then
            (s\<lparr>se_last_error := OLM_UNKNOWN_PICKLE_VERSION\<rparr>, None)
          else
            let includes_chain_index = (pickle_version = 0x80000001) in
            then_unpickle (then_unpickle (then_unpickle (then_unpickle
              (on_field se_received_message (\<lambda>v s. s\<lparr>se_received_message := v\<rparr>) olm_unpickle_bool pos s)
              (on_field se_alice_identity_key (\<lambda>v s. s\<lparr>se_alice_identity_key := v\<rparr>) olm_unpickle_curve25519_public_key))
              (on_field se_alice_base_key (\<lambda>v s. s\<lparr>se_alice_base_key := v\<rparr>) olm_unpickle_curve25519_public_key))
              (on_field se_bob_one_time_key (\<lambda>v s. s\<lparr>se_bob_one_time_key := v\<rparr>) olm_unpickle_curve25519_public_key))
              (on_field se_ratchet (\<lambda>v s. s\<lparr>se_ratchet := v\<rparr>) (olm_ratchet_unpickle includes_chain_index)))"

section \<open>Well-formedness\<close>

definition session_ok :: "session \<Rightarrow> bool" where
  "session_ok s \<longleftrightarrow> ratchet_ok (se_ratchet s) \<and> length (se_alice_identity_key s) = 32
     \<and> length (se_alice_base_key s) = 32 \<and> length (se_bob_one_time_key s) = 32"

text \<open>What unpickling restores; error, constants and cipher are those of a fresh session.\<close>

definition session_restored :: "session \<Rightarrow> session \<Rightarrow> session \<Rightarrow> bool" where
  "session_restored v old new \<longleftrightarrow> session_ok new \<and> same_ratchet_keys (se_ratchet new) (se_ratchet v)
     \<and> se_alice_identity_key new = se_alice_identity_key v \<and> se_alice_base_key new = se_alice_base_key v
     \<and> se_bob_one_time_key new = se_bob_one_time_key v \<and> se_received_message new = se_received_message v
     \<and> rt_kdf_info (se_ratchet new) = OLM_KDF_INFO \<and> rt_ratchet_cipher (se_ratchet new) = CIPHER_KDF_INFO
     \<and> rt_last_error (se_ratchet new) = OLM_SUCCESS \<and> se_last_error new = OLM_SUCCESS"

lemma session_init_ok: "session_ok s \<Longrightarrow> session_ok (olm_session_init s)"
  by (simp add: session_ok_def olm_session_init_def ratchet_init_ok)

lemma ratchet_init_fields [simp]:
  "rt_kdf_info (olm_ratchet_init k c r) = k" "rt_ratchet_cipher (olm_ratchet_init k c r) = c"
  "rt_last_error (olm_ratchet_init k c r) = OLM_SUCCESS"
  by (simp_all add: olm_ratchet_init_def)

interpretation session_object: object_codec olm_pickle_session olm_pickle_session_length olm_unpickle_session
    session_ok session_ok session_restored
proof unfold_locales
  fix v assume v: "session_ok v"
  then have r: "ratchet_ok (se_ratchet v)" by (simp add: session_ok_def)
  show "length (olm_pickle_session v) = olm_pickle_session_length v"
    using v length_ratchet_pickle(1) [OF r]
    by (simp add: olm_pickle_session_def olm_pickle_session_length_def session_ok_def uint32_codec.length_pickle
        bool_codec.length_pickle curve25519_public_codec.length_pickle)
  show "olm_pickle_session_length v < 2 ^ 59"
    using length_ratchet_pickle(2) [OF r]
    by (simp add: olm_pickle_session_length_def olm_pickle_curve25519_public_key_length_def)
  fix old assume "session_ok old"
  note old = session_init_ok [OF this, unfolded session_ok_def]
  let ?i = "olm_session_init old"
  obtain r' where r': "olm_ratchet_unpickle False (olm_ratchet_pickle (se_ratchet v)) (se_ratchet ?i) = (r', Some [])"
    "same_ratchet_keys r' (se_ratchet v)" "ratchet_ok r'" "rt_kdf_info r' = OLM_KDF_INFO"
    "rt_ratchet_cipher r' = CIPHER_KDF_INFO" "rt_last_error r' = OLM_SUCCESS"
    using ratchet_unpickle_pickle [OF r, of "se_ratchet ?i" False undefined "[]"] old
    by (auto simp: olm_session_init_def)
  then have "olm_unpickle_session (olm_pickle_session v) old =
      (?i\<lparr>se_received_message := se_received_message v, se_alice_identity_key := se_alice_identity_key v,
          se_alice_base_key := se_alice_base_key v, se_bob_one_time_key := se_bob_one_time_key v, se_ratchet := r'\<rparr>, Some [])"
    using v old by (simp add: olm_unpickle_session_def olm_pickle_session_def on_field_def session_ok_def
        uint32_codec.unpickle_pickle bool_codec.unpickle_pickle curve25519_public_codec.unpickle_pickle)
  then show "\<exists>new. olm_unpickle_session (olm_pickle_session v) old = (new, Some []) \<and> session_restored v old new"
    using r' v by (simp add: session_restored_def session_ok_def) (simp add: olm_session_init_def)
qed

end
