(* ===== verification/Account_Keys.thy ===== *)
theory Account_Keys
  imports Account
begin

text \<open>
  What the operations of an account do: the JSON texts they write, the keys they generate, drop
  and remove, and the invariant of every account that can be reached by them.
\<close>

section \<open>The JSON texts\<close>

text \<open>The cursor after \<open>t\<close> was written to the front of the buffer \<open>m\<close>.\<close>

definition cursor_at :: "bytes \<Rightarrow> bytes \<Rightarrow> cursor" where
  "cursor_at m t = (write_at m 0 t, length t)"

named_theorems cursor_simps \<open>a write at the cursor appends to the text written so far\<close>

lemma cursor_start: "(m, 0) = cursor_at m []"
  by (simp add: cursor_at_def)

lemma write_string_cursor [cursor_simps]:
  "length t + length v \<le> length m \<Longrightarrow> olm_account_write_string_uint8 v (cursor_at m t) = cursor_at m (t @ v)"
  by (simp add: cursor_at_def olm_account_write_string_uint8_def write_at_write_at_adj)

lemma put_chars_cursor [cursor_simps]:
  "length t + length s \<le> length m \<Longrightarrow> put_chars s (cursor_at m t) = cursor_at m (t @ ascii s)"
proof (induction s arbitrary: t)
  case (Cons x s)
  have "(write_at m 0 t)[length t := of_char x] = write_at m 0 (t @ [of_char x])"
    using Cons.prems by (subst write_at_1) (simp_all add: write_at_write_at_adj)
  then have "put_chars (x # s) (cursor_at m t) = put_chars s (cursor_at m (t @ [of_char x]))"
    by (simp add: put_chars_def cursor_at_def ascii_def)
  then show ?case using Cons.IH [of "t @ [of_char x]"] Cons.prems by (simp add: ascii_def)
qed (simp add: put_chars_def ascii_def)

lemma put_base64_cursor [cursor_simps]:
  assumes "length t + b64_length (length v) \<le> length m"
  shows "put_base64 v (cursor_at m t) = cursor_at m (t @ b64_encode v)"
proof -
  let ?m = "write_at m 0 t"
  have l: "length ?m = length m" using assms by simp
  have "olm_encode_base64 (?m @ v) (length ?m) (length v) (length t) =
      (write_at (?m @ v) (length t) (b64_encode v), b64_length (length v))"
    using olm_encode_base64_eq [of "length ?m" "length v" "?m @ v" "length t"] assms l
    by (simp add: read_at_def)
  moreover have "take (length m) (write_at (?m @ v) (length t) (b64_encode v)) = write_at ?m (length t) (b64_encode v)"
    using assms l by (simp add: write_at_def min_def)
  ultimately show ?thesis
    using assms l by (simp add: put_base64_def cursor_at_def write_at_write_at_adj)
qed

lemma length_ascii [simp]: "length (ascii s) = length s"
  by (simp add: ascii_def)

lemma length_json_names [simp]: "length KEY_JSON_CURVE25519 = 13" "length KEY_JSON_ED25519 = 10"
  by (simp_all add: KEY_JSON_CURVE25519_def KEY_JSON_ED25519_def)

lemma b64_key_lengths [simp]: "b64_length 32 = 43" "b64_length 4 = 6" "olm_encode_base64_length 32 = 43"
  "olm_encode_base64_length 4 = 6"
  by (simp_all add: b64_lengths b64_length_def)

text \<open>\<open>"<id>":"<key>"\<close>, and the texts of the keys of a list, the first after \<open>sep\<close>.\<close>

definition key_text :: "one_time_key \<Rightarrow> bytes" where
  "key_text k = ascii ''\"'' @ b64_encode (olm_pickle_uint32 (otk_id k)) @ ascii ''\":\"''
     @ b64_encode (otk_public k) @ ascii ''\"''"

fun keys_text :: "string \<Rightarrow> one_time_key list \<Rightarrow> bytes" where
  "keys_text sep [] = []"
| "keys_text sep (k # ks) = ascii sep @ key_text k @ keys_text '','' ks"

definition unpublished :: "account \<Rightarrow> one_time_key list" where
  "unpublished a = filter (\<lambda>k. \<not> otk_published k) (elems (ac_one_time_keys a))"

definition identity_text :: "account \<Rightarrow> bytes" where
  "identity_text a = ascii ''{'' @ KEY_JSON_CURVE25519
     @ ascii ''\"'' @ b64_encode (ckp_public_key (ik_curve25519_key (ac_identity_keys a))) @ ascii ''\",''
     @ KEY_JSON_ED25519
     @ ascii ''\"'' @ b64_encode (ekp_public_key (ik_ed25519_key (ac_identity_keys a))) @ ascii ''\"}''"

definition one_time_text :: "account \<Rightarrow> bytes" where
  "one_time_text a = ascii ''{'' @ KEY_JSON_CURVE25519
     @ (if unpublished a = [] then ascii ''{'' else keys_text ''{'' (unpublished a)) @ ascii ''}}''"

definition fallback_text :: "bool \<Rightarrow> account \<Rightarrow> bytes" where
  "fallback_text present a = ascii ''{'' @ KEY_JSON_CURVE25519 @ ascii ''{''
     @ (if present then key_text (ac_current_fallback_key a) else []) @ ascii ''}}''"

lemma length_pickled_id [simp]: "length (olm_pickle_uint32 v) = 4"
  by (simp add: olm_pickle_uint32_def)

lemma length_key_text: "one_time_key_ok k \<Longrightarrow> length (key_text k) = 54"
  by (simp add: key_text_def one_time_key_ok_def curve25519_key_pair_ok_def)

lemma put_key_cursor [cursor_simps]:
  "one_time_key_ok k \<Longrightarrow> length t + 54 \<le> length m \<Longrightarrow> put_key k (cursor_at m t) = cursor_at m (t @ key_text k)"
  by (simp add: put_key_def cursor_simps key_text_def one_time_key_ok_def curve25519_key_pair_ok_def)

lemma length_keys_text:
  "\<forall>k \<in> set ks. one_time_key_ok k \<Longrightarrow> length sep = 1 \<Longrightarrow> length (keys_text sep ks) = 55 * length ks"
  by (induction ks arbitrary: sep) (simp_all add: length_key_text)

lemma put_unpublished_cursor:
  "\<forall>k \<in> set ks. one_time_key_ok k \<Longrightarrow> length sep = 1 \<Longrightarrow>
   length t + 55 * length (filter (\<lambda>k. \<not> otk_published k) ks) \<le> length m \<Longrightarrow>
   put_unpublished_keys ks (sep, cursor_at m t) =
     (if filter (\<lambda>k. \<not> otk_published k) ks = [] then sep else '','',
      cursor_at m (t @ keys_text sep (filter (\<lambda>k. \<not> otk_published k) ks)))"
proof (induction ks arbitrary: sep t)
  case (Cons k ks)
  then show ?case by (cases "otk_published k") (simp_all add: cursor_simps length_key_text)
qed simp

lemma one_time_length_loop:
  "one_time_keys_length_loop ks (n, e) =
     (n + 55 * length (filter (\<lambda>k. \<not> otk_published k) ks), e \<and> filter (\<lambda>k. \<not> otk_published k) ks = [])"
  by (induction ks arbitrary: n e) simp_all

lemma identity_json_eq:
  assumes "account_sized a" "olm_account_get_identity_json_length a \<le> length m"
  shows "olm_account_get_identity_json a m = (a, write_at m 0 (identity_text a), Some (length (identity_text a)))"
    "olm_account_get_identity_json_length a = length (identity_text a)"
proof -
  have "length (ckp_public_key (ik_curve25519_key (ac_identity_keys a))) = 32"
    "length (ekp_public_key (ik_ed25519_key (ac_identity_keys a))) = 32"
    using assms(1) by (simp_all add: account_sized_def identity_keys_ok_def curve25519_key_pair_ok_def ed25519_key_pair_ok_def)
  moreover have "116 \<le> length m" using assms(2) by (simp add: olm_account_get_identity_json_length_def)
  ultimately show "olm_account_get_identity_json a m = (a, write_at m 0 (identity_text a), Some (length (identity_text a)))"
    "olm_account_get_identity_json_length a = length (identity_text a)"
    by (simp_all add: olm_account_get_identity_json_def olm_account_get_identity_json_length_def cursor_start
        cursor_simps identity_text_def) (simp add: cursor_at_def)
qed

lemma one_time_json_eq:
  assumes "account_sized a" "olm_account_get_one_time_keys_json_length a \<le> length m"
  shows "olm_account_get_one_time_keys_json a m = (a, write_at m 0 (one_time_text a), Some (length (one_time_text a)))"
    "olm_account_get_one_time_keys_json_length a = length (one_time_text a)"
proof -
  have ok: "\<forall>k \<in> set (elems (ac_one_time_keys a)). one_time_key_ok k"
    using assms(1) slots_elems_ok by (simp add: account_sized_def) blast
  have u: "\<forall>k \<in> set (unpublished a). one_time_key_ok k" using ok by (simp add: unpublished_def)
  have n: "olm_account_get_one_time_keys_json_length a =
      55 * length (unpublished a) + (if unpublished a = [] then 17 else 16)"
    by (simp add: olm_account_get_one_time_keys_json_length_def one_time_length_loop unpublished_def)
  then show "olm_account_get_one_time_keys_json_length a = length (one_time_text a)"
    using length_keys_text [OF u, of "''{''"] by (simp add: one_time_text_def)
  have m: "55 * length (unpublished a) + (if unpublished a = [] then 17 else 16) \<le> length m" using n assms(2) by simp
  have l: "length (keys_text ''{'' (unpublished a)) = 55 * length (unpublished a)" using u by (simp add: length_keys_text)
  have p: "put_unpublished_keys (elems (ac_one_time_keys a)) (''{'', cursor_at m (ascii ''{'' @ KEY_JSON_CURVE25519)) =
      (if unpublished a = [] then ''{'' else '','',
       cursor_at m (ascii ''{'' @ KEY_JSON_CURVE25519 @ keys_text ''{'' (unpublished a)))"
    using m by (subst put_unpublished_cursor [OF ok]) (simp_all add: unpublished_def split: if_splits)
  show "olm_account_get_one_time_keys_json a m = (a, write_at m 0 (one_time_text a), Some (length (one_time_text a)))"
    using m assms(2) l
    by (simp add: olm_account_get_one_time_keys_json_def cursor_start cursor_simps p one_time_text_def split: if_splits)
      (simp_all add: cursor_at_def)
qed

lemma fallback_json_eq:
  assumes "account_sized a" "olm_account_get_fallback_key_json_length a \<le> length m"
  shows "olm_account_get_fallback_key_json a m =
      (a, write_at m 0 (fallback_text (1 \<le> ac_num_fallback_keys a) a),
       Some (olm_account_get_fallback_key_json_length a))"
    "olm_account_get_fallback_key_json_length a = length (fallback_text (1 \<le> ac_num_fallback_keys a) a)"
  using assms
  by (auto simp: olm_account_get_fallback_key_json_def olm_account_get_fallback_key_json_length_def cursor_start
      cursor_simps fallback_text_def account_sized_def length_key_text split: if_splits)
    (simp_all add: cursor_at_def length_key_text)

lemma unpublished_fallback_json_eq:
  assumes "account_sized a" "olm_account_get_unpublished_fallback_key_json_length a \<le> length m"
  shows "olm_account_get_unpublished_fallback_key_json a m =
      (a, write_at m 0 (fallback_text (1 \<le> ac_num_fallback_keys a \<and> \<not> otk_published (ac_current_fallback_key a)) a),
       Some (olm_account_get_unpublished_fallback_key_json_length a))"
    "olm_account_get_unpublished_fallback_key_json_length a =
      length (fallback_text (1 \<le> ac_num_fallback_keys a \<and> \<not> otk_published (ac_current_fallback_key a)) a)"
  using assms
  by (auto simp: olm_account_get_unpublished_fallback_key_json_def olm_account_get_unpublished_fallback_key_json_length_def
      cursor_start cursor_simps fallback_text_def account_sized_def length_key_text split: if_splits)
    (simp_all add: cursor_at_def length_key_text)

section \<open>Generating one-time keys\<close>

text \<open>The loop of \<open>_olm_account_generate_one_time_keys\<close> as a recursion on the number of keys.\<close>

primrec add_keys :: "sodium \<Rightarrow> nat \<Rightarrow> bytes \<Rightarrow> account \<Rightarrow> account" where
  "add_keys S 0 random a = a"
| "add_keys S (Suc n) random a = add_keys S n (drop 32 random) (add_one_time_key S random a)"

definition new_key :: "sodium \<Rightarrow> bytes \<Rightarrow> u32 \<Rightarrow> one_time_key" where
  "new_key S random key_id =
     \<lparr>otk_id = key_id, otk_published = False, otk_key = olm_crypto_curve25519_generate_key S random\<rparr>"

definition new_keys :: "sodium \<Rightarrow> nat \<Rightarrow> bytes \<Rightarrow> u32 \<Rightarrow> one_time_key list" where
  "new_keys S n random key_id = map (\<lambda>i. new_key S (drop (32 * i) random) (key_id + of_nat i)) [0..<n]"

lemma new_keys_Suc: "new_keys S (Suc n) random key_id = new_key S random key_id # new_keys S n (drop 32 random) (key_id + 1)"
  by (simp add: new_keys_def map_upt_Suc add.commute add.left_commute del: upt_Suc)

lemma generate_loop_step:
  "unat i < n \<Longrightarrow> 32 \<le> length random \<Longrightarrow>
   generate_loop S n i random a = generate_loop S n (i + 1) (drop 32 random) (add_one_time_key S random a)"
  "unat i < n \<Longrightarrow> length random < 32 \<Longrightarrow> generate_loop S n i random a = None"
  "\<not> unat i < n \<Longrightarrow> generate_loop S n i random a = Some a"
  by (subst generate_loop.simps, simp)+

lemma generate_loop_ends:
  assumes "n < 2 ^ 32" "unat i + k = n" "32 * k \<le> length random"
  shows "generate_loop S n i random a = Some (add_keys S k random a)"
  using assms(2,3)
proof (induction k arbitrary: i random a)
  case 0
  then show ?case by (simp add: generate_loop_step)
next
  case (Suc k)
  then have "unat (i + 1) = unat i + 1" using assms(1) by (simp add: unat_word_ariths)
  then show ?case using Suc by (simp add: generate_loop_step)
qed

text \<open>A bound above the counter's range is never reached: the loop runs off the random bytes.\<close>

lemma generate_loop_overruns: "2 ^ 32 \<le> n \<Longrightarrow> generate_loop S n i random a = None"
proof (induction S n i random a rule: generate_loop.induct)
  case (1 S n i random a)
  have "unat i < n" using unsigned_less [of i, where 'a = nat] 1(2) by simp
  then show ?case using 1 by (cases "length random < 32") (simp_all add: generate_loop_step)
qed

lemma take_Cons_take: "m \<le> Suc k \<Longrightarrow> take m (x # take k xs) = take m (x # xs)"
  by (cases m) (simp_all add: min_def)

lemma add_one_fields [simp]:
  "ac_identity_keys (add_one_time_key S r a) = ac_identity_keys a"
  "ac_current_fallback_key (add_one_time_key S r a) = ac_current_fallback_key a"
  "ac_prev_fallback_key (add_one_time_key S r a) = ac_prev_fallback_key a"
  "ac_num_fallback_keys (add_one_time_key S r a) = ac_num_fallback_keys a"
  "ac_ed25519_seed (add_one_time_key S r a) = ac_ed25519_seed a"
  "ac_next_one_time_key_id (add_one_time_key S r a) = ac_next_one_time_key_id a + 1"
  by (simp_all add: add_one_time_key_def Let_def case_prod_unfold)

lemma add_one_list:
  "ac_one_time_keys (add_one_time_key S r a) =
     olm_list_push_front (ac_one_time_keys a) (new_key S r (ac_next_one_time_key_id a + 1))"
  by (simp add: add_one_time_key_def olm_list_push_front_def new_key_def Let_def case_prod_unfold)

lemma new_key_ok: "32 \<le> length random \<Longrightarrow> one_time_key_ok (new_key S random key_id)"
  by (simp add: new_key_def one_time_key_ok_def generate_key_ok)

lemma add_one_ok: "account_ok a \<Longrightarrow> 32 \<le> length random \<Longrightarrow> account_ok (add_one_time_key S random a)"
  by (simp add: account_ok_def account_sized_def add_one_list slots_ok_push_front new_key_ok)

lemma add_one_elems:
  "account_ok a \<Longrightarrow> elems (ac_one_time_keys (add_one_time_key S r a)) =
     take 100 (new_key S r (ac_next_one_time_key_id a + 1) # elems (ac_one_time_keys a))"
  using elems_push_front [of 100 "ac_one_time_keys a"] slots_list_ok [of 100 one_time_key_ok "ac_one_time_keys a"]
  by (simp add: add_one_list account_ok_def account_sized_def insert_elem_def)

lemma add_keys_eq:
  assumes "account_ok a" "32 * n \<le> length random"
  shows "account_ok (add_keys S n random a)
    \<and> elems (ac_one_time_keys (add_keys S n random a)) =
        take 100 (rev (new_keys S n random (ac_next_one_time_key_id a + 1)) @ elems (ac_one_time_keys a))
    \<and> ac_next_one_time_key_id (add_keys S n random a) = ac_next_one_time_key_id a + of_nat n
    \<and> ac_num_fallback_keys (add_keys S n random a) = ac_num_fallback_keys a
    \<and> ac_current_fallback_key (add_keys S n random a) = ac_current_fallback_key a
    \<and> ac_prev_fallback_key (add_keys S n random a) = ac_prev_fallback_key a"
  using assms
proof (induction n arbitrary: random a)
  case 0
  have "length (elems (ac_one_time_keys a)) \<le> 100"
    using 0 slots_list_ok length_elems_le by (simp add: account_ok_def account_sized_def) blast
  then show ?case using 0 by (simp add: new_keys_def)
next
  case (Suc n)
  have ok: "account_ok (add_one_time_key S random a)" using Suc.prems by (intro add_one_ok) simp_all
  show ?case
    using Suc.IH [OF ok, of "drop 32 random"] Suc.prems add_one_elems [OF Suc.prems(1), of S random]
    by (simp add: new_keys_Suc ac_simps take_Cons_take)
qed

section \<open>Looking up and removing a key\<close>

lemma is_equal_32: "length a = 32 \<Longrightarrow> length b = 32 \<Longrightarrow> olm_is_equal a b 32 \<longleftrightarrow> a = b"
  by simp

lemma key_position_None:
  "\<forall>k \<in> set ks. one_time_key_ok k \<Longrightarrow> length key = 32 \<Longrightarrow>
   key_position key ks i = None \<longleftrightarrow> key \<notin> set (map otk_public ks)"
  by (induction ks arbitrary: i) (auto simp: one_time_key_ok_def curve25519_key_pair_ok_def)

lemma key_position_Some:
  "\<forall>k \<in> set ks. one_time_key_ok k \<Longrightarrow> length key = 32 \<Longrightarrow> key_position key ks i = Some j \<Longrightarrow>
   i \<le> j \<and> j - i < length ks \<and> otk_public (ks ! (j - i)) = key"
proof (induction ks arbitrary: i)
  case (Cons k ks)
  show ?case
  proof (cases "olm_is_equal (otk_public k) key 32")
    case True
    then show ?thesis using Cons.prems by (auto simp: one_time_key_ok_def curve25519_key_pair_ok_def)
  next
    case False
    then have "Suc i \<le> j \<and> j - Suc i < length ks \<and> otk_public (ks ! (j - Suc i)) = key"
      using Cons.IH [of "Suc i"] Cons.prems by simp
    moreover from this have "j - i = Suc (j - Suc i)" by (intro Suc_diff_Suc [symmetric]) auto
    ultimately show ?thesis by simp
  qed
qed simp

lemma account_list:
  assumes "account_ok a"
  shows "list_ok 100 (ac_one_time_keys a)" "\<forall>k \<in> set (elems (ac_one_time_keys a)). one_time_key_ok k"
  using assms slots_list_ok slots_elems_ok by (simp add: account_ok_def account_sized_def, blast)+

lemma remove_key_cases:
  assumes "account_ok a" "length key = 32" "olm_account_remove_key a key = (a', r)"
  obtains (kept) "a' = a" "key \<notin> set (map otk_public (elems (ac_one_time_keys a)))"
  | (removed) i where "i < length (elems (ac_one_time_keys a))" "otk_public (elems (ac_one_time_keys a) ! i) = key"
      "a' = a\<lparr>ac_one_time_keys := olm_list_erase (ac_one_time_keys a) i\<rparr>"
      "elems (ac_one_time_keys a') = erase_elem i (elems (ac_one_time_keys a))"
      "r = Some (unat (otk_id (elems (ac_one_time_keys a) ! i)))"
proof (cases "key_position key (elems (ac_one_time_keys a)) 0")
  case None
  then show thesis
    using assms(3) key_position_None [OF account_list(2) [OF assms(1)] assms(2), of 0] kept
    by (simp add: olm_account_remove_key_def)
next
  case (Some i)
  note p = key_position_Some [OF account_list(2) [OF assms(1)] assms(2) Some]
  have i: "i < ol_length (ac_one_time_keys a)" using p length_elems [OF account_list(1) [OF assms(1)]] by simp
  show thesis
    using p i Some assms(3) removed elems_erase [OF account_list(1) [OF assms(1)], of i]
    by (auto simp: olm_account_remove_key_def olm_list_get_elems)
qed

lemma lookup_one_time_key:
  assumes "account_ok a" "k \<in> set (elems (ac_one_time_keys a))"
    and "distinct (map otk_public (elems (ac_one_time_keys a)))"
  shows "olm_account_lookup_key a (otk_public k) = Some k"
proof -
  let ?ks = "elems (ac_one_time_keys a)"
  have k: "length (otk_public k) = 32"
    using account_list(2) [OF assms(1)] assms(2) by (simp add: one_time_key_ok_def curve25519_key_pair_ok_def)
  then obtain i where i: "key_position (otk_public k) ?ks 0 = Some i"
    using key_position_None [OF account_list(2) [OF assms(1)] k, of 0] assms(2) by fastforce
  then have p: "i < length ?ks" "otk_public (?ks ! i) = otk_public k"
    using key_position_Some [OF account_list(2) [OF assms(1)] k i] by simp_all
  then have "?ks ! i = k" using assms(2,3) by (metis (no_types, lifting) distinct_conv_nth in_set_conv_nth length_map nth_map)
  then show ?thesis
    using i p length_elems [OF account_list(1) [OF assms(1)]] by (simp add: olm_account_lookup_key_def olm_list_get_elems)
qed

lemma erase_elem_remove1:
  assumes "i < length xs" "distinct xs"
  shows "erase_elem i xs = remove1 (xs ! i) xs"
proof -
  have "xs ! i \<notin> set (take i xs)"
    using assms by (auto simp: in_set_conv_nth distinct_conv_nth)
  moreover have "xs = take i xs @ xs ! i # drop (Suc i) xs" using assms(1) by (simp add: id_take_nth_drop)
  ultimately show ?thesis by (metis Suc_eq_plus1 erase_elem_def remove1.simps(2) remove1_append)
qed

section \<open>Reachable accounts\<close>

definition account_key_ids :: "account \<Rightarrow> u32 list" where
  "account_key_ids a = map otk_id (elems (ac_one_time_keys a))
     @ (if 1 \<le> ac_num_fallback_keys a then [otk_id (ac_current_fallback_key a)] else [])
     @ (if 2 \<le> ac_num_fallback_keys a then [otk_id (ac_prev_fallback_key a)] else [])"

text \<open>
  One call of the library on an account. The counter of key ids has 32 bits; the runs are those
  on which it does not wrap around, and on which the random buffer has the bytes it should.
\<close>

inductive account_step :: "sodium \<Rightarrow> account \<Rightarrow> account \<Rightarrow> bool" for S where
  one_time_keys: "olm_account_generate_one_time_keys S a n random = Some (a', r) \<Longrightarrow> 32 * n \<le> length random \<Longrightarrow>
     unat (ac_next_one_time_key_id a) + n < 2 ^ 32 \<Longrightarrow> account_step S a a'"
| fallback_key: "olm_account_generate_fallback_key S a random = (a', r) \<Longrightarrow>
     unat (ac_next_one_time_key_id a) + 1 < 2 ^ 32 \<Longrightarrow> account_step S a a'"
| published: "olm_account_mark_keys_as_published a = (a', n) \<Longrightarrow> account_step S a a'"
| forgotten: "account_step S a (olm_account_forget_old_fallback_key a)"
| key_used: "olm_account_remove_key a key = (a', r) \<Longrightarrow> length key = 32 \<Longrightarrow> account_step S a a'"
| signed: "olm_account_sign S a message buffer = (a', b, r) \<Longrightarrow> account_step S a a'"
| json: "olm_account_get_one_time_keys_json a buffer = (a', b, r) \<Longrightarrow> account_step S a a'"

inductive account_reachable :: "sodium \<Rightarrow> account \<Rightarrow> bool" for S where
  created: "olm_account_new_account S (olm_account_init memory) random = (a, Some 0) \<Longrightarrow> account_sized memory \<Longrightarrow>
     account_reachable S a"
| step: "account_reachable S a \<Longrightarrow> account_step S a a' \<Longrightarrow> account_reachable S a'"

text \<open>Well-formed, with ids that are all different and below the counter, and a signing key that
  belongs to the published one.\<close>

definition account_inv :: "sodium \<Rightarrow> account \<Rightarrow> bool" where
  "account_inv S a \<longleftrightarrow> account_ok a \<and> distinct (account_key_ids a)
     \<and> (\<forall>i \<in> set (account_key_ids a). 0 < i \<and> i \<le> ac_next_one_time_key_id a)
     \<and> ed25519_key S (ik_ed25519_key (ac_identity_keys a))"

lemma account_inv_error [simp]: "account_inv S (a\<lparr>ac_last_error := e\<rparr>) = account_inv S a"
  by (simp add: account_inv_def account_ok_def account_sized_def account_key_ids_def)

lemma unat_next: "unat n + k < 2 ^ 32 \<Longrightarrow> unat ((n :: u32) + of_nat k) = unat n + k"
  by (simp add: unat_word_ariths unsigned_of_nat take_bit_nat_eq_self)

lemma inv_created:
  assumes "olm_account_new_account S (olm_account_init memory) random = (a, Some 0)" "account_sized memory"
  shows "account_inv S a"
proof -
  have r: "64 \<le> length random"
    using assms(1) by (auto simp: olm_account_new_account_def olm_account_new_account_random_length_def split: if_splits)
  show ?thesis
    using assms r ed25519_generate_key [of S random]
    by (auto simp: olm_account_new_account_def olm_account_new_account_random_length_def olm_account_init_def
        account_inv_def account_ok_def account_sized_def identity_keys_ok_def account_key_ids_def slots_ok_init
        generate_key_ok ed25519_key_pair_ok_def)
qed

lemma distinct_take_append: "distinct (xs @ ys) \<Longrightarrow> distinct (take n xs @ ys)"
  by (auto dest: in_set_takeD)

lemma upto_two:
  assumes "(n :: u8) \<le> 2"
  shows "n = 0 \<or> n = 1 \<or> n = 2"
proof -
  have "unat n = 0 \<or> unat n = 1 \<or> unat n = 2" using assms by (simp add: word_le_nat_alt) linarith
  moreover have "n = 1" if "unat n = 1" using that by (intro unsigned_word_eqI [where 'a = nat]) simp
  moreover have "n = 2" if "unat n = 2" using that by (intro unsigned_word_eqI [where 'a = nat]) simp
  ultimately show ?thesis by (auto simp: unat_eq_0)
qed

lemma two_one: "\<not> (2 :: u8) \<le> 1"
  by (simp add: word_le_nat_alt)

text \<open>The ids of new keys are distinct and all above the counter, as long as it does not wrap.\<close>

lemma new_key_ids:
  assumes room: "unat next + n < 2 ^ 32"
  shows "distinct (map otk_id (new_keys S n random (next + 1)))"
    "x \<in> set (map otk_id (new_keys S n random (next + 1))) \<Longrightarrow> unat next < unat x \<and> unat x \<le> unat next + n"
proof -
  have ids: "map otk_id (new_keys S n random (next + 1)) = map (\<lambda>i. next + of_nat (i + 1)) [0..<n]"
    by (simp add: new_keys_def new_key_def comp_def ac_simps)
  have u: "unat (next + of_nat (i + 1)) = unat next + (i + 1)" if "i < n" for i
    using that room by (intro unat_next) simp
  have "inj_on (\<lambda>i. next + of_nat (i + 1)) {0..<n}"
  proof (rule inj_onI)
    fix i j assume "i \<in> {0..<n}" "j \<in> {0..<n}" "next + of_nat (i + 1) = next + of_nat (j + 1)"
    then show "i = j" using u [of i] u [of j] by simp
  qed
  then show "distinct (map otk_id (new_keys S n random (next + 1)))" unfolding ids distinct_map by simp
  show "unat next < unat x \<and> unat x \<le> unat next + n" if "x \<in> set (map otk_id (new_keys S n random (next + 1)))"
    using that u unfolding ids by auto
qed

lemma inv_generate:
  assumes inv: "account_inv S a" and g: "olm_account_generate_one_time_keys S a n random = Some (a', r)"
    and len: "32 * n \<le> length random" and room: "unat (ac_next_one_time_key_id a) + n < 2 ^ 32"
  shows "account_inv S a'"
proof (cases "length random < olm_account_generate_one_time_keys_random_length n")
  case True
  then show ?thesis using inv g by (auto simp: olm_account_generate_one_time_keys_def)
next
  case False
  let ?next = "ac_next_one_time_key_id a" and ?old = "elems (ac_one_time_keys a)"
  have n: "n < 2 ^ 32" using room by simp
  have ok: "account_ok a" using inv by (simp add: account_inv_def)
  have a': "a' = add_keys S n random a"
    using False g generate_loop_ends [OF n _ len, of 0] by (simp add: olm_account_generate_one_time_keys_def)
  note A = add_keys_eq [OF ok len, of S, folded a']
  note new = new_key_ids [OF room, where S = S and random = random]
  have next': "unat (ac_next_one_time_key_id a') = unat ?next + n" using A unat_next [OF room] by simp
  have keys: "map otk_id (elems (ac_one_time_keys a')) =
      take 100 (rev (map otk_id (new_keys S n random (?next + 1))) @ map otk_id ?old)"
    using A by (simp add: take_map rev_map)
  have rest: "account_key_ids a' = map otk_id (elems (ac_one_time_keys a')) @ drop (length ?old) (account_key_ids a)"
    using A by (simp add: account_key_ids_def)
  have old: "account_key_ids a = map otk_id ?old @ drop (length ?old) (account_key_ids a)"
    by (simp add: account_key_ids_def)
  have bound: "0 < unat x \<and> unat x \<le> unat ?next" if "x \<in> set (account_key_ids a)" for x
    using inv that by (auto simp: account_inv_def word_le_nat_alt word_less_nat_alt)
  let ?all = "(rev (map otk_id (new_keys S n random (?next + 1))) @ map otk_id ?old) @ drop (length ?old) (account_key_ids a)"
  have all: "set ?all = set (map otk_id (new_keys S n random (?next + 1))) \<union> set (account_key_ids a)"
    by (subst (2) old) auto
  have "distinct (rev (map otk_id (new_keys S n random (?next + 1))) @ account_key_ids a)"
    using new inv bound by (fastforce simp: account_inv_def)
  then have dist: "distinct ?all" by (subst (asm) old) simp
  have sub: "set (account_key_ids a') \<subseteq> set ?all" unfolding rest keys by (auto dest: in_set_takeD)
  have "distinct (account_key_ids a')"
    unfolding rest keys using dist by (rule distinct_take_append)
  moreover have "0 < x \<and> x \<le> ac_next_one_time_key_id a'" if "x \<in> set (account_key_ids a')" for x
    using that sub all new(2) [of x] bound [of x] next' by (force simp: word_le_nat_alt word_less_nat_alt)
  moreover have "ac_identity_keys a' = ac_identity_keys a" unfolding a' by (induction n arbitrary: random a) simp_all
  ultimately show ?thesis using A inv by (auto simp: account_inv_def)
qed

lemma inv_fallback:
  assumes inv: "account_inv S a" and g: "olm_account_generate_fallback_key S a random = (a', r)"
    and room: "unat (ac_next_one_time_key_id a) + 1 < 2 ^ 32"
  shows "account_inv S a'"
proof (cases "length random < 32")
  case True
  then show ?thesis using inv g by (auto simp: olm_account_generate_fallback_key_def olm_account_generate_fallback_key_random_length_def)
next
  case False
  let ?n = "ac_next_one_time_key_id a"
  have u: "unat (?n + 1) = unat ?n + 1" using unat_next [of ?n 1] room by simp
  have b: "?n < ?n + 1" "0 < ?n + 1" using u by (simp_all add: word_less_nat_alt)
  have less: "x \<noteq> ?n + 1 \<and> x \<le> ?n + 1" if "x \<le> ?n" for x using that b by (auto dest: order.strict_trans1)
  have c: "ac_num_fallback_keys a = 0 \<or> ac_num_fallback_keys a = 1 \<or> ac_num_fallback_keys a = 2"
    using inv by (intro upto_two) (simp add: account_inv_def account_ok_def)
  have key: "one_time_key_ok \<lparr>otk_id = ?n + 1, otk_published = False, otk_key = olm_crypto_curve25519_generate_key S random\<rparr>"
    using False by (simp add: one_time_key_ok_def generate_key_ok)
  have old: "distinct (account_key_ids a)" "\<forall>i \<in> set (account_key_ids a). 0 < i \<and> i \<le> ?n \<and> i \<noteq> ?n + 1 \<and> i \<le> ?n + 1"
    using inv less by (auto simp: account_inv_def)
  have a': "a' = a\<lparr>ac_num_fallback_keys := if ac_num_fallback_keys a < 2 then ac_num_fallback_keys a + 1 else ac_num_fallback_keys a,
      ac_prev_fallback_key := ac_current_fallback_key a, ac_next_one_time_key_id := ?n + 1,
      ac_current_fallback_key :=
        \<lparr>otk_id = ?n + 1, otk_published = False, otk_key = olm_crypto_curve25519_generate_key S random\<rparr>\<rparr>"
    using g False
    by (auto simp: olm_account_generate_fallback_key_def olm_account_generate_fallback_key_random_length_def Let_def)
  have ok: "account_ok a'"
    using inv key c by (elim disjE) (simp_all add: a' account_inv_def account_ok_def account_sized_def)
  have pair: "ed25519_key S (ik_ed25519_key (ac_identity_keys a'))" using inv by (simp add: a' account_inv_def)
  have "distinct (account_key_ids a') \<and> (\<forall>i \<in> set (account_key_ids a'). 0 < i \<and> i \<le> ?n + 1)"
    using old b c two_one by (elim disjE) (auto simp: a' account_key_ids_def)
  then show ?thesis using ok pair by (simp add: account_inv_def) (simp add: a')
qed

lemma mark_loop_eq: "mark_loop ks = (map (\<lambda>k. k\<lparr>otk_published := True\<rparr>) ks, length (filter (\<lambda>k. \<not> otk_published k) ks))"
  by (induction ks) (simp_all add: Let_def)

lemma mark_eq:
  "olm_account_mark_keys_as_published a =
    (a\<lparr>ac_one_time_keys := (ac_one_time_keys a)\<lparr>ol_data :=
         map (\<lambda>k. k\<lparr>otk_published := True\<rparr>) (elems (ac_one_time_keys a))
           @ drop (ol_length (ac_one_time_keys a)) (ol_data (ac_one_time_keys a))\<rparr>,
       ac_current_fallback_key := (ac_current_fallback_key a)\<lparr>otk_published := True\<rparr>\<rparr>, length (unpublished a))"
  by (simp add: olm_account_mark_keys_as_published_def mark_loop_eq unpublished_def Let_def)

lemma marked_elems:
  assumes "list_ok cap l" "l' = l\<lparr>ol_data := map f (elems l) @ drop (ol_length l) (ol_data l)\<rparr>"
  shows "elems l' = map f (elems l)"
  using assms by (simp add: elems_def list_ok_def)

lemma marked_ok:
  assumes "slots_ok cap one_time_key_ok l"
  shows "slots_ok cap one_time_key_ok
    (l\<lparr>ol_data := map (\<lambda>k. k\<lparr>otk_published := True\<rparr>) (elems l) @ drop (ol_length l) (ol_data l)\<rparr>)"
  using assms by (auto simp: slots_ok_def list_ok_def elems_def one_time_key_ok_def dest: in_set_takeD in_set_dropD)

lemma inv_published: "account_inv S a \<Longrightarrow> account_inv S (fst (olm_account_mark_keys_as_published a))"
  using marked_ok marked_elems [OF account_list(1) refl]
  by (auto simp: mark_eq account_inv_def account_ok_def account_sized_def account_key_ids_def comp_def one_time_key_ok_def)

lemma inv_forgotten: "account_inv S a \<Longrightarrow> account_inv S (olm_account_forget_old_fallback_key a)"
  using two_one
  by (auto simp: olm_account_forget_old_fallback_key_def account_inv_def account_ok_def account_sized_def
      account_key_ids_def unset_one_time_key_def one_time_key_ok_def curve25519_key_pair_ok_def)

lemma inv_key_used:
  assumes inv: "account_inv S a" and r: "olm_account_remove_key a key = (a', r)" "length key = 32"
  shows "account_inv S a'"
proof -
  have ok: "account_ok a" using inv by (simp add: account_inv_def)
  show ?thesis
  proof (cases rule: remove_key_cases [OF ok r(2,1)])
    case 1
    then show ?thesis using inv by simp
  next
    case removed: (2 i)
    let ?ks = "elems (ac_one_time_keys a)"
    let ?ids = "map otk_id ?ks"
    define tail where "tail = drop (length ?ks) (account_key_ids a)"
    have ids: "account_key_ids a = ?ids @ tail" "account_key_ids a' = remove1 (?ids ! i) ?ids @ tail"
      using inv removed(1) erase_elem_remove1 [of i ?ids]
      by (simp_all add: account_key_ids_def removed(3) account_inv_def tail_def)
        (simp add: removed(4) [unfolded removed(3), simplified] erase_elem_def take_map drop_map)
    have d: "distinct (account_key_ids a)" "\<forall>j \<in> set (account_key_ids a). 0 < j \<and> j \<le> ac_next_one_time_key_id a"
      using inv by (simp_all add: account_inv_def)
    have "distinct (account_key_ids a')" using d(1) set_remove1_subset [of "?ids ! i" ?ids] unfolding ids by auto
    moreover have "\<forall>j \<in> set (account_key_ids a'). 0 < j \<and> j \<le> ac_next_one_time_key_id a"
      using d(2) set_remove1_subset [of "?ids ! i" ?ids] unfolding ids by auto
    moreover have "account_ok a'"
      using ok by (simp add: removed(3) account_ok_def account_sized_def slots_ok_erase)
    ultimately show ?thesis using inv by (simp add: account_inv_def) (simp add: removed(3))
  qed
qed

lemma inv_step: "account_step S a a' \<Longrightarrow> account_inv S a \<Longrightarrow> account_inv S a'"
proof (induction rule: account_step.induct)
  case (json a buffer a' b r)
  then show ?case
    by (auto simp: olm_account_get_one_time_keys_json_def Let_def split: if_splits prod.splits)
next
  case (signed a message buffer a' b r)
  then show ?case by (auto simp: olm_account_sign_def split: if_splits)
next
  case (published a a' n)
  then show ?case using inv_published [of S a] by simp
qed (blast intro: inv_generate inv_fallback inv_forgotten inv_key_used)+

lemma inv_reachable: "account_reachable S a \<Longrightarrow> account_inv S a"
  by (induction rule: account_reachable.induct) (auto intro: inv_created inv_step)

section \<open>Properties\<close>

text \<open>C27: Every account that is created and then used, in any order of the operations that change
  it, stays well-formed: all keys have their sizes, at most 100 one-time keys and at most two
  fallback keys are held, the ids of all of them are different, positive and at most the
  counter, and the signing key still belongs to the published one.\<close>

theorem reachable_accounts_are_sound:
  assumes "account_reachable S a"
  shows "account_ok a \<and> length (elems (ac_one_time_keys a)) \<le> olm_account_max_number_of_one_time_keys
    \<and> distinct (account_key_ids a)
    \<and> (\<forall>i \<in> set (account_key_ids a). 0 < i \<and> i \<le> ac_next_one_time_key_id a)
    \<and> ed25519_pair S (ik_ed25519_key (ac_identity_keys a))"
  using inv_reachable [OF assms] length_elems_le [OF account_list(1)]
  by (simp add: account_inv_def olm_account_max_number_of_one_time_keys_def ed25519_key_def)

text \<open>C28: \<open>_olm_account_generate_one_time_keys\<close> puts the new keys in front, the last one first, made
  from consecutive pieces of the random bytes and with consecutive ids; of more than 100 keys
  the oldest are dropped.\<close>

theorem one_time_keys_generated:
  assumes "account_ok a" "n < 2 ^ 32" "32 * n \<le> length random"
  shows "\<exists>a'. olm_account_generate_one_time_keys S a n random = Some (a', Some n) \<and> account_ok a'
    \<and> elems (ac_one_time_keys a') =
        take MAX_ONE_TIME_KEYS
          (rev (map (\<lambda>i. \<lparr>otk_id = ac_next_one_time_key_id a + 1 + of_nat i, otk_published = False,
                         otk_key = olm_crypto_curve25519_generate_key S (drop (32 * i) random)\<rparr>) [0..<n])
           @ elems (ac_one_time_keys a))
    \<and> ac_next_one_time_key_id a' = ac_next_one_time_key_id a + of_nat n"
proof -
  have "olm_account_generate_one_time_keys_random_length n \<le> length random"
    using assms(2,3) by (simp add: olm_account_generate_one_time_keys_random_length_def size_mul_exact)
  then have "olm_account_generate_one_time_keys S a n random = Some (add_keys S n random a, Some n)"
    using generate_loop_ends [OF assms(2) _ assms(3), of 0] by (simp add: olm_account_generate_one_time_keys_def)
  then show ?thesis
    using add_keys_eq [OF assms(1,3), of S] by (simp add: new_keys_def new_key_def)
qed

text \<open>C30: \<open>_olm_account_generate_one_time_keys\<close> reads past the end of its random bytes exactly for the
  numbers of keys from \<open>2 ^ 32\<close> on that pass its check of the random length: the counter is a
  32-bit word that is compared with a 64-bit bound, and never reaches it. Below \<open>2 ^ 32\<close> the
  check asks for 32 bytes a key, and every read is inside. The product in the check is taken
  modulo \<open>2 ^ 64\<close>, so that of the numbers above some pass with no random bytes at all.\<close>

theorem generate_one_time_keys_in_bounds:
  "(olm_account_generate_one_time_keys S a n random = None \<longleftrightarrow>
      2 ^ 32 \<le> n \<and> olm_account_generate_one_time_keys_random_length n \<le> length random)
   \<and> olm_account_generate_one_time_keys_random_length n = 32 * n mod 2 ^ 64"
proof
  show l: "olm_account_generate_one_time_keys_random_length n = 32 * n mod 2 ^ 64"
    by (simp add: olm_account_generate_one_time_keys_random_length_def size_mul_def)
  show "olm_account_generate_one_time_keys S a n random = None \<longleftrightarrow>
      2 ^ 32 \<le> n \<and> olm_account_generate_one_time_keys_random_length n \<le> length random"
  proof (cases "n < 2 ^ 32")
    case True
    then have "32 * n mod 2 ^ 64 = 32 * n" by (intro mod_less) simp
    then show ?thesis
      using True generate_loop_ends [OF True, of 0 n random S a] by (simp add: olm_account_generate_one_time_keys_def l)
  next
    case False
    then have "generate_loop S n 0 random a = None" by (intro generate_loop_overruns) simp
    then show ?thesis using False by (simp add: olm_account_generate_one_time_keys_def)
  qed
qed

text \<open>C29: The four JSON texts of an account. Each length function gives the length of the text to
  the byte; a buffer of that length, or a longer one, is filled with the text from its start
  and not touched behind it. One-time keys appear if they are not published, with \<open>{\<close> before
  the first and a comma before the others.\<close>

theorem json_texts_fit:
  assumes "account_sized a"
    and "olm_account_get_identity_json_length a \<le> length m"
    and "olm_account_get_one_time_keys_json_length a \<le> length m"
    and "olm_account_get_fallback_key_json_length a \<le> length m"
    and "olm_account_get_unpublished_fallback_key_json_length a \<le> length m"
  shows "olm_account_get_identity_json a m =
      (a, write_at m 0 (identity_text a), Some (olm_account_get_identity_json_length a))
    \<and> olm_account_get_one_time_keys_json a m =
      (a, write_at m 0 (one_time_text a), Some (olm_account_get_one_time_keys_json_length a))
    \<and> olm_account_get_fallback_key_json a m =
      (a, write_at m 0 (fallback_text (1 \<le> ac_num_fallback_keys a) a),
       Some (olm_account_get_fallback_key_json_length a))
    \<and> olm_account_get_unpublished_fallback_key_json a m =
      (a, write_at m 0 (fallback_text (1 \<le> ac_num_fallback_keys a \<and> \<not> otk_published (ac_current_fallback_key a)) a),
       Some (olm_account_get_unpublished_fallback_key_json_length a))
    \<and> length (identity_text a) = olm_account_get_identity_json_length a
    \<and> length (one_time_text a) = olm_account_get_one_time_keys_json_length a"
  using identity_json_eq [OF assms(1,2)] one_time_json_eq [OF assms(1,3)] fallback_json_eq(1) [OF assms(1,4)]
    unpublished_fallback_json_eq(1) [OF assms(1,5)] by simp

text \<open>A one-time key can be used once. \<open>_olm_account_remove_key\<close> returns its id and takes just
  this key out of the list; after that the key is not found among the one-time keys, and every
  other one is still found under its public key.\<close>

theorem used_key_is_gone:
  assumes "account_ok a" "k \<in> set (elems (ac_one_time_keys a))"
    and "distinct (map otk_public (elems (ac_one_time_keys a)))"
  shows "(let (a', r) = olm_account_remove_key a (otk_public k)
          in r = Some (unat (otk_id k)) \<and> elems (ac_one_time_keys a') = remove1 k (elems (ac_one_time_keys a))
             \<and> (\<forall>k' \<in> set (elems (ac_one_time_keys a')).
                  otk_public k' \<noteq> otk_public k \<and> olm_account_lookup_key a' (otk_public k') = Some k'))"
proof -
  let ?ks = "elems (ac_one_time_keys a)"
  have len: "length (otk_public k) = 32"
    using account_list(2) [OF assms(1)] assms(2) by (simp add: one_time_key_ok_def curve25519_key_pair_ok_def)
  obtain a' r where e: "olm_account_remove_key a (otk_public k) = (a', r)" by force
  show ?thesis
  proof (cases rule: remove_key_cases [OF assms(1) len e])
    case 1
    then show ?thesis using assms(2) by simp
  next
    case removed: (2 i)
    have i: "?ks ! i = k"
      using removed(1,2) assms(2,3) by (metis (no_types, lifting) distinct_conv_nth in_set_conv_nth length_map nth_map)
    have d: "distinct ?ks" using assms(3) by (simp add: distinct_map)
    have ks: "elems (ac_one_time_keys a') = remove1 k ?ks"
      using erase_elem_remove1 [OF removed(1) d] by (simp add: removed(4) i)
    have ok: "account_ok a'"
      using assms(1) by (simp add: removed(3) account_ok_def account_sized_def slots_ok_erase)
    have other: "otk_public k' \<noteq> otk_public k" if "k' \<in> set (remove1 k ?ks)" for k'
      using that assms(2,3) d by (auto simp: distinct_map dest: inj_onD)
    have dist: "distinct (map otk_public (remove1 k ?ks))"
      using assms(3) d by (simp add: distinct_map inj_on_diff)
    show ?thesis
      using lookup_one_time_key [OF ok] dist other removed(5) by (simp add: e ks i)
  qed
qed

section \<open>Witnesses\<close>

definition blank_account :: account where
  "blank_account =
     \<lparr>ac_last_error = OLM_SUCCESS,
      ac_identity_keys = \<lparr>ik_ed25519_key = \<lparr>ekp_public_key = zeros 32, ekp_private_key = zeros 64\<rparr>,
                         ik_curve25519_key = \<lparr>ckp_public_key = zeros 32, ckp_private_key = zeros 32\<rparr>\<rparr>,
      ac_one_time_keys = \<lparr>ol_length = 0, ol_data = replicate 100 unset_one_time_key\<rparr>,
      ac_current_fallback_key = unset_one_time_key, ac_prev_fallback_key = unset_one_time_key,
      ac_num_fallback_keys = 0, ac_next_one_time_key_id = 0,
      ac_ed25519_seed = zeros 32, ac_ed25519_seed_known = False\<rparr>"

lemma blank_account_sized: "account_sized blank_account"
  by (simp add: blank_account_def account_sized_def identity_keys_ok_def ed25519_key_pair_ok_def
      curve25519_key_pair_ok_def unset_one_time_key_def one_time_key_ok_def slots_ok_def list_ok_def)

definition sample_account :: account where
  "sample_account = fst (olm_account_new_account sample_sodium (olm_account_init blank_account) (zeros 64))"

lemma sample_account_reachable: "account_reachable sample_sodium sample_account"
  by (rule account_reachable.created [OF _ blank_account_sized, of _ "zeros 64"])
    (simp add: sample_account_def olm_account_new_account_def olm_account_new_account_random_length_def)

lemma sample_account_ok: "account_ok sample_account" "account_sized sample_account"
  using inv_reachable [OF sample_account_reachable] by (simp_all add: account_inv_def account_ok_def)

lemma generate_one_time_keys_in_bounds_witness:
  "olm_account_generate_one_time_keys sample_sodium sample_account (2 ^ 59) [] = None
    \<and> olm_account_generate_one_time_keys sample_sodium sample_account 1 [] \<noteq> None"
  using generate_one_time_keys_in_bounds [of sample_sodium sample_account "2 ^ 59" "[]"]
    generate_one_time_keys_in_bounds [of sample_sodium sample_account 1 "[]"] by simp

lemma sample_account_empty: "elems (ac_one_time_keys sample_account) = []"
  by (simp add: sample_account_def olm_account_new_account_def olm_account_new_account_random_length_def
      olm_account_init_def Let_def)

definition stocked_account :: account where
  "stocked_account = add_keys sample_sodium 2 (replicate 32 1 @ replicate 32 2) sample_account"

lemma stocked_keys:
  "account_ok stocked_account"
  "elems (ac_one_time_keys stocked_account) =
     [new_key sample_sodium (replicate 32 2) (ac_next_one_time_key_id sample_account + 1 + of_nat 1),
      new_key sample_sodium (replicate 32 1 @ replicate 32 2) (ac_next_one_time_key_id sample_account + 1 + of_nat 0)]"
  using add_keys_eq [OF sample_account_ok(1), of 2 "replicate 32 1 @ replicate 32 2" sample_sodium]
  by (simp_all add: stocked_account_def sample_account_empty new_keys_def numeral_2_eq_2)

lemma stocked_distinct: "distinct (map otk_public (elems (ac_one_time_keys stocked_account)))"
proof -
  have "otk_public (new_key sample_sodium (replicate 32 2) i) ! 0 = 2"
    "otk_public (new_key sample_sodium (replicate 32 1 @ replicate 32 2) j) ! 0 = 1" for i j
    by (simp_all add: new_key_def olm_crypto_curve25519_generate_key_def sample_sodium_def Let_def)
  then show ?thesis unfolding stocked_keys by (auto dest: arg_cong [where f = "\<lambda>x. x ! 0"])
qed

lemma reachable_accounts_are_sound_witness:
  "account_ok sample_account \<and> length (elems (ac_one_time_keys sample_account)) \<le> olm_account_max_number_of_one_time_keys
    \<and> distinct (account_key_ids sample_account)
    \<and> list_all (\<lambda>i. 0 < i \<and> i \<le> ac_next_one_time_key_id sample_account) (account_key_ids sample_account)
    \<and> ed25519_pair sample_sodium (ik_ed25519_key (ac_identity_keys sample_account))"
  using reachable_accounts_are_sound [OF sample_account_reachable] by (simp add: list_all_iff)

lemma one_time_keys_generated_witness:
  "\<exists>a'. olm_account_generate_one_time_keys sample_sodium sample_account 3 (zeros 96) = Some (a', Some 3) \<and> account_ok a'
    \<and> elems (ac_one_time_keys a') =
        take MAX_ONE_TIME_KEYS
          (rev (map (\<lambda>i. \<lparr>otk_id = ac_next_one_time_key_id sample_account + 1 + of_nat i, otk_published = False,
                         otk_key = olm_crypto_curve25519_generate_key sample_sodium (drop (32 * i) (zeros 96))\<rparr>) [0..<3])
           @ elems (ac_one_time_keys sample_account))
    \<and> ac_next_one_time_key_id a' = ac_next_one_time_key_id sample_account + of_nat 3"
  by (rule one_time_keys_generated [OF sample_account_ok(1)]) simp_all

lemma json_texts_fit_witness:
  "olm_account_get_identity_json sample_account (zeros 200) =
      (sample_account, write_at (zeros 200) 0 (identity_text sample_account),
       Some (olm_account_get_identity_json_length sample_account))"
  using json_texts_fit [OF sample_account_ok(2), of "zeros 200"] sample_account_empty
  by (simp add: olm_account_get_identity_json_length_def olm_account_get_one_time_keys_json_length_def
      olm_account_get_fallback_key_json_length_def olm_account_get_unpublished_fallback_key_json_length_def)

lemma used_key_is_gone_witness:
  "(let k = elems (ac_one_time_keys stocked_account) ! 0;
        (a', r) = olm_account_remove_key stocked_account (otk_public k)
    in r = Some (unat (otk_id k)) \<and> elems (ac_one_time_keys a') = remove1 k (elems (ac_one_time_keys stocked_account))
       \<and> list_all (\<lambda>k'. otk_public k' \<noteq> otk_public k \<and> olm_account_lookup_key a' (otk_public k') = Some k')
            (elems (ac_one_time_keys a')))"
proof -
  let ?k = "elems (ac_one_time_keys stocked_account) ! 0"
  have k: "?k \<in> set (elems (ac_one_time_keys stocked_account))" by (simp add: stocked_keys)
  show ?thesis using used_key_is_gone [OF stocked_keys(1) k stocked_distinct] by (simp add: Let_def list_all_iff)
qed

end
