(* ===== verification/Session_Setup.thy ===== *)
theory Session_Setup
  imports Session Account_Keys
begin

text \<open>
  The two sides of a session: what encryption writes, how the pre-key message lets Bob start the
  session that Alice started, and how the sessions stay in step afterwards, on top of what
  \<open>Conversation\<close> shows of the ratchets.
\<close>

section \<open>What encryption writes\<close>

definition session_message :: "sodium \<Rightarrow> session \<Rightarrow> bytes \<Rightarrow> bytes \<Rightarrow> bytes" where
  "session_message S s random p =
     (let body = sent_message S (se_ratchet s) random p
      in if se_received_message s then body
         else pre_key_body PROTOCOL_VERSION (se_bob_one_time_key s) (se_alice_base_key s) (se_alice_identity_key s) body)"

lemma length_pre_key_body_le:
  assumes "length otk = 32" "length base = 32" "length ident = 32" "length body < 2 ^ 64"
  shows "length (pre_key_body v otk base ident body) \<le> length body + 141"
  using assms length_varint_64 [of 32] length_varint_64 [of "length body"]
  by (simp add: pre_key_body_def length_field)

lemma session_length_eq:
  assumes "session_ok s" "olm_session_encrypt_random_length s \<le> length random" "length p < 2 ^ 60"
  shows "olm_session_encrypt_message_length s (length p) = length (session_message S s random p)"
    "length (session_message S s random p) < 2 ^ 61"
proof -
  let ?body = "sent_message S (se_ratchet s) random p"
  have r: "ratchet_ok (se_ratchet s)" "olm_ratchet_encrypt_random_length (se_ratchet s) \<le> length random"
    and k: "length (se_alice_identity_key s) = 32" "length (se_alice_base_key s) = 32" "length (se_bob_one_time_key s) = 32"
    using assms by (simp_all add: session_ok_def olm_session_encrypt_random_length_def)
  note b = ratchet_output_length [OF r assms(3), of S] length_sent_message [OF r assms(3), of S]
  have B: "length ?body < 2 ^ 61 - 200" using b(2) assms(3) by simp
  have l: "length (pre_key_body PROTOCOL_VERSION (se_bob_one_time_key s) (se_alice_base_key s) (se_alice_identity_key s) ?body)
      < 2 ^ 61"
    using length_pre_key_body_le [OF k(3,2,1), of ?body PROTOCOL_VERSION] B by simp
  then show "olm_session_encrypt_message_length s (length p) = length (session_message S s random p)"
    using olm_encode_pre_key_length_eq [of PROTOCOL_VERSION "se_bob_one_time_key s" "se_alice_base_key s"
        "se_alice_identity_key s" ?body] k b(1)
    by (simp add: olm_session_encrypt_message_length_def session_message_def Let_def)
  show "length (session_message S s random p) < 2 ^ 61" using l B by (simp add: session_message_def Let_def)
qed

lemma length_write_at_ge: "length m \<le> length (write_at m p v)"
  by (cases "p \<le> length m") (simp_all add: write_at_def)

lemma session_encrypt_eq:
  assumes s: "session_ok s" and rl: "olm_session_encrypt_random_length s \<le> length random" and p: "length p < 2 ^ 60"
    and m: "length (session_message S s random p) \<le> length m" "length m < 2 ^ 64"
  shows "olm_session_encrypt S s p random m =
    (s\<lparr>se_ratchet := sent S (se_ratchet s) random\<rparr>, write_at m 0 (session_message S s random p),
     Some (length (sent_message S (se_ratchet s) random p)))"
proof -
  let ?body = "sent_message S (se_ratchet s) random p"
  have r: "ratchet_ok (se_ratchet s)" "olm_ratchet_encrypt_random_length (se_ratchet s) \<le> length random"
    and k: "length (se_alice_identity_key s) = 32" "length (se_alice_base_key s) = 32" "length (se_bob_one_time_key s) = 32"
    using s rl by (simp_all add: session_ok_def olm_session_encrypt_random_length_def)
  note out = ratchet_output_length [OF r p, of S]
  have enc: "olm_ratchet_encrypt S (se_ratchet s) p random b = (sent S (se_ratchet s) random, ?body, Some (length ?body))"
    if "length b = length ?body" for b
    using ratchet_encrypt_eq [OF r p, of S b] that length_sent_message [OF r p, of S] p by simp
  have fit: "olm_session_encrypt_message_length s (length p) \<le> length m"
    using session_length_eq(1) [OF s rl p, of S] m(1) by simp
  show ?thesis
  proof (cases "se_received_message s")
    case True
    have "length ?body \<le> length m" using True m(1) by (simp add: session_message_def)
    then show ?thesis
      using True fit enc [of "read_at m 0 (length ?body)"]
      by (simp add: olm_session_encrypt_def start_message_def out session_message_def)
  next
    case False
    let ?pre = "pre_key_body PROTOCOL_VERSION (se_bob_one_time_key s) (se_alice_base_key s) (se_alice_identity_key s) ?body"
    have pre: "session_message S s random p = ?pre" using False by (simp add: session_message_def)
    obtain m1 w where w: "olm_encode_one_time_key_message PROTOCOL_VERSION (length (se_alice_identity_key s))
        (length (se_alice_base_key s)) (length (se_bob_one_time_key s)) (length ?body) m = (m1, w)" by force
    note L = encode_pre_key_layout [OF w m(1) [unfolded pre] m(2)]
    let ?m3 = "write_at (write_at (write_at m1 (pw_one_time_key w) (se_bob_one_time_key s))
        (pw_identity_key w) (se_alice_identity_key s)) (pw_base_key w) (se_alice_base_key s)"
    have l3: "pw_message w + length ?body \<le> length ?m3"
    proof -
      have "length m1 \<le> length ?m3" by (meson length_write_at_ge order_trans)
      then show ?thesis using L(2,3) m(1) pre by simp
    qed
    show ?thesis
      using False fit enc [of "read_at ?m3 (pw_message w) (length ?body)"] l3 L(1) w k
      by (simp add: olm_session_encrypt_def start_message_def out Let_def pre)
  qed
qed

lemma session_encrypt_Some:
  assumes s: "session_ok s" and p: "length p < 2 ^ 60" and m: "length m < 2 ^ 64"
    and e: "olm_session_encrypt S s p random m = (s', m', Some n)"
  shows "olm_ratchet_encrypt_random_length (se_ratchet s) \<le> length random"
    "s' = s\<lparr>se_ratchet := sent S (se_ratchet s) random\<rparr>"
    "take (olm_session_encrypt_message_length s (length p)) m' = session_message S s random p"
proof -
  have rl: "olm_session_encrypt_random_length s \<le> length random"
  proof (rule ccontr)
    assume "\<not> olm_session_encrypt_random_length s \<le> length random"
    then show False
      using e by (auto simp: olm_session_encrypt_def olm_ratchet_encrypt_def olm_session_encrypt_random_length_def
          Let_def split: if_splits prod.splits)
  qed
  then show "olm_ratchet_encrypt_random_length (se_ratchet s) \<le> length random"
    by (simp add: olm_session_encrypt_random_length_def)
  note l = session_length_eq [OF s rl p, of S]
  have "length (session_message S s random p) \<le> length m"
    using e l(1) by (auto simp: olm_session_encrypt_def split: if_splits)
  then have "olm_session_encrypt S s p random m =
      (s\<lparr>se_ratchet := sent S (se_ratchet s) random\<rparr>, write_at m 0 (session_message S s random p),
       Some (length (sent_message S (se_ratchet s) random p)))"
    using session_encrypt_eq [OF s rl p] m by simp
  then show "s' = s\<lparr>se_ratchet := sent S (se_ratchet s) random\<rparr>"
    "take (olm_session_encrypt_message_length s (length p)) m' = session_message S s random p"
    using e l by (auto simp: write_at_def)
qed

section \<open>Reading the message\<close>

lemma message_body_of_sent:
  assumes "session_ok s" "olm_ratchet_encrypt_random_length (se_ratchet s) \<le> length random" "length p < 2 ^ 60"
  shows "message_body_of (olm_session_encrypt_message_type s) (session_message S s random p) =
    Some (sent_message S (se_ratchet s) random p)"
proof -
  have "length (sent_message S (se_ratchet s) random p) < 2 ^ 64"
    using length_sent_message [of "se_ratchet s" random p S] assms by (simp add: session_ok_def)
  then show ?thesis
    using assms(1) by (simp add: message_body_of_def olm_session_encrypt_message_type_def session_message_def Let_def
        decode_pre_key_body session_ok_def)
qed

lemma session_decrypt_eq:
  assumes "message_body_of t message = Some body"
    and "olm_ratchet_decrypt S (se_ratchet s) body buf = (r, buf', Some n)"
  shows "olm_session_decrypt S s t message buf = (s\<lparr>se_ratchet := r, se_received_message := True\<rparr>, buf', Some n)"
  using assms by (simp add: olm_session_decrypt_def)

section \<open>Sessions in step\<close>

definition session_in_step :: "sodium \<Rightarrow> session \<Rightarrow> session \<Rightarrow> nat \<Rightarrow> nat \<Rightarrow> bool" where
  "session_in_step S x y lx ly \<longleftrightarrow> session_ok x \<and> session_ok y \<and> in_step S (se_ratchet x) (se_ratchet y) lx ly"

lemma session_delivered:
  assumes dh: "dh_agrees S" and inv: "session_in_step S x y lx ly"
    and rl: "olm_ratchet_encrypt_random_length (se_ratchet x) \<le> length random"
    and send: "ck_index (sc_chain_key (sending_chain S (se_ratchet x) random)) \<noteq> -1"
      "fresh_key S (se_ratchet x) (se_ratchet y) random" "length p < 2 ^ 60" "length (cbc_padded p) \<le> length buf"
    and dec: "olm_session_decrypt S y (olm_session_encrypt_message_type x) (session_message S x random p) buf = (y', buf', res)"
  shows "res = Some (length p) \<and> take (length p) buf' = p \<and> se_received_message y'
    \<and> session_in_step S (x\<lparr>se_ratchet := sent S (se_ratchet x) random\<rparr>) y' 0 ly"
proof -
  have ok: "session_ok x" "session_ok y" and st: "in_step S (se_ratchet x) (se_ratchet y) lx ly"
    using inv by (simp_all add: session_in_step_def)
  note body = message_body_of_sent [OF ok(1) rl send(3), of S]
  obtain r b q where r: "olm_ratchet_decrypt S (se_ratchet y) (sent_message S (se_ratchet x) random p) buf = (r, b, q)"
    by (rule prod_cases3)
  note d = in_step_delivered [OF dh st rl send r]
  have e: "(y', buf', res) = (y\<lparr>se_ratchet := r, se_received_message := True\<rparr>, b, Some (length p))"
    using session_decrypt_eq [OF body, of S y buf r b] r d dec by simp
  have "ratchet_ok (sent S (se_ratchet x) random)" "ratchet_ok r"
    using d by (simp_all add: in_step_def peers_def)
  then show ?thesis using d e ok by (simp add: session_in_step_def session_ok_def)
qed

section \<open>The handshake\<close>

lemma blank_init: "ratchet_ok r \<Longrightarrow> blank (olm_ratchet_init OLM_KDF_INFO CIPHER_KDF_INFO r)"
  by (simp add: blank_def ratchet_init_ok) (simp add: olm_ratchet_init_def)

text \<open>What the new outbound session holds; \<open>base\<close> and \<open>rk\<close> are the keys made from the random bytes.\<close>

lemma new_outbound_eq:
  assumes "olm_session_new_outbound_session S s A identity_key one_time_key random = (s1, Some 0)"
    and ik: "ik = ik_curve25519_key (ac_identity_keys A)" and base: "base = olm_crypto_curve25519_generate_key S random"
    and rk: "rk = olm_crypto_curve25519_generate_key S (drop 32 random)"
  shows "64 \<le> length random"
    "s1 = s\<lparr>se_received_message := False, se_alice_identity_key := ckp_public_key ik,
            se_alice_base_key := ckp_public_key base, se_bob_one_time_key := one_time_key,
            se_ratchet := olm_ratchet_initialise_as_alice S (se_ratchet s)
              (olm_crypto_curve25519_shared_secret S ik one_time_key
               @ olm_crypto_curve25519_shared_secret S base identity_key
               @ olm_crypto_curve25519_shared_secret S base one_time_key) rk\<rparr>"
  using assms by (auto simp: olm_session_new_outbound_session_def olm_session_new_outbound_session_random_length_def
      Let_def split: if_splits)

lemma new_inbound_eq:
  assumes rd: "olm_decode_one_time_key_message message =
      \<lparr>pr_version = v, pr_identity_key = Some ident, pr_base_key = Some base, pr_one_time_key = Some otk, pr_message = Some body\<rparr>"
    and len: "length ident = 32" "length base = 32" "length otk = 32" "length rk = 32"
    and their: "their = None \<or> their = Some ident"
    and mr: "mr_ratchet_key (olm_decode_message body aes_sha_256_cipher_mac_length) = Some rk"
    and lk: "olm_account_lookup_key B otk = Some k"
  shows "olm_session_new_inbound_session S t B their message =
    Some (t\<lparr>se_alice_identity_key := ident, se_alice_base_key := base, se_bob_one_time_key := otk,
            se_ratchet := olm_ratchet_initialise_as_bob S (se_ratchet t)
              (olm_crypto_curve25519_shared_secret S (otk_key k) ident
               @ olm_crypto_curve25519_shared_secret S (ik_curve25519_key (ac_identity_keys B)) base
               @ olm_crypto_curve25519_shared_secret S (otk_key k) base) rk\<rparr>, Some 0)"
  using assms by (auto simp: olm_session_new_inbound_session_def Let_def check_message_fields_def)

text \<open>Both sides compute the same secret.\<close>

lemma triple_dh_agrees:
  assumes "dh_agrees S" "curve25519_pair S a" "curve25519_pair S base" "curve25519_pair S b" "curve25519_pair S k"
  shows "olm_crypto_curve25519_shared_secret S k (ckp_public_key a)
      @ olm_crypto_curve25519_shared_secret S b (ckp_public_key base)
      @ olm_crypto_curve25519_shared_secret S k (ckp_public_key base) =
    olm_crypto_curve25519_shared_secret S a (ckp_public_key k)
      @ olm_crypto_curve25519_shared_secret S base (ckp_public_key b)
      @ olm_crypto_curve25519_shared_secret S base (ckp_public_key k)"
  using shared_secret_agrees [OF assms(1,2,5)] shared_secret_agrees [OF assms(1,3,4)]
    shared_secret_agrees [OF assms(1,3,5)] by simp

text \<open>Alice's session as it is made: a fresh sender chain, her keys and no answer yet.\<close>

lemma outbound_session_ready:
  assumes mem: "session_ok s" and a: "ik = ik_curve25519_key (ac_identity_keys A)" "curve25519_pair S ik"
    and k: "length ok = 32" and base: "base = olm_crypto_curve25519_generate_key S random"
    and rk: "rk = olm_crypto_curve25519_generate_key S (drop 32 random)"
    and secret: "secret = olm_crypto_curve25519_shared_secret S ik ok
     @ olm_crypto_curve25519_shared_secret S base bk @ olm_crypto_curve25519_shared_secret S base ok"
    and out: "olm_session_new_outbound_session S (olm_session_init s) A bk ok random = (s1, Some 0)"
  shows "curve25519_pair S base" "curve25519_pair S rk"
    "se_alice_identity_key s1 = ckp_public_key ik" "se_alice_base_key s1 = ckp_public_key base"
    "se_bob_one_time_key s1 = ok" "\<not> se_received_message s1" "session_ok s1"
    "elems (rt_receiver_chains (se_ratchet s1)) = []"
    "elems (rt_sender_chain (se_ratchet s1)) = [\<lparr>sc_ratchet_key = rk, sc_chain_key =
       \<lparr>ck_index = 0, ck_key = read_at (olm_crypto_hkdf_sha256 S secret [] (ki_root_info OLM_KDF_INFO) (zeros 64)) 32 32\<rparr>\<rparr>]"
    "\<And>t. session_ok t \<Longrightarrow> in_step S (se_ratchet s1) (olm_ratchet_initialise_as_bob S
       (olm_ratchet_init OLM_KDF_INFO CIPHER_KDF_INFO (se_ratchet t)) secret (ckp_public_key rk)) 0 0"
proof -
  let ?rs = "olm_ratchet_init OLM_KDF_INFO CIPHER_KDF_INFO (se_ratchet s)"
  note o = new_outbound_eq [OF out a(1) base rk]
  show pair: "curve25519_pair S base" "curve25519_pair S rk"
    using o(1) by (simp_all add: base rk generate_key_pair)
  show f: "se_alice_identity_key s1 = ckp_public_key ik" "se_alice_base_key s1 = ckp_public_key base"
    "se_bob_one_time_key s1 = ok" "\<not> se_received_message s1"
    by (simp_all add: o(2))
  have blank: "blank ?rs" using mem by (simp add: session_ok_def blank_init)
  have r1: "se_ratchet s1 = olm_ratchet_initialise_as_alice S ?rs secret rk"
    by (simp add: o(2) secret olm_session_init_def)
  show st: "in_step S (se_ratchet s1) (olm_ratchet_initialise_as_bob S
      (olm_ratchet_init OLM_KDF_INFO CIPHER_KDF_INFO (se_ratchet t)) secret (ckp_public_key rk)) 0 0"
    if "session_ok t" for t
    unfolding r1 using blank pair(2) that by (intro in_step_initial) (simp_all add: session_ok_def blank_init)
  show "session_ok s1"
    using st [OF mem] f k curve25519_pair_ok [OF a(2)] curve25519_pair_ok [OF pair(1)]
    by (simp add: session_ok_def in_step_def peers_def curve25519_key_pair_ok_def)
  show "elems (rt_receiver_chains (se_ratchet s1)) = []"
    unfolding r1 using blank by (simp add: olm_ratchet_initialise_as_alice_def Let_def blank_def)
  show "elems (rt_sender_chain (se_ratchet s1)) = [\<lparr>sc_ratchet_key = rk, sc_chain_key =
       \<lparr>ck_index = 0, ck_key = read_at (olm_crypto_hkdf_sha256 S secret [] (ki_root_info OLM_KDF_INFO) (zeros 64)) 32 32\<rparr>\<rparr>]"
    unfolding r1 using blank by (subst initialised_alice) (simp_all add: blank_def)
qed

text \<open>What the other side reads from the first message.\<close>

lemma first_message_read:
  assumes so: "session_ok s" and new: "\<not> se_received_message s"
    and el: "elems (rt_sender_chain (se_ratchet s)) = [\<lparr>sc_ratchet_key = rk, sc_chain_key = c\<rparr>]"
    and rk: "curve25519_pair S rk" and p: "length p < 2 ^ 60"
  shows "olm_decode_one_time_key_message (session_message S s random p) =
      \<lparr>pr_version = PROTOCOL_VERSION, pr_identity_key = Some (se_alice_identity_key s),
       pr_base_key = Some (se_alice_base_key s), pr_one_time_key = Some (se_bob_one_time_key s),
       pr_message = Some (sent_message S (se_ratchet s) random p)\<rparr>" (is ?pre)
    "mr_ratchet_key (olm_decode_message (sent_message S (se_ratchet s) random p) aes_sha_256_cipher_mac_length)
      = Some (ckp_public_key rk)" (is ?key)
proof -
  have ok: "ratchet_ok (se_ratchet s)" using so by (simp add: session_ok_def)
  have rl: "olm_ratchet_encrypt_random_length (se_ratchet s) \<le> length random"
    using el olm_list_empty_iff [OF ratchet_list_ok(1) [OF ok]] by (simp add: olm_ratchet_encrypt_random_length_def)
  show ?pre
    using length_sent_message [OF ok rl p, of S] p so new
    by (simp add: session_message_def session_ok_def Let_def decode_pre_key_body)
  show ?key
    using sending_old(1) [OF ok el] curve25519_pair_ok [OF rk] p
    by (simp add: sent_message_def Let_def decode_ratchet_message curve25519_key_pair_ok_def)
qed

lemma session_handshake:
  assumes dh: "dh_agrees S" and mem: "session_ok s" "session_ok t"
    and a: "ik = ik_curve25519_key (ac_identity_keys A)" "curve25519_pair S ik"
    and b: "bk = ik_curve25519_key (ac_identity_keys B)" "curve25519_pair S bk"
    and k: "olm_account_lookup_key B (otk_public k) = Some k" "curve25519_pair S (otk_key k)"
    and out: "olm_session_new_outbound_session S (olm_session_init s) A (ckp_public_key bk) (otk_public k) random = (s1, Some 0)"
    and p: "length p < 2 ^ 60" and their: "their = None \<or> their = Some (ckp_public_key ik)"
    and message: "message = session_message S s1 random1 p"
  shows "\<exists>t1. olm_session_new_inbound_session S (olm_session_init t) B their message = Some (t1, Some 0)
    \<and> session_in_step S s1 t1 0 0
    \<and> se_alice_identity_key t1 = se_alice_identity_key s1 \<and> se_alice_base_key t1 = se_alice_base_key s1
    \<and> se_bob_one_time_key t1 = se_bob_one_time_key s1 \<and> \<not> se_received_message s1
    \<and> elems (rt_receiver_chains (se_ratchet s1)) = []
    \<and> olm_session_matches_inbound_session t1 their message
    \<and> (\<exists>rk. elems (rt_sender_chain (se_ratchet s1)) = [\<lparr>sc_ratchet_key = rk, sc_chain_key =
          \<lparr>ck_index = 0, ck_key = read_at (olm_crypto_hkdf_sha256 S
             (olm_crypto_curve25519_shared_secret S ik (otk_public k)
              @ olm_crypto_curve25519_shared_secret S (olm_crypto_curve25519_generate_key S random) (ckp_public_key bk)
              @ olm_crypto_curve25519_shared_secret S (olm_crypto_curve25519_generate_key S random) (otk_public k))
             [] (ki_root_info OLM_KDF_INFO) (zeros 64)) 32 32\<rparr>\<rparr>])"
proof -
  define base where "base = olm_crypto_curve25519_generate_key S random"
  define rk where "rk = olm_crypto_curve25519_generate_key S (drop 32 random)"
  define secret where "secret = olm_crypto_curve25519_shared_secret S ik (otk_public k)
     @ olm_crypto_curve25519_shared_secret S base (ckp_public_key bk)
     @ olm_crypto_curve25519_shared_secret S base (otk_public k)"
  have len: "length (ckp_public_key ik) = 32" "length (otk_public k) = 32"
    using curve25519_pair_ok [OF a(2)] curve25519_pair_ok [OF k(2)] by (simp_all add: curve25519_key_pair_ok_def)
  note o = outbound_session_ready [OF mem(1) a len(2) base_def rk_def secret_def out]
  have lb: "length (ckp_public_key base) = 32" "length (ckp_public_key rk) = 32"
    using curve25519_pair_ok [OF o(1)] curve25519_pair_ok [OF o(2)] by (simp_all add: curve25519_key_pair_ok_def)
  note rd = first_message_read [OF o(7,6,9,2) p, of random1, unfolded o(3-5), folded message]
  note i = new_inbound_eq [OF rd(1) len(1) lb(1) len(2) lb(2) their rd(2) k(1), of S "olm_session_init t"]
  have sec: "olm_crypto_curve25519_shared_secret S (otk_key k) (ckp_public_key ik)
      @ olm_crypto_curve25519_shared_secret S (ik_curve25519_key (ac_identity_keys B)) (ckp_public_key base)
      @ olm_crypto_curve25519_shared_secret S (otk_key k) (ckp_public_key base) = secret"
    unfolding secret_def using triple_dh_agrees [OF dh a(2) o(1) b(2) k(2)] b(1) by simp
  let ?t1 = "olm_session_init t\<lparr>se_alice_identity_key := ckp_public_key ik, se_alice_base_key := ckp_public_key base,
      se_bob_one_time_key := otk_public k,
      se_ratchet := olm_ratchet_initialise_as_bob S
        (olm_ratchet_init OLM_KDF_INFO CIPHER_KDF_INFO (se_ratchet t)) secret (ckp_public_key rk)\<rparr>"
  have t1: "olm_session_new_inbound_session S (olm_session_init t) B their message = Some (?t1, Some 0)"
    using i unfolding sec by (simp add: olm_session_init_def)
  have "session_ok ?t1" using o(10) [OF mem(2)] len lb by (simp add: session_ok_def in_step_def peers_def)
  then have "session_in_step S s1 ?t1 0 0" using o(7,10) mem(2) by (simp add: session_in_step_def)
  moreover have "olm_session_matches_inbound_session ?t1 their message"
    using their len lb by (auto simp: olm_session_matches_inbound_session_def rd check_message_fields_def)
  ultimately show ?thesis
    using t1 o(3-6,8,9) by (intro exI [of _ ?t1]) (auto simp: secret_def base_def)
qed

section \<open>Describing stays in the buffer\<close>

text \<open>The loop's invariant: a terminated string inside the first \<open>n\<close> bytes.\<close>

fun describing_ok :: "nat \<Rightarrow> nat \<Rightarrow> describing \<Rightarrow> bool" where
  "describing_ok l n (Described buf) = (length buf = l \<and> NUL \<in> set (take n buf))"
| "describing_ok l n (Describing buf pos remaining) =
     (length buf = l \<and> NUL \<in> set (take n buf) \<and> pos + remaining = n)"

lemma NUL_written: "i < n \<Longrightarrow> n \<le> length buf \<Longrightarrow> NUL \<in> set (take n (buf[i := NUL]))"
  by (auto simp: in_set_conv_nth intro!: exI [of _ i])

lemma written_inside: "pos + length w \<le> n \<Longrightarrow> n \<le> length buf \<Longrightarrow> set w \<subseteq> set (take n (write_at buf pos w))"
  by (auto simp: write_at_def)

lemma put_char_inside: "0 \<le> i \<Longrightarrow> i < int (length buf) \<Longrightarrow> put_char buf i c = Some (buf[nat i := c])"
  by (simp add: put_char_def)

lemma snprintf_ok:
  assumes "pos + remaining = n" "n \<le> length buf" "NUL \<in> set (take n buf)"
  shows "\<exists>b. snprintf buf pos remaining text = Some b \<and> length b = length buf \<and> NUL \<in> set (take n b)"
proof (cases "remaining = 0")
  case False
  let ?w = "take (remaining - 1) text @ [NUL]"
  have w: "pos + length ?w \<le> n" using False assms(1) by simp
  have "NUL \<in> set (take n (write_at buf pos ?w))" using written_inside [OF w assms(2)] by auto
  moreover have "pos + length ?w \<le> length buf" using w assms(2) by linarith
  ultimately show ?thesis using False by (simp add: snprintf_def Let_def del: length_append)
qed (use assms in \<open>simp add: snprintf_def\<close>)

text \<open>With four bytes before its end the elision is inside the buffer.\<close>

lemma elide_ok:
  assumes "4 \<le> n" "n \<le> length b"
  shows "\<exists>b'. elide_description b (int n - 1) = Some b' \<and> length b' = length b \<and> NUL \<in> set (take n b')"
proof -
  let ?b = "b[nat (int n - 1 - 3) := CHR ''.'', nat (int n - 1 - 2) := CHR ''.'', nat (int n - 1 - 1) := CHR ''.'']"
  have "elide_description b (int n - 1) = Some (?b[nat (int n - 1) := NUL])"
    using assms by (simp add: elide_description_def put_char_inside)
  moreover have "NUL \<in> set (take n (?b[nat (int n - 1) := NUL]))"
    using assms by (intro NUL_written) simp_all
  ultimately show ?thesis by simp
qed

lemma describe_text_ok:
  assumes "describing_ok l n d" "4 \<le> n" "n \<le> l"
  shows "\<exists>d'. describe_text text d = Some d' \<and> describing_ok l n d'"
proof (cases d)
  case (Describing buf pos remaining)
  obtain b where b: "snprintf buf pos remaining text = Some b" "length b = l" "NUL \<in> set (take n b)"
    using snprintf_ok [of pos remaining n buf "text"] assms by (auto simp: Describing)
  obtain b' where b': "elide_description b (int pos + int remaining - 1) = Some b'" "length b' = l" "NUL \<in> set (take n b')"
    using elide_ok [of n b] assms b(2) by (auto simp: Describing)
  show ?thesis using b b' assms(1) by (simp add: Describing Let_def)
qed (use assms in simp)

lemma described_buffer_ok: "describing_ok l n d \<Longrightarrow> length (described_buffer d) = l \<and> NUL \<in> set (take n (described_buffer d))"
  by (cases d) simp_all

lemma describe_all_ok:
  "describing_ok l n d \<Longrightarrow> 4 \<le> n \<Longrightarrow> n \<le> l \<Longrightarrow>
   \<exists>b. describe_all ts d = Some b \<and> length b = l \<and> NUL \<in> set (take n b)"
proof (induction ts arbitrary: d)
  case (Cons t ts)
  obtain d' where "describe_text t d = Some d'" "describing_ok l n d'"
    using describe_text_ok [OF Cons.prems(1,2,3)] by blast
  then show ?case using Cons by simp
qed (simp add: described_buffer_ok)

lemma sint_le_unat: "sint (w :: u32) \<le> int (unat w)"
proof -
  have "- (2 ^ 31) \<le> uint w" by (rule order_trans [of _ 0]) simp_all
  then have "signed_take_bit 31 (uint w) \<le> uint w" by (simp only: signed_take_bit_int_less_eq_self_iff)
  then show ?thesis by (simp add: sint_uint)
qed

lemma sint_le_length: "0 < sint (of_nat n :: u32) \<Longrightarrow> nat (sint (of_nat n :: u32)) \<le> n"
proof -
  assume pos: "0 < sint (of_nat n :: u32)"
  have "sint (of_nat n :: u32) \<le> int (unat (of_nat n :: u32))"
    by (rule sint_le_unat)
  also have "unat (of_nat n :: u32) \<le> n" by (simp add: unsigned_of_nat)
  finally show ?thesis by simp
qed

section \<open>The first message\<close>

lemma outbound_session_ok:
  assumes "dh_agrees S" "session_ok s"
    and "curve25519_pair S (ik_curve25519_key (ac_identity_keys A))"
    and "curve25519_pair S (ik_curve25519_key (ac_identity_keys B))"
    and "olm_account_lookup_key B (otk_public k) = Some k" "curve25519_pair S (otk_key k)"
    and "olm_session_new_outbound_session S (olm_session_init s) A
           (ckp_public_key (ik_curve25519_key (ac_identity_keys B))) (otk_public k) random = (s1, Some 0)"
  shows "session_ok s1"
  using session_handshake [OF assms(1,2,2) refl assms(3) refl assms(4-7), of "[]" None _ "[]"]
  by (auto simp: session_in_step_def)

lemma first_message_delivered:
  assumes "dh_agrees S" "session_ok s" "session_ok t"
    and "curve25519_pair S (ik_curve25519_key (ac_identity_keys A))"
    and "curve25519_pair S (ik_curve25519_key (ac_identity_keys B))"
    and "olm_account_lookup_key B (otk_public k) = Some k" "curve25519_pair S (otk_key k)"
    and "olm_session_new_outbound_session S (olm_session_init s) A
           (ckp_public_key (ik_curve25519_key (ac_identity_keys B))) (otk_public k) random = (s1, Some 0)"
    and "their = None \<or> their = Some (ckp_public_key (ik_curve25519_key (ac_identity_keys A)))"
    and "olm_ratchet_encrypt_random_length (se_ratchet s1) \<le> length random1" "length p < 2 ^ 60"
    and "length (cbc_padded p) \<le> length buf"
  obtains t1 t2 buf' where
    "olm_session_new_inbound_session S (olm_session_init t) B their (session_message S s1 random1 p) = Some (t1, Some 0)"
    "se_alice_identity_key t1 = se_alice_identity_key s1" "se_alice_base_key t1 = se_alice_base_key s1"
    "se_bob_one_time_key t1 = se_bob_one_time_key s1"
    "olm_session_matches_inbound_session t1 their (session_message S s1 random1 p)"
    "olm_session_decrypt S t1 (olm_session_encrypt_message_type s1) (session_message S s1 random1 p) buf =
       (t2, buf', Some (length p))"
    "take (length p) buf' = p" "session_in_step S (s1\<lparr>se_ratchet := sent S (se_ratchet s1) random1\<rparr>) t2 0 0"
proof -
  obtain t1 where t1: "olm_session_new_inbound_session S (olm_session_init t) B their (session_message S s1 random1 p) =
      Some (t1, Some 0)" "session_in_step S s1 t1 0 0"
      "se_alice_identity_key t1 = se_alice_identity_key s1" "se_alice_base_key t1 = se_alice_base_key s1"
      "se_bob_one_time_key t1 = se_bob_one_time_key s1"
      "olm_session_matches_inbound_session t1 their (session_message S s1 random1 p)"
      "\<exists>c. elems (rt_sender_chain (se_ratchet s1)) = [c] \<and> ck_index (sc_chain_key c) = 0"
    using session_handshake [OF assms(1-3) refl assms(4) refl assms(5-8) assms(11,9) refl, of random1] by auto
  have ok: "ratchet_ok (se_ratchet s1)" using t1(2) by (simp add: session_in_step_def session_ok_def)
  obtain c where c: "elems (rt_sender_chain (se_ratchet s1)) = [c]" "ck_index (sc_chain_key c) = 0" using t1(7) by blast
  have i: "ck_index (sc_chain_key (sending_chain S (se_ratchet s1) random1)) \<noteq> -1"
    using sending_old(1) [OF ok c(1)] c(2) by simp
  have f: "fresh_key S (se_ratchet s1) (se_ratchet t1) random1"
    using c(1) olm_list_empty_iff [OF ratchet_list_ok(1) [OF ok]] by (simp add: fresh_key_def)
  obtain t2 buf' res where d: "olm_session_decrypt S t1 (olm_session_encrypt_message_type s1)
      (session_message S s1 random1 p) buf = (t2, buf', res)" by (rule prod_cases3)
  show thesis
    using session_delivered [OF assms(1) t1(2) assms(10) i f assms(11,12) d] d t1(1,3-6) that by blast
qed

section \<open>Properties\<close>

text \<open>C1: The handshake works: Bob can start his side of the session from Alice's first message,
  whether or not he knows her identity key from elsewhere. Both sides get the same session id, the
  new session is recognised for the message, it decrypts the message to what Alice wrote, and
  from there on the two sessions are in step.\<close>

theorem session_established:
  assumes "dh_agrees S" "session_ok s" "session_ok t"
    and "curve25519_pair S (ik_curve25519_key (ac_identity_keys A))"
    and "curve25519_pair S (ik_curve25519_key (ac_identity_keys B))"
    and "olm_account_lookup_key B (otk_public k) = Some k" "curve25519_pair S (otk_key k)"
    and "olm_session_new_outbound_session S (olm_session_init s) A
           (ckp_public_key (ik_curve25519_key (ac_identity_keys B))) (otk_public k) random = (s1, Some 0)"
    and "their = None \<or> their = Some (ckp_public_key (ik_curve25519_key (ac_identity_keys A)))"
    and "olm_session_encrypt S s1 p random1 m = (s2, m', Some n)" "length p < 2 ^ 60" "length m < 2 ^ 64"
    and "length (cbc_padded p) \<le> length buf"
  shows "(let message = take (olm_session_encrypt_message_length s1 (length p)) m'
          in \<exists>t1 t2 buf'. olm_session_new_inbound_session S (olm_session_init t) B their message = Some (t1, Some 0)
               \<and> olm_session_matches_inbound_session t1 their message
               \<and> snd (olm_session_session_id S t1 ident) = snd (olm_session_session_id S s2 ident)
               \<and> olm_session_decrypt S t1 (olm_session_encrypt_message_type s1) message buf = (t2, buf', Some (length p))
               \<and> take (length p) buf' = p \<and> session_in_step S s2 t2 0 0)"
proof -
  note h = assms(1-8)
  have ok: "session_ok s1" by (rule outbound_session_ok [OF h(1,2,4-8)])
  note e = session_encrypt_Some [OF ok assms(11,12,10)]
  obtain t1 t2 buf' where t:
    "olm_session_new_inbound_session S (olm_session_init t) B their (session_message S s1 random1 p) = Some (t1, Some 0)"
    "se_alice_identity_key t1 = se_alice_identity_key s1" "se_alice_base_key t1 = se_alice_base_key s1"
    "se_bob_one_time_key t1 = se_bob_one_time_key s1"
    "olm_session_matches_inbound_session t1 their (session_message S s1 random1 p)"
    "olm_session_decrypt S t1 (olm_session_encrypt_message_type s1) (session_message S s1 random1 p) buf =
       (t2, buf', Some (length p))"
    "take (length p) buf' = p" "session_in_step S (s1\<lparr>se_ratchet := sent S (se_ratchet s1) random1\<rparr>) t2 0 0"
    by (rule first_message_delivered [OF h assms(9) e(1) assms(11,13)])
  show ?thesis using t by (simp add: e(2,3) Let_def olm_session_session_id_def)
qed

text \<open>C2: Sessions that are in step stay so: the next message one of them encrypts, be it a pre-key
  message or a normal one, is decrypted by the other to its plaintext, the other has then
  received a message (so that its own messages are normal ones), and they are in step again.\<close>

theorem session_message_delivered:
  assumes "dh_agrees S" "session_in_step S x y lx ly"
    and "olm_session_encrypt S x p random m = (x', m', Some n)"
    and "sendable S (se_ratchet x) p random m" "fresh_key S (se_ratchet x) (se_ratchet y) random"
    and "length (cbc_padded p) \<le> length buf"
    and "olm_session_decrypt S y (olm_session_encrypt_message_type x)
           (take (olm_session_encrypt_message_length x (length p)) m') buf = (y', buf', res)"
  shows "res = Some (length p) \<and> take (length p) buf' = p
    \<and> olm_session_encrypt_message_type y' = MESSAGE_TYPE_MESSAGE \<and> session_in_step S x' y' 0 ly"
proof -
  have ok: "session_ok x" using assms(2) by (simp add: session_in_step_def)
  have s: "length p < 2 ^ 60" "length m < 2 ^ 64" "ck_index (sc_chain_key (sending_chain S (se_ratchet x) random)) \<noteq> -1"
    using assms(4) by (simp_all add: sendable_def)
  note e = session_encrypt_Some [OF ok s(1,2) assms(3)]
  show ?thesis
    using session_delivered [OF assms(1,2) e(1) s(3) assms(5) s(1) assms(6), of y' buf' res] assms(7) e
    by (simp add: olm_session_encrypt_message_type_def)
qed

text \<open>The messages for which starting a session reads through the null pointer.\<close>

lemma new_inbound_None_iff:
  "olm_session_new_inbound_session S s local_account their_identity_key message = None \<longleftrightarrow>
     their_identity_key \<noteq> None
     \<and> pr_identity_key (olm_decode_one_time_key_message message) = None
     \<and> check_message_fields (olm_decode_one_time_key_message message) True"
  by (auto simp: olm_session_new_inbound_session_def Let_def check_message_fields_def split: option.splits)

text \<open>C35: Every write of \<open>_olm_session_describe\<close>, of \<open>snprintf\<close> and of \<open>elide_description\<close> with its indices
  down to \<open>end[-3]\<close>, is inside the buffer it is given, whatever the session holds and whatever the
  length of the buffer is, and it leaves a terminated string there for every length that is
  positive as a 32-bit signed number. Of a longer buffer only as many bytes are touched as the
  low 32 bits of its length say.\<close>

theorem describe_stays_in_buffer:
  "\<exists>d. olm_session_describe s buf = Some d \<and> length d = length buf
   \<and> (0 < length buf \<and> length buf < 2 ^ 31 \<longrightarrow> NUL \<in> set d)"
proof -
  let ?r = "sint (of_nat (length buf) :: u32)" and ?b = "buf[0 := NUL]"
  have b: "NUL \<in> set (take n ?b)" if "0 < n" "n \<le> length buf" for n using that by (intro NUL_written)
  have r: "?r = int (length buf)" if "length buf < 2 ^ 31"
    using that by (simp add: signed_of_nat signed_take_bit_int_eq_self)
  consider "?r \<le> 0" | "0 < ?r" "?r < 23" | "23 \<le> ?r" by linarith
  then show ?thesis
  proof cases
    case 1
    then show ?thesis using r by (auto simp: olm_session_describe_def Let_def)
  next
    case 2
    then have "0 < length buf" using sint_le_length [of "length buf"] by linarith
    moreover from this have "put_char buf 0 NUL = Some ?b" by (simp add: put_char_def)
    ultimately show ?thesis using 2 b [of "length buf"] by (simp add: olm_session_describe_def Let_def)
  next
    case 3
    then have n: "23 \<le> nat ?r" "nat ?r \<le> length buf" using sint_le_length [of "length buf"] by simp_all
    then have "put_char buf 0 NUL = Some ?b" by (auto simp: put_char_def)
    moreover have "describing_ok (length buf) (nat ?r) (Describing ?b 0 (nat ?r))" using b [of "nat ?r"] n by simp
    ultimately show ?thesis
      using describe_all_ok [of "length buf" "nat ?r" "Describing ?b 0 (nat ?r)" "describe_texts s"] n 3
      by (auto simp: olm_session_describe_def Let_def dest: in_set_takeD)
  qed
qed

section \<open>Witnesses\<close>

definition blank_session :: session where
  "blank_session =
     \<lparr>se_last_error = OLM_SUCCESS, se_ratchet = blank_ratchet, se_alice_identity_key = zeros 32,
      se_alice_base_key = zeros 32, se_bob_one_time_key = zeros 32, se_received_message = False\<rparr>"

lemma blank_session_ok: "session_ok blank_session"
  by (simp add: session_ok_def blank_session_def blank_ratchet_ok)

definition stocked_key :: one_time_key where
  "stocked_key = elems (ac_one_time_keys stocked_account) ! 0"

abbreviation stocked_identity :: curve25519_key_pair where
  "stocked_identity \<equiv> ik_curve25519_key (ac_identity_keys stocked_account)"

lemma stocked_key_found: "olm_account_lookup_key stocked_account (otk_public stocked_key) = Some stocked_key"
  by (rule lookup_one_time_key [OF stocked_keys(1) _ stocked_distinct]) (simp add: stocked_key_def stocked_keys)

lemma add_keys_identity: "ac_identity_keys (add_keys S n random a) = ac_identity_keys a"
  by (induction n arbitrary: random a) (simp_all add: add_one_time_key_def Let_def split: prod.splits)

lemma stocked_pairs: "curve25519_pair sample_sodium (otk_key stocked_key)" "curve25519_pair sample_sodium stocked_identity"
proof -
  have "curve25519_pair sample_sodium (ik_curve25519_key (ac_identity_keys sample_account))"
    by (simp add: sample_account_def olm_account_new_account_def olm_account_new_account_random_length_def
        olm_account_init_def Let_def generate_key_pair)
  then show "curve25519_pair sample_sodium stocked_identity"
    by (simp add: stocked_account_def add_keys_identity)
  show "curve25519_pair sample_sodium (otk_key stocked_key)"
    by (simp add: stocked_key_def stocked_keys new_key_def generate_key_pair)
qed

definition started_session :: session where
  "started_session = fst (olm_session_new_outbound_session sample_sodium (olm_session_init blank_session) stocked_account
     (ckp_public_key stocked_identity) (otk_public stocked_key) (zeros 64))"

lemma started:
  "olm_session_new_outbound_session sample_sodium (olm_session_init blank_session) stocked_account
     (ckp_public_key stocked_identity) (otk_public stocked_key) (zeros 64) = (started_session, Some 0)"
  by (simp add: started_session_def olm_session_new_outbound_session_def olm_session_new_outbound_session_random_length_def Let_def)

lemma started_ok:
  obtains t1 c where "session_in_step sample_sodium started_session t1 0 0"
    "elems (rt_sender_chain (se_ratchet started_session)) = [c]" "ck_index (sc_chain_key c) = 0"
    "olm_session_encrypt_random_length started_session = 0"
proof -
  obtain t1 c where t1: "session_in_step sample_sodium started_session t1 0 0"
      "elems (rt_sender_chain (se_ratchet started_session)) = [c]" "ck_index (sc_chain_key c) = 0"
    using session_handshake [OF sample_dh_agrees blank_session_ok blank_session_ok refl stocked_pairs(2) refl
        stocked_pairs(2) stocked_key_found stocked_pairs(1) started, of "[]" None _ "[]"] by auto
  then have "olm_session_encrypt_random_length started_session = 0"
    using olm_list_empty_iff [OF ratchet_list_ok(1), of "se_ratchet started_session"]
    by (simp add: session_in_step_def session_ok_def olm_session_encrypt_random_length_def olm_ratchet_encrypt_random_length_def)
  then show thesis using t1 that by blast
qed

lemma started_encrypts:
  obtains s2 m' n where "olm_session_encrypt sample_sodium started_session [5, 6] [] (zeros 300) = (s2, m', Some n)"
proof -
  obtain t1 where t1: "session_in_step sample_sodium started_session t1 0 0"
      "olm_session_encrypt_random_length started_session = 0" by (rule started_ok)
  have ok: "session_ok started_session" using t1(1) by (simp add: session_in_step_def)
  let ?body = "sent_message sample_sodium (se_ratchet started_session) [] [5, 6]"
  have "length ?body \<le> 87"
    using length_sent_message [of "se_ratchet started_session" "[]" "[5, 6]" sample_sodium] ok t1(2)
    by (simp add: session_ok_def olm_session_encrypt_random_length_def)
  then have "length (session_message sample_sodium started_session [] [5, 6]) \<le> length (zeros 300)"
    using length_pre_key_body_le [of "se_bob_one_time_key started_session" "se_alice_base_key started_session"
        "se_alice_identity_key started_session" ?body PROTOCOL_VERSION] ok
    by (simp add: session_message_def Let_def session_ok_def)
  then show thesis using session_encrypt_eq [OF ok, of "[]" "[5, 6]" sample_sodium "zeros 300"] t1(2) that by simp
qed

theorem session_established_witness:
  "\<exists>s2 m' n. olm_session_encrypt sample_sodium started_session [5, 6] [] (zeros 300) = (s2, m', Some n)
   \<and> (let message = take (olm_session_encrypt_message_length started_session (length [5, 6 :: u8])) m'
      in \<exists>t1 t2 buf'. olm_session_new_inbound_session sample_sodium (olm_session_init blank_session) stocked_account None message
             = Some (t1, Some 0)
           \<and> olm_session_matches_inbound_session t1 None message
           \<and> snd (olm_session_session_id sample_sodium t1 (zeros 32)) = snd (olm_session_session_id sample_sodium s2 (zeros 32))
           \<and> olm_session_decrypt sample_sodium t1 (olm_session_encrypt_message_type started_session) message (zeros 18)
             = (t2, buf', Some (length [5, 6 :: u8]))
           \<and> take (length [5, 6 :: u8]) buf' = [5, 6] \<and> session_in_step sample_sodium s2 t2 0 0)"
proof -
  obtain s2 m' n where e: "olm_session_encrypt sample_sodium started_session [5, 6] [] (zeros 300) = (s2, m', Some n)"
    by (rule started_encrypts)
  have "let message = take (olm_session_encrypt_message_length started_session (length [5, 6 :: u8])) m'
      in \<exists>t1 t2 buf'. olm_session_new_inbound_session sample_sodium (olm_session_init blank_session) stocked_account None message
             = Some (t1, Some 0)
           \<and> olm_session_matches_inbound_session t1 None message
           \<and> snd (olm_session_session_id sample_sodium t1 (zeros 32)) = snd (olm_session_session_id sample_sodium s2 (zeros 32))
           \<and> olm_session_decrypt sample_sodium t1 (olm_session_encrypt_message_type started_session) message (zeros 18)
             = (t2, buf', Some (length [5, 6 :: u8]))
           \<and> take (length [5, 6 :: u8]) buf' = [5, 6] \<and> session_in_step sample_sodium s2 t2 0 0"
    by (rule session_established [OF sample_dh_agrees blank_session_ok blank_session_ok stocked_pairs(2) stocked_pairs(2)
          stocked_key_found stocked_pairs(1) started _ e]) simp_all
  then show ?thesis using e by blast
qed

theorem session_message_delivered_witness:
  "\<exists>y x' m' n y' buf'. session_in_step sample_sodium started_session y 0 0
     \<and> olm_session_encrypt sample_sodium started_session [5, 6] [] (zeros 300) = (x', m', Some n)
     \<and> olm_session_decrypt sample_sodium y (olm_session_encrypt_message_type started_session)
         (take (olm_session_encrypt_message_length started_session (length [5, 6 :: u8])) m') (zeros 18)
       = (y', buf', Some (length [5, 6 :: u8]))
     \<and> take (length [5, 6 :: u8]) buf' = [5, 6] \<and> olm_session_encrypt_message_type y' = MESSAGE_TYPE_MESSAGE
     \<and> session_in_step sample_sodium x' y' 0 0"
proof -
  obtain y c where y: "session_in_step sample_sodium started_session y 0 0"
    "elems (rt_sender_chain (se_ratchet started_session)) = [c]" "ck_index (sc_chain_key c) = 0" by (rule started_ok)
  obtain x' m' n where e: "olm_session_encrypt sample_sodium started_session [5, 6] [] (zeros 300) = (x', m', Some n)"
    by (rule started_encrypts)
  have ok: "ratchet_ok (se_ratchet started_session)" using y(1) by (simp add: session_in_step_def session_ok_def)
  have s: "sendable sample_sodium (se_ratchet started_session) [5, 6] [] (zeros 300)"
    using sending_old(1) [OF ok y(2)] y(3) by (simp add: sendable_def)
  have f: "fresh_key sample_sodium (se_ratchet started_session) (se_ratchet y) []"
    using y(2) olm_list_empty_iff [OF ratchet_list_ok(1) [OF ok]] by (simp add: fresh_key_def)
  obtain y' buf' res where d: "olm_session_decrypt sample_sodium y (olm_session_encrypt_message_type started_session)
      (take (olm_session_encrypt_message_length started_session (length [5, 6 :: u8])) m') (zeros 18) = (y', buf', res)"
    by (rule prod_cases3)
  have "res = Some (length [5, 6 :: u8]) \<and> take (length [5, 6 :: u8]) buf' = [5, 6]
    \<and> olm_session_encrypt_message_type y' = MESSAGE_TYPE_MESSAGE \<and> session_in_step sample_sodium x' y' 0 0"
    by (rule session_message_delivered [OF sample_dh_agrees y(1) e s f _ d]) simp
  then show ?thesis using y(1) e d by blast
qed

theorem describe_stays_in_buffer_witness:
  "\<exists>d. olm_session_describe blank_session (replicate 30 CHR ''x'') = Some d \<and> length d = 30 \<and> NUL \<in> set d"
  using describe_stays_in_buffer [of blank_session "replicate 30 CHR ''x''"] by simp

end
