(* ===== verification/Pk.thy ===== *)
theory Pk
  imports Buffers Pickle_Encoding
begin

text \<open>
  \<open>src/pk.c\<close>: encryption to a public key (\<open>OlmPkEncryption\<close>, \<open>OlmPkDecryption\<close>) and signing
  with a key made from a seed (\<open>OlmPkSigning\<close>). The message is encrypted under the secret an
  ephemeral key shares with the recipient's key; ciphertext, MAC and ephemeral key go to
  three buffers in base64.

  The cipher is called with an output buffer of its own, of just the length of the MAC. The
  MAC is computed over what stands before it in that buffer, which is nothing: the MAC
  depends on the shared secret alone. Both ends do the same, so that messages are
  decrypted; \<open>Pk_Messages\<close> shows this and what it means for authenticity.
\<close>

abbreviation PK_MAC_LENGTH :: nat where "PK_MAC_LENGTH \<equiv> 8"
abbreviation PK_DECRYPTION_PICKLE_VERSION :: u32 where "PK_DECRYPTION_PICKLE_VERSION \<equiv> 1"

text \<open>\<open>olm_pk_cipher_aes_sha256\<close>: the KDF info of the cipher is the empty string.\<close>

definition OLM_PK_CIPHER_INFO :: bytes where "OLM_PK_CIPHER_INFO = ascii ''''"

section \<open>The cipher with a separate output buffer\<close>

text \<open>
  \<open>aes_sha_256_cipher_encrypt\<close> where \<open>ciphertext\<close> points into the buffer \<open>m\<close> and \<open>output\<close> to
  another one (in \<open>Cipher\<close> the first is a part of the second).
\<close>

definition aes_sha_256_cipher_encrypt_apart ::
    "sodium \<Rightarrow> bytes \<Rightarrow> bytes \<Rightarrow> bytes \<Rightarrow> nat \<Rightarrow> nat \<Rightarrow> bytes \<Rightarrow> bytes \<Rightarrow> bytes \<times> bytes \<times> nat option" where
  "aes_sha_256_cipher_encrypt_apart S kdf_info key plaintext ciphertext ciphertext_length m output =
     (let output_length = length output in
      if ciphertext_length < aes_sha_256_cipher_encrypt_ciphertext_length (length plaintext)
         \<or> output_length < MAC_LENGTH then (m, output, None)
      else let keys = derive_keys S kdf_info key;
               m = olm_crypto_aes_encrypt_cbc (dk_aes_key keys) (dk_aes_iv keys) plaintext m ciphertext;
               mac = olm_crypto_hmac_sha256 S (dk_mac_key keys) (take (output_length - MAC_LENGTH) output);
               output = write_at output (output_length - MAC_LENGTH) (take MAC_LENGTH mac)
           in (m, output, Some output_length))"

section \<open>Encryption\<close>

record pk_encryption =
  pe_last_error :: olm_error_code
  pe_recipient_key :: curve25519_public_key

definition olm_pk_encryption_last_error :: "pk_encryption \<Rightarrow> string" where
  "olm_pk_encryption_last_error e = olm_error_to_string (error_value (pe_last_error e))"

definition olm_pk_encryption_last_error_code :: "pk_encryption \<Rightarrow> olm_error_code" where
  "olm_pk_encryption_last_error_code e = pe_last_error e"

definition olm_clear_pk_encryption :: pk_encryption where
  "olm_clear_pk_encryption = \<lparr>pe_last_error = OLM_SUCCESS, pe_recipient_key = zeros 32\<rparr>"

definition olm_pk_encryption :: pk_encryption where
  "olm_pk_encryption = olm_clear_pk_encryption"

definition olm_pk_key_length :: nat where
  "olm_pk_key_length = olm_encode_base64_length CURVE25519_KEY_LENGTH"

definition olm_pk_encryption_set_recipient_key :: "pk_encryption \<Rightarrow> bytes \<Rightarrow> pk_encryption \<times> nat option" where
  "olm_pk_encryption_set_recipient_key e key =
     (if length key < olm_pk_key_length then (e\<lparr>pe_last_error := OLM_INPUT_BUFFER_TOO_SMALL\<rparr>, None)
      else (e\<lparr>pe_recipient_key := fst (decode_base64_to (take olm_pk_key_length key) (pe_recipient_key e))\<rparr>, Some 0))"

definition olm_pk_ciphertext_length :: "nat \<Rightarrow> nat" where
  "olm_pk_ciphertext_length plaintext_length =
     olm_encode_base64_length (aes_sha_256_cipher_encrypt_ciphertext_length plaintext_length)"

definition olm_pk_mac_length :: nat where
  "olm_pk_mac_length = olm_encode_base64_length aes_sha_256_cipher_mac_length"

definition olm_pk_encrypt_random_length :: nat where
  "olm_pk_encrypt_random_length = CURVE25519_KEY_LENGTH"

text \<open>The object, the buffers \<open>ciphertext\<close>, \<open>mac\<close> and \<open>ephemeral_key\<close>, and the result.\<close>

definition olm_pk_encrypt ::
    "sodium \<Rightarrow> pk_encryption \<Rightarrow> bytes \<Rightarrow> bytes \<Rightarrow> bytes \<Rightarrow> bytes \<Rightarrow> bytes \<Rightarrow>
     pk_encryption \<times> bytes \<times> bytes \<times> bytes \<times> nat option" where
  "olm_pk_encrypt S e plaintext ciphertext mac ephemeral_key random =
     (if length ciphertext < olm_pk_ciphertext_length (length plaintext)
         \<or> length mac < olm_pk_mac_length
         \<or> length ephemeral_key < olm_pk_key_length then
        (e\<lparr>pe_last_error := OLM_OUTPUT_BUFFER_TOO_SMALL\<rparr>, ciphertext, mac, ephemeral_key, None)
      else if length random < olm_pk_encrypt_random_length then
        (e\<lparr>pe_last_error := OLM_NOT_ENOUGH_RANDOM\<rparr>, ciphertext, mac, ephemeral_key, None)
      else
        let ephemeral_keypair = olm_crypto_curve25519_generate_key S random;
            (ephemeral_key, _) = encode_base64_to (ckp_public_key ephemeral_keypair) ephemeral_key;
            secret = olm_crypto_curve25519_shared_secret S ephemeral_keypair (pe_recipient_key e);
            raw_ciphertext_length = aes_sha_256_cipher_encrypt_ciphertext_length (length plaintext);
            ciphertext_pos = length ciphertext - raw_ciphertext_length;
            (ciphertext, raw_mac, result) =
              aes_sha_256_cipher_encrypt_apart S OLM_PK_CIPHER_INFO secret plaintext
                ciphertext_pos raw_ciphertext_length ciphertext (zeros PK_MAC_LENGTH)
        in case result of
             None \<Rightarrow> (e, ciphertext, mac, ephemeral_key, None)
           | Some n \<Rightarrow>
               let (mac, _) = encode_base64_to raw_mac mac;
                   (ciphertext, _) = olm_encode_base64 ciphertext ciphertext_pos raw_ciphertext_length 0
               in (e, ciphertext, mac, ephemeral_key, Some n))"

section \<open>Decryption\<close>

record pk_decryption =
  pd_last_error :: olm_error_code
  pd_key_pair :: curve25519_key_pair

definition olm_pk_decryption_last_error :: "pk_decryption \<Rightarrow> string" where
  "olm_pk_decryption_last_error d = olm_error_to_string (error_value (pd_last_error d))"

definition olm_pk_decryption_last_error_code :: "pk_decryption \<Rightarrow> olm_error_code" where
  "olm_pk_decryption_last_error_code d = pd_last_error d"

definition olm_clear_pk_decryption :: pk_decryption where
  "olm_clear_pk_decryption =
     \<lparr>pd_last_error = OLM_SUCCESS, pd_key_pair = \<lparr>ckp_public_key = zeros 32, ckp_private_key = zeros 32\<rparr>\<rparr>"

definition olm_pk_decryption :: pk_decryption where
  "olm_pk_decryption = olm_clear_pk_decryption"

definition olm_pk_private_key_length :: nat where
  "olm_pk_private_key_length = CURVE25519_KEY_LENGTH"

definition olm_pk_generate_key_random_length :: nat where
  "olm_pk_generate_key_random_length = olm_pk_private_key_length"

definition olm_pk_key_from_private ::
    "sodium \<Rightarrow> pk_decryption \<Rightarrow> bytes \<Rightarrow> bytes \<Rightarrow> pk_decryption \<times> bytes \<times> nat option" where
  "olm_pk_key_from_private S d pubkey privkey =
     (if length pubkey < olm_pk_key_length then
        (d\<lparr>pd_last_error := OLM_OUTPUT_BUFFER_TOO_SMALL\<rparr>, pubkey, None)
      else if length privkey < olm_pk_private_key_length then
        (d\<lparr>pd_last_error := OLM_INPUT_BUFFER_TOO_SMALL\<rparr>, pubkey, None)
      else
        let d = d\<lparr>pd_key_pair := olm_crypto_curve25519_generate_key S privkey\<rparr>;
            (pubkey, _) = encode_base64_to (ckp_public_key (pd_key_pair d)) pubkey
        in (d, pubkey, Some 0))"

definition olm_pk_generate_key ::
    "sodium \<Rightarrow> pk_decryption \<Rightarrow> bytes \<Rightarrow> bytes \<Rightarrow> pk_decryption \<times> bytes \<times> nat option" where
  "olm_pk_generate_key S d pubkey privkey = olm_pk_key_from_private S d pubkey privkey"

definition olm_pk_max_plaintext_length :: "nat \<Rightarrow> nat" where
  "olm_pk_max_plaintext_length ciphertext_length =
     aes_sha_256_cipher_decrypt_max_plaintext_length (olm_decode_base64_length ciphertext_length)"

text \<open>The object, the buffers \<open>ciphertext\<close> (decoded in place) and \<open>plaintext\<close>, and the result.\<close>

definition olm_pk_decrypt ::
    "sodium \<Rightarrow> pk_decryption \<Rightarrow> bytes \<Rightarrow> bytes \<Rightarrow> bytes \<Rightarrow> bytes \<Rightarrow>
     pk_decryption \<times> bytes \<times> bytes \<times> nat option" where
  "olm_pk_decrypt S d ephemeral_key mac ciphertext plaintext =
     (if length plaintext < olm_pk_max_plaintext_length (length ciphertext) then
        (d\<lparr>pd_last_error := OLM_OUTPUT_BUFFER_TOO_SMALL\<rparr>, ciphertext, plaintext, None)
      else
        let raw_ciphertext_length = olm_decode_base64_length (length ciphertext) in
        if length ephemeral_key \<noteq> olm_encode_base64_length CURVE25519_KEY_LENGTH
           \<or> length mac \<noteq> olm_encode_base64_length PK_MAC_LENGTH
           \<or> raw_ciphertext_length = SIZE_MAX then
          (d\<lparr>pd_last_error := OLM_INVALID_BASE64\<rparr>, ciphertext, plaintext, None)
        else
          let (ephemeral, _) = decode_base64_to ephemeral_key (zeros 32);
              secret = olm_crypto_curve25519_shared_secret S (pd_key_pair d) ephemeral;
              (raw_mac, _) = decode_base64_to mac (zeros PK_MAC_LENGTH);
              (ciphertext, _) = olm_decode_base64 ciphertext 0 (length ciphertext) 0;
              (plaintext, result) =
                aes_sha_256_cipher_decrypt S OLM_PK_CIPHER_INFO secret raw_mac
                  (take raw_ciphertext_length ciphertext) plaintext
          in case result of
               None \<Rightarrow> (d\<lparr>pd_last_error := OLM_BAD_MESSAGE_MAC\<rparr>, ciphertext, plaintext, None)
             | Some n \<Rightarrow> (d, ciphertext, plaintext, Some n))"

definition olm_pk_get_private_key :: "pk_decryption \<Rightarrow> bytes \<Rightarrow> pk_decryption \<times> bytes \<times> nat option" where
  "olm_pk_get_private_key d private_key =
     (if length private_key < olm_pk_private_key_length then
        (d\<lparr>pd_last_error := OLM_OUTPUT_BUFFER_TOO_SMALL\<rparr>, private_key, None)
      else (d, write_at private_key 0 (take olm_pk_private_key_length (ckp_private_key (pd_key_pair d))),
            Some olm_pk_private_key_length))"

section \<open>Pickling\<close>

definition pk_raw_pickle_length :: "pk_decryption \<Rightarrow> nat" where
  "pk_raw_pickle_length d = 4 + olm_pickle_curve25519_key_pair_length"

definition pickle_pk_decryption :: "pk_decryption \<Rightarrow> bytes" where
  "pickle_pk_decryption d =
     olm_pickle_uint32 PK_DECRYPTION_PICKLE_VERSION @ olm_pickle_curve25519_key_pair (pd_key_pair d)"

definition unpickle_pk_decryption :: "bytes \<Rightarrow> pk_decryption \<Rightarrow> pk_decryption unpickled" where
  "unpickle_pk_decryption pos d =
     (case olm_unpickle_uint32 pos 0 of
        (_, None) \<Rightarrow> (d, None)
      | (pickle_version, Some pos) \<Rightarrow>
          if pickle_version \<noteq> PK_DECRYPTION_PICKLE_VERSION then
            (d\<lparr>pd_last_error := OLM_UNKNOWN_PICKLE_VERSION\<rparr>, None)
          else on_field pd_key_pair (\<lambda>v d. d\<lparr>pd_key_pair := v\<rparr>) olm_unpickle_curve25519_key_pair pos d)"

definition olm_pickle_pk_decryption_length :: "pk_decryption \<Rightarrow> nat" where
  "olm_pickle_pk_decryption_length d = olm_enc_output_length (pk_raw_pickle_length d)"

definition olm_pickle_pk_decryption ::
    "sodium \<Rightarrow> pk_decryption \<Rightarrow> bytes \<Rightarrow> bytes \<Rightarrow> pk_decryption \<times> bytes \<times> nat option" where
  "olm_pickle_pk_decryption S d key pickled =
     (case api_pickle_object S (pickle_pk_decryption d) (pk_raw_pickle_length d) key pickled of
        (pickled, None) \<Rightarrow> (d\<lparr>pd_last_error := OLM_OUTPUT_BUFFER_TOO_SMALL\<rparr>, pickled, None)
      | (pickled, Some n) \<Rightarrow> (d, pickled, Some n))"

text \<open>\<open>pubkey\<close> may be the null pointer. The object, the buffers \<open>pickled\<close> and \<open>pubkey\<close>, the result.\<close>

definition olm_unpickle_pk_decryption ::
    "sodium \<Rightarrow> pk_decryption \<Rightarrow> bytes \<Rightarrow> bytes \<Rightarrow> bytes option \<Rightarrow>
     pk_decryption \<times> bytes \<times> bytes option \<times> nat option" where
  "olm_unpickle_pk_decryption S d key pickled pubkey =
     (if pubkey \<noteq> None \<and> length (the pubkey) < olm_pk_key_length then
        (d\<lparr>pd_last_error := OLM_OUTPUT_BUFFER_TOO_SMALL\<rparr>, pickled, pubkey, None)
      else
        case api_unpickle_object S unpickle_pk_decryption pd_last_error (\<lambda>e d. d\<lparr>pd_last_error := e\<rparr>) d key pickled of
          (d, pickled, None) \<Rightarrow> (d, pickled, pubkey, None)
        | (d, pickled, Some n) \<Rightarrow>
            (d, pickled,
             map_option (\<lambda>pubkey. fst (encode_base64_to (ckp_public_key (pd_key_pair d)) pubkey)) pubkey, Some n))"

section \<open>Signing\<close>

record pk_signing =
  ps_last_error :: olm_error_code
  ps_key_pair :: ed25519_key_pair

definition olm_clear_pk_signing :: pk_signing where
  "olm_clear_pk_signing =
     \<lparr>ps_last_error = OLM_SUCCESS, ps_key_pair = \<lparr>ekp_public_key = zeros 32, ekp_private_key = zeros 64\<rparr>\<rparr>"

definition olm_pk_signing :: pk_signing where
  "olm_pk_signing = olm_clear_pk_signing"

definition olm_pk_signing_last_error :: "pk_signing \<Rightarrow> string" where
  "olm_pk_signing_last_error s = olm_error_to_string (error_value (ps_last_error s))"

definition olm_pk_signing_last_error_code :: "pk_signing \<Rightarrow> olm_error_code" where
  "olm_pk_signing_last_error_code s = ps_last_error s"

definition olm_pk_signing_seed_length :: nat where
  "olm_pk_signing_seed_length = ED25519_RANDOM_LENGTH"

definition olm_pk_signing_public_key_length :: nat where
  "olm_pk_signing_public_key_length = olm_encode_base64_length ED25519_PUBLIC_KEY_LENGTH"

definition olm_pk_signing_key_from_seed ::
    "sodium \<Rightarrow> pk_signing \<Rightarrow> bytes \<Rightarrow> bytes \<Rightarrow> pk_signing \<times> bytes \<times> nat option" where
  "olm_pk_signing_key_from_seed S s pubkey seed =
     (if length pubkey < olm_pk_signing_public_key_length then
        (s\<lparr>ps_last_error := OLM_OUTPUT_BUFFER_TOO_SMALL\<rparr>, pubkey, None)
      else if length seed < olm_pk_signing_seed_length then
        (s\<lparr>ps_last_error := OLM_INPUT_BUFFER_TOO_SMALL\<rparr>, pubkey, None)
      else
        let s = s\<lparr>ps_key_pair := olm_crypto_ed25519_generate_key S seed\<rparr>;
            (pubkey, _) = encode_base64_to (ekp_public_key (ps_key_pair s)) pubkey
        in (s, pubkey, Some 0))"

definition olm_pk_signature_length :: nat where
  "olm_pk_signature_length = olm_encode_base64_length ED25519_SIGNATURE_LENGTH"

definition olm_pk_sign :: "sodium \<Rightarrow> pk_signing \<Rightarrow> bytes \<Rightarrow> bytes \<Rightarrow> pk_signing \<times> bytes \<times> nat option" where
  "olm_pk_sign S s message signature =
     (if length signature < olm_pk_signature_length then
        (s\<lparr>ps_last_error := OLM_OUTPUT_BUFFER_TOO_SMALL\<rparr>, signature, None)
      else
        let raw_sig = olm_pk_signature_length - ED25519_SIGNATURE_LENGTH;
            signature = write_at signature raw_sig (olm_crypto_ed25519_sign S (ps_key_pair s) message);
            (signature, _) = olm_encode_base64 signature raw_sig ED25519_SIGNATURE_LENGTH 0
        in (s, signature, Some olm_pk_signature_length))"

end
