(* ===== verification/Pk_Messages.thy ===== *)
theory Pk_Messages
  imports Pk
begin

text \<open>
  What the public-key objects of \<open>Pk\<close> do together: a message is decrypted by the owner of the
  key it was encrypted to, the MAC says nothing about the ciphertext, and a decryption object
  survives pickling.
\<close>

section \<open>Lengths\<close>

lemma pk_lengths [simp]:
  "olm_pk_key_length = 43" "olm_pk_mac_length = 11" "olm_pk_signature_length = 86"
  "olm_encode_base64_length 32 = 43" "olm_encode_base64_length 8 = 11" "olm_encode_base64_length 64 = 86"
  by (simp_all add: olm_pk_key_length_def olm_pk_mac_length_def olm_pk_signature_length_def
      aes_sha_256_cipher_mac_length_def b64_lengths(2)) (simp_all add: b64_length_def)

lemma b64_length_keys [simp]: "b64_length 32 = 43" "b64_length 8 = 11" "b64_length 64 = 86"
  by (simp_all add: b64_length_def)

lemma pk_ciphertext_length_eq:
  assumes "length p < 2 ^ 60"
  shows "olm_pk_ciphertext_length (length p) = b64_length (length (aes_sha_256_ciphertext S i k p))"
    "aes_sha_256_cipher_encrypt_ciphertext_length (length p) = length (aes_sha_256_ciphertext S i k p)"
    "length (aes_sha_256_ciphertext S i k p) < 2 ^ 61"
proof -
  show n: "aes_sha_256_cipher_encrypt_ciphertext_length (length p) = length (aes_sha_256_ciphertext S i k p)"
    using assms by (simp add: aes_sha_256.ciphertext_length)
  show l: "length (aes_sha_256_ciphertext S i k p) < 2 ^ 61"
    using assms by (simp add: length_aes_sha_256_ciphertext)
  show "olm_pk_ciphertext_length (length p) = b64_length (length (aes_sha_256_ciphertext S i k p))"
    using b64_lengths(2) [OF l] by (simp add: olm_pk_ciphertext_length_def n)
qed

section \<open>Encryption\<close>

lemma encrypt_apart_eq:
  assumes "length p + 16 < 2 ^ 64" "ct + length (aes_sha_256_ciphertext S i key p) \<le> length m" "length out = 8"
  shows "aes_sha_256_cipher_encrypt_apart S i key p ct (length (aes_sha_256_ciphertext S i key p)) m out =
    (write_at m ct (aes_sha_256_ciphertext S i key p), aes_sha_256_mac S i key [], Some 8)"
proof -
  have "olm_crypto_aes_encrypt_cbc (dk_aes_key (derive_keys S i key)) (dk_aes_iv (derive_keys S i key)) p m ct =
      write_at m ct (aes_sha_256_ciphertext S i key p)"
    using assms(1,2) unfolding aes_sha_256_ciphertext_def Let_def
    by (intro aes_encrypt_cbc_eq) (simp_all add: length_aes_cbc_ciphertext)
  then show ?thesis
    using assms(1,3)
    by (simp add: aes_sha_256_cipher_encrypt_apart_def aes_sha_256_mac_def Let_def
        aes_sha_256_cipher_encrypt_ciphertext_length_def aes_encrypt_cbc_length_eq length_aes_sha_256_ciphertext)
qed

abbreviation pk_secret :: "sodium \<Rightarrow> bytes \<Rightarrow> curve25519_public_key \<Rightarrow> bytes" where
  "pk_secret S random recipient \<equiv>
     olm_crypto_curve25519_shared_secret S (olm_crypto_curve25519_generate_key S random) recipient"

lemma pk_encrypt_eq:
  assumes p: "length p < 2 ^ 60" and c: "c = aes_sha_256_ciphertext S OLM_PK_CIPHER_INFO (pk_secret S random (pe_recipient_key e)) p"
    and fit: "b64_length (length c) \<le> length ct" "11 \<le> length mac" "43 \<le> length eph" "32 \<le> length random"
  shows "\<exists>ct'. olm_pk_encrypt S e p ct mac eph random =
      (e, ct', write_at mac 0 (b64_encode (aes_sha_256_mac S OLM_PK_CIPHER_INFO (pk_secret S random (pe_recipient_key e)) [])),
       write_at eph 0 (b64_encode (ckp_public_key (olm_crypto_curve25519_generate_key S random))), Some 8)
    \<and> take (b64_length (length c)) ct' = b64_encode c"
proof -
  let ?k = "pk_secret S random (pe_recipient_key e)" and ?pos = "length ct - length c"
  note L = pk_ciphertext_length_eq [OF p, of S OLM_PK_CIPHER_INFO ?k, folded c]
  have ge: "length c \<le> b64_length (length c)" by (rule b64_length_ge)
  have pos: "?pos + length c = length ct" using fit(1) ge by simp
  have e: "aes_sha_256_cipher_encrypt_apart S OLM_PK_CIPHER_INFO ?k p ?pos (length c) ct (zeros 8) =
      (write_at ct ?pos c, aes_sha_256_mac S OLM_PK_CIPHER_INFO ?k [], Some 8)"
    unfolding c by (rule encrypt_apart_eq) (use p pos c in simp_all)
  have "olm_encode_base64 (write_at ct ?pos c) ?pos (length c) 0 =
      (write_at (write_at ct ?pos c) 0 (b64_encode (read_at (write_at ct ?pos c) ?pos (length c))), b64_length (length c))"
    by (rule olm_encode_base64_eq) (use fit(1) pos in simp_all)
  then have b: "olm_encode_base64 (write_at ct ?pos c) ?pos (length c) 0 =
      (write_at (write_at ct ?pos c) 0 (b64_encode c), b64_length (length c))" using pos by simp
  show ?thesis
    using fit L e b
    by (simp add: olm_pk_encrypt_def olm_pk_encrypt_random_length_def encode_base64_to_eq Let_def)
      (simp add: write_at_def [of _ 0])
qed

section \<open>Decryption\<close>

lemma pk_decrypt_eq:
  assumes "length eph = 43" "length mac = 11" "length c < 2 ^ 60" "length c \<le> length b"
    and "fst (decode_base64_to eph (zeros 32)) = ephemeral" "fst (decode_base64_to mac (zeros 8)) = raw_mac"
    and "k = olm_crypto_curve25519_shared_secret S (pd_key_pair d) ephemeral"
    and "aes_sha_256_cipher_decrypt S OLM_PK_CIPHER_INFO k raw_mac c b = (b', r)"
  shows "\<exists>ct. olm_pk_decrypt S d eph mac (b64_encode c) b =
    (if r = None then d\<lparr>pd_last_error := OLM_BAD_MESSAGE_MAC\<rparr> else d, ct, b', r)"
proof -
  have c61: "length c < 2 ^ 61" using assms(3) by simp
  note L = b64_lengths(5,6) [OF c61]
  have i: "olm_decode_base64 (b64_encode c) 0 (b64_length (length c)) 0 = (write_at (b64_encode c) 0 c, length c)"
  proof -
    have "b64_length (length c) < 2 ^ 62" using b64_length_bound [of "length c"] assms(3) by simp
    then show ?thesis
      using olm_decode_base64_eq [of "b64_length (length c)" 0 "b64_encode c" 0] b64_length_mod [of "length c"]
        b64_length_ge [of "length c"] by (simp add: raw_b64_length read_at_def)
  qed
  have t: "take (length c) (write_at (b64_encode c) 0 c) = c" by (simp add: write_at_def)
  show ?thesis
    using assms L i t
    by (auto simp: olm_pk_decrypt_def olm_pk_max_plaintext_length_def aes_sha_256_cipher_decrypt_max_plaintext_length_def
        Let_def split: option.splits prod.splits)
qed

text \<open>The steps of the exchange: the recipient reads the key, the sender fills its three buffers, the
  holder of the key reads them.\<close>

lemma published_key_read:
  assumes pub: "olm_pk_key_from_private S d pub priv = (d1, pub', Some n)"
    and set: "olm_pk_encryption_set_recipient_key e (take olm_pk_key_length pub') = (e1, Some m)"
    and e: "length (pe_recipient_key e) = 32"
  defines "r \<equiv> olm_crypto_curve25519_generate_key S priv"
  shows "d1 = d\<lparr>pd_key_pair := r\<rparr>" "32 \<le> length priv" "pe_recipient_key e1 = ckp_public_key r"
proof -
  have d1: "d1 = d\<lparr>pd_key_pair := r\<rparr>" "pub' = write_at pub 0 (b64_encode (ckp_public_key r))" "43 \<le> length pub" "32 \<le> length priv"
    using pub by (auto simp: olm_pk_key_from_private_def r_def encode_base64_to_eq Let_def olm_pk_private_key_length_def
        split: if_splits)
  then show "d1 = d\<lparr>pd_key_pair := r\<rparr>" "32 \<le> length priv" by simp_all
  show "pe_recipient_key e1 = ckp_public_key r"
    using e set d1(3) decode_base64_to_encoded [of "ckp_public_key r" "pe_recipient_key e"]
    by (auto simp: olm_pk_encryption_set_recipient_key_def d1(2) write_at_def r_def split: if_splits)
qed

lemma pk_encrypt_outputs:
  assumes p: "length p < 2 ^ 60"
    and enc: "olm_pk_encrypt S e p ct mac eph random = (e2, ct', mac', eph', Some n)"
    and r: "pe_recipient_key e = ckp_public_key r"
    and k: "k = olm_crypto_curve25519_shared_secret S (olm_crypto_curve25519_generate_key S random) (ckp_public_key r)"
  shows "32 \<le> length random"
    "take (olm_pk_ciphertext_length (length p)) ct' = b64_encode (aes_sha_256_ciphertext S OLM_PK_CIPHER_INFO k p)"
    "take olm_pk_mac_length mac' = b64_encode (aes_sha_256_mac S OLM_PK_CIPHER_INFO k [])"
    "take olm_pk_key_length eph' = b64_encode (ckp_public_key (olm_crypto_curve25519_generate_key S random))"
proof -
  define c where "c = aes_sha_256_ciphertext S OLM_PK_CIPHER_INFO k p"
  note L = pk_ciphertext_length_eq [OF p, of S OLM_PK_CIPHER_INFO k, folded c_def]
  have fit: "b64_length (length c) \<le> length ct" "11 \<le> length mac" "43 \<le> length eph" "32 \<le> length random"
    using enc L(1) by (auto simp: olm_pk_encrypt_def olm_pk_encrypt_random_length_def split: if_splits)
  show "32 \<le> length random" by (rule fit(4))
  have c': "c = aes_sha_256_ciphertext S OLM_PK_CIPHER_INFO (pk_secret S random (pe_recipient_key e)) p"
    by (simp add: c_def k r)
  from pk_encrypt_eq [OF p c' fit] enc r
  have out: "take (b64_length (length c)) ct' = b64_encode c"
    "mac' = write_at mac 0 (b64_encode (aes_sha_256_mac S OLM_PK_CIPHER_INFO k []))"
    "eph' = write_at eph 0 (b64_encode (ckp_public_key (olm_crypto_curve25519_generate_key S random)))"
    by (auto simp: k)
  show "take (olm_pk_ciphertext_length (length p)) ct' = b64_encode (aes_sha_256_ciphertext S OLM_PK_CIPHER_INFO k p)"
    using out(1) by (simp add: L(1) c_def)
  show "take olm_pk_mac_length mac' = b64_encode (aes_sha_256_mac S OLM_PK_CIPHER_INFO k [])"
    "take olm_pk_key_length eph' = b64_encode (ckp_public_key (olm_crypto_curve25519_generate_key S random))"
    by (simp_all add: out write_at_def)
qed

lemma pk_decrypt_outputs:
  assumes p: "length p < 2 ^ 59"
    and k: "k = olm_crypto_curve25519_shared_secret S (pd_key_pair d) (ckp_public_key g)"
    and b: "olm_pk_max_plaintext_length (olm_pk_ciphertext_length (length p)) \<le> length b"
    and g: "length (ckp_public_key g) = 32"
  shows "\<exists>ct b'. olm_pk_decrypt S d (b64_encode (ckp_public_key g)) (b64_encode (aes_sha_256_mac S OLM_PK_CIPHER_INFO k []))
      (b64_encode (aes_sha_256_ciphertext S OLM_PK_CIPHER_INFO k p)) b = (d, ct, b', Some (length p)) \<and> take (length p) b' = p"
proof -
  define c where "c = aes_sha_256_ciphertext S OLM_PK_CIPHER_INFO k p"
  have p60: "length p < 2 ^ 60" using p by simp
  note L = pk_ciphertext_length_eq [OF p60, of S OLM_PK_CIPHER_INFO k, folded c_def]
  have c60: "length c < 2 ^ 60" using p by (simp add: c_def length_aes_sha_256_ciphertext)
  have cb: "length c \<le> length b"
    using b b64_lengths(5) [OF L(3)]
    by (simp add: L(1) olm_pk_max_plaintext_length_def aes_sha_256_cipher_decrypt_max_plaintext_length_def)
  have dec: "aes_sha_256_cipher_decrypt S OLM_PK_CIPHER_INFO k (aes_sha_256_mac S OLM_PK_CIPHER_INFO k []) c b =
      (write_at b 0 (cbc_padded p), Some (length p))"
    using aes_sha_256_decrypt_ok [of S OLM_PK_CIPHER_INFO k p b "[]"] cb by (simp add: c_def)
  have "\<exists>ct. olm_pk_decrypt S d (b64_encode (ckp_public_key g)) (b64_encode (aes_sha_256_mac S OLM_PK_CIPHER_INFO k []))
      (b64_encode c) b = (d, ct, write_at b 0 (cbc_padded p), Some (length p))"
    using pk_decrypt_eq [OF _ _ c60 cb _ _ k dec, of "b64_encode (ckp_public_key g)"
        "b64_encode (aes_sha_256_mac S OLM_PK_CIPHER_INFO k [])"]
      decode_base64_to_encoded [of "ckp_public_key g" "zeros 32"]
      decode_base64_to_encoded [of "aes_sha_256_mac S OLM_PK_CIPHER_INFO k []" "zeros 8"]
    by (simp add: g)
  moreover have "take (length p) (write_at b 0 (cbc_padded p)) = p" by (simp add: write_at_def cbc_padded_def)
  ultimately show ?thesis by (auto simp: c_def)
qed

text \<open>The MAC is of the empty string.\<close>

lemma pk_cipher_decrypt:
  assumes "length raw_mac = 8" "length c \<le> length b"
  shows "aes_sha_256_cipher_decrypt S i k raw_mac c b =
    (if raw_mac \<noteq> aes_sha_256_mac S i k [] then (b, None)
     else olm_crypto_aes_decrypt_cbc (dk_aes_key (derive_keys S i k)) (dk_aes_iv (derive_keys S i k)) c b 0)"
  using assms by (simp add: aes_sha_256_decrypt_eq)

section \<open>Pickling\<close>

definition pk_decryption_ok :: "pk_decryption \<Rightarrow> bool" where
  "pk_decryption_ok d \<longleftrightarrow> curve25519_key_pair_ok (pd_key_pair d)"

interpretation pk_object: object_codec pickle_pk_decryption pk_raw_pickle_length unpickle_pk_decryption
    pk_decryption_ok pk_decryption_ok "\<lambda>v old new. new = v\<lparr>pd_last_error := pd_last_error old\<rparr>"
proof unfold_locales
  fix v assume v: "pk_decryption_ok v"
  show "length (pickle_pk_decryption v) = pk_raw_pickle_length v"
    using v by (simp add: pickle_pk_decryption_def pk_raw_pickle_length_def pk_decryption_ok_def
        curve25519_pair_codec.length_pickle uint32_codec.length_pickle)
  show "pk_raw_pickle_length v < 2 ^ 59"
    by (simp add: pk_raw_pickle_length_def olm_pickle_curve25519_key_pair_length_def)
  fix old assume "pk_decryption_ok old"
  then show "\<exists>new. unpickle_pk_decryption (pickle_pk_decryption v) old = (new, Some [])
      \<and> new = v\<lparr>pd_last_error := pd_last_error old\<rparr>"
    using v curve25519_pair_codec.unpickle_pickle [of "pd_key_pair v" "pd_key_pair old" "[]"]
    by (simp add: unpickle_pk_decryption_def pickle_pk_decryption_def pk_decryption_ok_def on_field_def)
qed

section \<open>Properties\<close>

text \<open>C22: What is encrypted to a public key is decrypted by the decryption object that published it:
  \<open>olm_pk_key_from_private\<close> writes the key, \<open>olm_pk_encryption_set_recipient_key\<close> reads it,
  \<open>olm_pk_encrypt\<close> fills the three buffers, which may be longer than needed, and
  \<open>olm_pk_decrypt\<close> gives the plaintext back.\<close>

theorem pk_message_roundtrip:
  assumes "dh_agrees S" "length (pe_recipient_key e) = 32"
    and "olm_pk_key_from_private S d pub priv = (d1, pub', Some 0)"
    and "olm_pk_encryption_set_recipient_key e (take olm_pk_key_length pub') = (e1, Some 0)"
    and "olm_pk_encrypt S e1 p ct mac eph random = (e2, ct', mac', eph', Some n)"
    and "length p < 2 ^ 59" "olm_pk_max_plaintext_length (olm_pk_ciphertext_length (length p)) \<le> length b"
  shows "\<exists>ct'' b'. olm_pk_decrypt S d1 (take olm_pk_key_length eph') (take olm_pk_mac_length mac')
           (take (olm_pk_ciphertext_length (length p)) ct') b = (d1, ct'', b', Some (length p))
         \<and> take (length p) b' = p"
proof -
  define r where "r = olm_crypto_curve25519_generate_key S priv"
  define g where "g = olm_crypto_curve25519_generate_key S random"
  define k where "k = olm_crypto_curve25519_shared_secret S g (ckp_public_key r)"
  note K = published_key_read [OF assms(3,4,2), folded r_def]
  have p: "length p < 2 ^ 60" using assms(6) by simp
  note E = pk_encrypt_outputs [OF p assms(5) K(3) k_def [unfolded g_def]]
  have kd: "k = olm_crypto_curve25519_shared_secret S (pd_key_pair d1) (ckp_public_key g)"
    unfolding k_def K(1) using shared_secret_agrees [OF assms(1), of g r] E(1) K(2)
    by (simp add: g_def r_def generate_key_pair)
  show ?thesis
    using pk_decrypt_outputs [OF assms(6) kd, of b] assms(7) E(2-4) by (auto simp: g_def)
qed

text \<open>C32: The MAC of a public-key message authenticates nothing. Once \<open>olm_pk_decrypt\<close> has accepted one
  message with an ephemeral key and a MAC, it takes any other ciphertext with them: the result
  is that of the AES-CBC decryption alone, and only the padding can make it fail.\<close>

theorem pk_mac_authenticates_nothing:
  assumes "olm_pk_decrypt S d eph mac ct b = (d1, ct1, b1, Some n)"
    and "length c < 2 ^ 60" "length c \<le> length buf"
    and "keys = derive_keys S OLM_PK_CIPHER_INFO
           (olm_crypto_curve25519_shared_secret S (pd_key_pair d) (fst (decode_base64_to eph (zeros 32))))"
  shows "\<exists>ct'. olm_pk_decrypt S d eph mac (b64_encode c) buf =
    (let (b', r) = olm_crypto_aes_decrypt_cbc (dk_aes_key keys) (dk_aes_iv keys) c buf 0
     in (if r = None then d\<lparr>pd_last_error := OLM_BAD_MESSAGE_MAC\<rparr> else d, ct', b', r))"
proof -
  define raw where "raw = fst (decode_base64_to mac (zeros 8))"
  define k where "k = olm_crypto_curve25519_shared_secret S (pd_key_pair d) (fst (decode_base64_to eph (zeros 32)))"
  have "length raw \<le> 8" by (simp add: raw_def decode_base64_to_def split: prod.splits)
  moreover have l: "length eph = 43" "length mac = 11"
    using assms(1) by (auto simp: olm_pk_decrypt_def Let_def split: if_splits)
  moreover have "\<exists>c0 b0 b'. aes_sha_256_cipher_decrypt S OLM_PK_CIPHER_INFO k raw c0 b0 = (b', Some n)"
    using assms(1) l unfolding raw_def k_def
    by (fastforce simp: olm_pk_decrypt_def Let_def split: if_splits prod.splits option.splits)
  ultimately have raw: "length raw = 8" "raw = aes_sha_256_mac S OLM_PK_CIPHER_INFO k []"
    by (auto simp: aes_sha_256_decrypt_eq split: if_splits)
  obtain b' r where a: "olm_crypto_aes_decrypt_cbc (dk_aes_key keys) (dk_aes_iv keys) c buf 0 = (b', r)" by force
  then have "aes_sha_256_cipher_decrypt S OLM_PK_CIPHER_INFO k raw c buf = (b', r)"
    using pk_cipher_decrypt [OF raw(1) assms(3), of S OLM_PK_CIPHER_INFO k] raw(2) by (simp add: assms(4) k_def)
  from pk_decrypt_eq [OF l assms(2,3) refl raw_def [symmetric] k_def this] a show ?thesis by simp
qed

section \<open>Witnesses\<close>

definition sample_recipient :: pk_encryption where
  "sample_recipient = olm_pk_encryption\<lparr>pe_recipient_key :=
     ckp_public_key (olm_crypto_curve25519_generate_key sample_sodium (replicate 32 1))\<rparr>"

lemma sample_set_key:
  "olm_pk_key_from_private sample_sodium olm_pk_decryption (zeros 43) (replicate 32 1) =
     (olm_pk_decryption\<lparr>pd_key_pair := olm_crypto_curve25519_generate_key sample_sodium (replicate 32 1)\<rparr>,
      b64_encode (ckp_public_key (olm_crypto_curve25519_generate_key sample_sodium (replicate 32 1))), Some 0)"
  "olm_pk_encryption_set_recipient_key olm_pk_encryption (take olm_pk_key_length
     (b64_encode (ckp_public_key (olm_crypto_curve25519_generate_key sample_sodium (replicate 32 1))))) =
     (sample_recipient, Some 0)"
proof -
  let ?k = "olm_crypto_curve25519_generate_key sample_sodium (replicate 32 1)"
  have "encode_base64_to (ckp_public_key ?k) (zeros 43) = (write_at (zeros 43) 0 (b64_encode (ckp_public_key ?k)), 43)"
    using encode_base64_to_eq [of "ckp_public_key ?k" "zeros 43"] by simp
  then show "olm_pk_key_from_private sample_sodium olm_pk_decryption (zeros 43) (replicate 32 1) =
     (olm_pk_decryption\<lparr>pd_key_pair := ?k\<rparr>, b64_encode (ckp_public_key ?k), Some 0)"
    by (simp add: olm_pk_key_from_private_def olm_pk_private_key_length_def Let_def)
  show "olm_pk_encryption_set_recipient_key olm_pk_encryption (take olm_pk_key_length (b64_encode (ckp_public_key ?k))) =
     (sample_recipient, Some 0)"
    using decode_base64_to_encoded [of "ckp_public_key ?k" "zeros 32"]
    by (simp add: olm_pk_encryption_set_recipient_key_def sample_recipient_def olm_pk_encryption_def olm_clear_pk_encryption_def)
qed

lemma sample_pk_encrypts:
  obtains ct' mac' eph' where "olm_pk_encrypt sample_sodium sample_recipient [5, 6] (zeros 22) (zeros 11) (zeros 43) (zeros 32)
    = (sample_recipient, ct', mac', eph', Some 8)"
  using pk_encrypt_eq [of "[5, 6]", OF _ refl, of sample_sodium "zeros 32" sample_recipient "zeros 22" "zeros 11" "zeros 43"]
  by (auto simp: length_aes_sha_256_ciphertext b64_length_def)

lemma sample_pk_lengths: "olm_pk_ciphertext_length (length [5, 6 :: u8]) = 22" "olm_pk_max_plaintext_length 22 = 16"
  using pk_ciphertext_length_eq(1) [of "[5, 6]" sample_sodium "[]" "[]"] b64_lengths(5) [of 16]
  by (simp_all add: length_aes_sha_256_ciphertext olm_pk_max_plaintext_length_def
      aes_sha_256_cipher_decrypt_max_plaintext_length_def b64_length_def)

abbreviation sample_decryption :: pk_decryption where
  "sample_decryption \<equiv> olm_pk_decryption\<lparr>pd_key_pair := olm_crypto_curve25519_generate_key sample_sodium (replicate 32 1)\<rparr>"

theorem pk_message_roundtrip_witness:
  "\<exists>ct' mac' eph'. olm_pk_encrypt sample_sodium sample_recipient [5, 6] (zeros 22) (zeros 11) (zeros 43) (zeros 32)
       = (sample_recipient, ct', mac', eph', Some 8)
     \<and> (\<exists>ct'' b'. olm_pk_decrypt sample_sodium sample_decryption (take olm_pk_key_length eph') (take olm_pk_mac_length mac')
           (take (olm_pk_ciphertext_length (length [5, 6 :: u8])) ct') (zeros 16) =
             (sample_decryption, ct'', b', Some (length [5, 6 :: u8]))
         \<and> take (length [5, 6 :: u8]) b' = [5, 6])"
proof -
  obtain ct' mac' eph' where e: "olm_pk_encrypt sample_sodium sample_recipient [5, 6] (zeros 22) (zeros 11) (zeros 43) (zeros 32)
    = (sample_recipient, ct', mac', eph', Some 8)" by (rule sample_pk_encrypts)
  have "length (pe_recipient_key olm_pk_encryption) = 32"
    by (simp add: olm_pk_encryption_def olm_clear_pk_encryption_def)
  from pk_message_roundtrip [OF sample_dh_agrees this sample_set_key e, of "zeros 16"] e
  show ?thesis by (simp add: sample_pk_lengths [simplified])
qed

text \<open>A message whose MAC is right, made by hand: the MAC of the empty string.\<close>

theorem pk_mac_authenticates_nothing_witness:
  "\<exists>eph mac ct b d1 ct1 b1 n. olm_pk_decrypt sample_sodium sample_decryption eph mac ct b = (d1, ct1, b1, Some n)
     \<and> (\<exists>forged ct' b'. b64_encode forged \<noteq> ct \<and> olm_pk_decrypt sample_sodium sample_decryption eph mac (b64_encode forged) (zeros 32) =
           (sample_decryption, ct', b', Some 16))"
proof -
  let ?d = sample_decryption and ?g = "olm_crypto_curve25519_generate_key sample_sodium (zeros 32)"
  let ?k = "olm_crypto_curve25519_shared_secret sample_sodium (pd_key_pair ?d) (ckp_public_key ?g)"
  let ?c = "aes_sha_256_ciphertext sample_sodium OLM_PK_CIPHER_INFO ?k [5]"
  let ?m = "aes_sha_256_mac sample_sodium OLM_PK_CIPHER_INFO ?k []" and ?keys = "derive_keys sample_sodium OLM_PK_CIPHER_INFO ?k"
  let ?forged = "aes_cbc_ciphertext (dk_aes_key ?keys) (dk_aes_iv ?keys) (replicate 16 7)"
  have c: "length ?c = 16" by (simp add: length_aes_sha_256_ciphertext)
  have dec: "aes_sha_256_cipher_decrypt sample_sodium OLM_PK_CIPHER_INFO ?k ?m ?c (zeros 16) =
      (write_at (zeros 16) 0 (cbc_padded [5]), Some (length [5 :: u8]))"
    using aes_sha_256_decrypt_ok [of sample_sodium OLM_PK_CIPHER_INFO ?k "[5]" "zeros 16" "[]"] c by simp
  have t: "fst (decode_base64_to (b64_encode (ckp_public_key ?g)) (zeros 32)) = ckp_public_key ?g"
    "fst (decode_base64_to (b64_encode ?m) (zeros 8)) = ?m"
    using decode_base64_to_encoded [of "ckp_public_key ?g" "zeros 32"] decode_base64_to_encoded [of ?m "zeros 8"] by simp_all
  obtain ct1 where acc: "olm_pk_decrypt sample_sodium ?d (b64_encode (ckp_public_key ?g)) (b64_encode ?m) (b64_encode ?c) (zeros 16) =
      (?d, ct1, write_at (zeros 16) 0 (cbc_padded [5]), Some (length [5 :: u8]))"
    using pk_decrypt_eq [OF _ _ _ _ t refl dec] c by auto
  have f: "length ?forged = 32" by (simp add: length_aes_cbc_ciphertext)
  have "\<exists>ct'. olm_pk_decrypt sample_sodium ?d (b64_encode (ckp_public_key ?g)) (b64_encode ?m) (b64_encode ?forged) (zeros 32) =
      (?d, ct', write_at (zeros 32) 0 (cbc_padded (replicate 16 7)), Some (length (replicate 16 7 :: bytes)))"
    using pk_mac_authenticates_nothing [OF acc, of ?forged "zeros 32", OF _ _ refl] f
      aes_decrypt_cbc_eq [of "dk_aes_iv ?keys" ?forged "dk_aes_key ?keys" "replicate 16 7" 0 "zeros 32"] t by simp
  moreover have "b64_encode ?forged \<noteq> b64_encode ?c"
  proof
    assume "b64_encode ?forged = b64_encode ?c"
    then have "?forged = ?c" by (metis b64_decode_encode)
    then show False using f c by simp
  qed
  ultimately show ?thesis using acc by fastforce
qed

end
