(* ===== verification/Sas.thy ===== *)
theory Sas
  imports Buffers Crypto
begin

text \<open>
  \<open>src/sas.c\<close>: short authentication strings. Two parties exchange Curve25519 keys and derive
  bytes to compare and MACs of their identity keys from the shared secret. The two older MAC
  functions encode the MAC in base64 in the buffer it stands in, where the output overtakes
  the input; the model of the encoder works on one buffer and gives what they write.
\<close>

section \<open>The object\<close>

record sas =
  sa_last_error :: olm_error_code
  sa_curve25519_key :: curve25519_key_pair
  sa_secret :: bytes
  sa_their_key_set :: bool

definition olm_sas_last_error :: "sas \<Rightarrow> string" where
  "olm_sas_last_error s = olm_error_to_string (error_value (sa_last_error s))"

definition olm_sas_last_error_code :: "sas \<Rightarrow> olm_error_code" where
  "olm_sas_last_error_code s = sa_last_error s"

definition olm_clear_sas :: sas where
  "olm_clear_sas =
     \<lparr>sa_last_error = OLM_SUCCESS,
      sa_curve25519_key = \<lparr>ckp_public_key = zeros 32, ckp_private_key = zeros 32\<rparr>,
      sa_secret = zeros CURVE25519_SHARED_SECRET_LENGTH, sa_their_key_set = False\<rparr>"

definition olm_sas :: sas where
  "olm_sas = olm_clear_sas"

definition olm_create_sas_random_length :: nat where
  "olm_create_sas_random_length = CURVE25519_KEY_LENGTH"

definition olm_create_sas :: "sodium \<Rightarrow> sas \<Rightarrow> bytes \<Rightarrow> sas \<times> nat option" where
  "olm_create_sas S s random =
     (if length random < olm_create_sas_random_length then (s\<lparr>sa_last_error := OLM_NOT_ENOUGH_RANDOM\<rparr>, None)
      else (s\<lparr>sa_curve25519_key := olm_crypto_curve25519_generate_key S random, sa_their_key_set := False\<rparr>, Some 0))"

section \<open>Exchanging keys\<close>

definition olm_sas_pubkey_length :: nat where
  "olm_sas_pubkey_length = olm_encode_base64_length CURVE25519_KEY_LENGTH"

definition olm_sas_get_pubkey :: "sas \<Rightarrow> bytes \<Rightarrow> sas \<times> bytes \<times> nat option" where
  "olm_sas_get_pubkey s pubkey =
     (if length pubkey < olm_sas_pubkey_length then (s\<lparr>sa_last_error := OLM_OUTPUT_BUFFER_TOO_SMALL\<rparr>, pubkey, None)
      else (s, fst (encode_base64_to (ckp_public_key (sa_curve25519_key s)) pubkey), Some 0))"

text \<open>The key is decoded in its buffer; all the characters handed in are decoded, 32 bytes used.\<close>

definition olm_sas_set_their_key :: "sodium \<Rightarrow> sas \<Rightarrow> bytes \<Rightarrow> sas \<times> bytes \<times> nat option" where
  "olm_sas_set_their_key S s their_key =
     (if length their_key < olm_sas_pubkey_length then
        (s\<lparr>sa_last_error := OLM_INPUT_BUFFER_TOO_SMALL\<rparr>, their_key, None)
      else
        let (their_key, ret) = olm_decode_base64 their_key 0 (length their_key) 0 in
        if ret = SIZE_MAX then (s\<lparr>sa_last_error := OLM_INVALID_BASE64\<rparr>, their_key, None)
        else (s\<lparr>sa_secret := olm_crypto_curve25519_shared_secret S (sa_curve25519_key s)
                               (take CURVE25519_KEY_LENGTH their_key),
                sa_their_key_set := True\<rparr>, their_key, Some 0))"

definition olm_sas_is_their_key_set :: "sas \<Rightarrow> bool" where
  "olm_sas_is_their_key_set s = sa_their_key_set s"

section \<open>Bytes and MACs\<close>

text \<open>The number of bytes is the caller's: for more than 8160 the output stays as it was.\<close>

definition olm_sas_generate_bytes :: "sodium \<Rightarrow> sas \<Rightarrow> bytes \<Rightarrow> bytes \<Rightarrow> sas \<times> bytes \<times> nat option" where
  "olm_sas_generate_bytes S s info output =
     (if \<not> sa_their_key_set s then (s\<lparr>sa_last_error := OLM_SAS_THEIR_KEY_NOT_SET\<rparr>, output, None)
      else (s, olm_crypto_hkdf_sha256 S (sa_secret s) [] info output, Some 0))"

definition olm_sas_mac_length :: nat where
  "olm_sas_mac_length = olm_encode_base64_length SHA256_OUTPUT_LENGTH"

definition olm_sas_calculate_mac_fixed_base64 ::
    "sodium \<Rightarrow> sas \<Rightarrow> bytes \<Rightarrow> bytes \<Rightarrow> bytes \<Rightarrow> sas \<times> bytes \<times> nat option" where
  "olm_sas_calculate_mac_fixed_base64 S s input info mac =
     (if length mac < olm_sas_mac_length then (s\<lparr>sa_last_error := OLM_OUTPUT_BUFFER_TOO_SMALL\<rparr>, mac, None)
      else if \<not> sa_their_key_set s then (s\<lparr>sa_last_error := OLM_SAS_THEIR_KEY_NOT_SET\<rparr>, mac, None)
      else
        let key = olm_crypto_hkdf_sha256 S (sa_secret s) [] info (zeros 32);
            temp_mac = olm_crypto_hmac_sha256 S key input
        in (s, fst (encode_base64_to temp_mac mac), Some 0))"

definition olm_sas_calculate_mac ::
    "sodium \<Rightarrow> sas \<Rightarrow> bytes \<Rightarrow> bytes \<Rightarrow> bytes \<Rightarrow> sas \<times> bytes \<times> nat option" where
  "olm_sas_calculate_mac S s input info mac =
     (if length mac < olm_sas_mac_length then (s\<lparr>sa_last_error := OLM_OUTPUT_BUFFER_TOO_SMALL\<rparr>, mac, None)
      else if \<not> sa_their_key_set s then (s\<lparr>sa_last_error := OLM_SAS_THEIR_KEY_NOT_SET\<rparr>, mac, None)
      else
        let key = olm_crypto_hkdf_sha256 S (sa_secret s) [] info (zeros 32);
            mac = write_at mac 0 (olm_crypto_hmac_sha256 S key input);
            (mac, _) = olm_encode_base64 mac 0 SHA256_OUTPUT_LENGTH 0
        in (s, mac, Some 0))"

definition olm_sas_calculate_mac_long_kdf ::
    "sodium \<Rightarrow> sas \<Rightarrow> bytes \<Rightarrow> bytes \<Rightarrow> bytes \<Rightarrow> sas \<times> bytes \<times> nat option" where
  "olm_sas_calculate_mac_long_kdf S s input info mac =
     (if length mac < olm_sas_mac_length then (s\<lparr>sa_last_error := OLM_OUTPUT_BUFFER_TOO_SMALL\<rparr>, mac, None)
      else if \<not> sa_their_key_set s then (s\<lparr>sa_last_error := OLM_SAS_THEIR_KEY_NOT_SET\<rparr>, mac, None)
      else
        let key = olm_crypto_hkdf_sha256 S (sa_secret s) [] info (zeros 256);
            mac = write_at mac 0 (olm_crypto_hmac_sha256 S key input);
            (mac, _) = olm_encode_base64 mac 0 SHA256_OUTPUT_LENGTH 0
        in (s, mac, Some 0))"

section \<open>Encoding a MAC where it stands\<close>

text \<open>Two buffers of the same length that agree at some places.\<close>

definition agree :: "nat set \<Rightarrow> bytes \<Rightarrow> bytes \<Rightarrow> bool" where
  "agree I m m' \<longleftrightarrow> length m = length m' \<and> (\<forall>i \<in> I. m ! i = m' ! i)"

lemma agree_mono: "agree I m m' \<Longrightarrow> J \<subseteq> I \<Longrightarrow> agree J m m'"
  by (auto simp: agree_def)

lemma agree_update: "agree I m m' \<Longrightarrow> i < length m \<Longrightarrow> agree (insert i I) (m[i := v]) (m'[i := v])"
  by (auto simp: agree_def nth_list_update)

text \<open>A group of three bytes decides the four characters it is encoded to, and nothing else changes.\<close>

lemma agree_encode_group:
  assumes "agree I m m'" "{pos, pos + 1, pos + 2} \<subseteq> I" "out + 3 < length m"
  shows "agree (I \<union> {out..<out + 4}) (encode_group m pos out) (encode_group m' pos out)"
proof -
  have e: "m ! pos = m' ! pos" "m ! (pos + 1) = m' ! (pos + 1)" "m ! (pos + 2) = m' ! (pos + 2)"
    using assms(1,2) by (auto simp: agree_def)
  have s: "insert out (insert (out + 1) (insert (out + 2) (insert (out + 3) I))) = I \<union> {out..<out + 4}"
    by auto
  have "agree (insert out (insert (out + 1) (insert (out + 2) (insert (out + 3) I))))
      (encode_group m pos out) (encode_group m' pos out)"
    unfolding encode_group_def Let_def e using assms(1,3) by (intro agree_update) simp_all
  then show ?thesis by (simp only: s)
qed

text \<open>
  The bytes the encoder reads before it has overwritten them are 0, 1, 2, 4, 5 and 8: the rest
  of its input are characters it has written.
\<close>

definition mac_bytes_read :: "nat set" where
  "mac_bytes_read = {0, 1, 2, 4, 5, 8}"

lemma mac_group_read: "{3 * k, 3 * k + 1, 3 * k + 2} \<subseteq> mac_bytes_read \<union> {0..<4 * k}"
proof -
  consider "k = 0" | "k = 1" | "k = 2" | "3 \<le> k" by arith
  then show ?thesis by cases (auto simp: mac_bytes_read_def)
qed

lemma agree_encode_loop:
  assumes "agree (mac_bytes_read \<union> {0..<4 * k}) m m'" "4 * (k + n) \<le> length m"
  shows "agree (mac_bytes_read \<union> {0..<4 * (k + n)}) (encode_loop m (3 * k) (4 * k) n) (encode_loop m' (3 * k) (4 * k) n)"
  using assms
proof (induction n arbitrary: k m m')
  case (Suc n)
  have "agree (mac_bytes_read \<union> {0..<4 * k} \<union> {4 * k..<4 * k + 4}) (encode_group m (3 * k) (4 * k)) (encode_group m' (3 * k) (4 * k))"
    using Suc.prems by (intro agree_encode_group mac_group_read) simp_all
  moreover have "mac_bytes_read \<union> {0..<4 * k} \<union> {4 * k..<4 * k + 4} = mac_bytes_read \<union> {0..<4 * Suc k}" by auto
  moreover have "length (encode_group m (3 * k) (4 * k)) = length m" by (simp add: encode_group_def Let_def)
  ultimately show ?case
    using Suc.IH [of "Suc k" "encode_group m (3 * k) (4 * k)" "encode_group m' (3 * k) (4 * k)"] Suc.prems(2)
    by (simp add: add.commute)
qed simp

lemma agree_encode_mac:
  assumes "agree mac_bytes_read m m'" "43 \<le> length m"
  shows "agree {0..<43} (fst (olm_encode_base64 m 0 32 0)) (fst (olm_encode_base64 m' 0 32 0))"
proof -
  let ?a = "encode_loop m 0 0 10" and ?b = "encode_loop m' 0 0 10"
  have l: "agree {0..<40} ?a ?b"
    using agree_encode_loop [of 0 m m' 10] assms by (auto intro: agree_mono)
  then have e: "?a ! 30 = ?b ! 30" "?a ! 31 = ?b ! 31" and len: "length ?a = length ?b"
    by (auto simp: agree_def)
  have la: "length ?a = length m"
  proof -
    have "length (encode_loop m p q n) = length m" for p q n
      by (induction n arbitrary: m p q) (simp_all add: encode_group_def Let_def)
    then show ?thesis by simp
  qed
  have "agree {0..<43} (fst (encode_tail ?a 30 40 2)) (fst (encode_tail ?b 30 40 2))"
  proof -
    have s: "{0..<43} = insert 40 (insert 41 (insert (42 :: nat) {0..<40}))" by auto
    show ?thesis
      unfolding s using l la assms(2) e
      by (simp add: encode_tail_def Let_def) (intro agree_update; simp)
  qed
  then show ?thesis by (auto simp: olm_encode_base64_def split: prod.splits)
qed

section \<open>Exchanged keys\<close>

lemma sas_lengths [simp]: "olm_sas_pubkey_length = 43" "olm_sas_mac_length = 43"
  by (simp_all add: olm_sas_pubkey_length_def olm_sas_mac_length_def b64_lengths(2)) (simp_all add: b64_length_def)

lemma set_their_key_encoded:
  assumes "length k = 32"
  shows "\<exists>m. olm_sas_set_their_key S s (b64_encode k) =
    (s\<lparr>sa_secret := olm_crypto_curve25519_shared_secret S (sa_curve25519_key s) k, sa_their_key_set := True\<rparr>, m, Some 0)"
proof -
  have l: "length (b64_encode k) = 43" using assms by (simp add: b64_length_def)
  have "olm_decode_base64 (b64_encode k) 0 43 0 = (write_at (b64_encode k) 0 k, 32)"
    using olm_decode_base64_eq [of 43 0 "b64_encode k" 0] l by (simp add: raw_length_def read_at_def)
  then show ?thesis using assms l by (simp add: olm_sas_set_their_key_def SIZE_MAX_def write_at_def)
qed

lemma get_pubkey_text:
  assumes "olm_sas_get_pubkey s pubkey = (s', pubkey', Some 0)" "length (ckp_public_key (sa_curve25519_key s)) = 32"
  shows "s' = s" "take 43 pubkey' = b64_encode (ckp_public_key (sa_curve25519_key s))"
  using assms encode_base64_to_eq [of "ckp_public_key (sa_curve25519_key s)" pubkey]
  by (auto simp: olm_sas_get_pubkey_def write_at_def b64_length_def split: if_splits)

section \<open>Properties\<close>

text \<open>The three MAC functions, refused and not.\<close>

abbreviation sas_mac_functions :: "sodium \<Rightarrow> (sas \<Rightarrow> bytes \<Rightarrow> bytes \<Rightarrow> bytes \<Rightarrow> sas \<times> bytes \<times> nat option) set" where
  "sas_mac_functions S \<equiv>
     {olm_sas_calculate_mac S, olm_sas_calculate_mac_fixed_base64 S, olm_sas_calculate_mac_long_kdf S}"

lemma sas_macs_refused:
  assumes "f \<in> sas_mac_functions S"
  shows "length mac < 43 \<Longrightarrow> f s input info mac = (s\<lparr>sa_last_error := OLM_OUTPUT_BUFFER_TOO_SMALL\<rparr>, mac, None)"
    and "43 \<le> length mac \<Longrightarrow> \<not> sa_their_key_set s \<Longrightarrow>
      f s input info mac = (s\<lparr>sa_last_error := OLM_SAS_THEIR_KEY_NOT_SET\<rparr>, mac, None)"
  using assms
  by (auto simp: olm_sas_calculate_mac_def olm_sas_calculate_mac_fixed_base64_def olm_sas_calculate_mac_long_kdf_def)

text \<open>What is written in place is decided by the HMAC, whatever was in the buffer.\<close>

lemma encode_mac_in_place:
  assumes "43 \<le> length mac" "length mac' = length mac" "length h = 32"
  shows "take 43 (fst (olm_encode_base64 (write_at mac 0 h) 0 32 0)) = take 43 (fst (olm_encode_base64 (write_at mac' 0 h) 0 32 0))"
proof -
  have "agree mac_bytes_read (write_at mac 0 h) (write_at mac' 0 h)"
    using assms by (auto simp: agree_def mac_bytes_read_def write_at_def nth_append)
  from agree_encode_mac [OF this] assms show ?thesis by (auto simp: agree_def intro: nth_equalityI)
qed

lemma sas_macs_agree:
  assumes "43 \<le> length mac" "length mac' = length mac"
    and "sa_their_key_set s" "sa_their_key_set s'" "sa_secret s = sa_secret s'"
    and "f \<in> sas_mac_functions S"
  shows "\<exists>m m'. f s input info mac = (s, m, Some 0) \<and> f s' input info mac' = (s', m', Some 0)
    \<and> take 43 m = take 43 m'"
proof -
  have "take 43 (fst (encode_base64_to h mac)) = take 43 (fst (encode_base64_to h mac'))" if "length h = 32" for h
    using assms(1,2) that encode_base64_to_eq [of h mac] encode_base64_to_eq [of h mac']
    by (simp add: b64_length_def write_at_def)
  then show ?thesis
    using assms encode_mac_in_place [OF assms(1,2)]
    by (auto simp: olm_sas_calculate_mac_def olm_sas_calculate_mac_fixed_base64_def
        olm_sas_calculate_mac_long_kdf_def case_prod_unfold Let_def)
qed

text \<open>C23: Before the keys are exchanged each of the four functions that use the shared secret is refused
  with \<open>OLM_SAS_THEIR_KEY_NOT_SET\<close> and writes nothing. After \<open>olm_create_sas\<close> on both sides and an
  exchange of the texts \<open>olm_sas_get_pubkey\<close> writes, both hold the Diffie-Hellman secret of
  the two keys, and all four succeed on both: for any info they generate the same bytes (up to
  8160) and, for any input, the same 43 characters of MAC, whatever was in the buffers.
  A buffer shorter than 43 bytes is refused.\<close>

theorem sas_agreement:
  assumes "dh_agrees S"
    and "length out' = length out" "length out \<le> 8160"
    and "43 \<le> length mac" "length mac' = length mac" "length short < 43"
    and create: "olm_create_sas S a0 random_a = (a1, Some 0)" "olm_create_sas S b0 random_b = (b1, Some 0)"
    and get: "olm_sas_get_pubkey a1 pa = (a2, pa', Some 0)" "olm_sas_get_pubkey b1 pb = (b2, pb', Some 0)"
    and set: "olm_sas_set_their_key S a2 (take olm_sas_pubkey_length pb') = (a3, ka, ra)"
      "olm_sas_set_their_key S b2 (take olm_sas_pubkey_length pa') = (b3, kb, rb)"
  shows "olm_sas_generate_bytes S a2 info out = (a2\<lparr>sa_last_error := OLM_SAS_THEIR_KEY_NOT_SET\<rparr>, out, None)
    \<and> (\<forall>f \<in> sas_mac_functions S. f a2 input info mac = (a2\<lparr>sa_last_error := OLM_SAS_THEIR_KEY_NOT_SET\<rparr>, mac, None))
    \<and> ra = Some 0 \<and> rb = Some 0 \<and> olm_sas_is_their_key_set a3 \<and> olm_sas_is_their_key_set b3
    \<and> sa_secret a3 = olm_crypto_curve25519_shared_secret S (sa_curve25519_key a3) (ckp_public_key (sa_curve25519_key b3))
    \<and> sa_secret b3 = sa_secret a3
    \<and> olm_sas_generate_bytes S a3 info out = (a3, olm_crypto_hkdf_sha256 S (sa_secret a3) [] info (zeros (length out)), Some 0)
    \<and> olm_sas_generate_bytes S b3 info out' = (b3, olm_crypto_hkdf_sha256 S (sa_secret a3) [] info (zeros (length out)), Some 0)
    \<and> (\<forall>f \<in> sas_mac_functions S. \<exists>m m'. f a3 input info mac = (a3, m, Some 0)
          \<and> f b3 input info mac' = (b3, m', Some 0) \<and> take 43 m = take 43 m')
    \<and> (\<forall>f \<in> sas_mac_functions S. f a3 input info short = (a3\<lparr>sa_last_error := OLM_OUTPUT_BUFFER_TOO_SMALL\<rparr>, short, None))"
proof -
  define ga gb where "ga = olm_crypto_curve25519_generate_key S random_a" and "gb = olm_crypto_curve25519_generate_key S random_b"
  have c: "a1 = a0\<lparr>sa_curve25519_key := ga, sa_their_key_set := False\<rparr>" "b1 = b0\<lparr>sa_curve25519_key := gb, sa_their_key_set := False\<rparr>"
    "32 \<le> length random_a" "32 \<le> length random_b"
    using create by (auto simp: olm_create_sas_def olm_create_sas_random_length_def ga_def gb_def split: if_splits)
  have pair: "curve25519_pair S ga" "curve25519_pair S gb" "length (ckp_public_key ga) = 32" "length (ckp_public_key gb) = 32"
    using c(3,4) by (simp_all add: ga_def gb_def generate_key_pair)
  have e: "a2 = a1" "b2 = b1" "take 43 pa' = b64_encode (ckp_public_key ga)" "take 43 pb' = b64_encode (ckp_public_key gb)"
    using get_pubkey_text [OF get(1)] get_pubkey_text [OF get(2)] pair c by simp_all
  have k: "ra = Some 0" "rb = Some 0"
    "a3 = a1\<lparr>sa_secret := olm_crypto_curve25519_shared_secret S ga (ckp_public_key gb), sa_their_key_set := True\<rparr>"
    "b3 = b1\<lparr>sa_secret := olm_crypto_curve25519_shared_secret S gb (ckp_public_key ga), sa_their_key_set := True\<rparr>"
    using set_their_key_encoded [of "ckp_public_key gb" S a1] set_their_key_encoded [of "ckp_public_key ga" S b1]
      set e pair by (auto simp: c)
  have key: "\<not> sa_their_key_set a2" "sa_their_key_set a3" "sa_their_key_set b3" by (simp_all add: e c k)
  have s: "sa_secret a3 = sa_secret b3" using shared_secret_agrees [OF assms(1) pair(1,2)] by (simp add: k)
  have secret: "sa_secret a3 = olm_crypto_curve25519_shared_secret S (sa_curve25519_key a3) (ckp_public_key (sa_curve25519_key b3))"
    by (simp add: k c)
  have buffers: "olm_crypto_hkdf_sha256 S x [] info out = olm_crypto_hkdf_sha256 S x [] info (zeros (length out))"
    "olm_crypto_hkdf_sha256 S x [] info out' = olm_crypto_hkdf_sha256 S x [] info (zeros (length out))" for x
    using assms(2,3) by (auto intro!: hkdf_sha256_buffer simp: HKDF_BYTES_MAX_def)
  have bytes: "olm_sas_generate_bytes S a2 info out = (a2\<lparr>sa_last_error := OLM_SAS_THEIR_KEY_NOT_SET\<rparr>, out, None)"
    "olm_sas_generate_bytes S a3 info out = (a3, olm_crypto_hkdf_sha256 S (sa_secret a3) [] info (zeros (length out)), Some 0)"
    "olm_sas_generate_bytes S b3 info out' = (b3, olm_crypto_hkdf_sha256 S (sa_secret a3) [] info (zeros (length out)), Some 0)"
    using key s buffers by (simp_all add: olm_sas_generate_bytes_def)
  from sas_macs_refused(2) [OF _ assms(4) key(1)] sas_macs_refused(1) [OF _ assms(6)]
    sas_macs_agree [OF assms(4,5) key(2,3) s] bytes secret s k(1,2) key show ?thesis
    by (simp add: olm_sas_is_their_key_set_def)
qed

lemma fixed_mac_eq:
  assumes "43 \<le> length mac" "sa_their_key_set s"
  shows "olm_sas_calculate_mac_fixed_base64 S s input info mac =
    (s, write_at mac 0 (b64_encode (olm_crypto_hmac_sha256 S (olm_crypto_hkdf_sha256 S (sa_secret s) [] info (zeros 32)) input)), Some 0)"
  using assms encode_base64_to_eq [of "olm_crypto_hmac_sha256 S (olm_crypto_hkdf_sha256 S (sa_secret s) [] info (zeros 32)) input" mac]
  by (simp add: olm_sas_calculate_mac_fixed_base64_def b64_length_def)

text \<open>C33: The MAC \<open>olm_sas_calculate_mac\<close> writes is decided by the bytes 0, 1, 2, 4, 5 and 8 of the HMAC
  it encodes, 48 of its 256 bits: the other bytes are overwritten by the encoder before it
  reads them. Inputs whose HMACs agree in the six bytes get the same 43 characters.
  \<open>olm_sas_calculate_mac_fixed_base64\<close> gives different characters whenever the HMACs differ.\<close>

theorem sas_mac_keeps_six_bytes:
  assumes "h = olm_crypto_hmac_sha256 S (olm_crypto_hkdf_sha256 S (sa_secret s) [] info (zeros 32)) input"
    and "h' = olm_crypto_hmac_sha256 S (olm_crypto_hkdf_sha256 S (sa_secret s) [] info' (zeros 32)) input'"
    and "h ! 0 = h' ! 0" "h ! 1 = h' ! 1" "h ! 2 = h' ! 2" "h ! 4 = h' ! 4" "h ! 5 = h' ! 5" "h ! 8 = h' ! 8"
    and "olm_sas_calculate_mac S s input info mac = (s1, m, Some n)"
    and "olm_sas_calculate_mac S s input' info' mac = (s1', m', Some n')"
    and "olm_sas_calculate_mac_fixed_base64 S s input info mac = (s2, f, Some k)"
    and "olm_sas_calculate_mac_fixed_base64 S s input' info' mac = (s2', f', Some k')"
  shows "take 43 m = take 43 m' \<and> (take 43 f = take 43 f' \<longleftrightarrow> h = h')"
proof -
  have l: "43 \<le> length mac" "sa_their_key_set s" using assms(9) by (auto simp: olm_sas_calculate_mac_def split: if_splits)
  have h: "length h = 32" "length h' = 32" by (simp_all add: assms(1,2))
  have "agree mac_bytes_read (write_at mac 0 h) (write_at mac 0 h')"
    using assms(3-8) l h by (auto simp: agree_def mac_bytes_read_def write_at_def nth_append)
  from agree_encode_mac [OF this] l h
  have "agree {0..<43} (fst (olm_encode_base64 (write_at mac 0 h) 0 32 0)) (fst (olm_encode_base64 (write_at mac 0 h') 0 32 0))"
    by simp
  moreover have "m = fst (olm_encode_base64 (write_at mac 0 h) 0 32 0)" "m' = fst (olm_encode_base64 (write_at mac 0 h') 0 32 0)"
    using assms(9,10) l by (auto simp: olm_sas_calculate_mac_def assms(1,2) split: prod.splits)
  ultimately have a: "agree {0..<43} m m'" by simp
  have "take 43 m = take 43 m'" using a by (auto simp: agree_def intro: nth_equalityI)
  moreover have "f = write_at mac 0 (b64_encode h)" "f' = write_at mac 0 (b64_encode h')"
    using assms(11,12) [unfolded fixed_mac_eq [OF l], folded assms(1,2)] by simp_all
  then have "take 43 f = b64_encode h" "take 43 f' = b64_encode h'"
    using h by (simp_all add: write_at_def b64_length_def)
  ultimately show ?thesis by (metis b64_decode_encode)
qed

section \<open>Witnesses\<close>

lemma sample_sas_exchange:
  "\<exists>a1 b1 pa pb a3 ka b3 kb. olm_create_sas sample_sodium olm_sas (replicate 32 1) = (a1, Some 0)
    \<and> olm_create_sas sample_sodium olm_sas (replicate 32 2) = (b1, Some 0)
    \<and> olm_sas_get_pubkey a1 (zeros 43) = (a1, pa, Some 0) \<and> olm_sas_get_pubkey b1 (zeros 43) = (b1, pb, Some 0)
    \<and> olm_sas_set_their_key sample_sodium a1 (take olm_sas_pubkey_length pb) = (a3, ka, Some 0)
    \<and> olm_sas_set_their_key sample_sodium b1 (take olm_sas_pubkey_length pa) = (b3, kb, Some 0)"
proof -
  let ?a = "olm_sas\<lparr>sa_curve25519_key := olm_crypto_curve25519_generate_key sample_sodium (replicate 32 1), sa_their_key_set := False\<rparr>"
  let ?b = "olm_sas\<lparr>sa_curve25519_key := olm_crypto_curve25519_generate_key sample_sodium (replicate 32 2), sa_their_key_set := False\<rparr>"
  have "olm_sas_get_pubkey s (zeros 43) = (s, b64_encode (ckp_public_key (sa_curve25519_key s)), Some 0)"
    if "length (ckp_public_key (sa_curve25519_key s)) = 32" for s
    using encode_base64_to_eq [of "ckp_public_key (sa_curve25519_key s)" "zeros 43"] that
    by (simp add: olm_sas_get_pubkey_def b64_length_def)
  from this [of ?a] this [of ?b] set_their_key_encoded [of "ckp_public_key (sa_curve25519_key ?b)" sample_sodium ?a]
    set_their_key_encoded [of "ckp_public_key (sa_curve25519_key ?a)" sample_sodium ?b]
  show ?thesis by (fastforce simp: olm_create_sas_def olm_create_sas_random_length_def b64_length_def)
qed

theorem sas_agreement_witness:
  "\<exists>a3 b3 m m'. sa_secret a3 = sa_secret b3
    \<and> olm_sas_calculate_mac sample_sodium a3 [1] [2] (replicate 43 7) = (a3, m, Some 0)
    \<and> olm_sas_calculate_mac sample_sodium b3 [1] [2] (zeros 43) = (b3, m', Some 0) \<and> take 43 m = take 43 m'"
proof -
  obtain a1 b1 pa pb a3 ka b3 kb where "olm_create_sas sample_sodium olm_sas (replicate 32 1) = (a1, Some 0)"
    "olm_create_sas sample_sodium olm_sas (replicate 32 2) = (b1, Some 0)"
    "olm_sas_get_pubkey a1 (zeros 43) = (a1, pa, Some 0)" "olm_sas_get_pubkey b1 (zeros 43) = (b1, pb, Some 0)"
    "olm_sas_set_their_key sample_sodium a1 (take olm_sas_pubkey_length pb) = (a3, ka, Some 0)"
    "olm_sas_set_their_key sample_sodium b1 (take olm_sas_pubkey_length pa) = (b3, kb, Some 0)"
    using sample_sas_exchange by blast
  from sas_agreement [OF sample_dh_agrees _ _ _ _ _ this, of "[]" "[]" "replicate 43 7" "zeros 43" "[]" "[2]" "[1]"]
  have "sa_secret b3 = sa_secret a3" "\<exists>m m'. olm_sas_calculate_mac sample_sodium a3 [1] [2] (replicate 43 7) = (a3, m, Some 0)
    \<and> olm_sas_calculate_mac sample_sodium b3 [1] [2] (zeros 43) = (b3, m', Some 0) \<and> take 43 m = take 43 m'"
    by simp_all
  then show ?thesis by metis
qed

text \<open>An HMAC whose byte 3 is the first byte of the input.\<close>

definition first_byte_sodium :: sodium where
  "first_byte_sodium = sample_sodium\<lparr>so_hmacsha256 := (\<lambda>k x i. if i = 3 then hd x else 0)\<rparr>"

theorem sas_mac_keeps_six_bytes_witness:
  "\<exists>s m m' f f'. olm_sas_calculate_mac first_byte_sodium s [1] [2] (zeros 43) = (s, m, Some 0)
    \<and> olm_sas_calculate_mac first_byte_sodium s [3] [2] (zeros 43) = (s, m', Some 0)
    \<and> olm_sas_calculate_mac_fixed_base64 first_byte_sodium s [1] [2] (zeros 43) = (s, f, Some 0)
    \<and> olm_sas_calculate_mac_fixed_base64 first_byte_sodium s [3] [2] (zeros 43) = (s, f', Some 0)
    \<and> take 43 m = take 43 m' \<and> take 43 f \<noteq> take 43 f'"
proof -
  let ?S = first_byte_sodium and ?s = "olm_sas\<lparr>sa_their_key_set := True\<rparr>"
  have "\<exists>m. olm_sas_calculate_mac ?S ?s i [2] (zeros 43) = (?s, m, Some 0)" for i
    by (simp add: olm_sas_calculate_mac_def split: prod.splits)
  then obtain m m' where m: "olm_sas_calculate_mac ?S ?s [1] [2] (zeros 43) = (?s, m, Some 0)"
    "olm_sas_calculate_mac ?S ?s [3] [2] (zeros 43) = (?s, m', Some 0)" by metis
  have "\<exists>f. olm_sas_calculate_mac_fixed_base64 ?S ?s i [2] (zeros 43) = (?s, f, Some 0)" for i
    by (simp add: fixed_mac_eq)
  then obtain f f' where f: "olm_sas_calculate_mac_fixed_base64 ?S ?s [1] [2] (zeros 43) = (?s, f, Some 0)"
    "olm_sas_calculate_mac_fixed_base64 ?S ?s [3] [2] (zeros 43) = (?s, f', Some 0)" by metis
  let ?h = "\<lambda>x. olm_crypto_hmac_sha256 ?S (olm_crypto_hkdf_sha256 ?S (sa_secret ?s) [] [2] (zeros 32)) x"
  have n: "olm_crypto_hmac_sha256 ?S key x ! i = (if i = 3 then hd x else 0)" if "i < 32" for key x i
    using that by (simp add: olm_crypto_hmac_sha256_def first_byte_sodium_def)
  have ne: "?h [1] \<noteq> ?h [3]"
  proof
    assume "?h [1] = ?h [3]"
    then have "?h [1] ! 3 = ?h [3] ! 3" by (rule arg_cong)
    then show False by (simp only: n) simp
  qed
  have "take 43 m = take 43 m' \<and> (take 43 f = take 43 f' \<longleftrightarrow> ?h [1] = ?h [3])"
    by (rule sas_mac_keeps_six_bytes [OF refl refl _ _ _ _ _ _ m f]) (simp_all add: n)
  then show ?thesis using m f ne by blast
qed

end
