(* ===== verification/Dehydrated.thy ===== *)
theory Dehydrated
  imports Account_Keys
begin

text \<open>
  \<open>src/dehydrated_device.c\<close>: an account is serialised in the MSC3814 format (private keys and the
  Ed25519 seed, one-time keys oldest first) and sealed with ChaCha20-Poly1305, and restored from
  that. The AEAD is libsodium's; \<open>aead_opens\<close> is what its documentation promises.
\<close>

abbreviation DEHYDRATED_DEVICE_PICKLE_VERSION :: u32 where "DEHYDRATED_DEVICE_PICKLE_VERSION \<equiv> 1"
abbreviation DEHYDRATED_DEVICE_KEY_LENGTH :: nat where "DEHYDRATED_DEVICE_KEY_LENGTH \<equiv> 32"
abbreviation DEHYDRATED_DEVICE_NONCE_LENGTH :: nat where "DEHYDRATED_DEVICE_NONCE_LENGTH \<equiv> 12"
abbreviation AEAD_ABYTES :: nat where "AEAD_ABYTES \<equiv> 16"

text \<open>The size of the local array \<open>plaintext\<close>.\<close>

abbreviation DEHYDRATED_PLAINTEXT_SIZE :: nat where
  "DEHYDRATED_PLAINTEXT_SIZE \<equiv> 4 + CURVE25519_KEY_LENGTH + ED25519_RANDOM_LENGTH + 4
     + MAX_ONE_TIME_KEYS * CURVE25519_KEY_LENGTH + 1 + CURVE25519_KEY_LENGTH"

section \<open>The pickle\<close>

definition dehydrated_pickle_length :: "account \<Rightarrow> nat" where
  "dehydrated_pickle_length a =
     4 + CURVE25519_KEY_LENGTH + ED25519_RANDOM_LENGTH + 4
     + ol_length (ac_one_time_keys a) * CURVE25519_KEY_LENGTH + 1
     + (if ac_num_fallback_keys a \<ge> 1 then CURVE25519_KEY_LENGTH else 0)"

definition store_u32 :: "u32 \<Rightarrow> bytes" where
  "store_u32 value = [ucast (drop_bit 24 value), ucast (drop_bit 16 value), ucast (drop_bit 8 value), ucast value]"

definition load_u32 :: "bytes \<Rightarrow> u32 \<times> bytes" where
  "load_u32 pos =
     (push_bit 24 (ucast (pos ! 0)) OR push_bit 16 (ucast (pos ! 1)) OR push_bit 8 (ucast (pos ! 2)) OR ucast (pos ! 3),
      drop 4 pos)"

text \<open>From the end of the list, the oldest key, to its front.\<close>

primrec store_keys :: "one_time_key olm_list \<Rightarrow> nat \<Rightarrow> bytes" where
  "store_keys l 0 = []"
| "store_keys l (Suc i) = ckp_private_key (otk_key (olm_list_get l i)) @ store_keys l i"

definition dehydrated_pickle :: "account \<Rightarrow> bytes" where
  "dehydrated_pickle a =
     store_u32 DEHYDRATED_DEVICE_PICKLE_VERSION
     @ ckp_private_key (ik_curve25519_key (ac_identity_keys a)) @ ac_ed25519_seed a
     @ store_u32 (of_nat (ol_length (ac_one_time_keys a)))
     @ store_keys (ac_one_time_keys a) (ol_length (ac_one_time_keys a))
     @ (if ac_num_fallback_keys a \<ge> 1 then 1 # ckp_private_key (otk_key (ac_current_fallback_key a)) else [0])"

text \<open>\<open>for (i = 0; i < count; ++i)\<close>, with the number of keys still to read.\<close>

definition load_key :: "sodium \<Rightarrow> u32 \<Rightarrow> bytes \<Rightarrow> one_time_key olm_list \<Rightarrow> one_time_key olm_list" where
  "load_key S i pos l =
     (let (l, j) = olm_list_insert_front l
      in olm_list_set l j \<lparr>otk_id = i + 1, otk_published = True, otk_key = olm_crypto_curve25519_generate_key S pos\<rparr>)"

primrec load_keys :: "sodium \<Rightarrow> nat \<Rightarrow> u32 \<Rightarrow> bytes \<Rightarrow> one_time_key olm_list \<Rightarrow> one_time_key olm_list \<times> bytes" where
  "load_keys S 0 i pos l = (l, pos)"
| "load_keys S (Suc n) i pos l = load_keys S n (i + 1) (drop CURVE25519_KEY_LENGTH pos) (load_key S i pos l)"

definition dehydrated_unpickle :: "sodium \<Rightarrow> account \<Rightarrow> bytes \<Rightarrow> account \<times> nat option" where
  "dehydrated_unpickle S a pos =
     (if length pos < 4 + CURVE25519_KEY_LENGTH + ED25519_RANDOM_LENGTH + 4 + 1 then
        (a\<lparr>ac_last_error := OLM_CORRUPTED_PICKLE\<rparr>, None)
      else let (version, pos) = load_u32 pos in
      if version \<noteq> DEHYDRATED_DEVICE_PICKLE_VERSION then
        (a\<lparr>ac_last_error := OLM_UNKNOWN_PICKLE_VERSION\<rparr>, None)
      else
        let curve = olm_crypto_curve25519_generate_key S pos;
            pos = drop CURVE25519_KEY_LENGTH pos;
            a = a\<lparr>ac_identity_keys := \<lparr>ik_ed25519_key = olm_crypto_ed25519_generate_key S pos, ik_curve25519_key = curve\<rparr>,
                  ac_ed25519_seed := take ED25519_RANDOM_LENGTH pos, ac_ed25519_seed_known := True\<rparr>;
            pos = drop ED25519_RANDOM_LENGTH pos;
            (count, pos) = load_u32 pos
        in if count > of_nat MAX_ONE_TIME_KEYS
              \<or> length pos < unat count * CURVE25519_KEY_LENGTH + 1 then
             (a\<lparr>ac_last_error := OLM_CORRUPTED_PICKLE\<rparr>, None)
           else
             let (keys, pos) = load_keys S (unat count) 0 pos (ac_one_time_keys a);
                 a = a\<lparr>ac_one_time_keys := keys, ac_next_one_time_key_id := count\<rparr>;
                 present = hd pos \<noteq> 0;
                 pos = tl pos
             in if present \<and> length pos < CURVE25519_KEY_LENGTH then
                  (a\<lparr>ac_last_error := OLM_CORRUPTED_PICKLE\<rparr>, None)
                else
                  let (a, pos) =
                        (if present then
                           let next_id = ac_next_one_time_key_id a + 1
                           in (a\<lparr>ac_num_fallback_keys := 1, ac_next_one_time_key_id := next_id,
                                 ac_current_fallback_key :=
                                   \<lparr>otk_id = next_id, otk_published = True, otk_key = olm_crypto_curve25519_generate_key S pos\<rparr>\<rparr>,
                               drop CURVE25519_KEY_LENGTH pos)
                         else (a, pos))
                  in if pos \<noteq> [] then (a\<lparr>ac_last_error := OLM_PICKLE_EXTRA_DATA\<rparr>, None) else (a, Some 0))"

section \<open>Sealing\<close>

definition olm_account_dehydrate_length :: "account \<Rightarrow> nat" where
  "olm_account_dehydrate_length a = dehydrated_pickle_length a + AEAD_ABYTES"

text \<open>The account, the buffer \<open>ciphertext\<close> and the result.\<close>

definition olm_account_dehydrate ::
    "sodium \<Rightarrow> account \<Rightarrow> bytes \<Rightarrow> bytes \<Rightarrow> bytes \<Rightarrow> account \<times> bytes \<times> nat option" where
  "olm_account_dehydrate S a key nonce ciphertext =
     (if \<not> ac_ed25519_seed_known a then (a\<lparr>ac_last_error := OLM_UNSEEDED_ACCOUNT\<rparr>, ciphertext, None)
      else if length key \<noteq> DEHYDRATED_DEVICE_KEY_LENGTH \<or> length nonce \<noteq> DEHYDRATED_DEVICE_NONCE_LENGTH then
        (a\<lparr>ac_last_error := OLM_BAD_ACCOUNT_KEY\<rparr>, ciphertext, None)
      else if length ciphertext < olm_account_dehydrate_length a then
        (a\<lparr>ac_last_error := OLM_OUTPUT_BUFFER_TOO_SMALL\<rparr>, ciphertext, None)
      else if \<not> so_init S then (a\<lparr>ac_last_error := OLM_CORRUPTED_PICKLE\<rparr>, ciphertext, None)
      else
        let plaintext = take (dehydrated_pickle_length a) (dehydrated_pickle a);
            written = length plaintext + AEAD_ABYTES
        in case so_aead_encrypt S plaintext nonce key of
             None \<Rightarrow> (a\<lparr>ac_last_error := OLM_BAD_ACCOUNT_KEY\<rparr>, ciphertext, None)
           | Some boxed \<Rightarrow> (a, write_at ciphertext 0 (out_bytes written boxed), Some written))"

definition olm_account_rehydrate ::
    "sodium \<Rightarrow> account \<Rightarrow> bytes \<Rightarrow> bytes \<Rightarrow> bytes \<Rightarrow> account \<times> nat option" where
  "olm_account_rehydrate S a key nonce ciphertext =
     (let a = olm_account_init a;
          ciphertext_length = length ciphertext
      in if length key \<noteq> DEHYDRATED_DEVICE_KEY_LENGTH \<or> length nonce \<noteq> DEHYDRATED_DEVICE_NONCE_LENGTH then
           (a\<lparr>ac_last_error := OLM_BAD_ACCOUNT_KEY\<rparr>, None)
         else if ciphertext_length < AEAD_ABYTES \<or> ciphertext_length - AEAD_ABYTES > DEHYDRATED_PLAINTEXT_SIZE then
           (a\<lparr>ac_last_error := OLM_CORRUPTED_PICKLE\<rparr>, None)
         else if \<not> so_init S then (a\<lparr>ac_last_error := OLM_CORRUPTED_PICKLE\<rparr>, None)
         else case so_aead_decrypt S ciphertext nonce key of
                None \<Rightarrow> (a\<lparr>ac_last_error := OLM_BAD_MESSAGE_MAC\<rparr>, None)
              | Some opened \<Rightarrow> dehydrated_unpickle S a (out_bytes (ciphertext_length - AEAD_ABYTES) opened))"

text \<open>What the AEAD promises: what was sealed under a key and nonce is opened by them.\<close>

definition aead_opens :: "sodium \<Rightarrow> bool" where
  "aead_opens S \<longleftrightarrow> (\<forall>m n k c. so_aead_encrypt S m n k = Some c \<longrightarrow>
     (\<exists>f. so_aead_decrypt S (out_bytes (length m + AEAD_ABYTES) c) n k = Some f \<and> out_bytes (length m) f = m))"

section \<open>Accounts that can be restored\<close>

text \<open>
  A dehydrated device keeps the private keys and the seed only: the public keys must be those
  that are computed from them. Accounts that were created by the library and not unpickled
  are of this kind.
\<close>

definition keys_from_private :: "sodium \<Rightarrow> account \<Rightarrow> bool" where
  "keys_from_private S a \<longleftrightarrow> ac_ed25519_seed_known a
     \<and> ik_ed25519_key (ac_identity_keys a) = olm_crypto_ed25519_generate_key S (ac_ed25519_seed a)
     \<and> curve25519_pair S (ik_curve25519_key (ac_identity_keys a))
     \<and> (\<forall>k \<in> set (elems (ac_one_time_keys a)). curve25519_pair S (otk_key k))
     \<and> (1 \<le> ac_num_fallback_keys a \<longrightarrow> curve25519_pair S (otk_key (ac_current_fallback_key a)))"

lemma generate_ed25519_take: "olm_crypto_ed25519_generate_key S (take 32 r) = olm_crypto_ed25519_generate_key S r"
  by (simp add: olm_crypto_ed25519_generate_key_def)

lemma generate_curve25519_take: "32 \<le> n \<Longrightarrow> olm_crypto_curve25519_generate_key S (take n r) = olm_crypto_curve25519_generate_key S r"
  by (simp add: olm_crypto_curve25519_generate_key_def min_def)

lemma generate_from_private:
  "curve25519_pair S k \<Longrightarrow> olm_crypto_curve25519_generate_key S (ckp_private_key k @ rest) = k"
  by (cases k) (simp add: curve25519_pair_def olm_crypto_curve25519_generate_key_def Let_def)

lemma private_created:
  assumes "olm_account_new_account S (olm_account_init memory) random = (a, Some 0)"
  shows "keys_from_private S a"
  using assms
  by (auto simp: olm_account_new_account_def olm_account_new_account_random_length_def olm_account_init_def
      keys_from_private_def generate_ed25519_take generate_key_pair Let_def elems_init split: if_splits)

lemma new_keys_private:
  "32 * n \<le> length random \<Longrightarrow> k \<in> set (new_keys S n random i) \<Longrightarrow> curve25519_pair S (otk_key k)"
  by (auto simp: new_keys_def new_key_def generate_key_pair)

lemma add_keys_other:
  "ac_identity_keys (add_keys S n random a) = ac_identity_keys a"
  "ac_ed25519_seed (add_keys S n random a) = ac_ed25519_seed a"
  "ac_ed25519_seed_known (add_keys S n random a) = ac_ed25519_seed_known a"
  by (induction n arbitrary: random a) (simp_all, simp add: add_one_time_key_def Let_def case_prod_unfold)

lemma private_generate:
  assumes a: "account_ok a" "keys_from_private S a" and n: "32 * n \<le> length random" "unat (ac_next_one_time_key_id a) + n < 2 ^ 32"
    and gen: "olm_account_generate_one_time_keys S a n random = Some (a', r)"
  shows "keys_from_private S a'"
proof (cases "length random < olm_account_generate_one_time_keys_random_length n")
  case True
  then show ?thesis using gen a(2) by (auto simp: olm_account_generate_one_time_keys_def keys_from_private_def)
next
  case False
  then have "a' = add_keys S n random a"
    using gen generate_loop_ends [of n 0 n random] n by (simp add: olm_account_generate_one_time_keys_def)
  then show ?thesis
    using add_keys_eq [OF a(1) n(1), of S] a(2) new_keys_private [OF n(1)]
    by (auto simp: keys_from_private_def add_keys_other dest: in_set_takeD)
qed

lemma private_step:
  assumes "account_step S a a'" "account_ok a" "keys_from_private S a"
  shows "keys_from_private S a'"
  using assms(1)
proof cases
  case (one_time_keys n random r)
  then show ?thesis by (intro private_generate [OF assms(2,3)])
next
  case (fallback_key random r)
  then show ?thesis
    using assms(3)
    by (auto simp: olm_account_generate_fallback_key_def olm_account_generate_fallback_key_random_length_def
        keys_from_private_def generate_key_pair Let_def split: if_splits)
next
  case (published n)
  then show ?thesis
    using assms(3) marked_elems [OF account_list(1) [OF assms(2)] refl]
    by (auto simp: mark_eq keys_from_private_def)
next
  case forgotten
  have "1 \<le> ac_num_fallback_keys a" if "2 \<le> ac_num_fallback_keys a" using that by (simp add: word_le_nat_alt)
  then show ?thesis using forgotten assms(3) by (simp add: olm_account_forget_old_fallback_key_def keys_from_private_def)
next
  case (key_used key r)
  show ?thesis
  proof (cases rule: remove_key_cases [OF assms(2) key_used(2,1)])
    case 1
    then show ?thesis using assms(3) by simp
  next
    case removed: (2 i)
    have "set (elems (ac_one_time_keys a')) \<subseteq> set (elems (ac_one_time_keys a))"
      unfolding removed(4) by (auto simp: erase_elem_def dest: in_set_takeD in_set_dropD)
    then have "\<forall>k \<in> set (elems (olm_list_erase (ac_one_time_keys a) i)). curve25519_pair S (otk_key k)"
      using assms(3) by (auto simp: removed(3) keys_from_private_def)
    then show ?thesis using assms(3) by (simp add: removed(3) keys_from_private_def)
  qed
next
  case (signed message buffer b r)
  then show ?thesis using assms(3) by (auto simp: olm_account_sign_def keys_from_private_def split: if_splits)
next
  case (json buffer b r)
  then show ?thesis
    using assms(3) by (auto simp: olm_account_get_one_time_keys_json_def keys_from_private_def Let_def split: if_splits prod.splits)
qed

lemma private_reachable: "account_reachable S a \<Longrightarrow> keys_from_private S a"
proof (induction rule: account_reachable.induct)
  case (step a a')
  then show ?case using private_step inv_reachable [of S a] by (simp add: account_inv_def)
qed (rule private_created)

section \<open>Reading the keys back\<close>

lemma load_store_u32: "load_u32 (store_u32 v @ rest) = (v, rest)"
  using be32_word_bytes [of v] by (simp add: load_u32_def store_u32_def be32_word_def eval_nat_numeral)

lemma length_store_u32 [simp]: "length (store_u32 v) = 4"
  by (simp add: store_u32_def)

lemma store_keys_eq:
  assumes "list_ok cap l" "n \<le> ol_length l"
  shows "store_keys l n = concat (map (\<lambda>k. ckp_private_key (otk_key k)) (rev (take n (elems l))))"
  using assms(2)
proof (induction n)
  case (Suc n)
  then have "take (Suc n) (elems l) = take n (elems l) @ [elems l ! n]"
    using length_elems [OF assms(1)] by (simp add: take_Suc_conv_app_nth)
  then show ?case using Suc by (simp add: olm_list_get_elems)
qed simp

lemma drop_concat_map:
  "\<forall>x \<in> set xs. length (f x) = d \<Longrightarrow> j < length xs \<Longrightarrow>
   drop (d * j) (concat (map f xs) @ rest) = f (xs ! j) @ concat (map f (drop (Suc j) xs)) @ rest"
proof (induction xs arbitrary: j)
  case (Cons x xs)
  then show ?case by (cases j) simp_all
qed simp

lemma length_concat_map: "\<forall>x \<in> set xs. length (f x) = d \<Longrightarrow> length (concat (map f xs)) = d * length xs"
  by (induction xs) simp_all

definition loaded_key :: "sodium \<Rightarrow> u32 \<Rightarrow> bytes \<Rightarrow> one_time_key" where
  "loaded_key S i pos = \<lparr>otk_id = i, otk_published = True, otk_key = olm_crypto_curve25519_generate_key S pos\<rparr>"

lemma load_key_push: "load_key S i pos l = olm_list_push_front l (loaded_key S (i + 1) pos)"
  by (simp add: load_key_def olm_list_push_front_def loaded_key_def case_prod_unfold)

lemma load_keys_eq:
  assumes "slots_ok 100 one_time_key_ok l" "32 * n \<le> length pos"
  shows "\<exists>l'. load_keys S n i pos l = (l', drop (32 * n) pos) \<and> slots_ok 100 one_time_key_ok l'
    \<and> elems l' = take 100 (rev (map (\<lambda>j. loaded_key S (i + 1 + of_nat j) (drop (32 * j) pos)) [0..<n]) @ elems l)"
  using assms
proof (induction n arbitrary: i pos l)
  case 0
  then show ?case using length_elems_le [OF slots_list_ok [OF 0(1)]] by simp
next
  case (Suc n)
  have k: "one_time_key_ok (loaded_key S (i + 1) pos)" using Suc.prems(2) by (simp add: loaded_key_def one_time_key_ok_def generate_key_ok)
  have e: "elems (load_key S i pos l) = take 100 (loaded_key S (i + 1) pos # elems l)"
    using elems_push_front [OF slots_list_ok [OF Suc.prems(1)]] by (simp add: load_key_push insert_elem_def)
  have s: "slots_ok 100 one_time_key_ok (load_key S i pos l)"
    unfolding load_key_push by (rule slots_ok_push_front) (use Suc.prems k in simp_all)
  have m: "map (\<lambda>j. loaded_key S (i + 1 + of_nat j) (drop (32 * j) pos)) [0..<Suc n] =
      loaded_key S (i + 1) pos # map (\<lambda>j. loaded_key S (i + 1 + 1 + of_nat j) (drop (32 * j) (drop 32 pos))) [0..<n]"
    by (simp add: map_upt_Suc ac_simps del: upt_Suc)
  show ?case
    using Suc.IH [OF s, of "drop 32 pos" "i + 1"] Suc.prems(2)
    unfolding m by (simp add: e take_Cons_take ac_simps)
qed

text \<open>What the pickle keeps of an account: the key pairs, in their order.\<close>

definition device_keys ::
    "account \<Rightarrow> identity_keys \<times> curve25519_key_pair list \<times> curve25519_key_pair option" where
  "device_keys a = (ac_identity_keys a, map otk_key (elems (ac_one_time_keys a)),
     if 1 \<le> ac_num_fallback_keys a then Some (otk_key (ac_current_fallback_key a)) else None)"

lemma length_dehydrated_pickle:
  assumes "account_ok a"
  shows "length (dehydrated_pickle a) = dehydrated_pickle_length a" "dehydrated_pickle_length a \<le> DEHYDRATED_PLAINTEXT_SIZE"
proof -
  note l = account_list [OF assms]
  have "\<forall>k \<in> set (rev (elems (ac_one_time_keys a))). length (ckp_private_key (otk_key k)) = 32"
    using l(2) by (simp add: one_time_key_ok_def curve25519_key_pair_ok_def)
  then have "length (store_keys (ac_one_time_keys a) (ol_length (ac_one_time_keys a))) = 32 * ol_length (ac_one_time_keys a)"
    using store_keys_eq [OF l(1) order.refl] length_elems [OF l(1)]
      length_concat_map [of "rev (elems (ac_one_time_keys a))" "\<lambda>k. ckp_private_key (otk_key k)" 32] by simp
  then show "length (dehydrated_pickle a) = dehydrated_pickle_length a"
    using assms by (simp add: dehydrated_pickle_def dehydrated_pickle_length_def account_ok_def account_sized_def
        identity_keys_ok_def one_time_key_ok_def curve25519_key_pair_ok_def)
  show "dehydrated_pickle_length a \<le> DEHYDRATED_PLAINTEXT_SIZE"
    using l(1) by (simp add: dehydrated_pickle_length_def list_ok_def)
qed

lemma load_stored_keys:
  assumes a: "account_ok a" "keys_from_private S a" and l: "slots_ok 100 one_time_key_ok l" "elems l = []"
    and n: "n = ol_length (ac_one_time_keys a)"
  shows "\<exists>l'. load_keys S n 0 (store_keys (ac_one_time_keys a) n @ rest) l = (l', rest) \<and> slots_ok 100 one_time_key_ok l'
    \<and> elems l' = rev (map (\<lambda>j. \<lparr>otk_id = of_nat (Suc j), otk_published = True,
                               otk_key = otk_key (rev (elems (ac_one_time_keys a)) ! j)\<rparr>) [0..<n])"
proof -
  let ?ks = "elems (ac_one_time_keys a)" and ?f = "\<lambda>k. ckp_private_key (otk_key k)"
  note k = account_list [OF a(1)]
  have len: "length ?ks = n" "n \<le> 100" using length_elems [OF k(1)] k(1) n by (simp_all add: list_ok_def)
  have st: "store_keys (ac_one_time_keys a) n = concat (map ?f (rev ?ks))"
    using store_keys_eq [OF k(1), of n] len n by simp
  have f: "\<forall>x \<in> set (rev ?ks). length (?f x) = 32" using k(2) by (simp add: one_time_key_ok_def curve25519_key_pair_ok_def)
  have ls: "length (concat (map ?f (rev ?ks))) = 32 * n" using length_concat_map [OF f] len by simp
  have key: "loaded_key S (0 + 1 + of_nat j) (drop (32 * j) (concat (map ?f (rev ?ks)) @ rest)) =
      \<lparr>otk_id = of_nat (Suc j), otk_published = True, otk_key = otk_key (rev ?ks ! j)\<rparr>" if "j < n" for j
  proof -
    have "rev ?ks ! j \<in> set ?ks" using that len by (metis length_rev nth_mem set_rev)
    then show ?thesis
      using drop_concat_map [OF f, of j rest] that len a(2)
      by (simp add: loaded_key_def generate_from_private keys_from_private_def add.commute)
  qed
  obtain l' where "load_keys S n 0 (concat (map ?f (rev ?ks)) @ rest) l = (l', drop (32 * n) (concat (map ?f (rev ?ks)) @ rest))"
    and "slots_ok 100 one_time_key_ok l'"
    and "elems l' = take 100 (rev (map (\<lambda>j. loaded_key S (0 + 1 + of_nat j) (drop (32 * j) (concat (map ?f (rev ?ks)) @ rest))) [0..<n]) @ elems l)"
    using load_keys_eq [OF l(1), of n "concat (map ?f (rev ?ks)) @ rest" S 0] ls by auto
  moreover have "map (\<lambda>j. loaded_key S (0 + 1 + of_nat j) (drop (32 * j) (concat (map ?f (rev ?ks)) @ rest))) [0..<n] =
      map (\<lambda>j. \<lparr>otk_id = of_nat (Suc j), otk_published = True, otk_key = otk_key (rev ?ks ! j)\<rparr>) [0..<n]"
    using key by (intro map_cong) simp_all
  ultimately show ?thesis using l(2) ls len by (simp add: st)
qed

text \<open>The pickle is the concatenation of its fields, the fallback key or a zero byte at the end.\<close>

definition fallback_bytes :: "account \<Rightarrow> bytes" where
  "fallback_bytes a = (if 1 \<le> ac_num_fallback_keys a then 1 # ckp_private_key (otk_key (ac_current_fallback_key a)) else [0])"

lemma dehydrated_layout:
  assumes "account_ok a"
  defines "n \<equiv> ol_length (ac_one_time_keys a)"
  shows "dehydrated_pickle a = store_u32 1 @ ckp_private_key (ik_curve25519_key (ac_identity_keys a)) @ ac_ed25519_seed a
      @ store_u32 (of_nat n) @ store_keys (ac_one_time_keys a) n @ fallback_bytes a" (is ?layout)
    "length (store_keys (ac_one_time_keys a) n) = 32 * n" "\<not> length (dehydrated_pickle a) < 73"
proof -
  show l: ?layout by (simp add: dehydrated_pickle_def n_def fallback_bytes_def)
  have sizes: "length (ckp_private_key (ik_curve25519_key (ac_identity_keys a))) = 32" "length (ac_ed25519_seed a) = 32"
    "one_time_key_ok (ac_current_fallback_key a)"
    using assms(1) by (auto simp: account_ok_def account_sized_def identity_keys_ok_def curve25519_key_pair_ok_def)
  show "length (store_keys (ac_one_time_keys a) n) = 32 * n"
    using length_dehydrated_pickle(1) [OF assms(1)] sizes
    by (simp add: l dehydrated_pickle_length_def fallback_bytes_def n_def one_time_key_ok_def curve25519_key_pair_ok_def
        split: if_splits)
  show "\<not> length (dehydrated_pickle a) < 73" using sizes by (simp add: l fallback_bytes_def Suc_le_eq)
qed

text \<open>The key pairs are generated again from the private keys and the seed, whatever follows them.\<close>

lemma device_keys_generated:
  assumes "account_ok a" "keys_from_private S a"
  shows "olm_crypto_curve25519_generate_key S (ckp_private_key (ik_curve25519_key (ac_identity_keys a)) @ rest)
      = ik_curve25519_key (ac_identity_keys a)"
    "olm_crypto_ed25519_generate_key S (ac_ed25519_seed a @ rest) = ik_ed25519_key (ac_identity_keys a)"
    "1 \<le> ac_num_fallback_keys a \<Longrightarrow>
      olm_crypto_curve25519_generate_key S (ckp_private_key (otk_key (ac_current_fallback_key a))) = otk_key (ac_current_fallback_key a)"
proof -
  have "length (ac_ed25519_seed a) = 32" using assms(1) by (simp add: account_ok_def account_sized_def)
  then show "olm_crypto_curve25519_generate_key S (ckp_private_key (ik_curve25519_key (ac_identity_keys a)) @ rest)
      = ik_curve25519_key (ac_identity_keys a)"
    "olm_crypto_ed25519_generate_key S (ac_ed25519_seed a @ rest) = ik_ed25519_key (ac_identity_keys a)"
    using assms(2) generate_from_private generate_ed25519_take [of S "ac_ed25519_seed a @ rest"]
    by (simp_all add: keys_from_private_def)
  show "olm_crypto_curve25519_generate_key S (ckp_private_key (otk_key (ac_current_fallback_key a))) = otk_key (ac_current_fallback_key a)"
    if "1 \<le> ac_num_fallback_keys a"
    using that assms(2) generate_from_private [of S "otk_key (ac_current_fallback_key a)" "[]"] by (simp add: keys_from_private_def)
qed

lemma renumbered_keys:
  assumes "length ks = n"
    and "l = rev (map (\<lambda>j. \<lparr>otk_id = of_nat (Suc j), otk_published = True, otk_key = otk_key (rev ks ! j)\<rparr>) [0..<n])"
  shows "map otk_id l = rev (map of_nat [1..<Suc n])" "map otk_key l = map otk_key ks" "\<forall>k \<in> set l. otk_published k"
proof -
  show "map otk_id l = rev (map of_nat [1..<Suc n])"
    by (simp add: assms(2) rev_map comp_def map_Suc_upt [symmetric] del: upt_Suc)
  have "map (\<lambda>j. otk_key (rev ks ! j)) [0..<n] = map otk_key (rev ks)"
    using assms(1) by (intro nth_equalityI) simp_all
  then show "map otk_key l = map otk_key ks" by (simp add: assms(2) rev_map comp_def) (simp add: rev_map [symmetric])
qed (simp add: assms(2))

text \<open>The fallback key comes after the one-time keys, published, and the counter stands at the last id.\<close>

definition fallback_renumbered :: "account \<Rightarrow> account \<Rightarrow> bool" where
  "fallback_renumbered a b =
     (let n = length (elems (ac_one_time_keys a)) in
      if 1 \<le> ac_num_fallback_keys a
      then ac_num_fallback_keys b = 1 \<and> ac_next_one_time_key_id b = of_nat (n + 1)
        \<and> otk_id (ac_current_fallback_key b) = of_nat (n + 1) \<and> otk_published (ac_current_fallback_key b)
      else ac_num_fallback_keys b = 0 \<and> ac_next_one_time_key_id b = of_nat n)"

lemma unpickle_dehydrated:
  assumes a: "account_ok a" "keys_from_private S a" and b: "account_sized b" "elems (ac_one_time_keys b) = []" "ac_num_fallback_keys b = 0"
  shows "\<exists>b'. dehydrated_unpickle S b (dehydrated_pickle a) = (b', Some 0) \<and> account_ok b' \<and> device_keys b' = device_keys a
    \<and> ac_ed25519_seed b' = ac_ed25519_seed a \<and> ac_ed25519_seed_known b'
    \<and> map otk_id (elems (ac_one_time_keys b')) = rev (map of_nat [1..<Suc (ol_length (ac_one_time_keys a))])
    \<and> (\<forall>k \<in> set (elems (ac_one_time_keys b')). otk_published k)
    \<and> fallback_renumbered a b'"
proof -
  define n where "n = ol_length (ac_one_time_keys a)"
  note k = account_list [OF a(1)] and p = dehydrated_layout [OF a(1), folded n_def]
  have n: "n \<le> 100" "length (elems (ac_one_time_keys a)) = n" using k(1) length_elems [OF k(1)] by (simp_all add: list_ok_def n_def)
  have un: "unat (of_nat n :: u32) = n" using n by (simp add: unsigned_of_nat take_bit_nat_eq_self)
  then have cnt: "\<not> (of_nat 100 :: u32) < of_nat n" using n by (simp add: word_less_nat_alt)
  obtain l' where l': "load_keys S n 0 (store_keys (ac_one_time_keys a) n @ fallback_bytes a) (ac_one_time_keys b) = (l', fallback_bytes a)"
    "slots_ok 100 one_time_key_ok l'"
    "elems l' = rev (map (\<lambda>j. \<lparr>otk_id = of_nat (Suc j), otk_published = True,
       otk_key = otk_key (rev (elems (ac_one_time_keys a)) ! j)\<rparr>) [0..<n])"
    using load_stored_keys [OF a _ b(2) n_def, of "fallback_bytes a"] b(1) by (auto simp: account_sized_def)
  note R = renumbered_keys [OF n(2) l'(3)] and g = device_keys_generated [OF a]
  have sizes: "length (ckp_private_key (ik_curve25519_key (ac_identity_keys a))) = 32" "length (ac_ed25519_seed a) = 32"
    "one_time_key_ok (ac_current_fallback_key a)" "one_time_key_ok (ac_prev_fallback_key b)" "one_time_key_ok (ac_current_fallback_key b)"
    "identity_keys_ok (ac_identity_keys a)"
    using a(1) b(1) by (auto simp: account_ok_def account_sized_def identity_keys_ok_def curve25519_key_pair_ok_def)
  let ?b = "b\<lparr>ac_identity_keys := ac_identity_keys a, ac_ed25519_seed := ac_ed25519_seed a, ac_ed25519_seed_known := True,
      ac_one_time_keys := l', ac_next_one_time_key_id := of_nat n\<rparr>"
  define b' where "b' = (if 1 \<le> ac_num_fallback_keys a
     then ?b\<lparr>ac_num_fallback_keys := 1, ac_next_one_time_key_id := of_nat n + 1, ac_current_fallback_key :=
            \<lparr>otk_id = of_nat n + 1, otk_published = True, otk_key = otk_key (ac_current_fallback_key a)\<rparr>\<rparr>
     else ?b)"
  have ne: "ckp_private_key (otk_key (ac_current_fallback_key a)) \<noteq> []" "fallback_bytes a \<noteq> []"
    using sizes(3) by (auto simp: one_time_key_ok_def curve25519_key_pair_ok_def fallback_bytes_def)
  have "dehydrated_unpickle S b (dehydrated_pickle a) = (b', Some 0)"
    using p(2,3) ne sizes un cnt g l'(1)
    unfolding dehydrated_unpickle_def p(1)
    by (simp add: load_store_u32 Let_def b'_def fallback_bytes_def one_time_key_ok_def curve25519_key_pair_ok_def split: if_splits)
  moreover have "account_ok b'"
    using b l'(2) sizes by (auto simp: b'_def account_ok_def account_sized_def one_time_key_ok_def word_le_nat_alt)
  moreover have "device_keys b' = device_keys a" using R(2) b(3) by (simp add: b'_def device_keys_def)
  moreover have "fallback_renumbered a b'" using n(2) b(3) by (simp add: fallback_renumbered_def b'_def add.commute)
  ultimately show ?thesis using R(1,3) by (intro exI [of _ b']) (simp add: b'_def n_def)
qed

lemma dehydrate_Some:
  assumes "olm_account_dehydrate S a key nonce m = (a', m', Some n)"
  obtains c where "ac_ed25519_seed_known a" "length key = 32" "length nonce = 12" "so_init S"
    "olm_account_dehydrate_length a \<le> length m" "a' = a" "n = length (take (dehydrated_pickle_length a) (dehydrated_pickle a)) + 16"
    "so_aead_encrypt S (take (dehydrated_pickle_length a) (dehydrated_pickle a)) nonce key = Some c"
    "m' = write_at m 0 (out_bytes n c)"
  using assms by (auto simp: olm_account_dehydrate_def Let_def split: if_splits option.splits)

lemma rehydrate_opened:
  assumes "length key = 32" "length nonce = 12" "so_init S" "length ct = length p + 16" "length p \<le> DEHYDRATED_PLAINTEXT_SIZE"
    and "so_aead_decrypt S ct nonce key = Some f" "out_bytes (length p) f = p"
  shows "olm_account_rehydrate S b key nonce ct = dehydrated_unpickle S (olm_account_init b) p"
  using assms by (simp add: olm_account_rehydrate_def)

section \<open>Properties\<close>

text \<open>C24: A dehydrated device is restored. What \<open>_olm_account_dehydrate\<close> seals of an account that was
  created and used by the library, \<open>_olm_account_rehydrate\<close> opens under the same key and nonce,
  in whatever memory: the identity keys, the one-time keys in their order and the fallback key
  are the same, all marked published and numbered anew from 1, the oldest first and the fallback
  key last; the counter of the ids stands at the last one given; a previous fallback key is
  not kept; and the restored account knows its seed, so that it can be dehydrated again.\<close>

theorem dehydrated_device_restored:
  assumes "aead_opens S" "account_reachable S a" "account_sized b"
    and "olm_account_dehydrate S a key nonce m = (a', m', Some n)"
  shows "a' = a \<and> n = olm_account_dehydrate_length a
    \<and> (\<exists>b'. olm_account_rehydrate S b key nonce (take n m') = (b', Some 0) \<and> account_ok b' \<and> device_keys b' = device_keys a
         \<and> map otk_id (elems (ac_one_time_keys b')) = rev (map of_nat [1..<Suc (length (elems (ac_one_time_keys a)))])
         \<and> list_all otk_published (elems (ac_one_time_keys b')) \<and> fallback_renumbered a b'
         \<and> ac_ed25519_seed_known b' \<and> ac_ed25519_seed b' = ac_ed25519_seed a)"
proof -
  let ?p = "dehydrated_pickle a"
  have ok: "account_ok a" using inv_reachable [OF assms(2)] by (simp add: account_inv_def)
  have p: "length ?p = dehydrated_pickle_length a" "length ?p \<le> DEHYDRATED_PLAINTEXT_SIZE"
    using length_dehydrated_pickle [OF ok] by simp_all
  obtain c where c: "length key = 32" "length nonce = 12" "so_init S" "olm_account_dehydrate_length a \<le> length m" "a' = a"
    "n = length ?p + 16" "so_aead_encrypt S ?p nonce key = Some c" "m' = write_at m 0 (out_bytes n c)"
    using dehydrate_Some [OF assms(4)] p(1) by (metis order.refl take_all)
  have n: "n = olm_account_dehydrate_length a" using c(6) p(1) by (simp add: olm_account_dehydrate_length_def)
  obtain f where f: "so_aead_decrypt S (out_bytes n c) nonce key = Some f" "out_bytes (length ?p) f = ?p"
    using assms(1) c(7) unfolding aead_opens_def c(6) by blast
  have t: "take n m' = out_bytes n c" using c(8) by (simp add: write_at_def)
  have "olm_account_rehydrate S b key nonce (take n m') = dehydrated_unpickle S (olm_account_init b) ?p"
    unfolding t by (rule rehydrate_opened [OF c(1-3) _ p(2) f]) (simp add: c(6))
  moreover have "account_sized (olm_account_init b)"
    using assms(3) by (simp add: olm_account_init_def account_sized_def slots_ok_init)
  ultimately show ?thesis
    using unpickle_dehydrated [OF ok private_reachable [OF assms(2)], of "olm_account_init b"] c(5) n
      length_elems [OF account_list(1) [OF ok]]
    by (auto simp: olm_account_init_def list_all_iff)
qed

text \<open>C34: An account that was restored from a pickle is refused by \<open>_olm_account_dehydrate\<close> only when
  the memory it was unpickled into did not know a seed. \<open>_olm_unpickle_account\<close> keeps the seed
  and the flag of what was there before: unpickled into an account in use, the restored
  account passes the test, and what is sealed has the seed of the other account.\<close>

theorem unpickled_account_keeps_seed:
  assumes "account_ok v" "account_sized old" "olm_unpickle_account (olm_pickle_account v) old = (new, Some [])"
    and "length key = DEHYDRATED_DEVICE_KEY_LENGTH" "length nonce = DEHYDRATED_DEVICE_NONCE_LENGTH"
    and "olm_account_dehydrate_length new \<le> length m" "so_init S" "so_aead_encrypt S (dehydrated_pickle new) nonce key \<noteq> None"
  shows "(olm_account_dehydrate S new key nonce m = (new\<lparr>ac_last_error := OLM_UNSEEDED_ACCOUNT\<rparr>, m, None)
            \<longleftrightarrow> \<not> ac_ed25519_seed_known old)
    \<and> read_at (dehydrated_pickle new) 36 32 = ac_ed25519_seed old"
proof -
  obtain new' where n': "olm_unpickle_account (olm_pickle_account v) old = (new', Some [])" "account_restored v old new'"
    using account_object.unpickle_raw [OF assms(1,2)] by blast
  then have r: "account_restored v old new" using assms(3) by simp
  then have ok: "account_ok new" by (simp add: account_restored_def)
  have "length (dehydrated_pickle new) = dehydrated_pickle_length new" using length_dehydrated_pickle [OF ok] by simp
  moreover have "read_at (dehydrated_pickle new) 36 32 = ac_ed25519_seed new"
    using ok by (simp add: dehydrated_pickle_def read_at_def account_ok_def account_sized_def identity_keys_ok_def
        curve25519_key_pair_ok_def)
  ultimately show ?thesis
    using r assms(4-8) by (auto simp: olm_account_dehydrate_def account_restored_def Let_def)
qed

section \<open>Witnesses\<close>

lemma sample_aead_opens: "aead_opens sample_sodium"
  unfolding aead_opens_def
  by (auto simp: sample_sodium_def intro!: nth_equalityI)

lemma sample_dehydrate_length: "olm_account_dehydrate_length sample_account = 89"
  using sample_account_empty length_elems [OF account_list(1) [OF sample_account_ok(1)]]
  by (simp add: olm_account_dehydrate_length_def dehydrated_pickle_length_def)
    (simp add: sample_account_def olm_account_new_account_def olm_account_new_account_random_length_def olm_account_init_def Let_def)

lemma sample_seed_known: "ac_ed25519_seed_known sample_account"
  using private_reachable [OF sample_account_reachable] by (simp add: keys_from_private_def)

theorem dehydrated_device_restored_witness:
  "\<exists>m' n b'. olm_account_dehydrate sample_sodium sample_account (zeros 32) (zeros 12) (zeros 89) = (sample_account, m', Some n)
     \<and> n = olm_account_dehydrate_length sample_account
     \<and> olm_account_rehydrate sample_sodium blank_account (zeros 32) (zeros 12) (take n m') = (b', Some 0)
     \<and> device_keys b' = device_keys sample_account"
proof -
  have "so_init sample_sodium" by (simp add: sample_sodium_def)
  moreover have "\<exists>c. so_aead_encrypt sample_sodium p (zeros 12) (zeros 32) = Some c" for p by (simp add: sample_sodium_def)
  ultimately obtain m' n where e: "olm_account_dehydrate sample_sodium sample_account (zeros 32) (zeros 12) (zeros 89) =
      (sample_account, m', Some n)"
    using sample_dehydrate_length sample_seed_known
    by (fastforce simp: olm_account_dehydrate_def Let_def split: option.splits)
  from dehydrated_device_restored [OF sample_aead_opens sample_account_reachable blank_account_sized e] e
  show ?thesis by blast
qed

theorem unpickled_account_keeps_seed_witness:
  "\<exists>new. olm_unpickle_account (olm_pickle_account sample_account) stocked_account = (new, Some [])
     \<and> olm_account_dehydrate sample_sodium new (zeros 32) (zeros 12) (zeros 4000) \<noteq>
         (new\<lparr>ac_last_error := OLM_UNSEEDED_ACCOUNT\<rparr>, zeros 4000, None)
     \<and> read_at (dehydrated_pickle new) 36 32 = ac_ed25519_seed stocked_account"
proof -
  have old: "account_sized stocked_account" using stocked_keys(1) by (simp add: account_ok_def)
  obtain new where n: "olm_unpickle_account (olm_pickle_account sample_account) stocked_account = (new, Some [])"
    "account_restored sample_account stocked_account new"
    using account_object.unpickle_raw [OF sample_account_ok(1) old] by blast
  then have "olm_account_dehydrate_length new \<le> length (zeros 4000)"
    using length_dehydrated_pickle(2) [of new] by (simp add: account_restored_def olm_account_dehydrate_length_def)
  from unpickled_account_keeps_seed [OF sample_account_ok(1) old n(1) _ _ this, of "zeros 32" "zeros 12" sample_sodium]
  show ?thesis
    using n(1) sample_seed_known by (simp add: stocked_account_def add_keys_other) (simp add: sample_sodium_def)
qed

end
