(* ===== verification/Utility.thy ===== *)
theory Utility
  imports Crypto
begin

text \<open>
  \<open>src/utility.c\<close>: hashing and signature checks with an error code to report in. The object is
  nothing but its \<open>last_error\<close>.
\<close>

record utility =
  ut_last_error :: olm_error_code

definition olm_utility_init :: "utility \<Rightarrow> utility" where
  "olm_utility_init u = u\<lparr>ut_last_error := OLM_SUCCESS\<rparr>"

definition olm_utility_sha256_length :: nat where
  "olm_utility_sha256_length = SHA256_OUTPUT_LENGTH"

definition olm_utility_sha256 :: "sodium \<Rightarrow> utility \<Rightarrow> bytes \<Rightarrow> bytes \<Rightarrow> utility \<times> bytes \<times> nat option" where
  "olm_utility_sha256 S u input output =
     (if length output < olm_utility_sha256_length then (u\<lparr>ut_last_error := OLM_OUTPUT_BUFFER_TOO_SMALL\<rparr>, output, None)
      else (u, write_at output 0 (olm_crypto_sha256 S input), Some SHA256_OUTPUT_LENGTH))"

definition olm_utility_ed25519_verify ::
    "sodium \<Rightarrow> utility \<Rightarrow> ed25519_public_key \<Rightarrow> bytes \<Rightarrow> bytes \<Rightarrow> utility \<times> nat option" where
  "olm_utility_ed25519_verify S u key message signature =
     (if length signature < ED25519_SIGNATURE_LENGTH then (u\<lparr>ut_last_error := OLM_BAD_MESSAGE_MAC\<rparr>, None)
      else if \<not> olm_crypto_ed25519_verify S key message (take ED25519_SIGNATURE_LENGTH signature) then
        (u\<lparr>ut_last_error := OLM_BAD_MESSAGE_MAC\<rparr>, None)
      else (u, Some 0))"

end
