(* ===== verification/Olm_Api.thy ===== *)
theory Olm_Api
  imports Session_Setup Dehydrated Utility Pk_Messages
begin

text \<open>
  \<open>src/olm.c\<close>: the public functions on accounts, sessions and the utility object. They decode what
  comes in from base64, encode what goes out, check the lengths of the buffers and clear the
  random bytes. Where the name of a public function is that of the internal one without its
  underscore, the model of the public one has the prefix \<open>api_\<close>. Buffers the caller hands in
  are arguments, and what becomes of them is part of the result.
\<close>

definition olm_error :: nat where
  "olm_error = SIZE_MAX"

section \<open>Errors\<close>

definition olm_account_last_error :: "account \<Rightarrow> string" where
  "olm_account_last_error a = olm_error_to_string (error_value (ac_last_error a))"

definition olm_account_last_error_code :: "account \<Rightarrow> olm_error_code" where
  "olm_account_last_error_code a = ac_last_error a"

definition olm_session_last_error :: "session \<Rightarrow> string" where
  "olm_session_last_error s = olm_error_to_string (error_value (se_last_error s))"

definition olm_session_last_error_code :: "session \<Rightarrow> olm_error_code" where
  "olm_session_last_error_code s = se_last_error s"

definition olm_utility_last_error :: "utility \<Rightarrow> string" where
  "olm_utility_last_error u = olm_error_to_string (error_value (ut_last_error u))"

definition olm_utility_last_error_code :: "utility \<Rightarrow> olm_error_code" where
  "olm_utility_last_error_code u = ut_last_error u"

section \<open>Creating and clearing objects\<close>

text \<open>The objects whose memory is all zero bytes, before they are initialised.\<close>

definition zero_account :: account where
  "zero_account =
     \<lparr>ac_last_error = OLM_SUCCESS,
      ac_identity_keys = \<lparr>ik_ed25519_key = \<lparr>ekp_public_key = zeros 32, ekp_private_key = zeros 64\<rparr>,
                         ik_curve25519_key = \<lparr>ckp_public_key = zeros 32, ckp_private_key = zeros 32\<rparr>\<rparr>,
      ac_one_time_keys = \<lparr>ol_length = 0, ol_data = replicate MAX_ONE_TIME_KEYS unset_one_time_key\<rparr>,
      ac_current_fallback_key = unset_one_time_key, ac_prev_fallback_key = unset_one_time_key,
      ac_num_fallback_keys = 0, ac_next_one_time_key_id = 0,
      ac_ed25519_seed = zeros 32, ac_ed25519_seed_known = False\<rparr>"

definition zero_session :: session where
  "zero_session =
     \<lparr>se_last_error = OLM_SUCCESS,
      se_ratchet =
        \<lparr>rt_kdf_info = \<lparr>ki_root_info = [], ki_ratchet_info = []\<rparr>, rt_ratchet_cipher = [], rt_last_error = OLM_SUCCESS,
         rt_root_key = zeros 32,
         rt_sender_chain = \<lparr>ol_length = 0, ol_data = [unset_sender_chain]\<rparr>,
         rt_receiver_chains = \<lparr>ol_length = 0, ol_data = replicate OLM_MAX_RECEIVER_CHAINS
           \<lparr>rc_ratchet_key = zeros 32, rc_chain_key = \<lparr>ck_index = 0, ck_key = zeros 32\<rparr>\<rparr>\<rparr>,
         rt_skipped_message_keys = \<lparr>ol_length = 0, ol_data = replicate OLM_MAX_SKIPPED_MESSAGE_KEYS unset_message_key\<rparr>\<rparr>,
      se_alice_identity_key = zeros 32, se_alice_base_key = zeros 32, se_bob_one_time_key = zeros 32,
      se_received_message = False\<rparr>"

definition olm_account :: account where
  "olm_account = olm_account_init zero_account"

definition olm_session :: session where
  "olm_session = olm_session_init zero_session"

definition olm_utility :: utility where
  "olm_utility = olm_utility_init \<lparr>ut_last_error = OLM_SUCCESS\<rparr>"

definition olm_clear_account :: account where
  "olm_clear_account = olm_account_init zero_account"

definition olm_clear_session :: session where
  "olm_clear_session = olm_session_init zero_session"

definition olm_clear_utility :: utility where
  "olm_clear_utility = olm_utility_init \<lparr>ut_last_error = OLM_SUCCESS\<rparr>"

section \<open>Pickling\<close>

definition api_olm_pickle_account_length :: "account \<Rightarrow> nat" where
  "api_olm_pickle_account_length a = olm_enc_output_length (olm_pickle_account_length a)"

definition api_olm_pickle_session_length :: "session \<Rightarrow> nat" where
  "api_olm_pickle_session_length s = olm_enc_output_length (olm_pickle_session_length s)"

definition api_olm_pickle_account :: "sodium \<Rightarrow> account \<Rightarrow> bytes \<Rightarrow> bytes \<Rightarrow> account \<times> bytes \<times> nat option" where
  "api_olm_pickle_account S a key pickled =
     (case api_pickle_object S (olm_pickle_account a) (olm_pickle_account_length a) key pickled of
        (pickled, None) \<Rightarrow> (a\<lparr>ac_last_error := OLM_OUTPUT_BUFFER_TOO_SMALL\<rparr>, pickled, None)
      | (pickled, Some n) \<Rightarrow> (a, pickled, Some n))"

definition api_olm_pickle_session :: "sodium \<Rightarrow> session \<Rightarrow> bytes \<Rightarrow> bytes \<Rightarrow> session \<times> bytes \<times> nat option" where
  "api_olm_pickle_session S s key pickled =
     (case api_pickle_object S (olm_pickle_session s) (olm_pickle_session_length s) key pickled of
        (pickled, None) \<Rightarrow> (s\<lparr>se_last_error := OLM_OUTPUT_BUFFER_TOO_SMALL\<rparr>, pickled, None)
      | (pickled, Some n) \<Rightarrow> (s, pickled, Some n))"

definition api_olm_unpickle_account :: "sodium \<Rightarrow> account \<Rightarrow> bytes \<Rightarrow> bytes \<Rightarrow> account \<times> bytes \<times> nat option" where
  "api_olm_unpickle_account S =
     api_unpickle_object S olm_unpickle_account ac_last_error (\<lambda>e a. a\<lparr>ac_last_error := e\<rparr>)"

definition api_olm_unpickle_session :: "sodium \<Rightarrow> session \<Rightarrow> bytes \<Rightarrow> bytes \<Rightarrow> session \<times> bytes \<times> nat option" where
  "api_olm_unpickle_session S =
     api_unpickle_object S olm_unpickle_session se_last_error (\<lambda>e s. s\<lparr>se_last_error := e\<rparr>)"

section \<open>Accounts\<close>

definition olm_create_account_random_length :: "account \<Rightarrow> nat" where
  "olm_create_account_random_length a = olm_account_new_account_random_length"

definition olm_create_account :: "sodium \<Rightarrow> account \<Rightarrow> bytes \<Rightarrow> account \<times> bytes \<times> nat option" where
  "olm_create_account S a random =
     (let (a, result) = olm_account_new_account S a random
      in (a, olm_unset random 0 (length random), result))"

definition olm_account_identity_keys_length :: "account \<Rightarrow> nat" where
  "olm_account_identity_keys_length a = olm_account_get_identity_json_length a"

definition olm_account_identity_keys :: "account \<Rightarrow> bytes \<Rightarrow> account \<times> bytes \<times> nat option" where
  "olm_account_identity_keys a identity_keys = olm_account_get_identity_json a identity_keys"

definition api_olm_account_signature_length :: "account \<Rightarrow> nat" where
  "api_olm_account_signature_length a = b64_output_length olm_account_signature_length"

definition api_olm_account_sign :: "sodium \<Rightarrow> account \<Rightarrow> bytes \<Rightarrow> bytes \<Rightarrow> account \<times> bytes \<times> nat option" where
  "api_olm_account_sign S a message signature =
     (let raw_len = olm_account_signature_length in
      if length signature < b64_output_length raw_len then
        (a\<lparr>ac_last_error := OLM_OUTPUT_BUFFER_TOO_SMALL\<rparr>, signature, None)
      else
        let pos = b64_output_pos raw_len;
            (a, region, _) = olm_account_sign S a message (read_at signature pos raw_len);
            (signature, n) = b64_output (write_at signature pos region) raw_len
        in (a, signature, Some n))"

definition olm_account_one_time_keys_length :: "account \<Rightarrow> nat" where
  "olm_account_one_time_keys_length a = olm_account_get_one_time_keys_json_length a"

definition olm_account_one_time_keys :: "account \<Rightarrow> bytes \<Rightarrow> account \<times> bytes \<times> nat option" where
  "olm_account_one_time_keys a one_time_keys_json = olm_account_get_one_time_keys_json a one_time_keys_json"

definition api_olm_account_mark_keys_as_published :: "account \<Rightarrow> account \<times> nat" where
  "api_olm_account_mark_keys_as_published a = olm_account_mark_keys_as_published a"

definition api_olm_account_max_number_of_one_time_keys :: "account \<Rightarrow> nat" where
  "api_olm_account_max_number_of_one_time_keys a = olm_account_max_number_of_one_time_keys"

definition api_olm_account_generate_one_time_keys_random_length :: "account \<Rightarrow> nat \<Rightarrow> nat" where
  "api_olm_account_generate_one_time_keys_random_length a number_of_keys =
     olm_account_generate_one_time_keys_random_length number_of_keys"

text \<open>\<open>None\<close>: a read past the random bytes.\<close>

definition api_olm_account_generate_one_time_keys ::
    "sodium \<Rightarrow> account \<Rightarrow> nat \<Rightarrow> bytes \<Rightarrow> (account \<times> bytes \<times> nat option) option" where
  "api_olm_account_generate_one_time_keys S a number_of_keys random =
     (case olm_account_generate_one_time_keys S a number_of_keys random of
        None \<Rightarrow> None
      | Some (a, result) \<Rightarrow> Some (a, olm_unset random 0 (length random), result))"

definition api_olm_account_generate_fallback_key_random_length :: "account \<Rightarrow> nat" where
  "api_olm_account_generate_fallback_key_random_length a = olm_account_generate_fallback_key_random_length"

definition api_olm_account_generate_fallback_key ::
    "sodium \<Rightarrow> account \<Rightarrow> bytes \<Rightarrow> account \<times> bytes \<times> nat option" where
  "api_olm_account_generate_fallback_key S a random =
     (let (a, result) = olm_account_generate_fallback_key S a random
      in (a, olm_unset random 0 (length random), result))"

definition olm_account_fallback_key_length :: "account \<Rightarrow> nat" where
  "olm_account_fallback_key_length a = olm_account_get_fallback_key_json_length a"

definition olm_account_fallback_key :: "account \<Rightarrow> bytes \<Rightarrow> account \<times> bytes \<times> nat option" where
  "olm_account_fallback_key a fallback_key_json = olm_account_get_fallback_key_json a fallback_key_json"

definition olm_account_unpublished_fallback_key_length :: "account \<Rightarrow> nat" where
  "olm_account_unpublished_fallback_key_length a = olm_account_get_unpublished_fallback_key_json_length a"

definition olm_account_unpublished_fallback_key :: "account \<Rightarrow> bytes \<Rightarrow> account \<times> bytes \<times> nat option" where
  "olm_account_unpublished_fallback_key a fallback_key_json =
     olm_account_get_unpublished_fallback_key_json a fallback_key_json"

definition api_olm_account_forget_old_fallback_key :: "account \<Rightarrow> account" where
  "api_olm_account_forget_old_fallback_key a = olm_account_forget_old_fallback_key a"

subsection \<open>Dehydrated devices\<close>

definition olm_account_dehydrate_random_length :: "account \<Rightarrow> nat" where
  "olm_account_dehydrate_random_length a = DEHYDRATED_DEVICE_NONCE_LENGTH"

definition olm_dehydrated_device_nonce_length :: nat where
  "olm_dehydrated_device_nonce_length = olm_encode_base64_length DEHYDRATED_DEVICE_NONCE_LENGTH"

definition api_olm_account_dehydrate_length :: "account \<Rightarrow> nat" where
  "api_olm_account_dehydrate_length a = olm_encode_base64_length (olm_account_dehydrate_length a)"

text \<open>The account, the buffers \<open>random\<close>, \<open>nonce\<close> and \<open>dehydrated_device\<close>, and the result.\<close>

definition api_olm_account_dehydrate ::
    "sodium \<Rightarrow> account \<Rightarrow> bytes \<Rightarrow> bytes \<Rightarrow> bytes \<Rightarrow> bytes \<Rightarrow> account \<times> bytes \<times> bytes \<times> bytes \<times> nat option" where
  "api_olm_account_dehydrate S a key random nonce dehydrated_device =
     (let raw_len = olm_account_dehydrate_length a;
          base64_length = olm_encode_base64_length raw_len;
          nonce_base64_length = olm_dehydrated_device_nonce_length
      in if length random < DEHYDRATED_DEVICE_NONCE_LENGTH then
           (a\<lparr>ac_last_error := OLM_NOT_ENOUGH_RANDOM\<rparr>, random, nonce, dehydrated_device, None)
         else if length dehydrated_device < base64_length \<or> length nonce < nonce_base64_length then
           (a\<lparr>ac_last_error := OLM_OUTPUT_BUFFER_TOO_SMALL\<rparr>, random, nonce, dehydrated_device, None)
         else
           let raw = size_sub base64_length raw_len;
               (a, region, result) = olm_account_dehydrate S a key (take DEHYDRATED_DEVICE_NONCE_LENGTH random)
                                       (read_at dehydrated_device raw raw_len);
               dehydrated_device = write_at dehydrated_device raw region
           in case result of
                None \<Rightarrow> (a, olm_unset random 0 (length random), nonce, dehydrated_device, None)
              | Some _ \<Rightarrow>
                  let (dehydrated_device, _) = olm_encode_base64 dehydrated_device raw raw_len 0;
                      raw = nonce_base64_length - DEHYDRATED_DEVICE_NONCE_LENGTH;
                      nonce = write_at nonce raw (take DEHYDRATED_DEVICE_NONCE_LENGTH random);
                      (nonce, _) = olm_encode_base64 nonce raw DEHYDRATED_DEVICE_NONCE_LENGTH 0
                  in (a, olm_unset random 0 (length random), nonce, dehydrated_device, Some base64_length))"

definition api_olm_account_rehydrate ::
    "sodium \<Rightarrow> account \<Rightarrow> bytes \<Rightarrow> bytes \<Rightarrow> bytes \<Rightarrow> account \<times> bytes \<times> nat option" where
  "api_olm_account_rehydrate S a key nonce dehydrated_device =
     (let raw_nonce_length = olm_decode_base64_length (length nonce);
          raw_len = olm_decode_base64_length (length dehydrated_device)
      in if raw_len = SIZE_MAX \<or> raw_nonce_length \<noteq> DEHYDRATED_DEVICE_NONCE_LENGTH then
           (a\<lparr>ac_last_error := OLM_INVALID_BASE64\<rparr>, dehydrated_device, None)
         else
           let (raw_nonce, _) = decode_base64_to nonce (zeros DEHYDRATED_DEVICE_NONCE_LENGTH);
               (dehydrated_device, _) = olm_decode_base64 dehydrated_device 0 (length dehydrated_device) 0;
               (a, result) = olm_account_rehydrate S a key raw_nonce (take raw_len dehydrated_device)
           in (a, dehydrated_device, result))"

section \<open>Sessions\<close>

definition olm_create_outbound_session_random_length :: "session \<Rightarrow> nat" where
  "olm_create_outbound_session_random_length s = olm_session_new_outbound_session_random_length"

definition olm_create_outbound_session ::
    "sodium \<Rightarrow> session \<Rightarrow> account \<Rightarrow> bytes \<Rightarrow> bytes \<Rightarrow> bytes \<Rightarrow> session \<times> bytes \<times> nat option" where
  "olm_create_outbound_session S s a their_identity_key their_one_time_key random =
     (if olm_decode_base64_length (length their_identity_key) \<noteq> CURVE25519_KEY_LENGTH
          \<or> olm_decode_base64_length (length their_one_time_key) \<noteq> CURVE25519_KEY_LENGTH then
        (s\<lparr>se_last_error := OLM_INVALID_BASE64\<rparr>, random, None)
      else
        let (identity_key, _) = decode_base64_to their_identity_key (zeros CURVE25519_KEY_LENGTH);
            (one_time_key, _) = decode_base64_to their_one_time_key (zeros CURVE25519_KEY_LENGTH);
            (s, result) = olm_session_new_outbound_session S s a identity_key one_time_key random
        in (s, olm_unset random 0 (length random), result))"

text \<open>The session, the message buffer and the result; \<open>None\<close> is the read through the null pointer.\<close>

definition olm_create_inbound_session ::
    "sodium \<Rightarrow> session \<Rightarrow> account \<Rightarrow> bytes \<Rightarrow> (session \<times> bytes \<times> nat option) option" where
  "olm_create_inbound_session S s a message =
     (case b64_input message (length message) of
        (message, None) \<Rightarrow> Some (s\<lparr>se_last_error := OLM_INVALID_BASE64\<rparr>, message, None)
      | (message, Some raw_len) \<Rightarrow>
          (case olm_session_new_inbound_session S s a None (take raw_len message) of
             None \<Rightarrow> None
           | Some (s, result) \<Rightarrow> Some (s, message, result)))"

definition olm_create_inbound_session_from ::
    "sodium \<Rightarrow> session \<Rightarrow> account \<Rightarrow> bytes \<Rightarrow> bytes \<Rightarrow> (session \<times> bytes \<times> nat option) option" where
  "olm_create_inbound_session_from S s a their_identity_key message =
     (if olm_decode_base64_length (length their_identity_key) \<noteq> CURVE25519_KEY_LENGTH then
        Some (s\<lparr>se_last_error := OLM_INVALID_BASE64\<rparr>, message, None)
      else
        let (identity_key, _) = decode_base64_to their_identity_key (zeros CURVE25519_KEY_LENGTH)
        in case b64_input message (length message) of
             (message, None) \<Rightarrow> Some (s\<lparr>se_last_error := OLM_INVALID_BASE64\<rparr>, message, None)
           | (message, Some raw_len) \<Rightarrow>
               (case olm_session_new_inbound_session S s a (Some identity_key) (take raw_len message) of
                  None \<Rightarrow> None
                | Some (s, result) \<Rightarrow> Some (s, message, result)))"

definition olm_session_id_length :: "session \<Rightarrow> nat" where
  "olm_session_id_length s = b64_output_length olm_session_session_id_length"

definition olm_session_id :: "sodium \<Rightarrow> session \<Rightarrow> bytes \<Rightarrow> session \<times> bytes \<times> nat option" where
  "olm_session_id S s ident =
     (let raw_len = olm_session_session_id_length in
      if length ident < b64_output_length raw_len then
        (s\<lparr>se_last_error := OLM_OUTPUT_BUFFER_TOO_SMALL\<rparr>, ident, None)
      else
        let pos = b64_output_pos raw_len;
            (s, region, result) = olm_session_session_id S s (read_at ident pos raw_len);
            ident = write_at ident pos region
        in case result of
             None \<Rightarrow> (s, ident, None)
           | Some _ \<Rightarrow> let (ident, n) = b64_output ident raw_len in (s, ident, Some n))"

definition olm_session_has_received_message :: "session \<Rightarrow> bool" where
  "olm_session_has_received_message s = se_received_message s"

definition api_olm_session_describe :: "session \<Rightarrow> string \<Rightarrow> string option" where
  "api_olm_session_describe s buf = olm_session_describe s buf"

definition olm_matches_inbound_session :: "session \<Rightarrow> bytes \<Rightarrow> session \<times> bytes \<times> nat option" where
  "olm_matches_inbound_session s message =
     (case b64_input message (length message) of
        (message, None) \<Rightarrow> (s\<lparr>se_last_error := OLM_INVALID_BASE64\<rparr>, message, None)
      | (message, Some raw_len) \<Rightarrow>
          let matches = olm_session_matches_inbound_session s None (take raw_len message)
          in (s, message, Some (if matches then 1 else 0)))"

definition olm_matches_inbound_session_from ::
    "session \<Rightarrow> bytes \<Rightarrow> bytes \<Rightarrow> session \<times> bytes \<times> nat option" where
  "olm_matches_inbound_session_from s their_identity_key message =
     (if olm_decode_base64_length (length their_identity_key) \<noteq> CURVE25519_KEY_LENGTH then
        (s\<lparr>se_last_error := OLM_INVALID_BASE64\<rparr>, message, None)
      else
        let (identity_key, _) = decode_base64_to their_identity_key (zeros CURVE25519_KEY_LENGTH)
        in case b64_input message (length message) of
             (message, None) \<Rightarrow> (s\<lparr>se_last_error := OLM_INVALID_BASE64\<rparr>, message, None)
           | (message, Some raw_len) \<Rightarrow>
               let matches = olm_session_matches_inbound_session s (Some identity_key) (take raw_len message)
               in (s, message, Some (if matches then 1 else 0)))"

definition olm_remove_one_time_keys :: "account \<Rightarrow> session \<Rightarrow> account \<times> nat option" where
  "olm_remove_one_time_keys a s =
     (case olm_account_remove_key a (se_bob_one_time_key s) of
        (a, None) \<Rightarrow> (a\<lparr>ac_last_error := OLM_BAD_MESSAGE_KEY_ID\<rparr>, None)
      | (a, Some n) \<Rightarrow> (a, Some n))"

section \<open>Messages\<close>

text \<open>The enumeration \<open>MessageType\<close> as a number, and the cast back to it.\<close>

fun message_type_value :: "message_type \<Rightarrow> nat" where
  "message_type_value MESSAGE_TYPE_PRE_KEY = 0"
| "message_type_value MESSAGE_TYPE_MESSAGE = 1"

definition to_message_type :: "nat \<Rightarrow> message_type" where
  "to_message_type n = (if n mod 2 ^ 32 = 1 then MESSAGE_TYPE_MESSAGE else MESSAGE_TYPE_PRE_KEY)"

definition olm_encrypt_message_type :: "session \<Rightarrow> nat" where
  "olm_encrypt_message_type s = message_type_value (olm_session_encrypt_message_type s)"

definition olm_encrypt_random_length :: "session \<Rightarrow> nat" where
  "olm_encrypt_random_length s = olm_session_encrypt_random_length s"

definition olm_encrypt_message_length :: "session \<Rightarrow> nat \<Rightarrow> nat" where
  "olm_encrypt_message_length s plaintext_length =
     b64_output_length (olm_session_encrypt_message_length s plaintext_length)"

text \<open>The session, the buffers \<open>random\<close> and \<open>message\<close>, and the result.\<close>

definition olm_encrypt ::
    "sodium \<Rightarrow> session \<Rightarrow> bytes \<Rightarrow> bytes \<Rightarrow> bytes \<Rightarrow> session \<times> bytes \<times> bytes \<times> nat option" where
  "olm_encrypt S s plaintext random message =
     (let raw_len = olm_session_encrypt_message_length s (length plaintext) in
      if length message < b64_output_length raw_len then
        (s\<lparr>se_last_error := OLM_OUTPUT_BUFFER_TOO_SMALL\<rparr>, random, message, None)
      else
        let pos = b64_output_pos raw_len;
            (s, region, result) = olm_session_encrypt S s plaintext random (read_at message pos raw_len);
            message = write_at message pos region;
            random = olm_unset random 0 (length random)
        in case result of
             None \<Rightarrow> (s, random, message, None)
           | Some _ \<Rightarrow> let (message, n) = b64_output message raw_len in (s, random, message, Some n))"

definition olm_decrypt_max_plaintext_length ::
    "session \<Rightarrow> nat \<Rightarrow> bytes \<Rightarrow> session \<times> bytes \<times> nat option" where
  "olm_decrypt_max_plaintext_length s message_type message =
     (case b64_input message (length message) of
        (message, None) \<Rightarrow> (s\<lparr>se_last_error := OLM_INVALID_BASE64\<rparr>, message, None)
      | (message, Some raw_len) \<Rightarrow>
          let (s, result) =
                olm_session_decrypt_max_plaintext_length s (to_message_type message_type) (take raw_len message)
          in (s, message, result))"

text \<open>The session, the buffers \<open>message\<close> and \<open>plaintext\<close>, and the result.\<close>

definition olm_decrypt ::
    "sodium \<Rightarrow> session \<Rightarrow> nat \<Rightarrow> bytes \<Rightarrow> bytes \<Rightarrow> session \<times> bytes \<times> bytes \<times> nat option" where
  "olm_decrypt S s message_type message plaintext =
     (case b64_input message (length message) of
        (message, None) \<Rightarrow> (s\<lparr>se_last_error := OLM_INVALID_BASE64\<rparr>, message, plaintext, None)
      | (message, Some raw_len) \<Rightarrow>
          let (s, plaintext, result) =
                olm_session_decrypt S s (to_message_type message_type) (take raw_len message) plaintext
          in (s, message, plaintext, result))"

section \<open>The utility object\<close>

definition olm_sha256_length :: nat where
  "olm_sha256_length = b64_output_length olm_utility_sha256_length"

definition olm_sha256 :: "sodium \<Rightarrow> utility \<Rightarrow> bytes \<Rightarrow> bytes \<Rightarrow> utility \<times> bytes \<times> nat option" where
  "olm_sha256 S u input output =
     (let raw_len = olm_utility_sha256_length in
      if length output < b64_output_length raw_len then
        (u\<lparr>ut_last_error := OLM_OUTPUT_BUFFER_TOO_SMALL\<rparr>, output, None)
      else
        let pos = b64_output_pos raw_len;
            (u, region, result) = olm_utility_sha256 S u input (read_at output pos raw_len);
            output = write_at output pos region
        in case result of
             None \<Rightarrow> (u, output, None)
           | Some _ \<Rightarrow> let (output, n) = b64_output output raw_len in (u, output, Some n))"

definition olm_ed25519_verify ::
    "sodium \<Rightarrow> utility \<Rightarrow> bytes \<Rightarrow> bytes \<Rightarrow> bytes \<Rightarrow> utility \<times> bytes \<times> nat option" where
  "olm_ed25519_verify S u key message signature =
     (if olm_decode_base64_length (length key) \<noteq> CURVE25519_KEY_LENGTH then
        (u\<lparr>ut_last_error := OLM_INVALID_BASE64\<rparr>, signature, None)
      else
        let (verify_key, _) = decode_base64_to key (zeros ED25519_PUBLIC_KEY_LENGTH)
        in case b64_input signature (length signature) of
             (signature, None) \<Rightarrow> (u\<lparr>ut_last_error := OLM_INVALID_BASE64\<rparr>, signature, None)
           | (signature, Some raw_len) \<Rightarrow>
               let (u, result) = olm_utility_ed25519_verify S u verify_key message (take raw_len signature)
               in (u, signature, result))"

end
