(* ===== verification/Api_Properties.thy ===== *)
theory Api_Properties
  imports Olm_Api
begin

text \<open>
  The public functions together: what passes between two users of the library as base64 text.
  The lemmas say what each call of \<open>Olm_Api\<close> does to the bytes; the properties compose them with
  the facts of the components.
\<close>

section \<open>Fresh objects\<close>

lemma zero_account_sized: "account_sized zero_account"
  by (simp add: zero_account_def account_sized_def identity_keys_ok_def ed25519_key_pair_ok_def curve25519_key_pair_ok_def
      slots_ok_def unset_one_time_key_def one_time_key_ok_def list_ok_def)

lemma fresh_account_sized: "account_sized olm_account"
  using zero_account_sized by (simp add: olm_account_def olm_account_init_def account_sized_def slots_ok_init)

lemma zero_session_ok: "session_ok zero_session"
  by (simp add: zero_session_def session_ok_def ratchet_ok_def slots_ok_def list_ok_def unset_ok receiver_chain_ok_def
      chain_key_ok_def)

lemma fresh_session_ok: "session_ok olm_session"
  using session_init_ok [OF zero_session_ok] by (simp add: olm_session_def)

section \<open>Keys as base64\<close>

lemma decode_key:
  assumes "length k = 32"
  shows "olm_decode_base64_length (length (b64_encode k)) = 32" "decode_base64_to (b64_encode k) (zeros 32) = (k, 32)"
proof -
  show "olm_decode_base64_length (length (b64_encode k)) = 32" using b64_lengths(5) [of 32] assms by simp
  show "decode_base64_to (b64_encode k) (zeros 32) = (k, 32)"
    using decode_base64_to_encoded [of k "zeros 32"] assms by (simp add: write_at_def)
qed

lemma input_encoded:
  assumes "length raw < 2 ^ 60"
  shows "\<exists>b. b64_input (b64_encode raw) (length (b64_encode raw)) = (b, Some (length raw)) \<and> take (length raw) b = raw"
  using b64_input_encoded [of raw "length (b64_encode raw)" "b64_encode raw"] assms by (simp add: write_at_def)

lemma create_outbound_eq:
  assumes "length ident = 32" "length otk = 32"
    and "olm_create_outbound_session S s A (b64_encode ident) (b64_encode otk) random = (s1, random', r)"
  shows "olm_session_new_outbound_session S s A ident otk random = (s1, r)" "random' = olm_unset random 0 (length random)"
  using assms decode_key [OF assms(1)] decode_key [OF assms(2)]
  by (auto simp: olm_create_outbound_session_def split: prod.splits)

section \<open>Messages as base64\<close>

lemma api_encrypt_Some:
  assumes s: "session_ok s" and p: "length p < 2 ^ 60" and m: "length m < 2 ^ 64"
    and e: "olm_encrypt S s p random m = (s', random', m', Some n)"
  shows "olm_ratchet_encrypt_random_length (se_ratchet s) \<le> length random"
    "s' = s\<lparr>se_ratchet := sent S (se_ratchet s) random\<rparr>"
    "random' = olm_unset random 0 (length random)"
    "n = length (b64_encode (session_message S s random p))" "take n m' = b64_encode (session_message S s random p)"
proof -
  let ?n = "olm_session_encrypt_message_length s (length p)"
  let ?r = "read_at m (b64_output_pos ?n) ?n"
  have r: "length ?r < 2 ^ 64" using m by (simp add: read_at_def)
  obtain s1 reg res where x: "olm_session_encrypt S s p random ?r = (s1, reg, res)" by (rule prod_cases3)
  then obtain k where k: "olm_session_encrypt S s p random ?r = (s1, reg, Some k)" "s' = s1"
      "random' = olm_unset random 0 (length random)" "b64_output (write_at m (b64_output_pos ?n) reg) ?n = (m', n)"
      "b64_output_length ?n \<le> length m"
    using e by (auto simp: olm_encrypt_def Let_def split: if_splits option.splits prod.splits)
  note c = session_encrypt_Some [OF s p r k(1)]
  show rl: "olm_ratchet_encrypt_random_length (se_ratchet s) \<le> length random"
    "s' = s\<lparr>se_ratchet := sent S (se_ratchet s) random\<rparr>" "random' = olm_unset random 0 (length random)"
    using c k by simp_all
  have rl': "olm_session_encrypt_random_length s \<le> length random" using rl(1) by (simp add: olm_session_encrypt_random_length_def)
  note l = session_length_eq [OF s rl' p, of S]
  let ?msg = "session_message S s random p"
  have fit: "b64_length (length ?msg) \<le> length m" using k(5) l b64_lengths(1) [of "length ?msg"] by simp
  then have "length ?r = length ?msg"
    using l b64_length_ge [of "length ?msg"] b64_lengths(3) [of "length ?msg"] by (simp add: read_at_def)
  then have "reg = ?msg" using session_encrypt_eq [OF s rl' p, of S ?r] k(1) r by (simp add: write_at_def)
  then obtain "n = b64_length (length ?msg)" "take (b64_length (length ?msg)) m' = b64_encode ?msg"
    using b64_output_write [OF l(2) fit] k(4) l(1) by auto
  then show "n = length (b64_encode ?msg)" "take n m' = b64_encode ?msg" by simp_all
qed

lemma message_type_cast [simp]: "to_message_type (message_type_value t) = t"
  by (cases t) (simp_all add: to_message_type_def)

lemma length_session_message_small:
  assumes "session_ok s" "olm_ratchet_encrypt_random_length (se_ratchet s) \<le> length random" "length p < 2 ^ 59"
  shows "length (session_message S s random p) < 2 ^ 60"
proof -
  have "length (sent_message S (se_ratchet s) random p) \<le> length p + 85"
    using assms by (intro length_sent_message) (simp_all add: session_ok_def)
  then show ?thesis
    using length_pre_key_body_le [of "se_bob_one_time_key s" "se_alice_base_key s" "se_alice_identity_key s"
        "sent_message S (se_ratchet s) random p" PROTOCOL_VERSION] assms
    by (simp add: session_message_def session_ok_def Let_def)
qed

lemma api_decrypt_eq:
  assumes "length message < 2 ^ 60" "olm_session_decrypt S s t message buf = (s', buf', r)"
  shows "\<exists>b. olm_decrypt S s (message_type_value t) (b64_encode message) buf = (s', b, buf', r)"
  using assms input_encoded [OF assms(1)] by (auto simp: olm_decrypt_def Let_def)

lemma api_inbound_eq:
  assumes "length message < 2 ^ 60" "olm_session_new_inbound_session S s B None message = Some (s', r)"
  shows "\<exists>b. olm_create_inbound_session S s B (b64_encode message) = Some (s', b, r)"
  using assms input_encoded [OF assms(1)] by (auto simp: olm_create_inbound_session_def)

lemma api_inbound_from_eq:
  assumes "length message < 2 ^ 60" "length ident = 32"
    and "olm_session_new_inbound_session S s B (Some ident) message = Some (s', r)"
  shows "\<exists>b. olm_create_inbound_session_from S s B (b64_encode ident) (b64_encode message) = Some (s', b, r)"
  using assms input_encoded [OF assms(1)] decode_key [OF assms(2)]
  by (auto simp: olm_create_inbound_session_from_def Let_def)

lemma api_matches_eq:
  assumes "length message < 2 ^ 60" "olm_session_matches_inbound_session s None message"
  shows "\<exists>b. olm_matches_inbound_session s (b64_encode message) = (s, b, Some 1)"
  using assms input_encoded [OF assms(1)] by (auto simp: olm_matches_inbound_session_def Let_def)

text \<open>Knowing the identity key that the message carries makes no difference.\<close>

lemma inbound_known:
  assumes "olm_session_new_inbound_session S s B None message = Some (t, Some 0)"
  shows "olm_session_new_inbound_session S s B (Some (se_alice_identity_key t)) message = Some (t, Some 0)"
  using assms by (auto simp: olm_session_new_inbound_session_def Let_def check_message_fields_def
      split: if_splits option.splits)

lemma session_id_cong:
  assumes "se_alice_identity_key t = se_alice_identity_key s" "se_alice_base_key t = se_alice_base_key s"
    and "se_bob_one_time_key t = se_bob_one_time_key s"
  shows "snd (olm_session_id S t ident) = snd (olm_session_id S s ident)"
  using assms by (auto simp: olm_session_id_def olm_session_session_id_def Let_def split: prod.splits option.splits)

text \<open>A pre-key message without the field of the identity key.\<close>

definition anonymous_pre_key_body :: "u8 \<Rightarrow> bytes \<Rightarrow> bytes \<Rightarrow> bytes \<Rightarrow> bytes" where
  "anonymous_pre_key_body version one_time_key base_key message =
     version # bytes_field ONE_TIME_KEY_ID_TAG one_time_key @ bytes_field BASE_KEY_TAG base_key
       @ bytes_field MESSAGE_TAG message"

lemma decode_anonymous:
  assumes "length otk < 2 ^ 64" "length base < 2 ^ 64" "length msg < 2 ^ 64"
  shows "olm_decode_one_time_key_message (anonymous_pre_key_body v otk base msg) =
    \<lparr>pr_version = v, pr_identity_key = None, pr_base_key = Some base, pr_one_time_key = Some otk, pr_message = Some msg\<rparr>"
  using assms
  by (simp add: olm_decode_one_time_key_message_def anonymous_pre_key_body_def
      decode_pre_key_loop.simps [of _ "_ @ _"] pre_key_pass_def last_field)

lemma length_anonymous_le:
  assumes "length otk = 32" "length base = 32" "length msg < 2 ^ 59"
  shows "length (anonymous_pre_key_body v otk base msg) < 2 ^ 60"
  using assms length_varint_64 [of 32] length_varint_64 [of "length msg"]
  by (simp add: anonymous_pre_key_body_def length_field)

lemma length_any_pre_key_less:
  assumes "length otk = 32" "length base = 32" "length ident < 2 ^ 58" "length msg < 2 ^ 58"
  shows "length (pre_key_body v otk base ident msg) < 2 ^ 60"
  using assms length_varint_64 [of 32] length_varint_64 [of "length msg"] length_varint_64 [of "length ident"]
  by (simp add: pre_key_body_def length_field)

section \<open>Properties\<close>

text \<open>C3: The handshake over the public functions. Alice starts a session from Bob's identity key and
  one of his one-time keys, both given in base64; the base64 text that \<open>olm_encrypt\<close> returns for
  her first message lets Bob start his session from fresh memory, with her identity key or
  without. Both sides report the same session id, the message is recognised, decrypts to what
  Alice wrote, and the sessions are in step.\<close>

theorem api_session_established:
  assumes "dh_agrees S" "account_reachable S A" "account_reachable S B"
    and "k \<in> set (elems (ac_one_time_keys B))" "distinct (map otk_public (elems (ac_one_time_keys B)))"
    and "olm_create_outbound_session S olm_session A
           (b64_encode (ckp_public_key (ik_curve25519_key (ac_identity_keys B)))) (b64_encode (otk_public k)) random
         = (s1, random', Some 0)"
    and "olm_encrypt S s1 p random1 m = (s2, random1', m', Some n)" "length p < 2 ^ 59" "length m < 2 ^ 64"
    and "length (cbc_padded p) \<le> length buf"
  shows "(let message = take n m'; their = b64_encode (ckp_public_key (ik_curve25519_key (ac_identity_keys A)))
          in \<exists>t1 t2 b1 b2 b3 b4 buf'.
                 olm_create_inbound_session S olm_session B message = Some (t1, b1, Some 0)
               \<and> olm_create_inbound_session_from S olm_session B their message = Some (t1, b2, Some 0)
               \<and> olm_matches_inbound_session t1 message = (t1, b3, Some 1)
               \<and> snd (olm_session_id S t1 ident) = snd (olm_session_id S s2 ident)
               \<and> olm_decrypt S t1 (olm_encrypt_message_type s1) message buf = (t2, b4, buf', Some (length p))
               \<and> take (length p) buf' = p \<and> session_in_step S s2 t2 0 0)"
proof -
  let ?ik = "ckp_public_key (ik_curve25519_key (ac_identity_keys B))"
  let ?ia = "ckp_public_key (ik_curve25519_key (ac_identity_keys A))"
  have inv: "account_ok A" "account_ok B" "keys_from_private S A" "keys_from_private S B"
    using inv_reachable private_reachable assms(2,3) by (auto simp: account_inv_def)
  have len: "length ?ik = 32" "length ?ia = 32" "length (otk_public k) = 32"
    using inv account_list(2) [OF inv(2)] assms(4)
    by (auto simp: account_ok_def account_sized_def identity_keys_ok_def curve25519_key_pair_ok_def one_time_key_ok_def)
  have pairs: "curve25519_pair S (ik_curve25519_key (ac_identity_keys A))"
    "curve25519_pair S (ik_curve25519_key (ac_identity_keys B))" "curve25519_pair S (otk_key k)"
    using inv(3,4) assms(4) by (simp_all add: keys_from_private_def)
  note found = lookup_one_time_key [OF inv(2) assms(4,5)]
  note out = create_outbound_eq(1) [OF len(1,3) assms(6), unfolded olm_session_def]
  have p: "length p < 2 ^ 60" using assms(8) by simp
  have ok: "session_ok s1"
    by (rule outbound_session_ok [OF assms(1) zero_session_ok pairs(1,2) found pairs(3) out])
  note e = api_encrypt_Some [OF ok p assms(9,7)]
  let ?msg = "session_message S s1 random1 p"
  note small = length_session_message_small [OF ok e(1) assms(8)]
  obtain t1 t2 buf' where t: "olm_session_new_inbound_session S (olm_session_init zero_session) B None ?msg = Some (t1, Some 0)"
      "se_alice_identity_key t1 = se_alice_identity_key s1" "se_alice_base_key t1 = se_alice_base_key s1"
      "se_bob_one_time_key t1 = se_bob_one_time_key s1" "olm_session_matches_inbound_session t1 None ?msg"
      "olm_session_decrypt S t1 (olm_session_encrypt_message_type s1) ?msg buf = (t2, buf', Some (length p))"
      "take (length p) buf' = p" "session_in_step S (s1\<lparr>se_ratchet := sent S (se_ratchet s1) random1\<rparr>) t2 0 0"
    by (rule first_message_delivered [OF assms(1) zero_session_ok zero_session_ok pairs(1,2) found pairs(3) out _ e(1) p
          assms(10), of None]) simp
  have from_eq: "olm_session_new_inbound_session S (olm_session_init zero_session) B (Some ?ia) ?msg = Some (t1, Some 0)"
    using inbound_known [OF t(1)] t(2) new_outbound_eq(2) [OF out refl refl refl] by simp
  have "snd (olm_session_id S t1 ident) = snd (olm_session_id S s2 ident)"
    using t(2-4) e(2) by (intro session_id_cong) simp_all
  then show ?thesis
    using api_inbound_eq [OF small t(1)] api_inbound_from_eq [OF small len(2) from_eq] api_matches_eq [OF small t(5)]
      api_decrypt_eq [OF small t(6)] t(7,8) e(2,5)
    by (auto simp: Let_def olm_session_def olm_encrypt_message_type_def)
qed

section \<open>Using a key up\<close>

definition account_public_keys :: "account \<Rightarrow> bytes list" where
  "account_public_keys a = map otk_public (elems (ac_one_time_keys a))
     @ (if 1 \<le> ac_num_fallback_keys a then [otk_public (ac_current_fallback_key a)] else [])
     @ (if 2 \<le> ac_num_fallback_keys a then [otk_public (ac_prev_fallback_key a)] else [])"

lemma lookup_Some:
  assumes "account_ok a" "length key = 32" "olm_account_lookup_key a key = Some k"
  shows "key \<in> set (account_public_keys a)"
  using assms key_position_None [OF account_list(2) [OF assms(1)] assms(2), of 0]
  by (auto simp: olm_account_lookup_key_def account_public_keys_def account_ok_def account_sized_def one_time_key_ok_def
      curve25519_key_pair_ok_def split: option.splits if_splits)

lemma remove_found:
  assumes "account_ok a" "length key = 32" "distinct (account_public_keys a)" "key \<in> set (account_public_keys a)"
    and "olm_account_remove_key a key = (a', r)"
  shows "r \<noteq> None" "if key \<in> set (map otk_public (elems (ac_one_time_keys a))) then olm_account_lookup_key a' key = None else a' = a"
proof -
  note none = key_position_None [OF account_list(2) [OF assms(1)] assms(2), of 0]
  show "r \<noteq> None"
    using assms none
    by (auto simp: olm_account_remove_key_def account_public_keys_def account_ok_def account_sized_def one_time_key_ok_def
        curve25519_key_pair_ok_def split: option.splits if_splits)
  show "if key \<in> set (map otk_public (elems (ac_one_time_keys a))) then olm_account_lookup_key a' key = None else a' = a"
  proof (cases rule: remove_key_cases [OF assms(1,2,5)])
    case 1
    then show ?thesis by simp
  next
    case removed: (2 i)
    let ?ks = "elems (ac_one_time_keys a)"
    have "distinct (map otk_public ?ks)" using assms(3) by (simp add: account_public_keys_def)
    moreover have "map otk_public (elems (ac_one_time_keys a')) = erase_elem i (map otk_public ?ks)"
      by (simp add: removed(4) erase_elem_def take_map drop_map)
    ultimately have "key \<notin> set (map otk_public (elems (ac_one_time_keys a')))"
      using removed(1,2) erase_elem_remove1 [of i "map otk_public ?ks"] by simp
    moreover have ok: "account_ok a'" using assms(1) by (simp add: removed(3) account_ok_def account_sized_def slots_ok_erase)
    ultimately have p: "key_position key (elems (ac_one_time_keys a')) 0 = None"
      using key_position_None [OF account_list(2) [OF ok] assms(2), of 0] by simp
    have k: "key \<in> set (map otk_public ?ks)" using removed(1,2) by auto
    have f: "1 \<le> ac_num_fallback_keys a \<Longrightarrow> otk_public (ac_current_fallback_key a) \<noteq> key"
      "2 \<le> ac_num_fallback_keys a \<Longrightarrow> otk_public (ac_prev_fallback_key a) \<noteq> key"
      using assms(3) k by (auto simp: account_public_keys_def)
    have l: "length (otk_public (ac_current_fallback_key a)) = 32" "length (otk_public (ac_prev_fallback_key a)) = 32"
      using assms(1) by (simp_all add: account_ok_def account_sized_def one_time_key_ok_def curve25519_key_pair_ok_def)
    have same: "ac_num_fallback_keys a' = ac_num_fallback_keys a" "ac_current_fallback_key a' = ac_current_fallback_key a"
      "ac_prev_fallback_key a' = ac_prev_fallback_key a" by (simp_all add: removed(3))
    have "olm_account_lookup_key a' key = None"
      using f l assms(2) by (simp add: olm_account_lookup_key_def p same)
    then show ?thesis using k by simp
  qed
qed

lemma has_length_the: "has_length n w \<Longrightarrow> length (the w) = n"
  by (cases w) simp_all

text \<open>What a session that was started tells of the message: it was complete, and its key was found.\<close>

lemma inbound_started:
  assumes "olm_session_new_inbound_session S t B None message = Some (t1, Some 0)"
  shows "length (se_bob_one_time_key t1) = 32" "\<exists>k. olm_account_lookup_key B (se_bob_one_time_key t1) = Some k"
    "olm_account_lookup_key B' (se_bob_one_time_key t1) = None \<Longrightarrow>
       \<exists>t2. olm_session_new_inbound_session S t' B' None message = Some (t2, None) \<and> se_last_error t2 = OLM_BAD_MESSAGE_KEY_ID"
proof -
  define reader where "reader = olm_decode_one_time_key_message message"
  define mr where "mr = olm_decode_message (the (pr_message reader)) aes_sha_256_cipher_mac_length"
  obtain ident k where d: "check_message_fields reader False" "pr_identity_key reader = Some ident"
      "has_length CURVE25519_KEY_LENGTH (mr_ratchet_key mr)"
      "olm_account_lookup_key B (the (pr_one_time_key reader)) = Some k"
      "se_bob_one_time_key t1 = the (pr_one_time_key reader)"
    using assms unfolding olm_session_new_inbound_session_def reader_def mr_def Let_def
    by (simp split: if_splits option.splits) auto
  show "length (se_bob_one_time_key t1) = 32" "\<exists>k. olm_account_lookup_key B (se_bob_one_time_key t1) = Some k"
    using d by (simp_all add: check_message_fields_def has_length_the)
  show "\<exists>t2. olm_session_new_inbound_session S t' B' None message = Some (t2, None) \<and> se_last_error t2 = OLM_BAD_MESSAGE_KEY_ID"
    if "olm_account_lookup_key B' (se_bob_one_time_key t1) = None"
    using that d unfolding olm_session_new_inbound_session_def reader_def [symmetric] Let_def mr_def
    by simp
qed

text \<open>C4: A pre-key message can start one session only. After \<open>olm_remove_one_time_keys\<close> for the session
  it started, the account refuses the same message with \<open>OLM_BAD_MESSAGE_KEY_ID\<close>, into whatever
  session it is read. The exception is a session started on a fallback key: this is left where it
  is, and the account is not changed.\<close>

theorem prekey_message_is_used_once:
  assumes "account_ok B" "distinct (account_public_keys B)"
    and "olm_create_inbound_session S t B message = Some (t1, b, Some 0)"
    and "olm_remove_one_time_keys B t1 = (B', r)"
  shows "r \<noteq> None \<and>
    (if se_bob_one_time_key t1 \<in> set (map otk_public (elems (ac_one_time_keys B)))
     then \<exists>t2 b2. olm_create_inbound_session S t' B' message = Some (t2, b2, None)
            \<and> se_last_error t2 = OLM_BAD_MESSAGE_KEY_ID
     else B' = B)"
proof -
  obtain b raw_len where b: "b64_input message (length message) = (b, Some raw_len)"
    and t1: "olm_session_new_inbound_session S t B None (take raw_len b) = Some (t1, Some 0)"
    using assms(3) by (auto simp: olm_create_inbound_session_def split: prod.splits option.splits)
  note started = inbound_started [OF t1]
  let ?key = "se_bob_one_time_key t1"
  have key: "?key \<in> set (account_public_keys B)" using started(1,2) lookup_Some [OF assms(1)] by blast
  obtain B1 r1 where rm: "olm_account_remove_key B ?key = (B1, r1)" by force
  note gone = remove_found [OF assms(1) started(1) assms(2) key rm]
  have B': "B' = B1" "r = r1" using gone(1) rm assms(4) by (auto simp: olm_remove_one_time_keys_def)
  show ?thesis
  proof (cases "?key \<in> set (map otk_public (elems (ac_one_time_keys B)))")
    case True
    then obtain t2 where "olm_session_new_inbound_session S t' B' None (take raw_len b) = Some (t2, None)"
        "se_last_error t2 = OLM_BAD_MESSAGE_KEY_ID"
      using gone(2) started(3) by (auto simp: B')
    then show ?thesis using True gone(1) b by (auto simp: olm_create_inbound_session_def B')
  next
    case False
    then show ?thesis using gone by (simp add: B')
  qed
qed

lemma verify_encoded:
  assumes "ed25519_verifies S" "ed25519_key S k" "length (ekp_public_key k) = 32" "signs S k message"
  shows "\<exists>b. olm_ed25519_verify S u (b64_encode (ekp_public_key k)) message
      (b64_encode (olm_crypto_ed25519_sign S k message)) = (u, b, Some 0)"
  using ed25519_verify_sign [OF assms(1,2,4)] decode_key [OF assms(3)]
    input_encoded [of "olm_crypto_ed25519_sign S k message"]
  by (auto simp: olm_ed25519_verify_def olm_utility_ed25519_verify_def Let_def)

lemma pk_sign_eq:
  assumes "olm_pk_sign S s message m = (s', m', Some n)"
  shows "take n m' = b64_encode (olm_crypto_ed25519_sign S (ps_key_pair s) message)"
proof -
  let ?g = "olm_crypto_ed25519_sign S (ps_key_pair s) message"
  have l: "olm_pk_signature_length = 86" using b64_lengths(2) [of 64] by (simp add: olm_pk_signature_length_def)
  have fit: "86 \<le> length m" using assms by (auto simp: olm_pk_sign_def l split: if_splits)
  then have e: "olm_encode_base64 (write_at m 22 ?g) 22 64 0 = (write_at (write_at m 22 ?g) 0 (b64_encode ?g), 86)"
    using encode_in_place [of 64 "write_at m 22 ?g" ?g] by (simp add: read_write_at_same)
  have "n = 86" "m' = write_at (write_at m 22 ?g) 0 (b64_encode ?g)"
    using assms fit by (auto simp: olm_pk_sign_def l e Let_def)
  then show ?thesis using fit by (simp add: write_at_def [of _ 0])
qed

text \<open>C20: Signatures verify. What \<open>olm_account_sign\<close> writes for an account of the library, and what
  \<open>olm_pk_sign\<close> writes under a key that \<open>olm_pk_signing_key_from_seed\<close> made, is base64 text that
  \<open>olm_ed25519_verify\<close> accepts for the message, under the signing key of the account's identity and
  the public key that was written for the seed, unless the nonce of the signature is zero (once in
  \<open>2 ^ 252\<close> random messages; the code does not look).\<close>

theorem signatures_verify:
  assumes "ed25519_verifies S" "account_reachable S a"
    and "api_olm_account_sign S a message m1 = (a', m1', Some n1)"
    and "olm_pk_signing_key_from_seed S sg pub seed = (sg1, pub', Some n)" "olm_pk_sign S sg1 message m2 = (sg2, m2', Some n2)"
    and signs: "signs S (ik_ed25519_key (ac_identity_keys a)) message" "signs S (ps_key_pair sg1) message"
  shows "(\<exists>b. olm_ed25519_verify S u (b64_encode (ekp_public_key (ik_ed25519_key (ac_identity_keys a)))) message
           (take n1 m1') = (u, b, Some 0))
    \<and> (\<exists>b. olm_ed25519_verify S u (take olm_pk_signing_public_key_length pub') message (take n2 m2') = (u, b, Some 0))"
proof
  let ?k = "ik_ed25519_key (ac_identity_keys a)"
  have a: "account_ok a" "ed25519_key S ?k" using inv_reachable [OF assms(2)] by (simp_all add: account_inv_def)
  then have k: "length (ekp_public_key ?k) = 32"
    by (simp add: account_ok_def account_sized_def identity_keys_ok_def ed25519_key_pair_ok_def)
  have fit: "86 \<le> length m1" and o: "b64_output (write_at m1 (b64_output_pos 64)
      (write_at (read_at m1 (b64_output_pos 64) 64) 0 (olm_crypto_ed25519_sign S ?k message))) 64 = (m1', n1)"
    using assms(3) b64_lengths [of 64]
    by (auto simp: api_olm_account_sign_def olm_account_sign_def olm_account_signature_length_def Let_def read_at_def
        split: if_splits prod.splits)
  have "write_at (read_at m1 (b64_output_pos 64) 64) 0 (olm_crypto_ed25519_sign S ?k message) = olm_crypto_ed25519_sign S ?k message"
    using fit b64_lengths(3) [of 64] by (simp add: write_at_def read_at_def)
  then have "take n1 m1' = b64_encode (olm_crypto_ed25519_sign S ?k message)"
    using b64_output_write [of "olm_crypto_ed25519_sign S ?k message" m1] fit o by auto
  then show "\<exists>b. olm_ed25519_verify S u (b64_encode (ekp_public_key ?k)) message (take n1 m1') = (u, b, Some 0)"
    using verify_encoded [OF assms(1) a(2) k signs(1)] by simp
next
  have seed: "ed25519_key S (ps_key_pair sg1)" "length (ekp_public_key (ps_key_pair sg1)) = 32" 
    "take olm_pk_signing_public_key_length pub' = b64_encode (ekp_public_key (ps_key_pair sg1))"
    using assms(4) encode_base64_to_eq [of "ekp_public_key (ps_key_pair sg1)" pub] b64_lengths(2) [of 32]
    by (auto simp: olm_pk_signing_key_from_seed_def olm_pk_signing_public_key_length_def Let_def ed25519_generate_key write_at_def
        split: if_splits prod.splits)
  have "take n2 m2' = b64_encode (olm_crypto_ed25519_sign S (ps_key_pair sg1) message)"
    by (rule pk_sign_eq [OF assms(5)])
  then show "\<exists>b. olm_ed25519_verify S u (take olm_pk_signing_public_key_length pub') message (take n2 m2') = (u, b, Some 0)"
    using verify_encoded [OF assms(1) seed(1,2) signs(2)] by (simp add: seed(3))
qed

text \<open>C18: Accounts, sessions and decryption keys survive being stored. What the public functions
  pickle under a key, they restore into fresh memory under the same key: the keys, one-time keys
  and fallback keys of the account, the handshake keys and the ratchet of the session, and the
  key pair, whose public key is also handed out. A restored account does not know its seed.\<close>

theorem public_objects_pickle:
  assumes "account_ok a" "session_ok s" "pk_decryption_ok d"
    and "api_olm_pickle_account S a key m1 = (a1, m1', Some n1)" "api_olm_pickle_session S s key m2 = (s1, m2', Some n2)"
    and "olm_pickle_pk_decryption S d key m3 = (d1, m3', Some n3)" "olm_pk_key_length \<le> length pub"
  shows "(\<exists>a2 b. api_olm_unpickle_account S olm_account key (take n1 m1') = (a2, b, Some n1)
        \<and> account_restored a olm_account a2 \<and> \<not> ac_ed25519_seed_known a2)
    \<and> (\<exists>s2 b. api_olm_unpickle_session S olm_session key (take n2 m2') = (s2, b, Some n2)
        \<and> session_restored s olm_session s2)
    \<and> (\<exists>b pub'. olm_unpickle_pk_decryption S olm_pk_decryption key (take n3 m3') (Some pub) =
          (d\<lparr>pd_last_error := OLM_SUCCESS\<rparr>, b, Some pub', Some n3)
        \<and> take olm_pk_key_length pub' = b64_encode (ckp_public_key (pd_key_pair d)))"
proof (intro conjI)
  have "api_pickle_object S (olm_pickle_account a) (olm_pickle_account_length a) key m1 = (m1', Some n1)"
    using assms(4) by (auto simp: api_olm_pickle_account_def split: prod.splits option.splits)
  then show "\<exists>a2 b. api_olm_unpickle_account S olm_account key (take n1 m1') = (a2, b, Some n1)
      \<and> account_restored a olm_account a2 \<and> \<not> ac_ed25519_seed_known a2"
    using account_object.unpickle_pickle_object [OF assms(1) fresh_account_sized, of S key m1 m1' n1]
    by (fastforce simp: api_olm_unpickle_account_def account_restored_def olm_account_def olm_account_init_def zero_account_def)
  have "api_pickle_object S (olm_pickle_session s) (olm_pickle_session_length s) key m2 = (m2', Some n2)"
    using assms(5) by (auto simp: api_olm_pickle_session_def split: prod.splits option.splits)
  then show "\<exists>s2 b. api_olm_unpickle_session S olm_session key (take n2 m2') = (s2, b, Some n2)
      \<and> session_restored s olm_session s2"
    using session_object.unpickle_pickle_object [OF assms(2) fresh_session_ok, of S key m2 m2' n2]
    by (auto simp: api_olm_unpickle_session_def)
  have p: "api_pickle_object S (pickle_pk_decryption d) (pk_raw_pickle_length d) key m3 = (m3', Some n3)"
    using assms(6) by (auto simp: olm_pickle_pk_decryption_def split: prod.splits option.splits)
  have fresh: "pk_decryption_ok olm_pk_decryption"
    by (simp add: olm_pk_decryption_def olm_clear_pk_decryption_def pk_decryption_ok_def curve25519_key_pair_ok_def)
  obtain b where b: "api_unpickle_object S unpickle_pk_decryption pd_last_error (\<lambda>e d. d\<lparr>pd_last_error := e\<rparr>)
      olm_pk_decryption key (take n3 m3') = (d\<lparr>pd_last_error := OLM_SUCCESS\<rparr>, b, Some n3)"
    using pk_object.unpickle_pickle_object [OF assms(3) fresh p, of pd_last_error "\<lambda>e d. d\<lparr>pd_last_error := e\<rparr>"]
    by (auto simp: olm_pk_decryption_def olm_clear_pk_decryption_def)
  have k: "length (ckp_public_key (pd_key_pair d)) = 32"
    using assms(3) by (simp add: pk_decryption_ok_def curve25519_key_pair_ok_def)
  show "\<exists>b pub'. olm_unpickle_pk_decryption S olm_pk_decryption key (take n3 m3') (Some pub) =
        (d\<lparr>pd_last_error := OLM_SUCCESS\<rparr>, b, Some pub', Some n3)
      \<and> take olm_pk_key_length pub' = b64_encode (ckp_public_key (pd_key_pair d))"
    using assms(7) b encode_base64_to_eq [of "ckp_public_key (pd_key_pair d)" pub]
    by (simp add: olm_unpickle_pk_decryption_def k write_at_def)
qed

text \<open>C31: A message can crash its receiver. Take any pre-key message with a one-time key, a base key and
  a body, and without the field of the identity key. \<open>olm_create_inbound_session_from\<close>, called with
  the identity key the caller expects, accepts its fields (\<open>check_message_fields\<close> is satisfied with
  either of the two keys) and reads the missing one through a null pointer, for every account
  and every session, before anything of the message is authenticated. \<open>olm_create_inbound_session\<close>,
  which expects no key, refuses the same message; and with an identity key in the message
  neither function reads through the null pointer.\<close>

theorem anonymous_message_reads_null:
  assumes "length otk = 32" "length base = 32" "length msg < 2 ^ 58" "length expected = 32" "length ident < 2 ^ 58"
  shows "olm_create_inbound_session_from S s a (b64_encode expected)
      (b64_encode (anonymous_pre_key_body v otk base msg)) = None
    \<and> (\<exists>b. olm_create_inbound_session S s a (b64_encode (anonymous_pre_key_body v otk base msg)) =
        Some (s\<lparr>se_last_error := OLM_BAD_MESSAGE_FORMAT\<rparr>, b, None))
    \<and> olm_create_inbound_session_from S s a (b64_encode expected) (b64_encode (pre_key_body v otk base ident msg)) \<noteq> None
    \<and> olm_create_inbound_session S s a (b64_encode (pre_key_body v otk base ident msg)) \<noteq> None"
proof -
  let ?a = "anonymous_pre_key_body v otk base msg" and ?p = "pre_key_body v otk base ident msg"
  have small: "length ?a < 2 ^ 60" using assms by (intro length_anonymous_le) simp_all
  have small': "length ?p < 2 ^ 60" using assms by (intro length_any_pre_key_less) simp_all
  obtain b where b: "b64_input (b64_encode ?a) (length (b64_encode ?a)) = (b, Some (length ?a))" "take (length ?a) b = ?a"
    using input_encoded [OF small] by blast
  obtain b' where b': "b64_input (b64_encode ?p) (length (b64_encode ?p)) = (b', Some (length ?p))" "take (length ?p) b' = ?p"
    using input_encoded [OF small'] by blast
  have d: "olm_decode_one_time_key_message ?a =
    \<lparr>pr_version = v, pr_identity_key = None, pr_base_key = Some base, pr_one_time_key = Some otk, pr_message = Some msg\<rparr>"
    using assms by (intro decode_anonymous) simp_all
  have null: "olm_session_new_inbound_session S s a (Some x) ?a = None" for x
    using assms by (simp add: new_inbound_None_iff d check_message_fields_def)
  have refuse: "olm_session_new_inbound_session S s a None ?a = Some (s\<lparr>se_last_error := OLM_BAD_MESSAGE_FORMAT\<rparr>, None)"
    by (simp add: olm_session_new_inbound_session_def d check_message_fields_def)
  have fine: "olm_session_new_inbound_session S s a x ?p \<noteq> None" for x
    using assms by (simp add: new_inbound_None_iff decode_pre_key_body)
  show ?thesis
    using b b' null refuse fine decode_key [OF assms(4)]
    by (auto simp: olm_create_inbound_session_from_def olm_create_inbound_session_def Let_def split: option.splits)
qed

section \<open>Witnesses\<close>

lemma olm_session_blank: "olm_session = olm_session_init blank_session"
  by (simp add: olm_session_def olm_session_init_def zero_session_def blank_session_def olm_ratchet_init_def blank_ratchet_def)

lemma stocked_reachable: "account_reachable sample_sodium stocked_account"
proof (rule account_reachable.step [OF sample_account_reachable])
  let ?r = "replicate 32 1 @ replicate 32 2"
  have "olm_account_generate_one_time_keys sample_sodium sample_account 2 ?r = Some (stocked_account, Some 2)"
    using generate_loop_ends [of 2 0 2 ?r]
    by (simp add: olm_account_generate_one_time_keys_def olm_account_generate_one_time_keys_random_length_def size_mul_exact
        stocked_account_def)
  then show "account_step sample_sodium sample_account stocked_account"
    by (rule account_step.one_time_keys)
      (simp_all add: sample_account_def olm_account_new_account_def olm_account_new_account_random_length_def
        olm_account_init_def Let_def)
qed

lemma api_started:
  "olm_create_outbound_session sample_sodium olm_session stocked_account
     (b64_encode (ckp_public_key stocked_identity)) (b64_encode (otk_public stocked_key)) (zeros 64) =
     (started_session, olm_unset (zeros 64) 0 64, Some 0)"
proof -
  have "length (ckp_public_key stocked_identity) = 32" "length (otk_public stocked_key) = 32"
    using stocked_pairs by (simp_all add: curve25519_pair_def)
  then show ?thesis
    using started decode_key [of "ckp_public_key stocked_identity"] decode_key [of "otk_public stocked_key"]
    by (simp add: olm_create_outbound_session_def olm_session_blank)
qed

lemma api_started_encrypts:
  obtains s2 m' r' n where "olm_encrypt sample_sodium started_session [5, 6] [] (zeros 1000) = (s2, r', m', Some n)"
proof -
  obtain t1 where t1: "session_in_step sample_sodium started_session t1 0 0"
      "olm_session_encrypt_random_length started_session = 0" by (rule started_ok)
  have ok: "session_ok started_session" using t1(1) by (simp add: session_in_step_def)
  let ?msg = "session_message sample_sodium started_session [] [5, 6]"
  let ?body = "sent_message sample_sodium (se_ratchet started_session) [] [5, 6]"
  have l: "olm_session_encrypt_message_length started_session (length [5, 6 :: u8]) = length ?msg" "length ?msg < 2 ^ 61"
    by (rule session_length_eq [OF ok]; simp add: t1(2))+
  have "length ?body \<le> 87"
    using length_sent_message [of "se_ratchet started_session" "[]" "[5, 6]" sample_sodium] ok t1(2)
    by (simp add: session_ok_def olm_session_encrypt_random_length_def)
  then have m: "length ?msg \<le> 228"
    using length_pre_key_body_le [of "se_bob_one_time_key started_session" "se_alice_base_key started_session"
        "se_alice_identity_key started_session" ?body PROTOCOL_VERSION] ok
    by (simp add: session_message_def Let_def session_ok_def)
  have b: "b64_length (length ?msg) \<le> 1000" using m b64_length_bound [of "length ?msg"] by simp
  let ?r = "read_at (zeros 1000) (b64_output_pos (length ?msg)) (length ?msg)"
  have "length ?r = length ?msg"
    using b b64_length_ge [of "length ?msg"] b64_lengths(3) [OF l(2)] by (simp add: read_at_def)
  then have e: "olm_session_encrypt sample_sodium started_session [5, 6] [] ?r =
      (started_session\<lparr>se_ratchet := sent sample_sodium (se_ratchet started_session) []\<rparr>, ?msg, Some (length ?body))"
    using session_encrypt_eq [OF ok, of "[]" "[5, 6]" sample_sodium ?r] t1(2) m by simp
  obtain m' n where "b64_output (write_at (zeros 1000) (b64_output_pos (length ?msg)) ?msg) (length ?msg) = (m', n)" by force
  then show thesis
    using that b b64_lengths(1) [OF l(2)] unfolding olm_encrypt_def l(1) Let_def e by simp
qed

theorem api_session_established_witness:
  "\<exists>s2 r' m' n. olm_encrypt sample_sodium started_session [5, 6] [] (zeros 1000) = (s2, r', m', Some n)
   \<and> (let message = take n m'; their = b64_encode (ckp_public_key stocked_identity)
      in \<exists>t1 t2 b1 b2 b3 b4 buf'.
             olm_create_inbound_session sample_sodium olm_session stocked_account message = Some (t1, b1, Some 0)
           \<and> olm_create_inbound_session_from sample_sodium olm_session stocked_account their message = Some (t1, b2, Some 0)
           \<and> olm_matches_inbound_session t1 message = (t1, b3, Some 1)
           \<and> snd (olm_session_id sample_sodium t1 (zeros 43)) = snd (olm_session_id sample_sodium s2 (zeros 43))
           \<and> olm_decrypt sample_sodium t1 (olm_encrypt_message_type started_session) message (zeros 18)
             = (t2, b4, buf', Some (length [5, 6 :: u8]))
           \<and> take (length [5, 6 :: u8]) buf' = [5, 6] \<and> session_in_step sample_sodium s2 t2 0 0)"
proof -
  obtain s2 m' r' n where e: "olm_encrypt sample_sodium started_session [5, 6] [] (zeros 1000) = (s2, r', m', Some n)"
    by (rule api_started_encrypts)
  have k: "stocked_key \<in> set (elems (ac_one_time_keys stocked_account))" by (simp add: stocked_key_def stocked_keys)
  show ?thesis
    using e api_session_established [OF sample_dh_agrees stocked_reachable stocked_reachable k stocked_distinct api_started e,
        of "zeros 18" "zeros 43"] by simp
qed

lemma add_keys_fallback: "ac_num_fallback_keys (add_keys S n random a) = ac_num_fallback_keys a"
  by (induction n arbitrary: random a) simp_all

theorem prekey_message_is_used_once_witness:
  "\<exists>message t1 b B' r. olm_create_inbound_session sample_sodium olm_session stocked_account message = Some (t1, b, Some 0)
     \<and> olm_remove_one_time_keys stocked_account t1 = (B', r) \<and> r \<noteq> None
     \<and> (\<exists>t2 b2. olm_create_inbound_session sample_sodium olm_session B' message = Some (t2, b2, None)
           \<and> se_last_error t2 = OLM_BAD_MESSAGE_KEY_ID)"
proof -
  let ?msg = "session_message sample_sodium started_session [] [5, 6]"
  have rl: "olm_ratchet_encrypt_random_length (se_ratchet started_session) \<le> length ([] :: bytes)" "session_ok started_session"
    by (rule started_ok, simp add: olm_session_encrypt_random_length_def session_in_step_def)+
  have small: "length ?msg < 2 ^ 60" by (rule length_session_message_small [OF rl(2,1)]) simp
  obtain t1 where t: "olm_session_new_inbound_session sample_sodium (olm_session_init blank_session) stocked_account None ?msg =
      Some (t1, Some 0)" "se_bob_one_time_key t1 = se_bob_one_time_key started_session"
    by (rule first_message_delivered [OF sample_dh_agrees blank_session_ok blank_session_ok stocked_pairs(2) stocked_pairs(2)
          stocked_key_found stocked_pairs(1) started _ rl(1), of None "[5, 6]" "zeros 18"]) simp_all
  have k: "se_bob_one_time_key t1 = otk_public stocked_key" using t(2) arg_cong [OF new_outbound_eq(2) [OF started refl refl refl], of se_bob_one_time_key] by simp
  obtain b where b: "olm_create_inbound_session sample_sodium olm_session stocked_account (b64_encode ?msg) = Some (t1, b, Some 0)"
    using api_inbound_eq [OF small t(1)] by (auto simp: olm_session_blank)
  obtain B' r where r: "olm_remove_one_time_keys stocked_account t1 = (B', r)" by force
  have n: "ac_num_fallback_keys stocked_account = 0"
    by (simp add: stocked_account_def add_keys_fallback) (simp add: sample_account_def olm_account_new_account_def
        olm_account_new_account_random_length_def olm_account_init_def Let_def)
  have d: "distinct (account_public_keys stocked_account)" using stocked_distinct by (simp add: account_public_keys_def n)
  have m: "otk_public stocked_key \<in> set (map otk_public (elems (ac_one_time_keys stocked_account)))"
    by (simp add: stocked_key_def stocked_keys)
  have "r \<noteq> None \<and> (\<exists>t2 b2. olm_create_inbound_session sample_sodium olm_session B' (b64_encode ?msg) = Some (t2, b2, None)
      \<and> se_last_error t2 = OLM_BAD_MESSAGE_KEY_ID)"
    using prekey_message_is_used_once [OF stocked_keys(1) d b r, of olm_session, unfolded k if_P [OF m]] .
  then show ?thesis using b r by blast
qed

lemma api_pickle_fits:
  "olm_enc_output_length l \<le> length m \<Longrightarrow> \<exists>m' n. api_pickle_object S raw l key m = (m', Some n)"
  by (simp add: api_pickle_object_def Let_def split: prod.splits)

theorem public_objects_pickle_witness:
  "\<exists>a m1 n1 s m2 n2 d m3 n3.
      api_olm_pickle_account sample_sodium stocked_account [7] (zeros (api_olm_pickle_account_length stocked_account)) = (a, m1, Some n1)
    \<and> api_olm_pickle_session sample_sodium started_session [7] (zeros (api_olm_pickle_session_length started_session)) = (s, m2, Some n2)
    \<and> olm_pickle_pk_decryption sample_sodium olm_pk_decryption [7]
         (zeros (olm_pickle_pk_decryption_length olm_pk_decryption)) = (d, m3, Some n3)
    \<and> (\<exists>a2 b. api_olm_unpickle_account sample_sodium olm_account [7] (take n1 m1) = (a2, b, Some n1)
        \<and> account_restored stocked_account olm_account a2 \<and> \<not> ac_ed25519_seed_known a2)
    \<and> (\<exists>s2 b. api_olm_unpickle_session sample_sodium olm_session [7] (take n2 m2) = (s2, b, Some n2)
        \<and> session_restored started_session olm_session s2)
    \<and> (\<exists>b pub'. olm_unpickle_pk_decryption sample_sodium olm_pk_decryption [7] (take n3 m3) (Some (zeros 43)) =
          (olm_pk_decryption\<lparr>pd_last_error := OLM_SUCCESS\<rparr>, b, Some pub', Some n3)
        \<and> take olm_pk_key_length pub' = b64_encode (ckp_public_key (pd_key_pair olm_pk_decryption)))"
proof -
  have s: "session_ok started_session" by (rule started_ok) (simp add: session_in_step_def)
  have d: "pk_decryption_ok olm_pk_decryption"
    by (simp add: olm_pk_decryption_def olm_clear_pk_decryption_def pk_decryption_ok_def curve25519_key_pair_ok_def)
  obtain a m1 n1 where e1: "api_olm_pickle_account sample_sodium stocked_account [7]
      (zeros (api_olm_pickle_account_length stocked_account)) = (a, m1, Some n1)"
    using api_pickle_fits [of "olm_pickle_account_length stocked_account" "zeros (api_olm_pickle_account_length stocked_account)" sample_sodium "olm_pickle_account stocked_account" "[7]"]
    by (auto simp: api_olm_pickle_account_def api_olm_pickle_account_length_def)
  obtain s' m2 n2 where e2: "api_olm_pickle_session sample_sodium started_session [7]
      (zeros (api_olm_pickle_session_length started_session)) = (s', m2, Some n2)"
    using api_pickle_fits [of "olm_pickle_session_length started_session" "zeros (api_olm_pickle_session_length started_session)" sample_sodium "olm_pickle_session started_session" "[7]"]
    by (auto simp: api_olm_pickle_session_def api_olm_pickle_session_length_def)
  obtain d' m3 n3 where e3: "olm_pickle_pk_decryption sample_sodium olm_pk_decryption [7]
      (zeros (olm_pickle_pk_decryption_length olm_pk_decryption)) = (d', m3, Some n3)"
    using api_pickle_fits [of "pk_raw_pickle_length olm_pk_decryption" "zeros (olm_pickle_pk_decryption_length olm_pk_decryption)" sample_sodium "pickle_pk_decryption olm_pk_decryption" "[7]"]
    by (auto simp: olm_pickle_pk_decryption_def olm_pickle_pk_decryption_length_def)
  show ?thesis using public_objects_pickle [OF stocked_keys(1) s d e1 e2 e3, of "zeros 43"] e1 e2 e3 by auto
qed

theorem signatures_verify_witness:
  "\<exists>a m1 n1 sg1 pub n sg2 m2 n2.
      api_olm_account_sign sample_sodium sample_account [5, 6] (zeros 86) = (a, m1, Some n1)
    \<and> olm_pk_signing_key_from_seed sample_sodium olm_pk_signing (zeros 43) (zeros 32) = (sg1, pub, Some n)
    \<and> olm_pk_sign sample_sodium sg1 [5, 6] (zeros 86) = (sg2, m2, Some n2)
    \<and> (\<exists>b. olm_ed25519_verify sample_sodium olm_utility (b64_encode (ekp_public_key (ik_ed25519_key (ac_identity_keys sample_account))))
            [5, 6] (take n1 m1) = (olm_utility, b, Some 0))
    \<and> (\<exists>b. olm_ed25519_verify sample_sodium olm_utility (take olm_pk_signing_public_key_length pub) [5, 6] (take n2 m2) =
          (olm_utility, b, Some 0))"
proof -
  have l: "b64_output_length 64 = 86" "olm_pk_signature_length = 86" "olm_pk_signing_public_key_length = 43"
    using b64_lengths(1,2) [of 64] b64_lengths(2) [of 32]
    by (simp_all add: olm_pk_signature_length_def olm_pk_signing_public_key_length_def)
  obtain a m1 n1 where e1: "api_olm_account_sign sample_sodium sample_account [5, 6] (zeros 86) = (a, m1, Some n1)"
    by (simp add: api_olm_account_sign_def olm_account_signature_length_def l Let_def case_prod_unfold)
  obtain sg1 pub n where e2: "olm_pk_signing_key_from_seed sample_sodium olm_pk_signing (zeros 43) (zeros 32) = (sg1, pub, Some n)"
    by (simp add: olm_pk_signing_key_from_seed_def olm_pk_signing_seed_length_def l Let_def case_prod_unfold)
  obtain sg2 m2 n2 where e3: "olm_pk_sign sample_sodium sg1 [5, 6] (zeros 86) = (sg2, m2, Some n2)"
    by (simp add: olm_pk_sign_def l Let_def case_prod_unfold)
  show ?thesis
    using signatures_verify [OF sample_ed25519_verifies sample_account_reachable e1 e2 e3 sample_signs sample_signs, of olm_utility] e1 e2 e3 by blast
qed

theorem anonymous_message_reads_null_witness:
  "olm_create_inbound_session_from sample_sodium olm_session sample_account (b64_encode (zeros 32))
     (b64_encode (anonymous_pre_key_body 3 (zeros 32) (zeros 32) [1, 2])) = None"
  using anonymous_message_reads_null [of "zeros 32" "zeros 32" "[1, 2]" "zeros 32" "zeros 32"] by simp

end
