(* ===== verification/Out_Of_Order.thy ===== *)
theory Out_Of_Order
  imports Conversation
begin

text \<open>
  Messages that overtake each other. The receiver keeps the keys of the messages that a later one
  has passed (\<open>skipped_message_keys\<close>, forty of them), so that the messages of one sender chain can
  arrive in any order. Here a whole batch of messages is sent with \<open>_olm_ratchet_encrypt\<close> and read
  with \<open>_olm_ratchet_decrypt\<close> in the order of a permutation, or with some of them missing.
\<close>

section \<open>Sending and reading a batch\<close>

text \<open>Each message in a buffer of the length the library asks for.\<close>

primrec encrypt_all :: "sodium \<Rightarrow> ratchet \<Rightarrow> bytes list \<Rightarrow> ratchet \<times> bytes list" where
  "encrypt_all S r [] = (r, [])"
| "encrypt_all S r (p # ps) =
     (let (r, message, _) = olm_ratchet_encrypt S r p [] (zeros (olm_ratchet_encrypt_output_length r (length p)));
          (r, messages) = encrypt_all S r ps
      in (r, message # messages))"

text \<open>What is read of each message, \<open>None\<close> if it was rejected; the same buffer is used for all.\<close>

primrec decrypt_all :: "sodium \<Rightarrow> ratchet \<Rightarrow> bytes \<Rightarrow> bytes list \<Rightarrow> ratchet \<times> bytes option list" where
  "decrypt_all S r buf [] = (r, [])"
| "decrypt_all S r buf (message # messages) =
     (let (r, b, result) = olm_ratchet_decrypt S r message buf;
          (r, texts) = decrypt_all S r buf messages
      in (r, map_option (\<lambda>n. take n b) result # texts))"

section \<open>The receiver between two messages\<close>

definition kept_key :: "sodium \<Rightarrow> bytes \<Rightarrow> chain_key \<Rightarrow> nat \<Rightarrow> skipped_message_key" where
  "kept_key S key c i = \<lparr>sm_ratchet_key = key, sm_message_key = create_message_keys S (chain_after S i c)\<rparr>"

text \<open>
  The messages \<open>D\<close> of the chain that started at \<open>c\<close> have been read, the chain has passed the first
  \<open>m\<close>, and the keys of those in between are at the front of the skipped keys.
\<close>

definition receiving :: "sodium \<Rightarrow> bytes \<Rightarrow> chain_key \<Rightarrow> nat \<Rightarrow> nat \<Rightarrow> nat set \<Rightarrow> ratchet \<Rightarrow> bool" where
  "receiving S key c j m D r \<longleftrightarrow> ratchet_ok r
     \<and> find_chain key (elems (rt_receiver_chains r)) 0 = Some j
     \<and> rc_chain_key (elems (rt_receiver_chains r) ! j) = chain_after S m c \<and> D \<subseteq> {..<m}
     \<and> (\<exists>is rest. elems (rt_skipped_message_keys r) = map (kept_key S key c) is @ rest \<and> distinct is
          \<and> set is = {..<m} - D \<and> key \<notin> sm_ratchet_key ` set rest)"

lemma chain_after_add: "chain_after S n (chain_after S m c) = chain_after S (m + n) c"
  by (simp add: funpow_add add.commute [of m])

lemma kept_from: "skipped_keys S key (chain_after S m c) n = map (kept_key S key c) [m..<m + n]"
  by (rule nth_equalityI) (simp_all add: skipped_keys_def kept_key_def chain_after_add del: funpow.simps)

lemma index_after: "unat (ck_index c) + n < 2 ^ 32 \<Longrightarrow> unat (ck_index (chain_after S n c)) = unat (ck_index c) + n"
  by (simp add: unat_word_ariths unat_of_nat_small)

lemma kept_index_eq:
  assumes "unat (ck_index c) + i < 2 ^ 32" "unat (ck_index c) + i' < 2 ^ 32"
  shows "mk_index (sm_message_key (kept_key S key c i)) = mk_index (create_message_keys S (chain_after S i' c)) \<longleftrightarrow> i = i'"
proof -
  have "ck_index (chain_after S i c) = ck_index (chain_after S i' c) \<longleftrightarrow> i = i'"
    unfolding word_unat_eq_iff index_after [OF assms(1)] index_after [OF assms(2)] by simp
  then show ?thesis unfolding kept_key_def create_message_keys_def by (simp only: simp_thms skipped_message_key.select_convs message_key.select_convs)
qed

lemma passed_key_split:
  assumes "distinct is" "i \<in> set is"
  obtains pre post where "is = pre @ i # post" "i \<notin> set pre" "i \<notin> set post"
proof -
  obtain pre post where "is = pre @ i # post" "i \<notin> set pre" using split_list_first [OF assms(2)] by blast
  then show thesis using assms(1) that by simp
qed

lemma kept_keys_after:
  assumes "ratchet_ok r" and sk: "elems (rt_skipped_message_keys r) = map (kept_key S key c) is @ rest" "distinct is"
      "set is = {..<m} - D" and "m \<le> i" "i \<le> 40"
  shows "elems (fold (\<lambda>v l. olm_list_push_front l v) (skipped_keys S key (chain_after S m c) (i - m)) (rt_skipped_message_keys r)) =
    map (kept_key S key c) (rev [m..<i] @ is) @ take (40 - (i - m + length is)) rest"
proof -
  have "card (set is) \<le> m" using card_mono [of "{..<m}" "set is"] sk(3) by auto
  then have l: "length is \<le> m" using sk(2) by (simp add: distinct_card)
  have "elems (fold (\<lambda>v l. olm_list_push_front l v) (skipped_keys S key (chain_after S m c) (i - m)) (rt_skipped_message_keys r)) =
      take 40 (rev (map (kept_key S key c) [m..<i]) @ elems (rt_skipped_message_keys r))"
    using skipped_list.live_fold_push_front [OF ratchet_list_ok(3) [OF assms(1)]] assms(5) by (simp add: kept_from)
  then show ?thesis using l assms(5,6) by (simp add: sk(1) rev_map)
qed

text \<open>A message the chain has not come to yet, and one it has passed.\<close>

lemma receiving_ahead:
  assumes inv: "receiving S key c j m D r" and m: "m \<le> 41" and i: "i \<notin> D" "i \<le> 40" and c: "unat (ck_index c) + 41 < 2 ^ 32"
    and k: "length key = 32" and p: "length p < 2 ^ 60" and b: "length (cbc_padded p) \<le> length buf"
    and True: "m \<le> i"
  shows "\<exists>r' m'. olm_ratchet_decrypt S r
        (ratchet_message S (rt_ratchet_cipher r) (create_message_keys S (chain_after S i c)) key p) buf =
      (r', decrypted p buf, Some (length p))
    \<and> receiving S key c j m' (insert i D) r' \<and> m' \<le> 41 \<and> rt_ratchet_cipher r' = rt_ratchet_cipher r"
proof -
  let ?mk = "create_message_keys S (chain_after S i c)"
  obtain "is" rest where r: "ratchet_ok r" and f: "find_chain key (elems (rt_receiver_chains r)) 0 = Some j"
    and ch: "rc_chain_key (elems (rt_receiver_chains r) ! j) = chain_after S m c" and D: "D \<subseteq> {..<m}"
    and sk: "elems (rt_skipped_message_keys r) = map (kept_key S key c) is @ rest" "distinct is" "set is = {..<m} - D"
      "key \<notin> sm_ratchet_key ` set rest"
    using inv by (auto simp: receiving_def)
  note ok' = ratchet_decrypt_ok [OF r, of S "ratchet_message S (rt_ratchet_cipher r) ?mk key p" buf]
  define n where "n = i - m"
  have mk: "?mk = create_message_keys S (chain_after S n (chain_after S m c))"
    using True by (simp add: chain_after_add n_def)
  have n: "n \<le> MAX_MESSAGE_GAP" "unat (ck_index (chain_after S m c)) + n < 2 ^ 32"
    using index_after [of c m S] c i m True by (simp_all add: n_def)
  note dec = decrypt_existing_chain [OF r k p f ch [symmetric] mk n b]
  define r' where "r' = r\<lparr>rt_receiver_chains := olm_list_set (rt_receiver_chains r) j
       \<lparr>rc_ratchet_key = key, rc_chain_key = chain_after S (Suc n) (chain_after S m c)\<rparr>,
     rt_skipped_message_keys :=
       fold (\<lambda>v l. olm_list_push_front l v) (skipped_keys S key (chain_after S m c) n) (rt_skipped_message_keys r)\<rparr>"
  have ch': "elems (rt_receiver_chains r') = (elems (rt_receiver_chains r))
      [j := \<lparr>rc_ratchet_key = key, rc_chain_key = chain_after S (Suc i) c\<rparr>]"
    using True by (simp add: r'_def chain_after_add n_def flip: funpow.simps(2))
  have sk': "elems (rt_skipped_message_keys r') = map (kept_key S key c) (rev [m..<i] @ is) @ take (40 - (i - m + length is)) rest"
    using kept_keys_after [OF r sk(1-3) True i(2)] by (simp add: r'_def n_def)
  have fj: "find_chain key (elems (rt_receiver_chains r')) 0 = Some j"
    using find_chain_Some [OF f] f by (simp add: ch' find_chain_update)
  have "receiving S key c j (Suc i) (insert i D) r'"
    unfolding receiving_def
  proof (intro conjI)
    show "ratchet_ok r'" using ok' dec by (simp add: r'_def)
    show "rc_chain_key (elems (rt_receiver_chains r') ! j) = chain_after S (Suc i) c"
      using find_chain_Some [OF f] by (simp add: ch')
    show "insert i D \<subseteq> {..<Suc i}" using D True by auto
    have "set (rev [m..<i] @ is) = {..<Suc i} - insert i D" using sk(3) D True by auto
    moreover have "distinct (rev [m..<i] @ is)" by (simp add: sk(2,3)) auto
    moreover have "key \<notin> sm_ratchet_key ` set (take (40 - (i - m + length is)) rest)"
      using sk(4) by (auto dest: in_set_takeD)
    ultimately show "\<exists>is rest. elems (rt_skipped_message_keys r') = map (kept_key S key c) is @ rest \<and> distinct is
        \<and> set is = {..<Suc i} - insert i D \<and> key \<notin> sm_ratchet_key ` set rest"
      using sk' by blast
  qed (rule fj)
  then show ?thesis using dec i(2) by (intro exI [of _ r'] exI [of _ "Suc i"]) (simp add: r'_def)
qed

lemma receiving_passed:
  assumes inv: "receiving S key c j m D r" and m: "m \<le> 41" and i: "i \<notin> D" "i \<le> 40" and c: "unat (ck_index c) + 41 < 2 ^ 32"
    and k: "length key = 32" and p: "length p < 2 ^ 60" and b: "length (cbc_padded p) \<le> length buf"
    and False: "\<not> m \<le> i"
  shows "\<exists>r' m'. olm_ratchet_decrypt S r
        (ratchet_message S (rt_ratchet_cipher r) (create_message_keys S (chain_after S i c)) key p) buf =
      (r', decrypted p buf, Some (length p))
    \<and> receiving S key c j m' (insert i D) r' \<and> m' \<le> 41 \<and> rt_ratchet_cipher r' = rt_ratchet_cipher r"
proof -
  let ?mk = "create_message_keys S (chain_after S i c)"
  obtain "is" rest where r: "ratchet_ok r" and f: "find_chain key (elems (rt_receiver_chains r)) 0 = Some j"
    and ch: "rc_chain_key (elems (rt_receiver_chains r) ! j) = chain_after S m c" and D: "D \<subseteq> {..<m}"
    and sk: "elems (rt_skipped_message_keys r) = map (kept_key S key c) is @ rest" "distinct is" "set is = {..<m} - D"
      "key \<notin> sm_ratchet_key ` set rest"
    using inv by (auto simp: receiving_def)
  note ok' = ratchet_decrypt_ok [OF r, of S "ratchet_message S (rt_ratchet_cipher r) ?mk key p" buf]
  have "i \<in> set is" using i(1) sk(3) False by simp
  then obtain pre post where s: "is = pre @ i # post" "i \<notin> set pre" "i \<notin> set post"
    using passed_key_split [OF sk(2)] by metis
  have old: "mk_index ?mk < ck_index (rc_chain_key (elems (rt_receiver_chains r) ! j))"
    using index_after [of c i S] index_after [of c m S] c i m False
    by (simp add: ch create_message_keys_def word_less_nat_alt del: index_chain_after)
  have "\<forall>x \<in> set (map (kept_key S key c) pre). \<not> (sm_ratchet_key x = key \<and> mk_index (sm_message_key x) = mk_index ?mk)"
  proof -
    have "x \<noteq> i \<and> x < m" if "x \<in> set pre" for x using that s sk(3) by auto
    then have "mk_index (sm_message_key (kept_key S key c x)) \<noteq> mk_index ?mk" if "x \<in> set pre" for x
      using that kept_index_eq [of c x i S key] c i(2) m by fastforce
    then show ?thesis by auto
  qed
  from decrypt_skipped [OF r k p f old _ this b, of "map (kept_key S key c) post @ rest"]
  obtain r' where r': "olm_ratchet_decrypt S r (ratchet_message S (rt_ratchet_cipher r) ?mk key p) buf =
      (r', decrypted p buf, Some (length p))"
    "elems (rt_skipped_message_keys r') = map (kept_key S key c) (pre @ post) @ rest"
    "r' = r\<lparr>rt_skipped_message_keys := rt_skipped_message_keys r'\<rparr>"
    by (auto simp: sk(1) s(1) kept_key_def)
  have same: "rt_receiver_chains r' = rt_receiver_chains r" "rt_ratchet_cipher r' = rt_ratchet_cipher r"
    by (subst r'(3), simp)+
  have "set (pre @ post) = {..<m} - insert i D" "distinct (pre @ post)"
    using sk(2,3) s by auto
  then have "receiving S key c j m (insert i D) r'"
    unfolding receiving_def same
    using ok' r'(1,2) f ch D sk(4) False by (intro conjI exI [of _ "pre @ post"] exI [of _ rest]) auto
  then show ?thesis using r'(1) m same(2) by blast
qed

lemma receiving_step:
  assumes inv: "receiving S key c j m D r" and m: "m \<le> 41" and i: "i \<notin> D" "i \<le> 40" and c: "unat (ck_index c) + 41 < 2 ^ 32"
    and k: "length key = 32" and p: "length p < 2 ^ 60" and b: "length (cbc_padded p) \<le> length buf"
  shows "\<exists>r' m'. olm_ratchet_decrypt S r
        (ratchet_message S (rt_ratchet_cipher r) (create_message_keys S (chain_after S i c)) key p) buf =
      (r', decrypted p buf, Some (length p))
    \<and> receiving S key c j m' (insert i D) r' \<and> m' \<le> 41 \<and> rt_ratchet_cipher r' = rt_ratchet_cipher r"
  using receiving_ahead [OF assms] receiving_passed [OF assms] by blast

section \<open>Whole batches\<close>

lemma receiving_all:
  assumes "receiving S key c j m D r" "m \<le> 41" "unat (ck_index c) + 41 < 2 ^ 32" "length key = 32"
    and "distinct order" "set order \<inter> D = {}" "\<forall>i \<in> set order. i \<le> 40 \<and> length (text i) < 2 ^ 60 \<and> length (cbc_padded (text i)) \<le> length buf"
  shows "snd (decrypt_all S r buf (map (\<lambda>i. ratchet_message S (rt_ratchet_cipher r)
      (create_message_keys S (chain_after S i c)) key (text i)) order)) = map (\<lambda>i. Some (text i)) order"
  using assms(1,2,5-7)
proof (induction order arbitrary: m D r)
  case (Cons i order)
  have i: "i \<notin> D" "i \<le> 40" "length (text i) < 2 ^ 60" "length (cbc_padded (text i)) \<le> length buf" using Cons.prems by simp_all
  obtain r' m' where s: "olm_ratchet_decrypt S r (ratchet_message S (rt_ratchet_cipher r)
        (create_message_keys S (chain_after S i c)) key (text i)) buf = (r', decrypted (text i) buf, Some (length (text i)))"
      "receiving S key c j m' (insert i D) r'" "m' \<le> 41" "rt_ratchet_cipher r' = rt_ratchet_cipher r"
    using receiving_step [OF Cons.prems(1,2) i(1,2) assms(3,4) i(3,4)] by blast
  from Cons.IH [OF s(2,3)] Cons.prems show ?case
    by (simp add: s(1,4) take_decrypted case_prod_unfold Let_def)
qed simp

lemma encrypt_all_messages:
  assumes "ratchet_ok r" "elems (rt_sender_chain r) = [s]" "\<forall>p \<in> set ps. length p < 2 ^ 60"
  shows "snd (encrypt_all S r ps) = map (\<lambda>i. ratchet_message S (rt_ratchet_cipher r)
      (create_message_keys S (chain_after S i (sc_chain_key s))) (ckp_public_key (sc_ratchet_key s)) (ps ! i)) [0..<length ps]"
  using assms
proof (induction ps arbitrary: r s)
  case (Cons p ps)
  have rl: "olm_ratchet_encrypt_random_length r \<le> length ([] :: bytes)"
    using Cons.prems(2) olm_list_empty_iff [OF ratchet_list_ok(1) [OF Cons.prems(1)]]
    by (simp add: olm_ratchet_encrypt_random_length_def)
  note old = sending_old [OF Cons.prems(1,2), of S "[]"]
  have p: "length p < 2 ^ 60" using Cons.prems(3) by simp
  let ?n = "olm_ratchet_encrypt_output_length r (length p)"
  have l: "?n = length (sent_message S r [] p)" using ratchet_output_length [OF Cons.prems(1) rl p, of S] .
  have "length (sent_message S r [] p) < 2 ^ 64" using length_sent_message [OF Cons.prems(1) rl p, of S] p by simp
  then have e: "olm_ratchet_encrypt S r p [] (zeros ?n) = (sent S r [], sent_message S r [] p, Some ?n)"
    using ratchet_encrypt_eq [OF Cons.prems(1) rl p, of S "zeros ?n"] by (simp add: l write_at_def)
  have ok: "ratchet_ok (sent S r [])" using Cons.prems(1) rl by (rule sent_ok)
  have cipher: "rt_ratchet_cipher (sent S r []) = rt_ratchet_cipher r" by (simp add: sent_def Let_def)
  have s': "elems (rt_sender_chain (sent S r [])) = [s\<lparr>sc_chain_key := advance_chain_key S (sc_chain_key s)\<rparr>]"
    using elems_sent [OF Cons.prems(1), of S "[]"] by (simp add: old)
  have ms: "snd (encrypt_all S r (p # ps)) = sent_message S r [] p # snd (encrypt_all S (sent S r []) ps)"
    by (simp add: e case_prod_unfold Let_def)
  show ?case
    unfolding ms using Cons.IH [OF ok s'] Cons.prems(3)
    by (simp add: sent_message_def old cipher Let_def upt_conv_Cons map_Suc_upt [symmetric] chain_after_Suc del: upt_Suc funpow.simps)
qed simp

section \<open>Properties\<close>

text \<open>C6: Messages may overtake each other. When one side has sent up to 41 messages on a chain that
  the other side has reached, each of those that arrive is read, in whatever order they
  arrive and whichever of them get lost: a message that came too early leaves the keys of
  those it passed, and none of these is dropped before it is used.\<close>

theorem messages_in_any_order:
  assumes "ratchet_ok a" "ratchet_ok b" "rt_ratchet_cipher a = rt_ratchet_cipher b" "elems (rt_sender_chain a) = [s]"
    and "find_chain (ckp_public_key (sc_ratchet_key s)) (elems (rt_receiver_chains b)) 0 = Some j"
    and "rc_chain_key (elems (rt_receiver_chains b) ! j) = sc_chain_key s"
    and "\<forall>k \<in> set (elems (rt_skipped_message_keys b)). sm_ratchet_key k \<noteq> ckp_public_key (sc_ratchet_key s)"
    and "unat (ck_index (sc_chain_key s)) + 41 < 2 ^ 32" "length ps \<le> OLM_MAX_SKIPPED_MESSAGE_KEYS + 1"
    and "\<forall>p \<in> set ps. length p < 2 ^ 60 \<and> length (cbc_padded p) \<le> length buf"
    and "encrypt_all S a ps = (a', messages)" "distinct order" "set order \<subseteq> {..<length ps}"
  shows "snd (decrypt_all S b buf (map ((!) messages) order)) = map (\<lambda>i. Some (ps ! i)) order"
proof -
  let ?key = "ckp_public_key (sc_ratchet_key s)" and ?c = "sc_chain_key s"
  have key: "length ?key = 32"
    using slots_ok_elems [of 1 sender_chain_ok "rt_sender_chain a" s] assms(1,4)
    by (simp add: ratchet_ok_def sender_chain_ok_def curve25519_key_pair_ok_def)
  have "\<forall>p \<in> set ps. length p < 2 ^ 60" using assms(10) by simp
  from encrypt_all_messages [OF assms(1,4) this, of S] assms(11)
  have ms: "messages = map (\<lambda>i. ratchet_message S (rt_ratchet_cipher b) (create_message_keys S (chain_after S i ?c)) ?key (ps ! i))
      [0..<length ps]" by (simp add: assms(3))
  have ord: "\<forall>i \<in> set order. i \<le> 40 \<and> length (ps ! i) < 2 ^ 60 \<and> length (cbc_padded (ps ! i)) \<le> length buf"
    using assms(9,10,13) by fastforce
  have start: "receiving S ?key ?c j 0 {} b"
    using assms(2,5-7) by (auto simp: receiving_def)
  have "map ((!) messages) order = map (\<lambda>i. ratchet_message S (rt_ratchet_cipher b)
      (create_message_keys S (chain_after S i ?c)) ?key (ps ! i)) order"
    using assms(13) by (auto simp: ms)
  then show ?thesis using receiving_all [OF start _ assms(8) key assms(12) _ ord] by (simp only:) simp
qed

theorem messages_in_any_order_witness:
  "snd (decrypt_all sample_sodium sample_bob (zeros 32)
      (map ((!) (snd (encrypt_all sample_sodium sample_alice [[5, 6], [7], [8, 9, 10]]))) [2, 0, 1])) =
    map (\<lambda>i. Some ([[5, 6], [7], [8, 9, 10]] ! i)) [2, 0, 1]"
proof -
  define s where "s = hd (elems (rt_sender_chain sample_alice))"
  note init = initialised_alice [OF blank_ratchet_ok blank_elems(1), of sample_sodium "[9]" sample_key, folded sample_alice_def]
  have a: "elems (rt_sender_chain sample_alice) = [s]" by (simp add: s_def init)
  have cipher: "rt_ratchet_cipher sample_alice = rt_ratchet_cipher sample_bob"
    by (simp add: sample_alice_def sample_bob_def olm_ratchet_initialise_as_alice_def olm_ratchet_initialise_as_bob_def Let_def)
  obtain a' ms where e: "encrypt_all sample_sodium sample_alice [[5, 6], [7], [8, 9, 10]] = (a', ms)" by force
  show ?thesis
    unfolding e snd_conv
    by (rule messages_in_any_order [OF sample_ratchets_ok cipher a(1) _ _ _ _ _ _ e, of 0])
      (auto simp: s_def init sample_bob_chains sample_bob_skipped)
qed

end
