(* ===== verification/Jni_Env.thy ===== *)
theory Jni_Env
  imports Crypto "HOL-Library.State_Monad"
begin

text \<open>
  The world of the JNI bindings (\<open>android/olm-sdk/src/main/jni\<close>): the Java virtual machine and the
  native heap, as far as the bindings use them. A binding is a computation in the state monad.

  What the environment decides, whether a request for memory is granted and whether the elements
  of a Java array are handed out as a copy, is an infinite sequence of answers; the properties
  are about all of them. The state counts the native blocks and array elements that are in
  use and keeps what was in each block or copy when it was given back.

  A pointer to a native object or a Java array is \<open>None\<close> for null and otherwise its content.

  An array that could not be made and is written to all the same makes the virtual machine abort.
  \<open>jn_crashed\<close> says that this has happened: what a call does afterwards in the model has no meaning,
  and the properties say nothing about it except that the machine has aborted.
\<close>

section \<open>State\<close>

text \<open>
  What is given back: a buffer of random bytes, a buffer for a key or a message, another buffer;
  the copy of an array that the code clears, as it does with keys and messages, and any other copy.
\<close>

datatype owner =
    Random_block
  | Secret_block
  | Buffer_block
  | Secret_copy
  | Array_copy

record jni =
  jn_answers :: "nat \<Rightarrow> bool"
  jn_noise :: "nat \<Rightarrow> nat \<Rightarrow> u8"
  jn_asked :: nat
  jn_blocks :: int
  jn_pins :: int
  jn_returned :: "(owner \<times> bytes) list"
  jn_exception :: "string option"
  jn_crashed :: bool

type_synonym 'a jni_call = "(jni, 'a) state"

abbreviation ret :: "'a \<Rightarrow> 'a jni_call" where
  "ret \<equiv> State_Monad.return"

text \<open>The elements of an array: a copy, or the array itself, pinned.\<close>

record elements =
  el_bytes :: bytes
  el_is_copy :: bool

section \<open>The environment's functions\<close>

definition ask :: "bool jni_call" where
  "ask = State (\<lambda>s. (jn_answers s (jn_asked s), s\<lparr>jn_asked := jn_asked s + 1\<rparr>))"

text \<open>A new block of memory, with whatever was in it before.\<close>

definition malloc :: "nat \<Rightarrow> bytes option jni_call" where
  "malloc n = do {
     granted \<leftarrow> ask;
     if granted then State (\<lambda>s. (Some (out_bytes n (jn_noise s (jn_asked s))), s\<lparr>jn_blocks := jn_blocks s + 1\<rparr>))
     else ret None
   }"

definition free_block :: "owner \<Rightarrow> bytes \<Rightarrow> unit jni_call" where
  "free_block k b = State (\<lambda>s. ((), s\<lparr>jn_blocks := jn_blocks s - 1, jn_returned := (k, b) # jn_returned s\<rparr>))"

text \<open>
  \<open>memset(b, 0, n)\<close>. What it does behind the end of the block is undefined; here the block stays as it
  is then, so that it does not count as cleared.
\<close>

definition memset :: "bytes \<Rightarrow> nat \<Rightarrow> bytes" where
  "memset b n = (if n \<le> length b then zeros n @ drop n b else b)"

definition buffer_bytes :: "bytes option \<Rightarrow> bytes" where
  "buffer_bytes b = (case b of None \<Rightarrow> [] | Some b \<Rightarrow> b)"

text \<open>The memory of an object; the functions of the library clear it before it is freed.\<close>

definition malloc_object :: "bool jni_call" where
  "malloc_object = do {
     granted \<leftarrow> ask;
     if granted then State (\<lambda>s. (True, s\<lparr>jn_blocks := jn_blocks s + 1\<rparr>)) else ret False
   }"

definition free_object :: "unit jni_call" where
  "free_object = State (\<lambda>s. ((), s\<lparr>jn_blocks := jn_blocks s - 1\<rparr>))"

definition GetByteArrayElements :: "bytes \<Rightarrow> elements option jni_call" where
  "GetByteArrayElements arr = do {
     granted \<leftarrow> ask;
     is_copy \<leftarrow> ask;
     if granted then State (\<lambda>s. (Some \<lparr>el_bytes = arr, el_is_copy = is_copy\<rparr>, s\<lparr>jn_pins := jn_pins s + 1\<rparr>))
     else ret None
   }"

text \<open>
  \<open>ReleaseByteArrayElements\<close> with \<open>JNI_ABORT\<close>: a copy is thrown away; a pinned array keeps what was
  written to it. The result is the array. The last variant is the one with
  \<open>if (isCopied) memset(elements, 0, GetArrayLength(env, arr))\<close> in front of it. Nothing is done for a null
  pointer.
\<close>

definition ReleaseByteArrayElements :: "owner \<Rightarrow> bytes option \<Rightarrow> elements option \<Rightarrow> bytes option jni_call" where
  "ReleaseByteArrayElements k arr e =
     (case e of
        None \<Rightarrow> ret arr
      | Some e \<Rightarrow>
          State (\<lambda>s. (if el_is_copy e then arr else Some (el_bytes e),
            s\<lparr>jn_pins := jn_pins s - 1,
              jn_returned := (if el_is_copy e then (k, el_bytes e) # jn_returned s else jn_returned s)\<rparr>)))"

definition release_elements :: "bytes option \<Rightarrow> elements option \<Rightarrow> bytes option jni_call" where
  "release_elements = ReleaseByteArrayElements Array_copy"

definition clear_release_elements :: "bytes option \<Rightarrow> elements option \<Rightarrow> bytes option jni_call" where
  "clear_release_elements arr e =
     ReleaseByteArrayElements Secret_copy arr
       (map_option
         (\<lambda>e. if el_is_copy e then e\<lparr>el_bytes := memset (el_bytes e) (length (buffer_bytes arr))\<rparr> else e) e)"

text \<open>The parameter and the length of an array are signed 32-bit numbers.\<close>

definition jsize :: "nat \<Rightarrow> int" where
  "jsize n = sint (of_nat n :: u32)"

definition throw :: "string \<Rightarrow> unit jni_call" where
  "throw message = State (\<lambda>s. ((), s\<lparr>jn_exception := Some message\<rparr>))"

definition NewByteArray :: "nat \<Rightarrow> bytes option jni_call" where
  "NewByteArray n =
     (if jsize n < 0 then do { throw ''NegativeArraySizeException''; ret None }
      else do {
        granted \<leftarrow> ask;
        if granted then ret (Some (zeros (nat (jsize n))))
        else do { throw ''OutOfMemoryError''; ret None }
      })"

text \<open>The end of the process, in place of a result.\<close>

definition abort_jni :: "'a \<Rightarrow> 'a jni_call" where
  "abort_jni a = State (\<lambda>s. (a, s\<lparr>jn_crashed := True\<rparr>))"

text \<open>\<open>SetByteArrayRegion(env, arr, 0, n, content)\<close>; a null array makes the virtual machine abort.\<close>

definition SetByteArrayRegion :: "bytes option \<Rightarrow> nat \<Rightarrow> bytes \<Rightarrow> bytes option jni_call" where
  "SetByteArrayRegion arr n content =
     (case arr of
        None \<Rightarrow> abort_jni None
      | Some a \<Rightarrow> ret (Some (write_at a 0 (take (nat (jsize n)) content))))"

text \<open>The characters of a string, whichever way they are given.\<close>

definition NewStringUTF :: "'str \<Rightarrow> 'str option jni_call" where
  "NewStringUTF str = do {
     granted \<leftarrow> ask;
     if granted then ret (Some str) else do { throw ''OutOfMemoryError''; ret None }
   }"

text \<open>A class, a field or the characters of a string; they may be missing.\<close>

definition lookup_jni :: "bool jni_call" where
  "lookup_jni = ask"

definition GetStringUTFChars :: "bytes \<Rightarrow> bytes option jni_call" where
  "GetStringUTFChars str = do {
     granted \<leftarrow> ask;
     if granted then State (\<lambda>s. (Some str, s\<lparr>jn_pins := jn_pins s + 1\<rparr>)) else ret None
   }"

definition ReleaseStringUTFChars :: "bytes option \<Rightarrow> unit jni_call" where
  "ReleaseStringUTFChars chars =
     (if chars = None then ret () else State (\<lambda>s. ((), s\<lparr>jn_pins := jn_pins s - 1\<rparr>)))"

text \<open>
  The characters of the string in a field of a Java object, with the messages for a field that is
  not there, a null string and missing memory.
\<close>

definition read_string_field :: "string \<Rightarrow> string \<Rightarrow> string \<Rightarrow> bytes option \<Rightarrow> (string + bytes) jni_call" where
  "read_string_field no_field no_string oom str = do {
     field \<leftarrow> lookup_jni;
     if \<not> field then ret (Inl no_field)
     else
       case str of
         None \<Rightarrow> ret (Inl no_string)
       | Some str \<Rightarrow> do {
           chars \<leftarrow> GetStringUTFChars str;
           ret (case chars of None \<Rightarrow> Inl oom | Some c \<Rightarrow> Inr c)
         }
   }"

definition chars_of :: "string + bytes \<Rightarrow> bytes option" where
  "chars_of r = (case r of Inl _ \<Rightarrow> None | Inr chars \<Rightarrow> Some chars)"

section \<open>What the bindings share\<close>

text \<open>
  The native object behind a Java object: the number in its field \<open>mNativeId\<close>, if it is an instance
  of the expected class.
\<close>

definition getInstanceId :: "bool \<Rightarrow> 'obj option \<Rightarrow> 'obj option jni_call" where
  "getInstanceId is_instance mNativeId = do {
     requiredClass \<leftarrow> lookup_jni;
     if requiredClass \<and> \<not> is_instance then ret None
     else do {
       loaderClass \<leftarrow> lookup_jni;
       if \<not> loaderClass then ret None
       else do {
         instanceIdField \<leftarrow> lookup_jni;
         ret (if instanceIdField then mNativeId else None)
       }
     }
   }"

text \<open>
  \<open>setRandomInBuffer\<close>: whether it succeeded, and the buffer. The callers skip it when no random
  bytes are needed, and pass a null pointer of length zero.
\<close>

definition setRandomInBuffer :: "sodium \<Rightarrow> nat \<Rightarrow> (bool \<times> bytes option) jni_call" where
  "setRandomInBuffer S aRandomSize =
     (if aRandomSize = 0 then ret (False, None)
      else if \<not> so_init S then ret (False, None)
      else do {
        b \<leftarrow> malloc aRandomSize;
        case b of
          None \<Rightarrow> ret (False, None)
        | Some _ \<Rightarrow> State (\<lambda>s. ((True, Some (out_bytes aRandomSize (jn_noise s (jn_asked s)))), s))
      })"

definition random_if_needed :: "sodium \<Rightarrow> nat \<Rightarrow> (bool \<times> bytes option) jni_call" where
  "random_if_needed S n = (if n \<noteq> 0 then setRandomInBuffer S n else ret (True, None))"

text \<open>\<open>if (randomBuffPtr) { memset(randomBuffPtr, 0, randomSize); free(randomBuffPtr); }\<close>\<close>

definition clear_free_random :: "nat \<Rightarrow> bytes option \<Rightarrow> unit jni_call" where
  "clear_free_random randomSize b =
     (case b of None \<Rightarrow> ret () | Some b \<Rightarrow> free_block Random_block (memset b randomSize))"

text \<open>\<open>if (errorMessage) ThrowNew(env, ..., errorMessage)\<close>\<close>

definition throw_if :: "string option \<Rightarrow> unit jni_call" where
  "throw_if errorMessage = (case errorMessage of None \<Rightarrow> ret () | Some m \<Rightarrow> throw m)"

text \<open>The new array for a result, with the check that it was made and without.\<close>

definition return_bytes :: "string \<Rightarrow> nat \<Rightarrow> bytes \<Rightarrow> (string option \<times> bytes option) jni_call" where
  "return_bytes oom n content = do {
     arr \<leftarrow> NewByteArray n;
     case arr of
       None \<Rightarrow> ret (Some oom, None)
     | Some a \<Rightarrow> do { arr \<leftarrow> SetByteArrayRegion (Some a) n content; ret (None, arr) }
   }"

definition return_bytes_unchecked :: "nat \<Rightarrow> bytes \<Rightarrow> (string option \<times> bytes option) jni_call" where
  "return_bytes_unchecked n content = do {
     arr \<leftarrow> NewByteArray n;
     arr \<leftarrow> SetByteArrayRegion arr n content;
     ret (None, arr)
   }"

text \<open>\<open>memset(b, 0, n); free(b);\<close> of a buffer that held a key or a message.\<close>

definition free_secret :: "nat \<Rightarrow> bytes \<Rightarrow> unit jni_call" where
  "free_secret n b = free_block Secret_block (memset b n)"

text \<open>
  A new buffer of \<open>n\<close> bytes, the function of the library that fills it, and the array that is
  returned; the buffer is freed at the end.
\<close>

definition fill_and_return ::
    "nat \<Rightarrow> string \<Rightarrow> ('obj \<Rightarrow> bytes \<Rightarrow> 'obj \<times> bytes \<times> nat option) \<Rightarrow> ('obj \<Rightarrow> string) \<Rightarrow>
     (nat \<Rightarrow> bytes \<Rightarrow> (string option \<times> bytes option) jni_call) \<Rightarrow> (bytes \<Rightarrow> unit jni_call) \<Rightarrow>
     'obj \<Rightarrow> ('obj \<times> string option \<times> bytes option) jni_call" where
  "fill_and_return n oom fill last_error return_array free_buffer obj = do {
     buffer \<leftarrow> malloc n;
     case buffer of
       None \<Rightarrow> ret (obj, Some oom, None)
     | Some buffer \<Rightarrow>
         (case fill obj buffer of
            (obj, buffer, result) \<Rightarrow> do {
              (errorMessage, arr) \<leftarrow>
                (case result of
                   None \<Rightarrow> ret (Some (last_error obj), None)
                 | Some n \<Rightarrow> return_array n buffer);
              free_buffer buffer;
              ret (obj, errorMessage, arr)
            })
   }"

text \<open>What follows an error in the functions that make an object: it is cleared and freed.\<close>

definition dispose_on_error :: "'obj option \<Rightarrow> string option \<Rightarrow> 'obj option jni_call" where
  "dispose_on_error ptr errorMessage =
     (if errorMessage = None then ret ptr
      else do {
        (if ptr = None then ret () else free_object);
        throw_if errorMessage;
        ret None
      })"

text \<open>
  The common part of the functions \<open>serializeJni\<close>, with the text they use when the key cannot be
  read, and of the functions \<open>deserializeJni\<close>. A pickle is decrypted in place, in the elements of
  the Java array, which is part of the result.
\<close>

definition serialize_with ::
    "string \<Rightarrow> nat \<Rightarrow> ('obj \<Rightarrow> bytes \<Rightarrow> bytes \<Rightarrow> 'obj \<times> bytes \<times> nat option) \<Rightarrow> ('obj \<Rightarrow> string) \<Rightarrow>
     'obj \<Rightarrow> bytes \<Rightarrow> ('obj \<times> string option \<times> bytes option) jni_call" where
  "serialize_with key_oom pickledLength pickle last_error obj aKeyBuffer = do {
     keyPtr \<leftarrow> GetByteArrayElements aKeyBuffer;
     (obj, errorMessage, pickledDataRet) \<leftarrow>
       (case keyPtr of
          None \<Rightarrow> ret (obj, Some key_oom, None)
        | Some key \<Rightarrow>
            fill_and_return pickledLength ''pickledPtr buffer OOM'' (\<lambda>obj. pickle obj (el_bytes key)) last_error
              (\<lambda>_. return_bytes_unchecked pickledLength) (free_block Buffer_block) obj);
     aKeyBuffer \<leftarrow> clear_release_elements (Some aKeyBuffer) keyPtr;
     ret (obj, errorMessage, pickledDataRet)
   }"

definition deserialize_with ::
    "('obj \<Rightarrow> bytes \<Rightarrow> bytes \<Rightarrow> 'obj \<times> bytes \<times> nat option) \<Rightarrow> ('obj \<Rightarrow> string) \<Rightarrow>
     'obj \<Rightarrow> bytes \<Rightarrow> bytes \<Rightarrow> ('obj \<times> string option \<times> bytes option) jni_call" where
  "deserialize_with unpickle last_error obj aSerializedDataBuffer aKeyBuffer = do {
     keyPtr \<leftarrow> GetByteArrayElements aKeyBuffer;
     pickledPtr \<leftarrow> (if keyPtr = None then ret None else GetByteArrayElements aSerializedDataBuffer);
     let (obj, errorMessage, pickledPtr) =
       (case keyPtr of
          None \<Rightarrow> (obj, Some ''keyPtr JNI allocation OOM'', None)
        | Some key \<Rightarrow>
            (case pickledPtr of
               None \<Rightarrow> (obj, Some ''pickledPtr JNI allocation OOM'', None)
             | Some e \<Rightarrow>
                 (case unpickle obj (el_bytes key) (el_bytes e) of
                    (obj, pickled, result) \<Rightarrow>
                      (obj, if result = None then Some (last_error obj) else None, Some (e\<lparr>el_bytes := pickled\<rparr>)))));
     aKeyBuffer \<leftarrow> clear_release_elements (Some aKeyBuffer) keyPtr;
     aSerializedDataBuffer \<leftarrow> release_elements (Some aSerializedDataBuffer) pickledPtr;
     ret (obj, errorMessage, aSerializedDataBuffer)
   }"

section \<open>Weakest preconditions\<close>

definition wp :: "'a jni_call \<Rightarrow> ('a \<Rightarrow> jni \<Rightarrow> bool) \<Rightarrow> jni \<Rightarrow> bool" where
  "wp m Q s \<longleftrightarrow> (case run_state m s of (a, s') \<Rightarrow> Q a s')"

named_theorems wp_simps \<open>the weakest precondition of each computation\<close>

lemma wp_bind [wp_simps]: "wp (m \<bind> f) Q s \<longleftrightarrow> wp m (\<lambda>a. wp (f a) Q) s"
  by (simp add: wp_def case_prod_unfold)

lemma wp_ret [wp_simps]: "wp (ret a) Q s \<longleftrightarrow> Q a s"
  by (simp add: wp_def)

lemma wp_State [wp_simps]: "wp (State f) Q s \<longleftrightarrow> Q (fst (f s)) (snd (f s))"
  by (simp add: wp_def case_prod_unfold)

lemma wp_if [wp_simps]: "wp (if b then m else m') Q s \<longleftrightarrow> (if b then wp m Q s else wp m' Q s)"
  by simp

lemma wp_case_option [wp_simps]:
  "wp (case v of None \<Rightarrow> m | Some a \<Rightarrow> f a) Q s \<longleftrightarrow> (case v of None \<Rightarrow> wp m Q s | Some a \<Rightarrow> wp (f a) Q s)"
  by (cases v) simp_all

lemma wp_case_sum [wp_simps]:
  "wp (case v of Inl a \<Rightarrow> f a | Inr b \<Rightarrow> g b) Q s \<longleftrightarrow> (case v of Inl a \<Rightarrow> wp (f a) Q s | Inr b \<Rightarrow> wp (g b) Q s)"
  by (cases v) simp_all

lemma wp_case_prod [wp_simps]: "wp (case v of (a, b) \<Rightarrow> f a b) Q s \<longleftrightarrow> wp (f (fst v) (snd v)) Q s"
  by (simp add: case_prod_unfold)

lemma wp_mono: "wp m Q s \<Longrightarrow> (\<And>a s'. Q a s' \<Longrightarrow> Q' a s') \<Longrightarrow> wp m Q' s"
  by (auto simp: wp_def)

lemma wp_ask [wp_simps]: "wp ask Q s \<longleftrightarrow> Q (jn_answers s (jn_asked s)) (s\<lparr>jn_asked := jn_asked s + 1\<rparr>)"
  by (simp add: ask_def wp_simps)

lemmas jni_primitives [wp_simps] = malloc_def free_block_def malloc_object_def free_object_def GetByteArrayElements_def
  ReleaseByteArrayElements_def release_elements_def clear_release_elements_def throw_def NewByteArray_def abort_jni_def SetByteArrayRegion_def NewStringUTF_def
  setRandomInBuffer_def random_if_needed_def clear_free_random_def throw_if_def return_bytes_def return_bytes_unchecked_def
  lookup_jni_def read_string_field_def chars_of_def GetStringUTFChars_def ReleaseStringUTFChars_def getInstanceId_def free_secret_def fill_and_return_def
  dispose_on_error_def serialize_with_def deserialize_with_def

section \<open>Resources\<close>

text \<open>
  Buffers of random bytes, keys and messages and copies of the arrays with keys and messages were zero
  when they were given back. Nothing is said of the other buffers and copies, which the code does
  not clear; among them are the copies in which \<open>deserializeJni\<close> and \<open>rehydrateJni\<close> decrypt.
\<close>

definition to_be_cleared :: "owner \<Rightarrow> bool" where
  "to_be_cleared k \<longleftrightarrow> k = Random_block \<or> k = Secret_block \<or> k = Secret_copy"

definition clean :: "(owner \<times> bytes) list \<Rightarrow> bool" where
  "clean = list_all (\<lambda>(k, b). to_be_cleared k \<longrightarrow> list_all (\<lambda>x. x = 0) b)"

lemma clean_simps [simp]:
  "clean []" "clean ((k, zeros n) # l) = clean l" "clean ((Buffer_block, b) # l) = clean l"
  "clean ((Array_copy, b) # l) = clean l"
  by (simp_all add: clean_def list_all_iff to_be_cleared_def)

lemma memset_all [simp]: "length b = n \<Longrightarrow> memset b n = zeros n"
  by (simp add: memset_def)

lemma buffer_bytes_simps [simp]: "buffer_bytes None = []" "buffer_bytes (Some b) = b"
  by (simp_all add: buffer_bytes_def)

text \<open>
  A call that leaves \<open>n\<close> more native blocks in use than before and holds on to no array, and that
  clears what it ought to clear; the virtual machine does not come back to life.
\<close>

definition kept :: "int \<Rightarrow> jni \<Rightarrow> jni \<Rightarrow> bool" where
  "kept n s s' \<longleftrightarrow> jn_blocks s' = jn_blocks s + n \<and> jn_pins s' = jn_pins s
     \<and> (clean (jn_returned s) \<longrightarrow> clean (jn_returned s')) \<and> (jn_crashed s \<longrightarrow> jn_crashed s')"

text \<open>An environment that grants everything, and a state in which nothing is in use.\<close>

definition generous :: "jni \<Rightarrow> bool" where
  "generous s \<longleftrightarrow> (\<forall>i. jn_answers s i)"

definition jni_start :: "(nat \<Rightarrow> bool) \<Rightarrow> jni" where
  "jni_start answers =
     \<lparr>jn_answers = answers, jn_noise = (\<lambda>_ _. 0xA5), jn_asked = 0, jn_blocks = 0, jn_pins = 0,
      jn_returned = [], jn_exception = None, jn_crashed = False\<rparr>"

lemma jsize_small: "n < 2 ^ 31 \<Longrightarrow> jsize n = int n"
  by (simp add: jsize_def signed_of_nat signed_take_bit_int_eq_self)

named_theorems jni_kept \<open>what the calls keep\<close>

lemmas jni_vcg = wp_simps kept_def Let_def

text \<open>A pair is either split or taken apart with its projections, as \<open>wp_case_prod\<close> does.\<close>

lemmas jni_cases = option.splits sum.splits if_splits

lemmas jni_splits = option.splits sum.splits if_splits prod.splits

end
