(* ===== verification/Buffer_Lengths.thy ===== *)
theory Buffer_Lengths
  imports Olm_Api Outbound_Group Inbound_Group Sas Pk
begin

text \<open>
  The functions of the library leave each buffer as long as it was, whatever the arguments are. The
  bindings clear a buffer with the length they asked for, so this is what makes them clear all of it.
\<close>

named_theorems buffer_lengths \<open>the length of a buffer after a call\<close>

declare case_prod_beta [buffer_lengths]

section \<open>Encodings and ciphers\<close>

lemma length_olm_unset [simp]: "length (olm_unset m pos n) = length m"
  by (induction m pos n rule: olm_unset.induct) simp_all

lemma length_encode_loop [simp]: "length (encode_loop m pos out n) = length m"
  by (induction m pos out n rule: encode_loop.induct) (simp_all add: encode_group_def Let_def)

lemma length_decode_loop [simp]: "length (decode_loop m pos out n) = length m"
  by (induction m pos out n rule: decode_loop.induct) (simp_all add: decode_group_def Let_def)

lemma length_encode_tail [simp]: "length (fst (encode_tail m pos out n)) = length m"
  by (simp add: encode_tail_def Let_def)

lemma length_decode_tail [simp]: "length (decode_tail m pos out n) = length m"
  by (simp add: decode_tail_def Let_def)

lemma length_base64_buffers [simp]:
  "length (fst (olm_encode_base64 m input n output)) = length m"
  "length (fst (olm_decode_base64 m input n output)) = length m"
  by (simp_all add: olm_encode_base64_def olm_decode_base64_def Let_def case_prod_beta)

lemma length_decrypted [simp]: "length (fst (aes_sha_256_cipher_decrypt S i key input c b)) = length b"
  using aes_sha_256_decrypt_bound [of S i key input c b] by (cases "aes_sha_256_cipher_decrypt S i key input c b") auto

section \<open>Sessions\<close>

lemma length_verified [simp]: "length (fst (verify_mac_and_decrypt S cipher k reader b)) = length b"
  by (simp add: verify_mac_and_decrypt_def)

lemma length_existing_chain [simp]:
  "length (fst (verify_mac_and_decrypt_for_existing_chain S r chain reader b)) = length b"
  by (simp add: verify_mac_and_decrypt_for_existing_chain_def Let_def)

lemma length_new_chain [simp]: "length (fst (verify_mac_and_decrypt_for_new_chain S r reader b)) = length b"
  by (simp add: verify_mac_and_decrypt_for_new_chain_def Let_def case_prod_beta)

lemma length_try_skipped [simp]: "length (fst (try_skipped S cipher reader keys i b)) = length b"
proof (induction S cipher reader keys i b rule: try_skipped.induct)
  case (2 S cipher reader k keys i b)
  obtain b' r where "verify_mac_and_decrypt S cipher (sm_message_key k) reader b = (b', r)" by force
  moreover have "length b' = length b" using length_verified [of S cipher "sm_message_key k" reader b] calculation by simp
  ultimately show ?case using 2 by (cases r) simp_all
qed simp

lemma length_ratchet_decrypt [simp]: "length (fst (snd (olm_ratchet_decrypt S r input b))) = length b"
proof -
  have "length b' = length b" if "verify_mac_and_decrypt_for_new_chain S r reader b = (b', x)" for reader b' x
    using length_new_chain [of S r reader b] that by simp
  moreover have "length b' = length b" if "verify_mac_and_decrypt_for_existing_chain S r chain reader b = (b', x)"
    for chain reader b' x
    using length_existing_chain [of S r chain reader b] that by simp
  moreover have "length b' = length b" if "try_skipped S cipher reader keys i b = (b', x)" for cipher reader keys i b' x
    using length_try_skipped [of S cipher reader keys i b] that by simp
  ultimately show ?thesis
    unfolding olm_ratchet_decrypt_def Let_def
    by (simp only: if_distrib [of "\<lambda>x. length (fst (snd x))"] split: prod.split option.split) simp
qed

lemma length_session_decrypt [simp]: "length (fst (snd (olm_session_decrypt S s t m b))) = length b"
  by (auto simp: olm_session_decrypt_def dest: arg_cong [where f = "\<lambda>r. length (fst (snd r))"]
      split: prod.split option.split)

lemma length_olm_decrypt [buffer_lengths]:
  "length (fst (snd (snd (olm_decrypt S s t m b)))) = length b"
  by (simp add: olm_decrypt_def Let_def case_prod_beta split: prod.split option.split)

section \<open>Group sessions\<close>

lemma length_counter_bytes [simp]: "length (counter_bytes n c) = n"
  by (induction n arbitrary: c) simp_all

lemma length_group_key [buffer_lengths]: "length (fst (snd (olm_outbound_group_session_key S og b))) = length b"
proof -
  have n: "olm_outbound_group_session_key_length = 306"
    by (simp add: olm_outbound_group_session_key_length_def b64_lengths b64_length_def)
  show ?thesis
    by (simp add: olm_outbound_group_session_key_def n Let_def case_prod_beta)
qed

lemma length_exported [buffer_lengths]: "length (fst (snd (olm_export_inbound_group_session S ig b i))) = length b"
proof -
  have n: "olm_export_inbound_group_session_length = 220"
    by (simp add: olm_export_inbound_group_session_length_def b64_lengths b64_length_def)
  show ?thesis
    by (auto simp: olm_export_inbound_group_session_def n Let_def case_prod_beta split: prod.split option.split)
qed

lemma length_group_decrypt [buffer_lengths]: "length (fst (snd (snd (olm_group_decrypt S ig m b)))) = length b"
  by (simp add: olm_group_decrypt_def inbound_decrypt_def Let_def case_prod_beta split: option.split)

section \<open>Public keys, accounts and short authentication strings\<close>

lemma length_pk_private_key [buffer_lengths]: "length (fst (snd (olm_pk_get_private_key d b))) = length b"
  by (simp add: olm_pk_get_private_key_def)

lemma length_pk_decrypt [buffer_lengths]: "length (fst (snd (snd (olm_pk_decrypt S d k mac c b)))) = length b"
  by (simp add: olm_pk_decrypt_def Let_def case_prod_beta split: prod.split option.split)

lemma length_their_key [buffer_lengths]: "length (fst (snd (olm_sas_set_their_key S s k))) = length k"
  by (simp add: olm_sas_set_their_key_def Let_def case_prod_beta)

lemma length_account_random [buffer_lengths]:
  "length (fst (snd (olm_create_account S a random))) = length random"
  "length (fst (snd (api_olm_account_generate_fallback_key S a random))) = length random"
  "api_olm_account_generate_one_time_keys S a n random = Some r \<Longrightarrow> length (fst (snd r)) = length random"
  "length (fst (snd (api_olm_account_dehydrate S a key random nonce device))) = length random"
  by (auto simp: olm_create_account_def api_olm_account_generate_fallback_key_def api_olm_account_generate_one_time_keys_def
      api_olm_account_dehydrate_def Let_def case_prod_beta split: option.splits prod.splits)

end
