(* ===== verification/Jni_Account.thy ===== *)
theory Jni_Account
  imports Jni_Env Buffer_Lengths
begin

text \<open>
  \<open>olm_account.c\<close> and \<open>olm_utility.c\<close> of the bindings. The object is the first component of each
  result, \<open>None\<close> for a null pointer; Java arrays that a function writes to are part of the result.
\<close>

section \<open>The utility object\<close>

definition initializeUtilityMemory :: "utility option jni_call" where
  "initializeUtilityMemory = do {
     granted \<leftarrow> malloc_object;
     ret (if granted then Some olm_utility else None)
   }"

definition createUtilityJni :: "utility option jni_call" where
  "createUtilityJni = do {
     utilityPtr \<leftarrow> initializeUtilityMemory;
     throw_if (if utilityPtr = None then Some ''init OOM'' else None);
     ret utilityPtr
   }"

definition releaseUtilityJni :: "utility option \<Rightarrow> unit jni_call" where
  "releaseUtilityJni utilityPtr = (if utilityPtr = None then ret () else free_object)"

text \<open>The result is null when the signature is valid, and otherwise the message of the error.\<close>

definition verifyEd25519SignatureJni ::
    "sodium \<Rightarrow> utility option \<Rightarrow> bytes option \<Rightarrow> bytes option \<Rightarrow> bytes option \<Rightarrow>
     (utility option \<times> bytes option \<times> string option) jni_call" where
  "verifyEd25519SignatureJni S utilityPtr aSignatureBuffer aKeyBuffer aMessageBuffer = do {
     (utilityPtr, errorMessageRetValue, signaturePtr, keyPtr, messagePtr) \<leftarrow>
       (case utilityPtr of
          None \<Rightarrow> ret (None, None, None, None, None)
        | Some utility \<Rightarrow>
            if aSignatureBuffer = None \<or> aKeyBuffer = None \<or> aMessageBuffer = None then
              ret (Some utility, None, None, None, None)
            else do {
              signaturePtr \<leftarrow> GetByteArrayElements (the aSignatureBuffer);
              case signaturePtr of
                None \<Rightarrow> ret (Some utility, None, None, None, None)
              | Some es \<Rightarrow> do {
                  keyPtr \<leftarrow> GetByteArrayElements (the aKeyBuffer);
                  case keyPtr of
                    None \<Rightarrow> ret (Some utility, None, Some es, None, None)
                  | Some ek \<Rightarrow> do {
                      messagePtr \<leftarrow> GetByteArrayElements (the aMessageBuffer);
                      case messagePtr of
                        None \<Rightarrow> ret (Some utility, None, Some es, Some ek, None)
                      | Some em \<Rightarrow> do {
                          let (utility, signature, result) =
                            olm_ed25519_verify S utility (el_bytes ek) (el_bytes em) (el_bytes es);
                          errorMessageRetValue \<leftarrow>
                            (if result = None then NewStringUTF (olm_utility_last_error utility) else ret None);
                          ret (Some utility, errorMessageRetValue, Some (es\<lparr>el_bytes := signature\<rparr>), Some ek, Some em)
                        }
                    }
                }
            });
     aSignatureBuffer \<leftarrow> release_elements aSignatureBuffer signaturePtr;
     aKeyBuffer \<leftarrow> release_elements aKeyBuffer keyPtr;
     aMessageBuffer \<leftarrow> clear_release_elements aMessageBuffer messagePtr;
     ret (utilityPtr, aSignatureBuffer, errorMessageRetValue)
   }"

definition sha256Jni :: "sodium \<Rightarrow> utility option \<Rightarrow> bytes option \<Rightarrow> (utility option \<times> bytes option) jni_call" where
  "sha256Jni S utilityPtr aMessageToHashBuffer = do {
     (utilityPtr, sha256Ret, messagePtr) \<leftarrow>
       (case utilityPtr of
          None \<Rightarrow> ret (None, None, None)
        | Some utility \<Rightarrow>
            (case aMessageToHashBuffer of
               None \<Rightarrow> ret (Some utility, None, None)
             | Some message \<Rightarrow> do {
                 messagePtr \<leftarrow> GetByteArrayElements message;
                 case messagePtr of
                   None \<Rightarrow> ret (Some utility, None, None)
                 | Some em \<Rightarrow> do {
                     hashValuePtr \<leftarrow> malloc olm_sha256_length;
                     case hashValuePtr of
                       None \<Rightarrow> ret (Some utility, None, Some em)
                     | Some hash \<Rightarrow> do {
                         let (utility, hash, result) = olm_sha256 S utility (el_bytes em) hash;
                         sha256Ret \<leftarrow>
                           (case result of
                              None \<Rightarrow> ret None
                            | Some n \<Rightarrow> do { (_, arr) \<leftarrow> return_bytes_unchecked n hash; ret arr });
                         free_block Buffer_block hash;
                         ret (Some utility, sha256Ret, Some em)
                       }
                   }
               }));
     aMessageToHashBuffer \<leftarrow> clear_release_elements aMessageToHashBuffer messagePtr;
     ret (utilityPtr, sha256Ret)
   }"

section \<open>Accounts\<close>

definition initializeAccountMemory :: "account option jni_call" where
  "initializeAccountMemory = do {
     granted \<leftarrow> malloc_object;
     ret (if granted then Some olm_account else None)
   }"

definition createNewAccountJni :: "sodium \<Rightarrow> account option jni_call" where
  "createNewAccountJni S = do {
     accountPtr \<leftarrow> initializeAccountMemory;
     (accountPtr, errorMessage) \<leftarrow>
       (case accountPtr of
          None \<Rightarrow> ret (None, Some ''init account OOM'')
        | Some account \<Rightarrow> do {
            let randomSize = olm_create_account_random_length account;
            (ok, randomBuffPtr) \<leftarrow> random_if_needed S randomSize;
            let (account, random, errorMessage) =
              (if \<not> ok then (account, randomBuffPtr, Some ''random buffer init'')
               else case olm_create_account S account (buffer_bytes randomBuffPtr) of
                      (account, random, result) \<Rightarrow>
                        (account, map_option (\<lambda>_. random) randomBuffPtr,
                         if result = None then Some (olm_account_last_error account) else None));
            clear_free_random randomSize random;
            ret (Some account, errorMessage)
          });
     dispose_on_error accountPtr errorMessage
   }"

definition releaseAccountJni :: "account option \<Rightarrow> unit jni_call" where
  "releaseAccountJni accountPtr = (if accountPtr = None then ret () else free_object)"

text \<open>
  The three functions that return a JSON text allocate what the length function says and return an
  array of this length.
\<close>

definition json_jni ::
    "(account \<Rightarrow> nat) \<Rightarrow> (account \<Rightarrow> bytes \<Rightarrow> account \<times> bytes \<times> nat option) \<Rightarrow>
     string \<Rightarrow> string \<Rightarrow> account option \<Rightarrow> (account option \<times> bytes option) jni_call" where
  "json_jni json_length json oom array_oom accountPtr = do {
     (accountPtr, errorMessage, byteArrayRetValue) \<leftarrow>
       (case accountPtr of
          None \<Rightarrow> ret (None, Some ''invalid Account ptr'', None)
        | Some account \<Rightarrow> do {
            let keysLength = json_length account;
            (account, errorMessage, arr) \<leftarrow>
              fill_and_return keysLength oom json olm_account_last_error
                (\<lambda>_. return_bytes array_oom keysLength) (free_block Buffer_block) account;
            ret (Some account, errorMessage, arr)
          });
     throw_if errorMessage;
     ret (accountPtr, byteArrayRetValue)
   }"

definition identityKeysJni :: "account option \<Rightarrow> (account option \<times> bytes option) jni_call" where
  "identityKeysJni =
     json_jni olm_account_identity_keys_length olm_account_identity_keys ''identity keys array OOM'' ''byte array OOM''"

definition oneTimeKeysJni :: "account option \<Rightarrow> (account option \<times> bytes option) jni_call" where
  "oneTimeKeysJni =
     json_jni olm_account_one_time_keys_length olm_account_one_time_keys ''one time keys array OOM'' ''return byte array OOM''"

definition fallbackKeyJni :: "account option \<Rightarrow> (account option \<times> bytes option) jni_call" where
  "fallbackKeyJni =
     json_jni olm_account_unpublished_fallback_key_length olm_account_unpublished_fallback_key
       ''fallback key OOM'' ''return byte array OOM''"

text \<open>\<open>-1\<close> for a null pointer.\<close>

definition maxOneTimeKeysJni :: "account option \<Rightarrow> int" where
  "maxOneTimeKeysJni accountPtr =
     (case accountPtr of
        None \<Rightarrow> -1
      | Some account \<Rightarrow> int (api_olm_account_max_number_of_one_time_keys account))"

text \<open>
  \<open>None\<close> in place of the account: the call reads past the random bytes. \<open>(size_t)aNumberOfKeys\<close>
  extends the sign.
\<close>

definition to_size :: "u32 \<Rightarrow> nat" where
  "to_size n = nat (sint n mod 2 ^ 64)"

definition generateOneTimeKeysJni :: "sodium \<Rightarrow> account option \<Rightarrow> u32 \<Rightarrow> account option option jni_call" where
  "generateOneTimeKeysJni S accountPtr aNumberOfKeys =
     (case accountPtr of
        None \<Rightarrow> do { throw ''invalid Account ptr''; ret (Some None) }
      | Some account \<Rightarrow> do {
          let randomLength = api_olm_account_generate_one_time_keys_random_length account (to_size aNumberOfKeys);
          (ok, randomBufferPtr) \<leftarrow> random_if_needed S randomLength;
          if \<not> ok then do {
            clear_free_random randomLength randomBufferPtr;
            throw ''random buffer init'';
            ret (Some (Some account))
          }
          else
            case api_olm_account_generate_one_time_keys S account (to_size aNumberOfKeys) (buffer_bytes randomBufferPtr) of
              None \<Rightarrow> ret None
            | Some (account, random, result) \<Rightarrow> do {
                clear_free_random randomLength (map_option (\<lambda>_. random) randomBufferPtr);
                throw_if (if result = None then Some (olm_account_last_error account) else None);
                ret (Some (Some account))
              }
        })"

text \<open>The session is given by its number; only its base key is read.\<close>

definition removeOneTimeKeysJni :: "account option \<Rightarrow> session option \<Rightarrow> account option jni_call" where
  "removeOneTimeKeysJni accountPtr sessionPtr =
     (case sessionPtr of
        None \<Rightarrow> do { throw ''invalid session ptr''; ret accountPtr }
      | Some session \<Rightarrow>
          (case accountPtr of
             None \<Rightarrow> do { throw ''invalid account ptr''; ret None }
           | Some account \<Rightarrow>
               (case olm_remove_one_time_keys account session of
                  (account, result) \<Rightarrow> do {
                    throw_if (if result = None then Some (olm_account_last_error account) else None);
                    ret (Some account)
                  })))"

definition markOneTimeKeysAsPublishedJni :: "account option \<Rightarrow> account option jni_call" where
  "markOneTimeKeysAsPublishedJni accountPtr =
     (case accountPtr of
        None \<Rightarrow> do { throw ''invalid account ptr''; ret None }
      | Some account \<Rightarrow>
          (case api_olm_account_mark_keys_as_published account of
             (account, result) \<Rightarrow> do {
               throw_if (if result = olm_error then Some (olm_account_last_error account) else None);
               ret (Some account)
             }))"

definition generateFallbackKeyJni :: "sodium \<Rightarrow> account option \<Rightarrow> account option jni_call" where
  "generateFallbackKeyJni S accountPtr =
     (case accountPtr of
        None \<Rightarrow> do { throw ''invalid Account ptr''; ret None }
      | Some account \<Rightarrow> do {
          let randomLength = api_olm_account_generate_fallback_key_random_length account;
          (ok, randomBufferPtr) \<leftarrow> random_if_needed S randomLength;
          let (account, random, errorMessage) =
            (if \<not> ok then (account, randomBufferPtr, Some ''random buffer init'')
             else case api_olm_account_generate_fallback_key S account (buffer_bytes randomBufferPtr) of
                    (account, random, result) \<Rightarrow>
                      (account, map_option (\<lambda>_. random) randomBufferPtr,
                       if result = None then Some (olm_account_last_error account) else None));
          clear_free_random randomLength random;
          throw_if errorMessage;
          ret (Some account)
        })"

definition forgetFallbackKeyJni :: "account option \<Rightarrow> account option jni_call" where
  "forgetFallbackKeyJni accountPtr =
     (case accountPtr of
        None \<Rightarrow> do { throw ''invalid Account ptr''; ret None }
      | Some account \<Rightarrow> ret (Some (api_olm_account_forget_old_fallback_key account)))"

definition signMessageJni :: "sodium \<Rightarrow> account option \<Rightarrow> bytes option \<Rightarrow> (account option \<times> bytes option) jni_call" where
  "signMessageJni S accountPtr aMessage = do {
     (accountPtr, errorMessage, signedMsgRetValueBuffer) \<leftarrow>
       (case aMessage of
          None \<Rightarrow> ret (accountPtr, Some ''invalid aMessage param'', None)
        | Some message \<Rightarrow>
            (case accountPtr of
               None \<Rightarrow> ret (None, Some ''invalid account ptr'', None)
             | Some account \<Rightarrow> do {
                 let signatureLength = api_olm_account_signature_length account;
                 messageToSign \<leftarrow> GetByteArrayElements message;
                 (account, errorMessage, arr) \<leftarrow>
                   (case messageToSign of
                      None \<Rightarrow> ret (account, Some ''message JNI allocation OOM'', None)
                    | Some e \<Rightarrow>
                        fill_and_return signatureLength ''signature allocation OOM''
                          (\<lambda>a. api_olm_account_sign S a (el_bytes e)) olm_account_last_error
                          (\<lambda>_. return_bytes_unchecked signatureLength) (free_block Buffer_block) account);
                 aMessage \<leftarrow> release_elements (Some message) messageToSign;
                 ret (Some account, errorMessage, arr)
               }));
     throw_if errorMessage;
     ret (accountPtr, signedMsgRetValueBuffer)
   }"

subsection \<open>Pickling\<close>

definition account_serializeJni :: "sodium \<Rightarrow> account option \<Rightarrow> bytes option \<Rightarrow> (account option \<times> bytes option) jni_call" where
  "account_serializeJni S accountPtr aKeyBuffer = do {
     (accountPtr, errorMessage, pickledDataRetValue) \<leftarrow>
       (case aKeyBuffer of
          None \<Rightarrow> ret (accountPtr, Some ''invalid key'', None)
        | Some key \<Rightarrow>
            (case accountPtr of
               None \<Rightarrow> ret (None, Some ''invalid account ptr'', None)
             | Some account \<Rightarrow> do {
                 (account, errorMessage, arr) \<leftarrow>
                   serialize_with ''keyPtr JNI allocation OOM'' (api_olm_pickle_account_length account)
                     (api_olm_pickle_account S) olm_account_last_error account key;
                 ret (Some account, errorMessage, arr)
               }));
     throw_if errorMessage;
     ret (accountPtr, pickledDataRetValue)
   }"

definition account_deserializeJni ::
    "sodium \<Rightarrow> bytes option \<Rightarrow> bytes option \<Rightarrow> (account option \<times> bytes option) jni_call" where
  "account_deserializeJni S aSerializedDataBuffer aKeyBuffer = do {
     (accountPtr, errorMessage, aSerializedDataBuffer) \<leftarrow>
       (case aKeyBuffer of
          None \<Rightarrow> ret (None, Some ''invalid key'', aSerializedDataBuffer)
        | Some key \<Rightarrow>
            (case aSerializedDataBuffer of
               None \<Rightarrow> ret (None, Some ''invalid serialized data'', None)
             | Some data \<Rightarrow> do {
                 accountPtr \<leftarrow> initializeAccountMemory;
                 case accountPtr of
                   None \<Rightarrow> ret (None, Some ''account failure OOM'', Some data)
                 | Some account \<Rightarrow> do {
                     (account, errorMessage, arr) \<leftarrow>
                       deserialize_with (api_olm_unpickle_account S) olm_account_last_error account data key;
                     ret (Some account, errorMessage, arr)
                   }
               }));
     accountPtr \<leftarrow> dispose_on_error accountPtr errorMessage;
     ret (accountPtr, aSerializedDataBuffer)
   }"

subsection \<open>Dehydrated devices\<close>

text \<open>The result is an array of two arrays, the nonce and the device.\<close>

definition dehydrated_arrays ::
    "nat \<Rightarrow> bytes \<Rightarrow> nat \<Rightarrow> bytes \<Rightarrow> (string option \<times> (bytes \<times> bytes) option) jni_call" where
  "dehydrated_arrays nonceLength nonce deviceLength device = do {
     byteArrayClass \<leftarrow> lookup_jni;
     nonceBuffer \<leftarrow> NewByteArray nonceLength;
     deviceBuffer \<leftarrow> NewByteArray deviceLength;
     if \<not> byteArrayClass \<or> nonceBuffer = None \<or> deviceBuffer = None then
       ret (Some ''result JNI allocation OOM'', None)
     else do {
       nonceBuffer \<leftarrow> SetByteArrayRegion nonceBuffer nonceLength nonce;
       deviceBuffer \<leftarrow> SetByteArrayRegion deviceBuffer deviceLength device;
       granted \<leftarrow> ask;
       if granted then ret (None, Some (buffer_bytes nonceBuffer, buffer_bytes deviceBuffer))
       else ret (Some ''result JNI allocation OOM'', None)
     }
   }"

definition dehydrateJni ::
    "sodium \<Rightarrow> account option \<Rightarrow> bytes option \<Rightarrow> (account option \<times> (bytes \<times> bytes) option) jni_call" where
  "dehydrateJni S accountPtr aKeyBuffer = do {
     (accountPtr, errorMessage, retValue) \<leftarrow>
       (case aKeyBuffer of
          None \<Rightarrow> ret (accountPtr, Some ''invalid key'', None)
        | Some key \<Rightarrow>
            (case accountPtr of
               None \<Rightarrow> ret (None, Some ''invalid account ptr'', None)
             | Some account \<Rightarrow> do {
                 keyPtr \<leftarrow> GetByteArrayElements key;
                 case keyPtr of
                   None \<Rightarrow> ret (Some account, Some ''keyPtr JNI allocation OOM'', None)
                 | Some ek \<Rightarrow> do {
                     let deviceLength = api_olm_account_dehydrate_length account;
                     let nonceLength = olm_dehydrated_device_nonce_length;
                     let randomSize = olm_account_dehydrate_random_length account;
                     devicePtr \<leftarrow> malloc deviceLength;
                     noncePtr \<leftarrow> malloc nonceLength;
                     (account, errorMessage, retValue, random, nonce, device) \<leftarrow>
                       (if devicePtr = None \<or> noncePtr = None then
                          ret (account, Some ''output buffer OOM'', None, None, noncePtr, devicePtr)
                        else do {
                          (ok, randomBuffPtr) \<leftarrow> random_if_needed S randomSize;
                          if \<not> ok then
                            ret (account, Some ''random buffer init'', None, randomBuffPtr, noncePtr, devicePtr)
                          else
                            case api_olm_account_dehydrate S account (el_bytes ek) (buffer_bytes randomBuffPtr)
                                   (buffer_bytes noncePtr) (buffer_bytes devicePtr) of
                              (account, random, nonce, device, result) \<Rightarrow> do {
                                (errorMessage, retValue) \<leftarrow>
                                  (if result = None then ret (Some (olm_account_last_error account), None)
                                   else dehydrated_arrays nonceLength nonce deviceLength device);
                                ret (account, errorMessage, retValue, map_option (\<lambda>_. random) randomBuffPtr,
                                     Some nonce, Some device)
                              }
                        });
                     clear_free_random randomSize random;
                     (case device of None \<Rightarrow> ret () | Some b \<Rightarrow> free_block Buffer_block b);
                     (case nonce of None \<Rightarrow> ret () | Some b \<Rightarrow> free_block Buffer_block b);
                     aKeyBuffer \<leftarrow> clear_release_elements aKeyBuffer (Some ek);
                     ret (Some account, errorMessage, retValue)
                   }
               }));
     throw_if errorMessage;
     ret (accountPtr, retValue)
   }"

text \<open>The device is decoded in place: its array is part of the result.\<close>

definition rehydrateJni ::
    "sodium \<Rightarrow> bytes option \<Rightarrow> bytes option \<Rightarrow> bytes option \<Rightarrow> (account option \<times> bytes option) jni_call" where
  "rehydrateJni S aKeyBuffer aNonceBuffer aDeviceBuffer = do {
     (accountPtr, errorMessage, keyPtr, noncePtr, devicePtr) \<leftarrow>
       (if aKeyBuffer = None then ret (None, Some ''invalid key'', None, None, None)
        else if aNonceBuffer = None \<or> aDeviceBuffer = None then
          ret (None, Some ''invalid dehydrated device'', None, None, None)
        else do {
          accountPtr \<leftarrow> initializeAccountMemory;
          case accountPtr of
            None \<Rightarrow> ret (None, Some ''account failure OOM'', None, None, None)
          | Some account \<Rightarrow> do {
              keyPtr \<leftarrow> GetByteArrayElements (the aKeyBuffer);
              case keyPtr of
                None \<Rightarrow> ret (Some account, Some ''keyPtr JNI allocation OOM'', None, None, None)
              | Some ek \<Rightarrow> do {
                  noncePtr \<leftarrow> GetByteArrayElements (the aNonceBuffer);
                  case noncePtr of
                    None \<Rightarrow> ret (Some account, Some ''noncePtr JNI allocation OOM'', Some ek, None, None)
                  | Some en \<Rightarrow> do {
                      devicePtr \<leftarrow> GetByteArrayElements (the aDeviceBuffer);
                      case devicePtr of
                        None \<Rightarrow> ret (Some account, Some ''devicePtr JNI allocation OOM'', Some ek, Some en, None)
                      | Some ed \<Rightarrow>
                          (case api_olm_account_rehydrate S account (el_bytes ek) (el_bytes en) (el_bytes ed) of
                             (account, device, result) \<Rightarrow>
                               ret (Some account, if result = None then Some (olm_account_last_error account) else None,
                                    Some ek, Some en, Some (ed\<lparr>el_bytes := device\<rparr>)))
                    }
                }
            }
        });
     aKeyBuffer \<leftarrow> clear_release_elements aKeyBuffer keyPtr;
     aNonceBuffer \<leftarrow> release_elements aNonceBuffer noncePtr;
     aDeviceBuffer \<leftarrow> release_elements aDeviceBuffer devicePtr;
     accountPtr \<leftarrow> dispose_on_error accountPtr errorMessage;
     ret (accountPtr, aDeviceBuffer)
   }"

section \<open>Resources\<close>

lemma utility_calls_keep [jni_kept]:
  "wp createUtilityJni (\<lambda>r. kept (if r = None then 0 else 1) s) s"
  "wp (releaseUtilityJni utility) (\<lambda>r. kept (if utility = None then 0 else -1) s) s"
  "wp (verifyEd25519SignatureJni S utility sig key m) (\<lambda>r. kept 0 s) s"
  "wp (sha256Jni S utility m) (\<lambda>r. kept 0 s) s"
  by (auto simp: createUtilityJni_def initializeUtilityMemory_def releaseUtilityJni_def verifyEd25519SignatureJni_def
      sha256Jni_def jni_vcg buffer_lengths split: jni_cases)

lemma account_objects_keep [jni_kept]:
  "wp (createNewAccountJni S) (\<lambda>r. kept (if r = None then 0 else 1) s) s"
  "wp (releaseAccountJni acc) (\<lambda>r. kept (if acc = None then 0 else -1) s) s"
  "wp (account_deserializeJni S m key) (\<lambda>r. kept (if fst r = None then 0 else 1) s) s"
  "wp (rehydrateJni S key nonce device) (\<lambda>r. kept (if fst r = None then 0 else 1) s) s"
  by (auto simp: createNewAccountJni_def initializeAccountMemory_def releaseAccountJni_def account_deserializeJni_def
      rehydrateJni_def jni_vcg buffer_lengths split: jni_cases)

lemma account_calls_keep [jni_kept]:
  "wp (identityKeysJni acc) (\<lambda>r. kept 0 s) s"
  "wp (oneTimeKeysJni acc) (\<lambda>r. kept 0 s) s"
  "wp (fallbackKeyJni acc) (\<lambda>r. kept 0 s) s"
  "wp (generateOneTimeKeysJni S acc n) (\<lambda>r s'. r = None \<or> kept 0 s s') s"
  "wp (removeOneTimeKeysJni acc session) (\<lambda>r. kept 0 s) s"
  "wp (markOneTimeKeysAsPublishedJni acc) (\<lambda>r. kept 0 s) s"
  "wp (generateFallbackKeyJni S acc) (\<lambda>r. kept 0 s) s"
  "wp (forgetFallbackKeyJni acc) (\<lambda>r. kept 0 s) s"
  "wp (signMessageJni S acc m) (\<lambda>r. kept 0 s) s"
  "wp (account_serializeJni S acc key) (\<lambda>r. kept 0 s) s"
  by (auto simp: identityKeysJni_def oneTimeKeysJni_def fallbackKeyJni_def json_jni_def generateOneTimeKeysJni_def
      removeOneTimeKeysJni_def markOneTimeKeysAsPublishedJni_def generateFallbackKeyJni_def forgetFallbackKeyJni_def
      signMessageJni_def account_serializeJni_def jni_vcg buffer_lengths split: jni_cases)

lemma wp_dehydrated_arrays:
  "(\<And>r s'. jn_blocks s' = jn_blocks s \<Longrightarrow> jn_pins s' = jn_pins s \<Longrightarrow> jn_returned s' = jn_returned s \<Longrightarrow>
      (jn_crashed s \<longrightarrow> jn_crashed s') \<Longrightarrow> Q r s')
   \<Longrightarrow> wp (dehydrated_arrays n nonce d device) Q s"
  by (auto simp: dehydrated_arrays_def jni_vcg buffer_lengths split: jni_cases)

lemma dehydrate_keeps [jni_kept]: "wp (dehydrateJni S acc key) (\<lambda>r. kept 0 s) s"
  by (auto intro!: wp_dehydrated_arrays simp: dehydrateJni_def jni_vcg buffer_lengths split: jni_cases)

end
