(* ===== verification/Jni_Session.thy ===== *)
theory Jni_Session
  imports Jni_Env Buffer_Lengths
begin

text \<open>
  \<open>olm_session.c\<close> of the bindings. The session is the first component of each result, \<open>None\<close> for a
  null pointer; arrays and Java objects that a function writes to are part of the result.
\<close>

section \<open>Objects\<close>

definition initializeSessionMemory :: "session option jni_call" where
  "initializeSessionMemory = do {
     granted \<leftarrow> malloc_object;
     ret (if granted then Some olm_session else None)
   }"

definition session_createNewSessionJni :: "session option jni_call" where
  "session_createNewSessionJni = do {
     sessionPtr \<leftarrow> initializeSessionMemory;
     throw_if (if sessionPtr = None then Some ''init session OOM'' else None);
     ret sessionPtr
   }"

definition session_releaseSessionJni :: "session option \<Rightarrow> unit jni_call" where
  "session_releaseSessionJni sessionPtr = (if sessionPtr = None then ret () else free_object)"

section \<open>Starting a session\<close>

text \<open>The result and its error message, with the elements to release.\<close>

definition initOutboundSessionJni ::
    "sodium \<Rightarrow> session option \<Rightarrow> account option \<Rightarrow> bytes option \<Rightarrow> bytes option \<Rightarrow> session option jni_call" where
  "initOutboundSessionJni S sessionPtr accountPtr aTheirIdentityKeyBuffer aTheirOneTimeKeyBuffer = do {
     (sessionPtr, errorMessage) \<leftarrow>
       (case sessionPtr of
          None \<Rightarrow> ret (None, Some ''invalid Session ptr=NULL'')
        | Some session \<Rightarrow>
            (case accountPtr of
               None \<Rightarrow> ret (Some session, Some ''invalid Account ptr=NULL'')
             | Some account \<Rightarrow>
                 if aTheirIdentityKeyBuffer = None \<or> aTheirOneTimeKeyBuffer = None then
                   ret (Some session, Some ''invalid keys'')
                 else do {
                   let randomSize = olm_create_outbound_session_random_length session;
                   (ok, randomBuffPtr) \<leftarrow> random_if_needed S randomSize;
                   if \<not> ok then ret (Some session, Some ''random buffer init'')
                   else do {
                     theirIdentityKeyPtr \<leftarrow> GetByteArrayElements (the aTheirIdentityKeyBuffer);
                     theirOneTimeKeyPtr \<leftarrow>
                       (if theirIdentityKeyPtr = None then ret None
                        else GetByteArrayElements (the aTheirOneTimeKeyBuffer));
                     let (session, errorMessage) =
                       (case theirIdentityKeyPtr of
                          None \<Rightarrow> (session, Some ''identityKey JNI allocation OOM'')
                        | Some ei \<Rightarrow>
                            (case theirOneTimeKeyPtr of
                               None \<Rightarrow> (session, Some ''one time Key JNI allocation OOM'')
                             | Some eo \<Rightarrow>
                                 (case olm_create_outbound_session S session account (el_bytes ei) (el_bytes eo)
                                         (buffer_bytes randomBuffPtr) of
                                    (session, _, result) \<Rightarrow>
                                      (session, if result = None then Some (olm_session_last_error session) else None))));
                     _ \<leftarrow> release_elements aTheirIdentityKeyBuffer theirIdentityKeyPtr;
                     _ \<leftarrow> release_elements aTheirOneTimeKeyBuffer theirOneTimeKeyPtr;
                     clear_free_random randomSize randomBuffPtr;
                     ret (Some session, errorMessage)
                   }
                 }));
     throw_if errorMessage;
     ret sessionPtr
   }"

text \<open>
  The message is decoded in place: its array is part of the result. \<open>None\<close> in place of the result:
  the process ends with a read through a null pointer.
\<close>

definition initInboundSessionJni ::
    "sodium \<Rightarrow> session option \<Rightarrow> account option \<Rightarrow> bytes option \<Rightarrow> (session option \<times> bytes option) option jni_call" where
  "initInboundSessionJni S sessionPtr accountPtr aOneTimeKeyMsgBuffer =
     (case sessionPtr of
        None \<Rightarrow> do { throw ''invalid Session ptr=NULL''; ret (Some (None, aOneTimeKeyMsgBuffer)) }
      | Some session \<Rightarrow>
          (case accountPtr of
             None \<Rightarrow> do { throw ''invalid Account ptr=NULL''; ret (Some (Some session, aOneTimeKeyMsgBuffer)) }
           | Some account \<Rightarrow>
               (case aOneTimeKeyMsgBuffer of
                  None \<Rightarrow> do { throw ''invalid message''; ret (Some (Some session, None)) }
                | Some message \<Rightarrow> do {
                    messagePtr \<leftarrow> GetByteArrayElements message;
                    case messagePtr of
                      None \<Rightarrow> do { throw ''message JNI allocation OOM''; ret (Some (Some session, Some message)) }
                    | Some e \<Rightarrow>
                        (case olm_create_inbound_session S session account (el_bytes e) of
                           None \<Rightarrow> ret None
                         | Some (session, decoded, result) \<Rightarrow> do {
                             arr \<leftarrow> release_elements (Some message) (Some (e\<lparr>el_bytes := decoded\<rparr>));
                             throw_if (if result = None then Some (olm_session_last_error session) else None);
                             ret (Some (Some session, arr))
                           })
                  })))"

definition initInboundSessionFromIdKeyJni ::
    "sodium \<Rightarrow> session option \<Rightarrow> account option \<Rightarrow> bytes option \<Rightarrow> bytes option \<Rightarrow>
     (session option \<times> bytes option) option jni_call" where
  "initInboundSessionFromIdKeyJni S sessionPtr accountPtr aTheirIdentityKeyBuffer aOneTimeKeyMsgBuffer =
     (if sessionPtr = None then do { throw ''invalid Session ptr=NULL''; ret (Some (None, aOneTimeKeyMsgBuffer)) }
      else if accountPtr = None then
        do { throw ''invalid Account ptr=NULL''; ret (Some (sessionPtr, aOneTimeKeyMsgBuffer)) }
      else if aTheirIdentityKeyBuffer = None then
        do { throw ''invalid theirIdentityKey''; ret (Some (sessionPtr, aOneTimeKeyMsgBuffer)) }
      else if aOneTimeKeyMsgBuffer = None then
        do { throw ''invalid invalid one time key message''; ret (Some (sessionPtr, None)) }
      else do {
        messagePtr \<leftarrow> GetByteArrayElements (the aOneTimeKeyMsgBuffer);
        theirIdentityKeyPtr \<leftarrow>
          (if messagePtr = None then ret None else GetByteArrayElements (the aTheirIdentityKeyBuffer));
        let called =
          (case messagePtr of
             None \<Rightarrow> Some (the sessionPtr, None, Some ''message JNI allocation OOM'')
           | Some em \<Rightarrow>
               (case theirIdentityKeyPtr of
                  None \<Rightarrow> Some (the sessionPtr, Some em, Some ''theirIdentityKey JNI allocation OOM'')
                | Some ei \<Rightarrow>
                    map_option (\<lambda>(session, decoded, result).
                        (session, Some (em\<lparr>el_bytes := decoded\<rparr>),
                         if result = None then Some (olm_session_last_error session) else None))
                      (olm_create_inbound_session_from S (the sessionPtr) (the accountPtr) (el_bytes ei) (el_bytes em))));
        case called of
          None \<Rightarrow> ret None
        | Some (session, messagePtr, errorMessage) \<Rightarrow> do {
            arr \<leftarrow> release_elements aOneTimeKeyMsgBuffer messagePtr;
            _ \<leftarrow> release_elements aTheirIdentityKeyBuffer theirIdentityKeyPtr;
            throw_if errorMessage;
            ret (Some (Some session, arr))
          }
      })"

definition matchesInboundSessionJni ::
    "session option \<Rightarrow> bytes option \<Rightarrow> (session option \<times> bytes option \<times> bool) jni_call" where
  "matchesInboundSessionJni sessionPtr aOneTimeKeyMsgBuffer =
     (case sessionPtr of
        None \<Rightarrow> ret (None, aOneTimeKeyMsgBuffer, False)
      | Some session \<Rightarrow>
          (case aOneTimeKeyMsgBuffer of
             None \<Rightarrow> ret (Some session, None, False)
           | Some message \<Rightarrow> do {
               messagePtr \<leftarrow> GetByteArrayElements message;
               case messagePtr of
                 None \<Rightarrow> ret (Some session, Some message, False)
               | Some e \<Rightarrow>
                   (case olm_matches_inbound_session session (el_bytes e) of
                      (session, decoded, matchResult) \<Rightarrow> do {
                        arr \<leftarrow> release_elements (Some message) (Some (e\<lparr>el_bytes := decoded\<rparr>));
                        ret (Some session, arr, matchResult = Some 1)
                      })
             }))"

definition matchesInboundSessionFromIdKeyJni ::
    "session option \<Rightarrow> bytes option \<Rightarrow> bytes option \<Rightarrow> (session option \<times> bytes option \<times> bool) jni_call" where
  "matchesInboundSessionFromIdKeyJni sessionPtr aTheirIdentityKeyBuffer aOneTimeKeyMsgBuffer =
     (case sessionPtr of
        None \<Rightarrow> ret (None, aOneTimeKeyMsgBuffer, False)
      | Some session \<Rightarrow>
          (case aTheirIdentityKeyBuffer of
             None \<Rightarrow> ret (Some session, aOneTimeKeyMsgBuffer, False)
           | Some identity_key \<Rightarrow> do {
               theirIdentityKeyPtr \<leftarrow> GetByteArrayElements identity_key;
               case theirIdentityKeyPtr of
                 None \<Rightarrow> ret (Some session, aOneTimeKeyMsgBuffer, False)
               | Some ei \<Rightarrow> do {
                   messagePtr \<leftarrow>
                     (case aOneTimeKeyMsgBuffer of None \<Rightarrow> ret None | Some message \<Rightarrow> GetByteArrayElements message);
                   let (session, messagePtr, retCode) =
                     (case messagePtr of
                        None \<Rightarrow> (session, None, False)
                      | Some em \<Rightarrow>
                          (case olm_matches_inbound_session_from session (el_bytes ei) (el_bytes em) of
                             (session, decoded, matchResult) \<Rightarrow>
                               (session, Some (em\<lparr>el_bytes := decoded\<rparr>), matchResult = Some 1)));
                   _ \<leftarrow> release_elements aTheirIdentityKeyBuffer (Some ei);
                   arr \<leftarrow> release_elements aOneTimeKeyMsgBuffer messagePtr;
                   ret (Some session, arr, retCode)
                 }
             }))"

section \<open>Messages\<close>

text \<open>An object of the class \<open>OlmMessage\<close>; the text is the one \<open>GetStringUTFChars\<close> hands out.\<close>

record java_message =
  jm_cipher_text :: "bytes option"
  jm_type :: u64

text \<open>The random bytes, the call and the array for the message, once the arguments are there.\<close>

definition encrypt_clear_message ::
    "sodium \<Rightarrow> session \<Rightarrow> bytes \<Rightarrow> (session \<times> string option \<times> bytes option) jni_call" where
  "encrypt_clear_message S session clearMsg = do {
     let randomLength = olm_encrypt_random_length session;
     (ok, randomBuffPtr) \<leftarrow> random_if_needed S randomLength;
     if \<not> ok then ret (session, Some ''random buffer init'', None)
     else do {
       let encryptedMsgLength = olm_encrypt_message_length session (length clearMsg);
       (session, errorMessage, encryptedMsgRet) \<leftarrow>
         fill_and_return encryptedMsgLength ''encryptedMsgPtr buffer OOM''
           (\<lambda>session buffer.
              case olm_encrypt S session clearMsg (buffer_bytes randomBuffPtr) buffer of
                (session, _, message, result) \<Rightarrow> (session, message, result))
           olm_session_last_error (\<lambda>_. return_bytes_unchecked encryptedMsgLength) (free_block Buffer_block) session;
       clear_free_random randomLength randomBuffPtr;
       ret (session, errorMessage, encryptedMsgRet)
     }
   }"

definition session_encryptMessageJni ::
    "sodium \<Rightarrow> session option \<Rightarrow> bytes option \<Rightarrow> java_message option \<Rightarrow>
     (session option \<times> java_message option \<times> bytes option) jni_call" where
  "session_encryptMessageJni S sessionPtr aClearMsgBuffer aEncryptedMsg = do {
     (sessionPtr, aEncryptedMsg, errorMessage, encryptedMsgRet, clearMsgPtr) \<leftarrow>
       (case sessionPtr of
          None \<Rightarrow> ret (None, aEncryptedMsg, Some ''invalid Session ptr=NULL'', None, None)
        | Some session \<Rightarrow>
            if aClearMsgBuffer = None then
              ret (Some session, aEncryptedMsg, Some ''invalid clear message'', None, None)
            else
              case aEncryptedMsg of
                None \<Rightarrow> ret (Some session, None, Some ''invalid encrypted message'', None, None)
              | Some msg \<Rightarrow> do {
                  clearMsgPtr \<leftarrow> GetByteArrayElements (the aClearMsgBuffer);
                  case clearMsgPtr of
                    None \<Rightarrow> ret (Some session, Some msg, Some ''clear message JNI allocation OOM'', None, None)
                  | Some e \<Rightarrow> do {
                      encryptedMsgJClass \<leftarrow> lookup_jni;
                      if \<not> encryptedMsgJClass then
                        ret (Some session, Some msg, Some ''unable to get crypted message class'', None, Some e)
                      else do {
                        typeMsgFieldId \<leftarrow> lookup_jni;
                        if \<not> typeMsgFieldId then
                          ret (Some session, Some msg, Some ''unable to get message type field'', None, Some e)
                        else do {
                          let messageType = olm_encrypt_message_type session;
                          (session, errorMessage, arr) \<leftarrow> encrypt_clear_message S session (el_bytes e);
                          let msg = (if errorMessage = None then msg\<lparr>jm_type := of_nat messageType\<rparr> else msg);
                          ret (Some session, Some msg, errorMessage, arr, Some e)
                        }
                      }
                    }
                });
     aClearMsgBuffer \<leftarrow> clear_release_elements aClearMsgBuffer clearMsgPtr;
     throw_if errorMessage;
     ret (sessionPtr, aEncryptedMsg, encryptedMsgRet)
   }"

text \<open>
  Both functions of the library destroy the message they read, so it is copied twice. The results
  are the session, the error, the array, and the two buffers.
\<close>

definition decrypt_copied_message ::
    "sodium \<Rightarrow> session \<Rightarrow> nat \<Rightarrow> bytes \<Rightarrow>
     (session \<times> string option \<times> bytes option \<times> bytes option \<times> bytes option) jni_call" where
  "decrypt_copied_message S session encryptedMsgType encryptedMsg = do {
     tempEncryptedPtr \<leftarrow> malloc (length encryptedMsg);
     if tempEncryptedPtr = None then ret (session, Some ''tempEncryptedPtr allocation OOM'', None, None, None)
     else
       case olm_decrypt_max_plaintext_length session encryptedMsgType encryptedMsg of
         (session, temp, None) \<Rightarrow> ret (session, Some (olm_session_last_error session), None, Some temp, None)
       | (session, temp, Some maxPlainTextLength) \<Rightarrow> do {
           plainTextMsgPtr \<leftarrow> malloc maxPlainTextLength;
           case plainTextMsgPtr of
             None \<Rightarrow> ret (session, Some ''plainTextMsgPtr allocation OOM'', None, Some temp, None)
           | Some plainTextMsg \<Rightarrow>
               (case olm_decrypt S session encryptedMsgType encryptedMsg plainTextMsg of
                  (session, temp, plainTextMsg, result) \<Rightarrow> do {
                    (errorMessage, decryptedMsgRet) \<leftarrow>
                      (case result of
                         None \<Rightarrow> ret (Some (olm_session_last_error session), None)
                       | Some plaintextLength \<Rightarrow> return_bytes_unchecked plaintextLength plainTextMsg);
                    ret (session, errorMessage, decryptedMsgRet, Some temp, Some (memset plainTextMsg maxPlainTextLength))
                  })
         }
   }"

definition session_decryptMessageJni ::
    "sodium \<Rightarrow> session option \<Rightarrow> java_message option \<Rightarrow> (session option \<times> bytes option) jni_call" where
  "session_decryptMessageJni S sessionPtr aEncryptedMsg = do {
     (sessionPtr, errorMessage, decryptedMsgRet, encryptedMsgPtr, tempEncryptedPtr, plainTextMsgPtr) \<leftarrow>
       (case sessionPtr of
          None \<Rightarrow> ret (None, Some ''invalid Session ptr=NULL'', None, None, None, None)
        | Some session \<Rightarrow>
            (case aEncryptedMsg of
               None \<Rightarrow> ret (Some session, Some ''invalid encrypted message'', None, None, None, None)
             | Some msg \<Rightarrow> do {
                 encryptedMsgJClass \<leftarrow> lookup_jni;
                 encryptedMsgFieldId \<leftarrow> (if encryptedMsgJClass then lookup_jni else ret False);
                 typeMsgFieldId \<leftarrow> (if encryptedMsgFieldId then lookup_jni else ret False);
                 if \<not> encryptedMsgJClass then
                   ret (Some session, Some ''unable to get encrypted message class'', None, None, None, None)
                 else if \<not> encryptedMsgFieldId then
                   ret (Some session, Some ''unable to get message field'', None, None, None, None)
                 else if \<not> typeMsgFieldId then
                   ret (Some session, Some ''unable to get message type field'', None, None, None, None)
                 else
                   case jm_cipher_text msg of
                     None \<Rightarrow> ret (Some session, Some ''JNI encrypted object'', None, None, None, None)
                   | Some str \<Rightarrow> do {
                       encryptedMsgPtr \<leftarrow> GetStringUTFChars str;
                       case encryptedMsgPtr of
                         None \<Rightarrow> ret (Some session, Some ''encrypted message JNI allocation OOM'', None, None, None, None)
                       | Some chars \<Rightarrow> do {
                           (session, errorMessage, arr, temp, plain) \<leftarrow>
                             decrypt_copied_message S session (unat (jm_type msg)) chars;
                           ret (Some session, errorMessage, arr, Some chars, temp, plain)
                         }
                     }
               }));
     ReleaseStringUTFChars encryptedMsgPtr;
     (case tempEncryptedPtr of None \<Rightarrow> ret () | Some b \<Rightarrow> free_block Buffer_block b);
     (case plainTextMsgPtr of None \<Rightarrow> ret () | Some b \<Rightarrow> free_block Secret_block b);
     throw_if errorMessage;
     ret (sessionPtr, decryptedMsgRet)
   }"

section \<open>The id and the description\<close>

definition getSessionIdentifierJni :: "sodium \<Rightarrow> session option \<Rightarrow> (session option \<times> bytes option) jni_call" where
  "getSessionIdentifierJni S sessionPtr = do {
     (sessionPtr, errorMessage, returnValue) \<leftarrow>
       (case sessionPtr of
          None \<Rightarrow> ret (None, Some ''invalid Session ptr=NULL'', None)
        | Some session \<Rightarrow> do {
            (session, errorMessage, arr) \<leftarrow>
              fill_and_return (olm_session_id_length session) ''identifier allocation OOM'' (olm_session_id S)
                olm_session_last_error return_bytes_unchecked (free_block Buffer_block) session;
            ret (Some session, errorMessage, arr)
          });
     throw_if errorMessage;
     ret (sessionPtr, returnValue)
   }"

text \<open>
  The characters up to the one that ends the string. A description that does not fit counts as a
  crash of the process.
\<close>

definition c_string :: "string \<Rightarrow> string" where
  "c_string buf = takeWhile (\<lambda>c. c \<noteq> NUL) buf"

definition olmSessionDescribeJni :: "session option \<Rightarrow> bytes option jni_call" where
  "olmSessionDescribeJni sessionPtr = do {
     (errorMessage, returnValue) \<leftarrow>
       (case sessionPtr of
          None \<Rightarrow> ret (Some ''invalid Session ptr=NULL'', None)
        | Some session \<Rightarrow> do {
            describePtr \<leftarrow> malloc 600;
            case describePtr of
              None \<Rightarrow> ret (Some ''describe allocation OOM'', None)
            | Some b \<Rightarrow> do {
                (described, returnValue) \<leftarrow>
                  (case api_olm_session_describe session (map (\<lambda>x. char_of (unat x)) b) of
                     None \<Rightarrow> abort_jni ([], None)
                   | Some described \<Rightarrow> do {
                       let str = c_string described;
                       returnValue \<leftarrow>
                         (if str = [] then ret None
                          else do { (_, arr) \<leftarrow> return_bytes_unchecked (length str) (map of_char str); ret arr });
                       ret (described, returnValue)
                     });
                free_block Buffer_block (map of_char described);
                ret (None, returnValue)
              }
          });
     throw_if errorMessage;
     ret returnValue
   }"

section \<open>Pickling\<close>

definition session_serializeJni :: "sodium \<Rightarrow> session option \<Rightarrow> bytes option \<Rightarrow> (session option \<times> bytes option) jni_call" where
  "session_serializeJni S sessionPtr aKeyBuffer = do {
     (sessionPtr, errorMessage, returnValue) \<leftarrow>
       (case sessionPtr of
          None \<Rightarrow> ret (None, Some ''invalid session ptr'', None)
        | Some session \<Rightarrow>
            (case aKeyBuffer of
               None \<Rightarrow> ret (Some session, Some ''invalid key'', None)
             | Some key \<Rightarrow> do {
                 (session, errorMessage, arr) \<leftarrow>
                   serialize_with ''ikeyPtr JNI allocation OOM'' (api_olm_pickle_session_length session)
                     (api_olm_pickle_session S) olm_session_last_error session key;
                 ret (Some session, errorMessage, arr)
               }));
     throw_if errorMessage;
     ret (sessionPtr, returnValue)
   }"

definition session_deserializeJni ::
    "sodium \<Rightarrow> bytes option \<Rightarrow> bytes option \<Rightarrow> (session option \<times> bytes option) jni_call" where
  "session_deserializeJni S aSerializedDataBuffer aKeyBuffer = do {
     sessionPtr \<leftarrow> initializeSessionMemory;
     (sessionPtr, errorMessage, aSerializedDataBuffer) \<leftarrow>
       (case sessionPtr of
          None \<Rightarrow> ret (None, Some ''session failure OOM'', aSerializedDataBuffer)
        | Some session \<Rightarrow>
            (case aKeyBuffer of
               None \<Rightarrow> ret (Some session, Some ''invalid key'', aSerializedDataBuffer)
             | Some key \<Rightarrow>
                 (case aSerializedDataBuffer of
                    None \<Rightarrow> ret (Some session, Some ''serialized data'', None)
                  | Some data \<Rightarrow> do {
                      (session, errorMessage, arr) \<leftarrow>
                        deserialize_with (api_olm_unpickle_session S) olm_session_last_error session data key;
                      ret (Some session, errorMessage, arr)
                    })));
     sessionPtr \<leftarrow> dispose_on_error sessionPtr errorMessage;
     ret (sessionPtr, aSerializedDataBuffer)
   }"

section \<open>Resources\<close>

lemma session_objects_keep [jni_kept]:
  "wp session_createNewSessionJni (\<lambda>r. kept (if r = None then 0 else 1) s) s"
  "wp (session_releaseSessionJni ses) (\<lambda>r. kept (if ses = None then 0 else -1) s) s"
  "wp (session_deserializeJni S m key) (\<lambda>r. kept (if fst r = None then 0 else 1) s) s"
  by (auto simp: session_createNewSessionJni_def session_releaseSessionJni_def session_deserializeJni_def
      initializeSessionMemory_def jni_vcg buffer_lengths split: jni_cases)

lemma session_setup_keeps [jni_kept]:
  "wp (initOutboundSessionJni S ses acc key key2) (\<lambda>r. kept 0 s) s"
  "wp (initInboundSessionJni S ses acc m) (\<lambda>r s'. r = None \<or> kept 0 s s') s"
  "wp (initInboundSessionFromIdKeyJni S ses acc key m) (\<lambda>r s'. r = None \<or> kept 0 s s') s"
  "wp (matchesInboundSessionJni ses m) (\<lambda>r. kept 0 s) s"
  "wp (matchesInboundSessionFromIdKeyJni ses key m) (\<lambda>r. kept 0 s) s"
  by (auto simp: initOutboundSessionJni_def initInboundSessionJni_def initInboundSessionFromIdKeyJni_def
      matchesInboundSessionJni_def matchesInboundSessionFromIdKeyJni_def jni_vcg buffer_lengths split: jni_cases)

lemma session_calls_keep [jni_kept]:
  "wp (session_encryptMessageJni S ses m msg) (\<lambda>r. kept 0 s) s"
  "wp (session_decryptMessageJni S ses msg) (\<lambda>r. kept 0 s) s"
  "wp (getSessionIdentifierJni S ses) (\<lambda>r. kept 0 s) s"
  "wp (olmSessionDescribeJni ses) (\<lambda>r. kept 0 s) s"
  "wp (session_serializeJni S ses key) (\<lambda>r. kept 0 s) s"
  by (auto simp: session_encryptMessageJni_def encrypt_clear_message_def session_decryptMessageJni_def
      decrypt_copied_message_def getSessionIdentifierJni_def olmSessionDescribeJni_def session_serializeJni_def
      jni_vcg buffer_lengths split: jni_cases)

end
