(* ===== verification/Jni_Group.thy ===== *)
theory Jni_Group
  imports Jni_Env Buffer_Lengths
begin

text \<open>
  \<open>olm_outbound_group_session.c\<close> and \<open>olm_inbound_group_session.c\<close> of the bindings. Both files use the
  same names, which are kept apart by a prefix. The memory of a session is initialised only when all
  arguments are there; before that the function that clears it is the only one that sees it.
\<close>

section \<open>Outbound sessions\<close>

definition outbound_releaseSessionJni :: "outbound_group_session option \<Rightarrow> unit jni_call" where
  "outbound_releaseSessionJni sessionPtr = (if sessionPtr = None then ret () else free_object)"

definition outbound_createNewSessionJni :: "sodium \<Rightarrow> outbound_group_session option jni_call" where
  "outbound_createNewSessionJni S = do {
     granted \<leftarrow> malloc_object;
     (sessionPtr, errorMessage) \<leftarrow>
       (if \<not> granted then ret (None, Some ''outbound group session OOM'')
        else do {
          let session = olm_outbound_group_session;
          let randomLength = olm_init_outbound_group_session_random_length;
          (ok, randomBuffPtr) \<leftarrow> random_if_needed S randomLength;
          if \<not> ok then ret (Some session, Some ''random buffer init'')
          else
            case olm_init_outbound_group_session S session (buffer_bytes randomBuffPtr) of
              (session, random, sessionResult) \<Rightarrow> do {
                clear_free_random randomLength randomBuffPtr;
                ret (Some session,
                     if sessionResult = None then Some (olm_outbound_group_session_last_error session) else None)
              }
        });
     dispose_on_error sessionPtr errorMessage
   }"

definition outbound_sessionIdentifierJni ::
    "outbound_group_session option \<Rightarrow> (outbound_group_session option \<times> bytes option) jni_call" where
  "outbound_sessionIdentifierJni sessionPtr = do {
     (sessionPtr, errorMessage, returnValue) \<leftarrow>
       (case sessionPtr of
          None \<Rightarrow> ret (None, Some ''invalid outbound group session instance'', None)
        | Some session \<Rightarrow> do {
            (session, errorMessage, arr) \<leftarrow>
              fill_and_return olm_outbound_group_session_id_length ''outbound identifier allocation OOM''
                olm_outbound_group_session_id olm_outbound_group_session_last_error return_bytes_unchecked
                (free_block Buffer_block) session;
            ret (Some session, errorMessage, arr)
          });
     throw_if errorMessage;
     ret (sessionPtr, returnValue)
   }"

text \<open>The index as a signed 32-bit number; 0 for a null pointer.\<close>

definition messageIndexJni :: "outbound_group_session option \<Rightarrow> int" where
  "messageIndexJni sessionPtr =
     (case sessionPtr of None \<Rightarrow> 0 | Some session \<Rightarrow> sint (olm_outbound_group_session_message_index session))"

definition sessionKeyJni ::
    "sodium \<Rightarrow> outbound_group_session option \<Rightarrow> (outbound_group_session option \<times> bytes option) jni_call" where
  "sessionKeyJni S sessionPtr = do {
     (sessionPtr, errorMessage, returnValue) \<leftarrow>
       (case sessionPtr of
          None \<Rightarrow> ret (None, Some ''invalid outbound group session instance'', None)
        | Some session \<Rightarrow> do {
            (session, errorMessage, arr) \<leftarrow>
              fill_and_return olm_outbound_group_session_key_length ''session key allocation OOM''
                (olm_outbound_group_session_key S) olm_outbound_group_session_last_error return_bytes_unchecked
                (free_secret olm_outbound_group_session_key_length) session;
            ret (Some session, errorMessage, arr)
          });
     throw_if errorMessage;
     ret (sessionPtr, returnValue)
   }"

definition outbound_encryptMessageJni ::
    "sodium \<Rightarrow> outbound_group_session option \<Rightarrow> bytes option \<Rightarrow> (outbound_group_session option \<times> bytes option) jni_call" where
  "outbound_encryptMessageJni S sessionPtr aClearMsgBuffer = do {
     (sessionPtr, errorMessage, encryptedMsgRet) \<leftarrow>
       (case sessionPtr of
          None \<Rightarrow> ret (None, Some ''invalid outbound group session ptr=NULL'', None)
        | Some session \<Rightarrow>
            (case aClearMsgBuffer of
               None \<Rightarrow> ret (Some session, Some ''invalid clear message'', None)
             | Some clearMsg \<Rightarrow> do {
                 clearMsgPtr \<leftarrow> GetByteArrayElements clearMsg;
                 (session, errorMessage, arr) \<leftarrow>
                   (case clearMsgPtr of
                      None \<Rightarrow> ret (session, Some ''clear message JNI allocation OOM'', None)
                    | Some e \<Rightarrow>
                        fill_and_return (olm_group_encrypt_message_length session (length (el_bytes e)))
                          ''encryptedMsgPtr buffer OOM''
                          (\<lambda>session. olm_group_encrypt S session (el_bytes e)) olm_outbound_group_session_last_error
                          return_bytes_unchecked (free_block Buffer_block) session);
                 aClearMsgBuffer \<leftarrow> clear_release_elements (Some clearMsg) clearMsgPtr;
                 ret (Some session, errorMessage, arr)
               }));
     throw_if errorMessage;
     ret (sessionPtr, encryptedMsgRet)
   }"

definition outbound_serializeJni ::
    "sodium \<Rightarrow> outbound_group_session option \<Rightarrow> bytes option \<Rightarrow> (outbound_group_session option \<times> bytes option) jni_call" where
  "outbound_serializeJni S sessionPtr aKeyBuffer = do {
     (sessionPtr, errorMessage, returnValue) \<leftarrow>
       (case sessionPtr of
          None \<Rightarrow> ret (None, Some ''invalid session ptr'', None)
        | Some session \<Rightarrow>
            (case aKeyBuffer of
               None \<Rightarrow> ret (Some session, Some ''invalid key'', None)
             | Some key \<Rightarrow> do {
                 (session, errorMessage, arr) \<leftarrow>
                   serialize_with ''keyPtr JNI allocation OOM'' (olm_pickle_outbound_group_session_length session)
                     (olm_pickle_outbound_group_session S) olm_outbound_group_session_last_error session key;
                 ret (Some session, errorMessage, arr)
               }));
     throw_if errorMessage;
     ret (sessionPtr, returnValue)
   }"

definition outbound_deserializeJni ::
    "sodium \<Rightarrow> bytes option \<Rightarrow> bytes option \<Rightarrow> (outbound_group_session option \<times> bytes option) jni_call" where
  "outbound_deserializeJni S aSerializedDataBuffer aKeyBuffer = do {
     granted \<leftarrow> malloc_object;
     (sessionPtr, errorMessage, aSerializedDataBuffer) \<leftarrow>
       (if \<not> granted then ret (None, Some ''session failure OOM'', aSerializedDataBuffer)
        else
          let session = olm_outbound_group_session
          in case aKeyBuffer of
               None \<Rightarrow> ret (Some session, Some ''invalid key'', aSerializedDataBuffer)
             | Some key \<Rightarrow>
                 (case aSerializedDataBuffer of
                    None \<Rightarrow> ret (Some session, Some ''invalid serialized data'', None)
                  | Some data \<Rightarrow> do {
                      (session, errorMessage, arr) \<leftarrow>
                        deserialize_with (olm_unpickle_outbound_group_session S) olm_outbound_group_session_last_error
                          session data key;
                      ret (Some session, errorMessage, arr)
                    }));
     sessionPtr \<leftarrow> dispose_on_error sessionPtr errorMessage;
     ret (sessionPtr, aSerializedDataBuffer)
   }"

section \<open>Inbound sessions\<close>

definition inbound_releaseSessionJni :: "inbound_group_session option \<Rightarrow> unit jni_call" where
  "inbound_releaseSessionJni sessionPtr = (if sessionPtr = None then ret () else free_object)"

definition inbound_createNewSessionJni ::
    "sodium \<Rightarrow> bytes option \<Rightarrow> bool \<Rightarrow> inbound_group_session option jni_call" where
  "inbound_createNewSessionJni S aSessionKeyBuffer isImported = do {
     granted \<leftarrow> malloc_object;
     (sessionPtr, errorMessage) \<leftarrow>
       (if \<not> granted then ret (None, Some ''inbound group session OOM'')
        else
          let session = olm_inbound_group_session
          in case aSessionKeyBuffer of
               None \<Rightarrow> ret (Some session, Some ''invalid aSessionKey'')
             | Some session_key \<Rightarrow> do {
                 sessionKeyPtr \<leftarrow> GetByteArrayElements session_key;
                 let (session, errorMessage) =
                   (case sessionKeyPtr of
                      None \<Rightarrow> (session, Some ''Session key JNI allocation OOM'')
                    | Some e \<Rightarrow>
                        let (session, sessionResult) =
                          (if \<not> isImported then olm_init_inbound_group_session S session (el_bytes e)
                           else olm_import_inbound_group_session S session (el_bytes e))
                        in (session, if sessionResult = None then Some (olm_inbound_group_session_last_error session) else None));
                 _ \<leftarrow> clear_release_elements (Some session_key) sessionKeyPtr;
                 ret (Some session, errorMessage)
               });
     dispose_on_error sessionPtr errorMessage
   }"

definition inbound_sessionIdentifierJni ::
    "inbound_group_session option \<Rightarrow> (inbound_group_session option \<times> bytes option) jni_call" where
  "inbound_sessionIdentifierJni sessionPtr = do {
     (sessionPtr, errorMessage, returnValue) \<leftarrow>
       (case sessionPtr of
          None \<Rightarrow> ret (None, Some ''invalid inbound group session instance'', None)
        | Some session \<Rightarrow> do {
            (session, errorMessage, arr) \<leftarrow>
              fill_and_return olm_inbound_group_session_id_length ''inbound group session identifier allocation OOM''
                olm_inbound_group_session_id olm_inbound_group_session_last_error return_bytes_unchecked
                (free_block Buffer_block) session;
            ret (Some session, errorMessage, arr)
          });
     throw_if errorMessage;
     ret (sessionPtr, returnValue)
   }"

text \<open>
  The message is copied before each of the two calls, which decode the copy in place; the plaintext
  is cleared. The index is the one the library stores.
\<close>

definition group_decrypt_copied_message ::
    "sodium \<Rightarrow> inbound_group_session \<Rightarrow> bytes \<Rightarrow>
     (inbound_group_session \<times> u32 option \<times> string option \<times> bytes option) jni_call" where
  "group_decrypt_copied_message S session encryptedMsg = do {
     tempEncryptedPtr \<leftarrow> malloc (length encryptedMsg);
     if tempEncryptedPtr = None then ret (session, None, Some ''tempEncryptedPtr allocation OOM'', None)
     else do {
       (session, temp, index, errorMessage, decryptedMsgBuffer) \<leftarrow>
         (case olm_group_decrypt_max_plaintext_length session encryptedMsg of
            (session, temp, None) \<Rightarrow> ret (session, temp, None, Some (olm_inbound_group_session_last_error session), None)
          | (session, temp, Some maxPlainTextLength) \<Rightarrow> do {
              plainTextMsgPtr \<leftarrow> malloc maxPlainTextLength;
              case plainTextMsgPtr of
                None \<Rightarrow> ret (session, temp, None, Some ''plainTextMsgPtr allocation OOM'', None)
              | Some plainTextMsg \<Rightarrow>
                  (case olm_group_decrypt S session encryptedMsg plainTextMsg of
                     (session, temp, plainTextMsg, messageIndex, result) \<Rightarrow> do {
                       (errorMessage, decryptedMsgBuffer) \<leftarrow>
                         (case result of
                            None \<Rightarrow> ret (Some (olm_inbound_group_session_last_error session), None)
                          | Some plaintextLength \<Rightarrow> return_bytes_unchecked plaintextLength plainTextMsg);
                       free_secret maxPlainTextLength plainTextMsg;
                       ret (session, temp, if result = None then None else messageIndex, errorMessage, decryptedMsgBuffer)
                     })
            });
       free_block Buffer_block temp;
       ret (session, index, errorMessage, decryptedMsgBuffer)
     }
   }"

text \<open>The object of the class \<open>DecryptMessageResult\<close> is its field \<open>mIndex\<close>.\<close>

definition inbound_decryptMessageJni ::
    "sodium \<Rightarrow> inbound_group_session option \<Rightarrow> bytes option \<Rightarrow> u64 option \<Rightarrow>
     (inbound_group_session option \<times> u64 option \<times> bytes option) jni_call" where
  "inbound_decryptMessageJni S sessionPtr aEncryptedMsgBuffer aDecryptionResult = do {
     (sessionPtr, aDecryptionResult, errorMessage, decryptedMsgBuffer, encryptedMsgPtr) \<leftarrow>
       (case sessionPtr of
          None \<Rightarrow> ret (None, aDecryptionResult, Some ''invalid inbound group session ptr=NULL'', None, None)
        | Some session \<Rightarrow>
            (case aEncryptedMsgBuffer of
               None \<Rightarrow> ret (Some session, aDecryptionResult, Some ''invalid encrypted message'', None, None)
             | Some encryptedMsg \<Rightarrow>
                 (case aDecryptionResult of
                    None \<Rightarrow> ret (Some session, None, Some ''invalid index object'', None, None)
                  | Some mIndex \<Rightarrow> do {
                      encryptedMsgPtr \<leftarrow> GetByteArrayElements encryptedMsg;
                      case encryptedMsgPtr of
                        None \<Rightarrow> ret (Some session, Some mIndex, Some ''encrypted message JNI allocation OOM'', None, None)
                      | Some e \<Rightarrow> do {
                          indexObjJClass \<leftarrow> lookup_jni;
                          if \<not> indexObjJClass then
                            ret (Some session, Some mIndex, Some ''unable to get index class'', None, Some e)
                          else do {
                            indexMsgFieldId \<leftarrow> lookup_jni;
                            if \<not> indexMsgFieldId then
                              ret (Some session, Some mIndex, Some ''unable to get index type field'', None, Some e)
                            else do {
                              (session, messageIndex, errorMessage, arr) \<leftarrow>
                                group_decrypt_copied_message S session (el_bytes e);
                              ret (Some session,
                                   Some (case messageIndex of None \<Rightarrow> mIndex | Some i \<Rightarrow> ucast i),
                                   errorMessage, arr, Some e)
                            }
                          }
                        }
                    })));
     aEncryptedMsgBuffer \<leftarrow> release_elements aEncryptedMsgBuffer encryptedMsgPtr;
     throw_if errorMessage;
     ret (sessionPtr, aDecryptionResult, decryptedMsgBuffer)
   }"

text \<open>A \<open>long\<close> has 64 bits.\<close>

definition firstKnownIndexJni :: "inbound_group_session option \<Rightarrow> u64 jni_call" where
  "firstKnownIndexJni sessionPtr =
     (case sessionPtr of
        None \<Rightarrow> do { throw ''invalid inbound group session instance''; ret 0 }
      | Some session \<Rightarrow> ret (ucast (olm_inbound_group_session_first_known_index session)))"

definition isVerifiedJni :: "inbound_group_session option \<Rightarrow> bool jni_call" where
  "isVerifiedJni sessionPtr =
     (case sessionPtr of
        None \<Rightarrow> do { throw ''invalid inbound group session instance''; ret False }
      | Some session \<Rightarrow> ret (olm_inbound_group_session_is_verified session))"

text \<open>The parameter of the library has 32 bits. The buffer is cleared when it holds a key.\<close>

definition exportJni ::
    "sodium \<Rightarrow> inbound_group_session option \<Rightarrow> u64 \<Rightarrow> (inbound_group_session option \<times> bytes option) jni_call" where
  "exportJni S sessionPtr messageIndex = do {
     (sessionPtr, errorMessage, exportedByteArray) \<leftarrow>
       (case sessionPtr of
          None \<Rightarrow> ret (None, Some ''invalid inbound group session instance'', None)
        | Some session \<Rightarrow> do {
            let n = olm_export_inbound_group_session_length;
            bufferPtr \<leftarrow> malloc n;
            case bufferPtr of
              None \<Rightarrow> ret (Some session, Some ''pickledPtr buffer OOM'', None)
            | Some buffer \<Rightarrow>
                (case olm_export_inbound_group_session S session buffer (ucast messageIndex) of
                   (session, buffer, None) \<Rightarrow> do {
                     free_block Buffer_block buffer;
                     ret (Some session, Some (olm_inbound_group_session_last_error session), None)
                   }
                 | (session, buffer, Some _) \<Rightarrow> do {
                     (errorMessage, arr) \<leftarrow> return_bytes_unchecked n buffer;
                     free_secret n buffer;
                     ret (Some session, errorMessage, arr)
                   })
          });
     throw_if errorMessage;
     ret (sessionPtr, exportedByteArray)
   }"

definition inbound_serializeJni ::
    "sodium \<Rightarrow> inbound_group_session option \<Rightarrow> bytes option \<Rightarrow> (inbound_group_session option \<times> bytes option) jni_call" where
  "inbound_serializeJni S sessionPtr aKeyBuffer = do {
     (sessionPtr, errorMessage, pickledDataRet) \<leftarrow>
       (case sessionPtr of
          None \<Rightarrow> ret (None, Some ''invalid session ptr'', None)
        | Some session \<Rightarrow>
            (case aKeyBuffer of
               None \<Rightarrow> ret (Some session, Some ''invalid key'', None)
             | Some key \<Rightarrow> do {
                 (session, errorMessage, arr) \<leftarrow>
                   serialize_with ''keyPtr JNI allocation OOM'' (olm_pickle_inbound_group_session_length session)
                     (olm_pickle_inbound_group_session S) olm_inbound_group_session_last_error session key;
                 ret (Some session, errorMessage, arr)
               }));
     throw_if errorMessage;
     ret (sessionPtr, pickledDataRet)
   }"

definition inbound_deserializeJni ::
    "sodium \<Rightarrow> bytes option \<Rightarrow> bytes option \<Rightarrow> (inbound_group_session option \<times> bytes option) jni_call" where
  "inbound_deserializeJni S aSerializedDataBuffer aKeyBuffer = do {
     granted \<leftarrow> malloc_object;
     (sessionPtr, errorMessage, aSerializedDataBuffer) \<leftarrow>
       (if \<not> granted then ret (None, Some ''session failure OOM'', aSerializedDataBuffer)
        else
          let session = olm_inbound_group_session
          in case aKeyBuffer of
               None \<Rightarrow> ret (Some session, Some ''invalid key'', aSerializedDataBuffer)
             | Some key \<Rightarrow>
                 (case aSerializedDataBuffer of
                    None \<Rightarrow> ret (Some session, Some ''serialized data'', None)
                  | Some data \<Rightarrow> do {
                      (session, errorMessage, arr) \<leftarrow>
                        deserialize_with (olm_unpickle_inbound_group_session S) olm_inbound_group_session_last_error
                          session data key;
                      ret (Some session, errorMessage, arr)
                    }));
     sessionPtr \<leftarrow> dispose_on_error sessionPtr errorMessage;
     ret (sessionPtr, aSerializedDataBuffer)
   }"

section \<open>Resources\<close>

lemma outbound_calls_keep [jni_kept]:
  "wp (outbound_createNewSessionJni S) (\<lambda>r. kept (if r = None then 0 else 1) s) s"
  "wp (outbound_releaseSessionJni og) (\<lambda>r. kept (if og = None then 0 else -1) s) s"
  "wp (outbound_deserializeJni S m key) (\<lambda>r. kept (if fst r = None then 0 else 1) s) s"
  "wp (outbound_sessionIdentifierJni og) (\<lambda>r. kept 0 s) s"
  "wp (sessionKeyJni S og) (\<lambda>r. kept 0 s) s"
  "wp (outbound_encryptMessageJni S og m) (\<lambda>r. kept 0 s) s"
  "wp (outbound_serializeJni S og key) (\<lambda>r. kept 0 s) s"
  by (auto simp: outbound_createNewSessionJni_def outbound_releaseSessionJni_def outbound_deserializeJni_def
      outbound_sessionIdentifierJni_def sessionKeyJni_def outbound_encryptMessageJni_def outbound_serializeJni_def
      jni_vcg buffer_lengths split: jni_cases)

lemma inbound_calls_keep [jni_kept]:
  "wp (inbound_createNewSessionJni S key imported) (\<lambda>r. kept (if r = None then 0 else 1) s) s"
  "wp (inbound_releaseSessionJni ig) (\<lambda>r. kept (if ig = None then 0 else -1) s) s"
  "wp (inbound_deserializeJni S m key) (\<lambda>r. kept (if fst r = None then 0 else 1) s) s"
  "wp (inbound_sessionIdentifierJni ig) (\<lambda>r. kept 0 s) s"
  "wp (inbound_decryptMessageJni S ig m i) (\<lambda>r. kept 0 s) s"
  "wp (firstKnownIndexJni ig) (\<lambda>r. kept 0 s) s"
  "wp (isVerifiedJni ig) (\<lambda>r. kept 0 s) s"
  "wp (exportJni S ig j) (\<lambda>r. kept 0 s) s"
  "wp (inbound_serializeJni S ig key) (\<lambda>r. kept 0 s) s"
  by (auto simp: inbound_createNewSessionJni_def inbound_releaseSessionJni_def inbound_deserializeJni_def
      inbound_sessionIdentifierJni_def inbound_decryptMessageJni_def group_decrypt_copied_message_def
      firstKnownIndexJni_def isVerifiedJni_def exportJni_def inbound_serializeJni_def jni_vcg buffer_lengths split: jni_cases)

end
