(* ===== verification/Jni_Pk.thy ===== *)
theory Jni_Pk
  imports Jni_Env Buffer_Lengths
begin

text \<open>
  \<open>olm_pk.c\<close> of the bindings. Most of these functions do nothing, and throw nothing, when the native
  object is missing.
\<close>

section \<open>Encryption\<close>

definition initializePkEncryptionMemory :: "pk_encryption option jni_call" where
  "initializePkEncryptionMemory = do {
     granted \<leftarrow> malloc_object;
     ret (if granted then Some olm_pk_encryption else None)
   }"

definition createNewPkEncryptionJni :: "pk_encryption option jni_call" where
  "createNewPkEncryptionJni = do {
     encryptionPtr \<leftarrow> initializePkEncryptionMemory;
     dispose_on_error encryptionPtr (if encryptionPtr = None then Some ''init encryption OOM'' else None)
   }"

definition releasePkEncryptionJni :: "pk_encryption option \<Rightarrow> unit jni_call" where
  "releasePkEncryptionJni encryptionPtr = (if encryptionPtr = None then ret () else free_object)"

definition setRecipientKeyJni :: "pk_encryption option \<Rightarrow> bytes option \<Rightarrow> pk_encryption option jni_call" where
  "setRecipientKeyJni encryptionPtr aKeyBuffer = do {
     (encryptionPtr, errorMessage, keyPtr) \<leftarrow>
       (case encryptionPtr of
          None \<Rightarrow> ret (None, None, None)
        | Some encryption \<Rightarrow>
            (case aKeyBuffer of
               None \<Rightarrow> ret (Some encryption, Some ''invalid key'', None)
             | Some key \<Rightarrow> do {
                 keyPtr \<leftarrow> GetByteArrayElements key;
                 case keyPtr of
                   None \<Rightarrow> ret (Some encryption, Some ''key JNI allocation OOM'', None)
                 | Some e \<Rightarrow>
                     (case olm_pk_encryption_set_recipient_key encryption (el_bytes e) of
                        (encryption, result) \<Rightarrow>
                          ret (Some encryption,
                               if result = None then Some (olm_pk_encryption_last_error encryption) else None, Some e))
               }));
     _ \<leftarrow> release_elements aKeyBuffer keyPtr;
     throw_if errorMessage;
     ret encryptionPtr
   }"

text \<open>An object of the class \<open>OlmPkMessage\<close>.\<close>

record java_pk_message =
  jp_cipher_text :: "bytes option"
  jp_mac :: "bytes option"
  jp_ephemeral_key :: "bytes option"

text \<open>The characters in front of the zero behind a buffer.\<close>

definition terminated :: "bytes \<Rightarrow> bytes" where
  "terminated b = takeWhile (\<lambda>c. c \<noteq> 0) b"

text \<open>The buffers, the call and the results, once the arguments are there.\<close>

definition pk_encrypt_plaintext ::
    "sodium \<Rightarrow> pk_encryption \<Rightarrow> bytes \<Rightarrow> java_pk_message \<Rightarrow>
     (pk_encryption \<times> java_pk_message \<times> string option \<times> bytes option) jni_call" where
  "pk_encrypt_plaintext S encryption plaintext msg = do {
     let ciphertextLength = olm_pk_ciphertext_length (length plaintext);
     let randomLength = olm_pk_encrypt_random_length;
     ciphertextPtr \<leftarrow> malloc ciphertextLength;
     macPtr \<leftarrow> (if ciphertextPtr = None then ret None else malloc (olm_pk_mac_length + 1));
     ephemeralPtr \<leftarrow> (if macPtr = None then ret None else malloc (olm_pk_key_length + 1));
     (ok, randomBuffPtr) \<leftarrow>
       (if ephemeralPtr = None then ret (False, None) else setRandomInBuffer S randomLength);
     (encryption, msg, errorMessage, encryptedMsgRet) \<leftarrow>
       (if ciphertextPtr = None then ret (encryption, msg, Some ''ciphertext JNI allocation OOM'', None)
        else if macPtr = None then ret (encryption, msg, Some ''MAC JNI allocation OOM'', None)
        else if ephemeralPtr = None then ret (encryption, msg, Some ''ephemeral JNI allocation OOM'', None)
        else if \<not> ok then ret (encryption, msg, Some ''random buffer init'', None)
        else
          case olm_pk_encrypt S encryption plaintext (buffer_bytes ciphertextPtr)
                 (take olm_pk_mac_length (buffer_bytes macPtr)) (take olm_pk_key_length (buffer_bytes ephemeralPtr))
                 (buffer_bytes randomBuffPtr) of
            (encryption, ciphertext, mac, ephemeral, returnValue) \<Rightarrow>
              if returnValue = None then
                ret (encryption, msg, Some (olm_pk_encryption_last_error encryption), None)
              else do {
                (_, arr) \<leftarrow> return_bytes_unchecked ciphertextLength ciphertext;
                macStr \<leftarrow> NewStringUTF (terminated mac);
                ephemeralStr \<leftarrow> NewStringUTF (terminated ephemeral);
                ret (encryption, msg\<lparr>jp_mac := macStr, jp_ephemeral_key := ephemeralStr\<rparr>, None, arr)
              });
     clear_free_random randomLength randomBuffPtr;
     (case ephemeralPtr of None \<Rightarrow> ret () | Some b \<Rightarrow> free_block Buffer_block b);
     (case macPtr of None \<Rightarrow> ret () | Some b \<Rightarrow> free_block Buffer_block b);
     (case ciphertextPtr of None \<Rightarrow> ret () | Some b \<Rightarrow> free_block Buffer_block b);
     ret (encryption, msg, errorMessage, encryptedMsgRet)
   }"

definition pk_encryptJni ::
    "sodium \<Rightarrow> pk_encryption option \<Rightarrow> bytes option \<Rightarrow> java_pk_message option \<Rightarrow>
     (pk_encryption option \<times> java_pk_message option \<times> bytes option) jni_call" where
  "pk_encryptJni S encryptionPtr aPlaintextBuffer aEncryptedMsg = do {
     (encryptionPtr, aEncryptedMsg, errorMessage, encryptedMsgRet, plaintextPtr) \<leftarrow>
       (case encryptionPtr of
          None \<Rightarrow> ret (None, aEncryptedMsg, None, None, None)
        | Some encryption \<Rightarrow>
            (case aPlaintextBuffer of
               None \<Rightarrow> ret (Some encryption, aEncryptedMsg, Some ''invalid clear message'', None, None)
             | Some plaintext \<Rightarrow>
                 (case aEncryptedMsg of
                    None \<Rightarrow> ret (Some encryption, None, Some ''invalid encrypted message'', None, None)
                  | Some msg \<Rightarrow> do {
                      plaintextPtr \<leftarrow> GetByteArrayElements plaintext;
                      case plaintextPtr of
                        None \<Rightarrow> ret (Some encryption, Some msg, Some ''plaintext JNI allocation OOM'', None, None)
                      | Some e \<Rightarrow> do {
                          encryptedMsgJClass \<leftarrow> lookup_jni;
                          macFieldId \<leftarrow> (if encryptedMsgJClass then lookup_jni else ret False);
                          ephemeralFieldId \<leftarrow> (if macFieldId then lookup_jni else ret False);
                          if \<not> encryptedMsgJClass then
                            ret (Some encryption, Some msg, Some ''unable to get encrypted message class'', None, Some e)
                          else if \<not> macFieldId then
                            ret (Some encryption, Some msg, Some ''unable to get MAC field'', None, Some e)
                          else if \<not> ephemeralFieldId then
                            ret (Some encryption, Some msg, Some ''unable to get ephemeral key field'', None, Some e)
                          else do {
                            (encryption, msg, errorMessage, arr) \<leftarrow> pk_encrypt_plaintext S encryption (el_bytes e) msg;
                            ret (Some encryption, Some msg, errorMessage, arr, Some e)
                          }
                        }
                    })));
     aPlaintextBuffer \<leftarrow> clear_release_elements aPlaintextBuffer plaintextPtr;
     throw_if errorMessage;
     ret (encryptionPtr, aEncryptedMsg, encryptedMsgRet)
   }"

section \<open>Decryption\<close>

definition initializePkDecryptionMemory :: "pk_decryption option jni_call" where
  "initializePkDecryptionMemory = do {
     granted \<leftarrow> malloc_object;
     ret (if granted then Some olm_pk_decryption else None)
   }"

definition createNewPkDecryptionJni :: "pk_decryption option jni_call" where
  "createNewPkDecryptionJni = do {
     decryptionPtr \<leftarrow> initializePkDecryptionMemory;
     dispose_on_error decryptionPtr (if decryptionPtr = None then Some ''init decryption OOM'' else None)
   }"

definition releasePkDecryptionJni :: "pk_decryption option \<Rightarrow> unit jni_call" where
  "releasePkDecryptionJni decryptionPtr = (if decryptionPtr = None then ret () else free_object)"

definition privateKeyLength :: int where
  "privateKeyLength = int olm_pk_private_key_length"

definition setPrivateKeyJni ::
    "sodium \<Rightarrow> pk_decryption option \<Rightarrow> bytes option \<Rightarrow> (pk_decryption option \<times> bytes option) jni_call" where
  "setPrivateKeyJni S decryptionPtr key = do {
     (decryptionPtr, errorMessage, publicKeyRet, keyPtr) \<leftarrow>
       (case decryptionPtr of
          None \<Rightarrow> ret (None, None, None, None)
        | Some decryption \<Rightarrow>
            (case key of
               None \<Rightarrow> ret (Some decryption, Some ''invalid key'', None, None)
             | Some private_key \<Rightarrow> do {
                 keyPtr \<leftarrow> GetByteArrayElements private_key;
                 case keyPtr of
                   None \<Rightarrow> ret (Some decryption, Some ''key JNI allocation OOM'', None, None)
                 | Some e \<Rightarrow> do {
                     (decryption, errorMessage, arr) \<leftarrow>
                       fill_and_return olm_pk_key_length ''public key JNI allocation OOM''
                         (\<lambda>decryption pubkey. olm_pk_key_from_private S decryption pubkey (el_bytes e))
                         olm_pk_decryption_last_error (\<lambda>_. return_bytes_unchecked olm_pk_key_length)
                         (free_block Buffer_block) decryption;
                     ret (Some decryption, errorMessage, arr, Some e)
                   }
               }));
     key \<leftarrow> clear_release_elements key keyPtr;
     throw_if errorMessage;
     ret (decryptionPtr, publicKeyRet)
   }"

definition generateKeyJni :: "sodium \<Rightarrow> pk_decryption option \<Rightarrow> (pk_decryption option \<times> bytes option) jni_call" where
  "generateKeyJni S decryptionPtr = do {
     let randomLength = olm_pk_private_key_length;
     (decryptionPtr, errorMessage, publicKeyRet, randomBuffPtr) \<leftarrow>
       (case decryptionPtr of
          None \<Rightarrow> ret (None, Some ''invalid Decryption ptr=NULL'', None, None)
        | Some decryption \<Rightarrow> do {
            (ok, randomBuffPtr) \<leftarrow> setRandomInBuffer S randomLength;
            if \<not> ok then ret (Some decryption, Some ''random buffer init'', None, randomBuffPtr)
            else do {
              (decryption, errorMessage, arr) \<leftarrow>
                fill_and_return olm_pk_key_length ''public key allocation OOM''
                  (\<lambda>decryption pubkey. olm_pk_key_from_private S decryption pubkey (buffer_bytes randomBuffPtr))
                  olm_pk_decryption_last_error (\<lambda>_. return_bytes_unchecked olm_pk_key_length)
                  (free_block Buffer_block) decryption;
              ret (Some decryption, errorMessage, arr, randomBuffPtr)
            }
          });
     clear_free_random randomLength randomBuffPtr;
     throw_if errorMessage;
     ret (decryptionPtr, publicKeyRet)
   }"

definition privateKeyJni :: "pk_decryption option \<Rightarrow> (pk_decryption option \<times> bytes option) jni_call" where
  "privateKeyJni decryptionPtr = do {
     (decryptionPtr, errorMessage, privateKeyRet) \<leftarrow>
       (case decryptionPtr of
          None \<Rightarrow> ret (None, None, None)
        | Some decryption \<Rightarrow> do {
            (decryption, errorMessage, arr) \<leftarrow>
              fill_and_return olm_pk_private_key_length ''private key JNI allocation OOM'' olm_pk_get_private_key
                olm_pk_decryption_last_error (\<lambda>_. return_bytes_unchecked olm_pk_private_key_length)
                (free_secret olm_pk_private_key_length) decryption;
            ret (Some decryption, errorMessage, arr)
          });
     throw_if errorMessage;
     ret (decryptionPtr, privateKeyRet)
   }"

text \<open>The buffers and the call, once the three strings are there.\<close>

definition pk_decrypt_strings ::
    "sodium \<Rightarrow> pk_decryption \<Rightarrow> bytes \<Rightarrow> bytes \<Rightarrow> bytes \<Rightarrow> (pk_decryption \<times> string option \<times> bytes option) jni_call" where
  "pk_decrypt_strings S decryption ephemeral mac ciphertext = do {
     let maxPlaintextLength = olm_pk_max_plaintext_length (length ciphertext);
     plaintextPtr \<leftarrow> malloc maxPlaintextLength;
     case plaintextPtr of
       None \<Rightarrow> ret (decryption, Some ''plaintext JNI allocation OOM'', None)
     | Some plaintext \<Rightarrow> do {
         tempCiphertextPtr \<leftarrow> malloc (length ciphertext);
         if tempCiphertextPtr = None then do {
           free_secret maxPlaintextLength plaintext;
           ret (decryption, Some ''temp ciphertext JNI allocation OOM'', None)
         }
         else
           case olm_pk_decrypt S decryption ephemeral mac ciphertext plaintext of
             (decryption, temp, plaintext, plaintextLength) \<Rightarrow> do {
               (errorMessage, arr) \<leftarrow>
                 (case plaintextLength of
                    None \<Rightarrow> ret (Some (olm_pk_decryption_last_error decryption), None)
                  | Some n \<Rightarrow> return_bytes_unchecked n plaintext);
               free_block Buffer_block temp;
               free_secret maxPlaintextLength plaintext;
               ret (decryption, errorMessage, arr)
             }
       }
   }"

definition pk_decryptJni ::
    "sodium \<Rightarrow> pk_decryption option \<Rightarrow> java_pk_message option \<Rightarrow> (pk_decryption option \<times> bytes option) jni_call" where
  "pk_decryptJni S decryptionPtr aEncryptedMsg =
     (case decryptionPtr of
        None \<Rightarrow> do { throw ''invalid Decryption ptr=NULL''; ret (None, None) }
      | Some decryption \<Rightarrow>
          (case aEncryptedMsg of
             None \<Rightarrow> do { throw ''invalid encrypted message''; ret (Some decryption, None) }
           | Some msg \<Rightarrow> do {
               encryptedMsgJClass \<leftarrow> lookup_jni;
               if \<not> encryptedMsgJClass then do {
                 throw ''unable to get encrypted message class'';
                 ret (Some decryption, None)
               }
               else do {
                 ciphertext \<leftarrow>
                   read_string_field ''unable to get message field'' ''no ciphertext'' ''ciphertext JNI allocation OOM''
                     (jp_cipher_text msg);
                 mac \<leftarrow>
                   (case ciphertext of
                      Inl e \<Rightarrow> ret (Inl e)
                    | Inr _ \<Rightarrow>
                        read_string_field ''unable to get MAC field'' ''no MAC'' ''ciphertext JNI allocation OOM''
                          (jp_mac msg));
                 ephemeral \<leftarrow>
                   (case mac of
                      Inl e \<Rightarrow> ret (Inl e)
                    | Inr _ \<Rightarrow>
                        read_string_field ''unable to get ephemeral key field'' ''no ephemeral key''
                          ''ephemeral key JNI allocation OOM'' (jp_ephemeral_key msg));
                 (decryption, errorMessage, decryptedMsgRet) \<leftarrow>
                   (case ephemeral of
                      Inl e \<Rightarrow> ret (decryption, Some e, None)
                    | Inr ephemeral_key \<Rightarrow>
                        pk_decrypt_strings S decryption ephemeral_key (buffer_bytes (chars_of mac))
                          (buffer_bytes (chars_of ciphertext)));
                 ReleaseStringUTFChars (chars_of ciphertext);
                 ReleaseStringUTFChars (chars_of mac);
                 ReleaseStringUTFChars (chars_of ephemeral);
                 throw_if errorMessage;
                 ret (Some decryption, decryptedMsgRet)
               }
             }))"

section \<open>Signing\<close>

definition initializePkSigningMemory :: "pk_signing option jni_call" where
  "initializePkSigningMemory = do {
     granted \<leftarrow> malloc_object;
     ret (if granted then Some olm_pk_signing else None)
   }"

definition createNewPkSigningJni :: "pk_signing option jni_call" where
  "createNewPkSigningJni = do {
     signingPtr \<leftarrow> initializePkSigningMemory;
     dispose_on_error signingPtr (if signingPtr = None then Some ''init signing OOM'' else None)
   }"

definition releasePkSigningJni :: "pk_signing option \<Rightarrow> unit jni_call" where
  "releasePkSigningJni signingPtr = (if signingPtr = None then ret () else free_object)"

definition generateSeedJni :: "sodium \<Rightarrow> bytes option jni_call" where
  "generateSeedJni S = do {
     let randomLength = olm_pk_signing_seed_length;
     (ok, randomBuffPtr) \<leftarrow> setRandomInBuffer S randomLength;
     (errorMessage, randomRet) \<leftarrow>
       (if \<not> ok then ret (Some ''random buffer init'', None)
        else return_bytes ''randomRet JNI allocation OOM'' randomLength (buffer_bytes randomBuffPtr));
     clear_free_random randomLength randomBuffPtr;
     throw_if errorMessage;
     ret randomRet
   }"

definition seedLength :: int where
  "seedLength = int olm_pk_signing_seed_length"

definition setKeyFromSeedJni ::
    "sodium \<Rightarrow> pk_signing option \<Rightarrow> bytes option \<Rightarrow> (pk_signing option \<times> bytes option) jni_call" where
  "setKeyFromSeedJni S signingPtr seed = do {
     (signingPtr, errorMessage, publicKeyRet, seedPtr) \<leftarrow>
       (case signingPtr of
          None \<Rightarrow> ret (None, Some ''invalid Siging ptr=NULL'', None, None)
        | Some signing \<Rightarrow>
            (case seed of
               None \<Rightarrow> ret (Some signing, Some ''invalid seed'', None, None)
             | Some seed_bytes \<Rightarrow> do {
                 seedPtr \<leftarrow> GetByteArrayElements seed_bytes;
                 case seedPtr of
                   None \<Rightarrow> ret (Some signing, Some ''seed JNI allocation OOM'', None, None)
                 | Some e \<Rightarrow> do {
                     (signing, errorMessage, arr) \<leftarrow>
                       fill_and_return olm_pk_signing_public_key_length ''public key JNI allocation OOM''
                         (\<lambda>signing pubkey. olm_pk_signing_key_from_seed S signing pubkey (el_bytes e))
                         olm_pk_signing_last_error
                         (\<lambda>_. return_bytes ''publicKeyRet JNI allocation OOM'' olm_pk_signing_public_key_length)
                         (free_block Buffer_block) signing;
                     ret (Some signing, errorMessage, arr, Some e)
                   }
               }));
     seed \<leftarrow> clear_release_elements seed seedPtr;
     throw_if errorMessage;
     ret (signingPtr, publicKeyRet)
   }"

definition pkSignJni ::
    "sodium \<Rightarrow> pk_signing option \<Rightarrow> bytes option \<Rightarrow> (pk_signing option \<times> bytes option) jni_call" where
  "pkSignJni S signingPtr aMessage = do {
     (signingPtr, errorMessage, signatureRet, messagePtr) \<leftarrow>
       (case signingPtr of
          None \<Rightarrow> ret (None, Some ''invalid Siging ptr=NULL'', None, None)
        | Some signing \<Rightarrow>
            (case aMessage of
               None \<Rightarrow> ret (Some signing, Some ''message seed'', None, None)
             | Some message \<Rightarrow> do {
                 messagePtr \<leftarrow> GetByteArrayElements message;
                 case messagePtr of
                   None \<Rightarrow> ret (Some signing, Some ''message JNI allocation OOM'', None, None)
                 | Some e \<Rightarrow> do {
                     (signing, errorMessage, arr) \<leftarrow>
                       fill_and_return olm_pk_signature_length ''signature JNI allocation OOM''
                         (\<lambda>signing. olm_pk_sign S signing (el_bytes e)) olm_pk_signing_last_error
                         (\<lambda>_. return_bytes ''signatureRet JNI allocation OOM'' olm_pk_signature_length)
                         (free_block Buffer_block) signing;
                     ret (Some signing, errorMessage, arr, Some e)
                   }
               }));
     aMessage \<leftarrow> clear_release_elements aMessage messagePtr;
     throw_if errorMessage;
     ret (signingPtr, signatureRet)
   }"

section \<open>Resources\<close>

lemma pk_objects_keep [jni_kept]:
  "wp createNewPkEncryptionJni (\<lambda>r. kept (if r = None then 0 else 1) s) s"
  "wp createNewPkDecryptionJni (\<lambda>r. kept (if r = None then 0 else 1) s) s"
  "wp createNewPkSigningJni (\<lambda>r. kept (if r = None then 0 else 1) s) s"
  "wp (releasePkEncryptionJni pe) (\<lambda>r. kept (if pe = None then 0 else -1) s) s"
  "wp (releasePkDecryptionJni pd) (\<lambda>r. kept (if pd = None then 0 else -1) s) s"
  "wp (releasePkSigningJni ps) (\<lambda>r. kept (if ps = None then 0 else -1) s) s"
  by (auto simp: createNewPkEncryptionJni_def createNewPkDecryptionJni_def createNewPkSigningJni_def
      initializePkEncryptionMemory_def initializePkDecryptionMemory_def initializePkSigningMemory_def
      releasePkEncryptionJni_def releasePkDecryptionJni_def releasePkSigningJni_def jni_vcg buffer_lengths split: jni_cases)

lemma pk_calls_keep [jni_kept]:
  "wp (setRecipientKeyJni pe key) (\<lambda>r. kept 0 s) s"
  "wp (setPrivateKeyJni S pd key) (\<lambda>r. kept 0 s) s"
  "wp (generateKeyJni S pd) (\<lambda>r. kept 0 s) s"
  "wp (privateKeyJni pd) (\<lambda>r. kept 0 s) s"
  "wp (generateSeedJni S) (\<lambda>r. kept 0 s) s"
  "wp (setKeyFromSeedJni S ps key) (\<lambda>r. kept 0 s) s"
  "wp (pkSignJni S ps m) (\<lambda>r. kept 0 s) s"
  by (auto simp: setRecipientKeyJni_def setPrivateKeyJni_def generateKeyJni_def privateKeyJni_def generateSeedJni_def
      setKeyFromSeedJni_def pkSignJni_def jni_vcg buffer_lengths split: jni_cases)

lemma wp_pk_encrypt_plaintext:
  "(\<And>r s'. kept 0 s s' \<Longrightarrow> Q r s') \<Longrightarrow> wp (pk_encrypt_plaintext S pe m msg) Q s"
  by (auto simp: pk_encrypt_plaintext_def jni_vcg buffer_lengths split: jni_cases)

lemma wp_pk_decrypt_strings:
  "(\<And>r s'. kept 0 s s' \<Longrightarrow> Q r s') \<Longrightarrow> wp (pk_decrypt_strings S pd key mac m) Q s"
  by (auto simp: pk_decrypt_strings_def jni_vcg buffer_lengths split: jni_cases)

lemma pk_messages_keep [jni_kept]:
  "wp (pk_encryptJni S pe m msg) (\<lambda>r. kept 0 s) s"
  "wp (pk_decryptJni S pd msg) (\<lambda>r. kept 0 s) s"
  by (auto intro!: wp_pk_encrypt_plaintext wp_pk_decrypt_strings
      simp: pk_encryptJni_def pk_decryptJni_def jni_vcg buffer_lengths split: jni_cases)

end
