(* ===== verification/Jni_Sas.thy ===== *)
theory Jni_Sas
  imports Jni_Env Buffer_Lengths
begin

text \<open>
  \<open>olm_sas.c\<close> of the bindings. The object is the first component of each result; \<open>None\<close> is a null
  pointer.
\<close>

definition createNewSASJni :: "sodium \<Rightarrow> sas option jni_call" where
  "createNewSASJni S = do {
     granted \<leftarrow> malloc_object;
     if \<not> granted then do { throw ''init sas OOM''; ret None }
     else do {
       let sasPtr = olm_sas;
       let randomSize = olm_create_sas_random_length;
       (ok, randomBuffPtr) \<leftarrow> random_if_needed S randomSize;
       let (sasPtr, errorMessage) =
         (if \<not> ok then (sasPtr, Some ''Failed to init private key'')
          else case olm_create_sas S sasPtr (buffer_bytes randomBuffPtr) of
                 (sasPtr, None) \<Rightarrow> (sasPtr, Some (olm_sas_last_error sasPtr))
               | (sasPtr, Some _) \<Rightarrow> (sasPtr, None));
       clear_free_random randomSize randomBuffPtr;
       throw_if errorMessage;
       ret (Some sasPtr)
     }
   }"

definition releaseSASJni :: "sas option \<Rightarrow> unit jni_call" where
  "releaseSASJni sasPtr = (if sasPtr = None then ret () else free_object)"

definition getPubKeyJni :: "sas option \<Rightarrow> (sas option \<times> bytes option) jni_call" where
  "getPubKeyJni sasPtr = do {
     (sasPtr, errorMessage, returnValue) \<leftarrow>
       (case sasPtr of
          None \<Rightarrow> ret (None, Some ''invalid SAS ptr=NULL'', None)
        | Some sas \<Rightarrow> do {
            (sas, errorMessage, returnValue) \<leftarrow>
              fill_and_return olm_sas_pubkey_length ''pub key allocation OOM'' olm_sas_get_pubkey olm_sas_last_error
                (\<lambda>_. return_bytes_unchecked olm_sas_pubkey_length) (free_block Buffer_block) sas;
            ret (Some sas, errorMessage, returnValue)
          });
     throw_if errorMessage;
     ret (sasPtr, returnValue)
   }"

text \<open>The key is decoded in place: the array is part of the result.\<close>

definition setTheirPubKey :: "sodium \<Rightarrow> sas option \<Rightarrow> bytes option \<Rightarrow> (sas option \<times> bytes option) jni_call" where
  "setTheirPubKey S sasPtr pubKeyBuffer = do {
     (sasPtr, errorMessage, pubKeyPtr) \<leftarrow>
       (case sasPtr of
          None \<Rightarrow> ret (None, Some ''invalid SAS ptr=NULL'', None)
        | Some sas \<Rightarrow>
            (case pubKeyBuffer of
               None \<Rightarrow> ret (Some sas, Some ''invalid pubKey'', None)
             | Some arr \<Rightarrow> do {
                 pubKeyPtr \<leftarrow> GetByteArrayElements arr;
                 case pubKeyPtr of
                   None \<Rightarrow> ret (Some sas, Some ''info JNI allocation OOM'', None)
                 | Some e \<Rightarrow>
                     let (sas, decoded, result) = olm_sas_set_their_key S sas (el_bytes e)
                     in ret (Some sas, if result = None then Some (olm_sas_last_error sas) else None,
                             Some (e\<lparr>el_bytes := decoded\<rparr>))
               }));
     pubKeyBuffer \<leftarrow> clear_release_elements pubKeyBuffer pubKeyPtr;
     throw_if errorMessage;
     ret (sasPtr, pubKeyBuffer)
   }"

definition generateShortCodeJni :: "sodium \<Rightarrow> sas option \<Rightarrow> bytes option \<Rightarrow> u32 \<Rightarrow> (sas option \<times> bytes option) jni_call" where
  "generateShortCodeJni S sasPtr infoStringBytes byteNb = do {
     (sasPtr, errorMessage, returnValue, infoPtr) \<leftarrow>
       (case sasPtr of
          None \<Rightarrow> ret (None, Some ''invalid SAS ptr=NULL'', None, None)
        | Some sas \<Rightarrow>
            (case infoStringBytes of
               None \<Rightarrow> ret (Some sas, Some ''invalid info'', None, None)
             | Some arr \<Rightarrow>
                 if sint byteNb \<le> 0 then ret (Some sas, Some ''invalid byteNb'', None, None)
                 else do {
                   infoPtr \<leftarrow> GetByteArrayElements arr;
                   case infoPtr of
                     None \<Rightarrow> ret (Some sas, Some ''info JNI allocation OOM'', None, None)
                   | Some e \<Rightarrow> do {
                       (sas, errorMessage, returnValue) \<leftarrow>
                         fill_and_return (unat byteNb) ''short code allocation OOM''
                           (\<lambda>sas. olm_sas_generate_bytes S sas (el_bytes e)) olm_sas_last_error
                           (\<lambda>_. return_bytes_unchecked (unat byteNb)) (free_block Buffer_block) sas;
                       ret (Some sas, errorMessage, returnValue, Some e)
                     }
                 }));
     infoStringBytes \<leftarrow> clear_release_elements infoStringBytes infoPtr;
     throw_if errorMessage;
     ret (sasPtr, returnValue)
   }"

text \<open>The three functions that compute a MAC differ in the function of the library they call.\<close>

definition calculate_mac_with ::
    "(sas \<Rightarrow> bytes \<Rightarrow> bytes \<Rightarrow> bytes \<Rightarrow> sas \<times> bytes \<times> nat option) \<Rightarrow>
     sas option \<Rightarrow> bytes option \<Rightarrow> bytes option \<Rightarrow> (sas option \<times> bytes option) jni_call" where
  "calculate_mac_with calculate sasPtr messageBuffer infoBuffer = do {
     (sasPtr, errorMessage, returnValue, messagePtr, infoPtr) \<leftarrow>
       (case sasPtr of
          None \<Rightarrow> ret (None, Some ''invalid SAS ptr=NULL'', None, None, None)
        | Some sas \<Rightarrow>
            (case messageBuffer of
               None \<Rightarrow> ret (Some sas, Some ''invalid info'', None, None, None)
             | Some message \<Rightarrow> do {
                 messagePtr \<leftarrow> GetByteArrayElements message;
                 case messagePtr of
                   None \<Rightarrow> ret (Some sas, Some ''message JNI allocation OOM'', None, None, None)
                 | Some em \<Rightarrow>
                     (case infoBuffer of
                        None \<Rightarrow> ret (Some sas, Some ''invalid info'', None, Some em, None)
                      | Some info \<Rightarrow> do {
                          infoPtr \<leftarrow> GetByteArrayElements info;
                          case infoPtr of
                            None \<Rightarrow> ret (Some sas, Some ''info JNI allocation OOM'', None, Some em, None)
                          | Some ei \<Rightarrow> do {
                              (sas, errorMessage, returnValue) \<leftarrow>
                                fill_and_return olm_sas_mac_length ''mac allocation OOM''
                                  (\<lambda>sas. calculate sas (el_bytes em) (el_bytes ei)) olm_sas_last_error
                                  (\<lambda>_. return_bytes_unchecked olm_sas_mac_length) (free_block Buffer_block) sas;
                              ret (Some sas, errorMessage, returnValue, Some em, Some ei)
                            }
                        })
               }));
     infoBuffer \<leftarrow> clear_release_elements infoBuffer infoPtr;
     messageBuffer \<leftarrow> clear_release_elements messageBuffer messagePtr;
     throw_if errorMessage;
     ret (sasPtr, returnValue)
   }"

definition calculateMacJni :: "sodium \<Rightarrow> sas option \<Rightarrow> bytes option \<Rightarrow> bytes option \<Rightarrow> (sas option \<times> bytes option) jni_call" where
  "calculateMacJni S = calculate_mac_with (olm_sas_calculate_mac S)"

definition calculateMacFixedBase64Jni ::
    "sodium \<Rightarrow> sas option \<Rightarrow> bytes option \<Rightarrow> bytes option \<Rightarrow> (sas option \<times> bytes option) jni_call" where
  "calculateMacFixedBase64Jni S = calculate_mac_with (olm_sas_calculate_mac_fixed_base64 S)"

definition calculateMacLongKdfJni ::
    "sodium \<Rightarrow> sas option \<Rightarrow> bytes option \<Rightarrow> bytes option \<Rightarrow> (sas option \<times> bytes option) jni_call" where
  "calculateMacLongKdfJni S = calculate_mac_with (olm_sas_calculate_mac_long_kdf S)"

section \<open>Resources\<close>

lemma sas_calls_keep [jni_kept]:
  "wp (releaseSASJni obj) (\<lambda>r. kept (if obj = None then 0 else -1) s) s"
  "wp (getPubKeyJni obj) (\<lambda>r. kept 0 s) s"
  "wp (setTheirPubKey S obj arr) (\<lambda>r. kept 0 s) s"
  "wp (generateShortCodeJni S obj arr n) (\<lambda>r. kept 0 s) s"
  "wp (calculateMacJni S obj arr arr2) (\<lambda>r. kept 0 s) s"
  "wp (calculateMacFixedBase64Jni S obj arr arr2) (\<lambda>r. kept 0 s) s"
  "wp (calculateMacLongKdfJni S obj arr arr2) (\<lambda>r. kept 0 s) s"
  by (auto simp: releaseSASJni_def getPubKeyJni_def setTheirPubKey_def generateShortCodeJni_def calculateMacJni_def
      calculateMacFixedBase64Jni_def calculateMacLongKdfJni_def calculate_mac_with_def jni_vcg buffer_lengths split: jni_cases)

lemma create_sas_kept:
  "wp (createNewSASJni S) (\<lambda>r. kept (if r = None then 0 else 1) s) s"
  by (auto simp: createNewSASJni_def jni_vcg buffer_lengths split: jni_cases)

end
