(* ===== verification/Jni_Runs.thy ===== *)
theory Jni_Runs
  imports Jni_Account Jni_Session Jni_Group Jni_Pk Jni_Sas
begin

text \<open>
  The native functions as a Java program calls them: a step is one call that returns, whatever the
  arguments are, a run is a sequence of calls. Each call starts with no exception pending and in a
  virtual machine that has not aborted. Two numbers are counted: the native objects handed out,
  less those given back, and the objects of \<open>createNewSASJni\<close> that were never handed out, because
  the function returned their pointer with an exception pending: the Java program gets the exception
  instead of the pointer, and nothing frees the object.
\<close>

section \<open>Steps and runs\<close>







lemma lookup_keeps [jni_kept]: "wp (getInstanceId known obj) (\<lambda>r. kept 0 s) s"
  by (auto simp: jni_vcg split: jni_splits)









section \<open>Java programs\<close>

text \<open>A program goes on after a call unless it threw an exception, or the virtual machine aborted.\<close>

definition unless_thrown :: "'a \<Rightarrow> 'a jni_call \<Rightarrow> 'a jni_call" where
  "unless_thrown a m = do {
     ended \<leftarrow> State (\<lambda>s. (jn_exception s \<noteq> None \<or> jn_crashed s, s));
     if ended then ret a else m
   }"

definition calm :: "jni \<Rightarrow> bool" where
  "calm s \<longleftrightarrow> jn_exception s = None \<and> \<not> jn_crashed s"

text \<open>What a call hands to its program: a result, or an exception or the abort.\<close>

definition array_or_end :: "jni \<Rightarrow> bytes \<Rightarrow> bytes option \<Rightarrow> jni \<Rightarrow> bool" where
  "array_or_end s result arr s' \<longleftrightarrow> jn_answers s' = jn_answers s
     \<and> (if arr = None then jn_exception s' \<noteq> None \<or> jn_crashed s' else arr = Some result \<and> calm s' = calm s)
     \<and> (generous s \<longrightarrow> arr \<noteq> None)"

lemma wp_unless_thrown: "wp (unless_thrown a m) Q s \<longleftrightarrow> (if calm s then wp m Q s else Q a s)"
  by (auto simp: unless_thrown_def wp_simps calm_def)

lemma wp_seqI: "wp m P s \<Longrightarrow> (\<And>a s'. P a s' \<Longrightarrow> wp (f a) Q s') \<Longrightarrow> wp (m \<bind> f) Q s"
  by (auto simp: wp_bind intro: wp_mono)

end
