(* ===== verification/Jni_Storage.thy ===== *)
theory Jni_Storage
  imports Jni_Runs Api_Properties Group_Sync
begin

text \<open>
  Objects that a Java program stores: what \<open>serializeJni\<close> returns, and what \<open>deserializeJni\<close> makes of
  it, under the same key. The two lemmas in the context of \<open>object_codec\<close> are about the common part
  of the bindings; the interpretations for accounts, sessions and group sessions give the rest.
\<close>

section \<open>The common part\<close>

text \<open>A block of memory, or the Java array itself, that starts with the raw pickle of an object.\<close>

definition left_behind :: "bytes \<Rightarrow> bytes option \<Rightarrow> jni \<Rightarrow> bool" where
  "left_behind raw arr s \<longleftrightarrow>
     (\<exists>b. take (length raw) b = raw \<and> (arr = Some b \<or> (Array_copy, b) \<in> set (jn_returned s)))"

lemmas wp_core = wp_bind wp_ret wp_case_option wp_case_prod wp_if throw_if_def throw_def wp_State dispose_on_error_def
  free_object_def

lemma b64_length_le: "b64_length n \<le> 2 * n + 4"
  by (simp add: b64_length_def) linarith

context object_codec
begin

lemma pickle_sizes:
  assumes "ok v" "pickle_length v \<le> 10000"
  shows "length (pickle v) = pickle_length v" "length (pickle v) < 2 ^ 59"
    "olm_enc_output_length (pickle_length v) = b64_length (enc_length (length (pickle v)))"
    "olm_enc_output_length (pickle_length v) < 2 ^ 31"
proof -
  show l: "length (pickle v) = pickle_length v" by (rule length_pickle [OF assms(1)])
  show "length (pickle v) < 2 ^ 59" using assms(2) l by simp
  show e: "olm_enc_output_length (pickle_length v) = b64_length (enc_length (length (pickle v)))"
    using enc_lengths(4) [of "pickle_length v"] assms(2) l by simp
  show "olm_enc_output_length (pickle_length v) < 2 ^ 31"
    unfolding e using b64_length_le [of "enc_length (length (pickle v))"] enc_length_bounds(2) [of "length (pickle v)"] assms(2) l
    by simp
qed

lemma serialize_with_spec:
  assumes ok: "ok v" "pickle_length v \<le> 10000"
    and pk: "\<And>m m' n. api_pickle_object S (pickle v) (pickle_length v) key m = (m', Some n) \<Longrightarrow> pk v key m = (v, m', Some n)"
  shows "wp (serialize_with oom (olm_enc_output_length (pickle_length v)) pk le v key)
    (\<lambda>(v', e, arr) s'. jn_answers s' = jn_answers s
       \<and> (if arr = None then e \<noteq> None \<or> jn_crashed s'
          else e = None \<and> arr = Some (b64_encode (sealed S PICKLE_INFO key (pickle v))) \<and> calm s' = calm s)
       \<and> (generous s \<longrightarrow> arr \<noteq> None)) s"
proof -
  let ?n = "olm_enc_output_length (pickle_length v)" and ?blob = "b64_encode (sealed S PICKLE_INFO key (pickle v))"
  note sz = pickle_sizes [OF ok]
  have call: "\<exists>m'. pk v key m = (v, m', Some ?n) \<and> write_at (zeros ?n) 0 (take ?n m') = ?blob" if m: "length m = ?n" for m
  proof -
    obtain m' where e: "api_pickle_object S (pickle v) (pickle_length v) key m = (m', Some ?n)"
      using pickle_object_fits [OF ok(1), of S key m] m
      by (cases "api_pickle_object S (pickle v) (pickle_length v) key m") simp
    have "take ?n m' = ?blob" "length m' = ?n"
      using api_pickle_object_eq(3,4) [of "pickle v" S key m m' ?n] e sz(1,2) m by simp_all
    then show ?thesis using pk [OF e] by (auto simp: write_at_def)
  qed
  then have call': "snd (snd (pk v key m)) = Some ?n" "fst (pk v key m) = v"
    "write_at (zeros ?n) 0 (take ?n (fst (snd (pk v key m)))) = ?blob" if "length m = ?n" for m
    using that by fastforce+
  show ?thesis
    using sz(4) jsize_small [OF sz(4)] call'
    by (auto simp: jni_vcg generous_def calm_def split: jni_splits)
qed

lemma deserialize_with_spec:
  assumes ok: "ok v" "pickle_length v \<le> 10000" "sized old"
    and unpk: "\<And>b. unpk old key b = api_unpickle_object S unpickle get_error set_error old key b"
  shows "wp (deserialize_with unpk le old (b64_encode (sealed S PICKLE_INFO key (pickle v))) key)
    (\<lambda>(v', e, arr) s'. jn_answers s' = jn_answers s \<and> calm s' = calm s
       \<and> (e = None \<longrightarrow> restored v old v' \<and> left_behind (pickle v) arr s') \<and> (generous s \<longrightarrow> e = None)) s"
proof -
  let ?blob = "b64_encode (sealed S PICKLE_INFO key (pickle v))"
  note sz = pickle_sizes [OF ok(1,2)]
  have lb: "length ?blob = b64_length (enc_length (length (pickle v)))" by (simp add: length_sealed)
  obtain b where b: "olm_enc_input S key ?blob (length ?blob) = (b, Inr (length (pickle v)))"
      "take (length (pickle v)) b = pickle v"
    using olm_enc_input_sealed [OF sz(2) refl, of ?blob S key] lb by auto
  obtain new where new: "unpickle (pickle v) old = (new, Some [])" "restored v old new"
    using unpickle_raw [OF ok(1,3)] by blast
  have call: "unpk old key ?blob = (new, b, Some (length ?blob))"
    using b new unpk by (simp add: api_unpickle_object_def Let_def)
  show ?thesis
    using call new(2) b(2)
    by (auto simp: jni_vcg generous_def calm_def left_behind_def split: jni_splits)
qed

end

text \<open>
  A program that stores an object and loads what it got; it does not get that far if storing the
  object throws an exception. The predicate \<open>comes_back\<close> says how this ends: with the object, of
  which it says \<open>good\<close>, with an exception, or with the abort of the virtual machine, which
  does not happen if every request is granted.
\<close>

definition store_and_load ::
    "('obj option \<times> bytes option) jni_call \<Rightarrow> (bytes option \<Rightarrow> ('obj option \<times> bytes option) jni_call) \<Rightarrow>
     ('obj option \<times> bytes option) jni_call" where
  "store_and_load store load = do {
     (_, blob) \<leftarrow> store;
     unless_thrown (None, None) (load blob)
   }"

definition comes_back :: "('obj option \<times> bytes option) jni_call \<Rightarrow> bytes \<Rightarrow> ('obj \<Rightarrow> bool) \<Rightarrow> jni \<Rightarrow> bool" where
  "comes_back m raw good s \<longleftrightarrow>
     wp m (\<lambda>(obj, arr) s'.
         (jn_crashed s'
          \<or> (case obj of None \<Rightarrow> jn_exception s' \<noteq> None
             | Some v \<Rightarrow> jn_exception s' = None \<and> good v \<and> left_behind raw arr s'))
         \<and> (generous s \<longrightarrow> \<not> jn_crashed s' \<and> obj \<noteq> None)) s"

lemma comes_backI:
  assumes calm: "calm s" and store: "wp store (\<lambda>(_, arr) s'. array_or_end s blob arr s') s"
    and load: "\<And>s. calm s \<Longrightarrow> comes_back (load (Some blob)) raw good s"
  shows "comes_back (store_and_load store load) raw good s"
  unfolding comes_back_def store_and_load_def
proof (rule wp_seqI [OF store])
  fix q and t :: jni
  assume "(\<lambda>(_, arr) s'. array_or_end s blob arr s') q t"
  then obtain obj arr where q: "q = (obj, arr)" "array_or_end s blob arr t" by (cases q) auto
  show "wp (case q of (_, blob) \<Rightarrow> unless_thrown (None, None) (load blob)) (\<lambda>(obj, arr) s'.
         (jn_crashed s'
          \<or> (case obj of None \<Rightarrow> jn_exception s' \<noteq> None
             | Some v \<Rightarrow> jn_exception s' = None \<and> good v \<and> left_behind raw arr s'))
         \<and> (generous s \<longrightarrow> \<not> jn_crashed s' \<and> obj \<noteq> None)) t"
  proof (cases arr)
    case None
    then show ?thesis using q by (auto simp: wp_unless_thrown array_or_end_def calm_def)
  next
    case (Some b)
    then have "calm t" "arr = Some blob" "generous s \<longleftrightarrow> generous t"
      using q(2) calm by (auto simp: array_or_end_def generous_def)
    then show ?thesis using q load [of t] by (simp add: wp_unless_thrown comes_back_def)
  qed
qed

section \<open>Accounts, sessions and group sessions\<close>

lemma account_comes_back:
  assumes "account_ok a" and calm: "calm s"
  shows "comes_back (store_and_load (account_serializeJni S (Some a) (Some key))
      (\<lambda>blob. account_deserializeJni S blob (Some key)))
    (olm_pickle_account a) (\<lambda>a'. account_restored a olm_account a' \<and> \<not> ac_ed25519_seed_known a') s"
proof (rule comes_backI [OF calm, where blob = "b64_encode (sealed S PICKLE_INFO key (olm_pickle_account a))"])
  have n: "olm_pickle_account_length a \<le> 10000" using length_account_pickle(2) [OF assms(1)] by simp
  note store = account_object.serialize_with_spec [OF assms(1) n, of S key "api_olm_pickle_account S"]
  show "wp (account_serializeJni S (Some a) (Some key)) (\<lambda>(_, arr) s'. array_or_end s (b64_encode (sealed S PICKLE_INFO key (olm_pickle_account a))) arr s') s"
    unfolding account_serializeJni_def api_olm_pickle_account_length_def wp_core option.case
    by (rule wp_mono [OF store]) (auto simp: api_olm_pickle_account_def wp_core array_or_end_def calm_def split: option.splits if_splits)
  fix s :: jni assume s: "calm s"
  have unpk: "api_olm_unpickle_account S olm_account key b = api_unpickle_object S olm_unpickle_account
      ac_last_error (\<lambda>e a. a\<lparr>ac_last_error := e\<rparr>) olm_account key b" for b
    by (simp add: api_olm_unpickle_account_def)
  note load = account_object.deserialize_with_spec [OF assms(1) n fresh_account_sized, where unpk = "api_olm_unpickle_account S", OF unpk]
  have seed: "account_restored a olm_account a' \<Longrightarrow> \<not> ac_ed25519_seed_known a'" for a'
    by (simp add: account_restored_def olm_account_def olm_account_init_def zero_account_def)
  show "comes_back (account_deserializeJni S (Some (b64_encode (sealed S PICKLE_INFO key (olm_pickle_account a)))) (Some key))
    (olm_pickle_account a) (\<lambda>a'. account_restored a olm_account a' \<and> \<not> ac_ed25519_seed_known a') s"
    unfolding comes_back_def account_deserializeJni_def initializeAccountMemory_def malloc_object_def wp_core wp_ask option.case
    using s by (auto simp: wp_core generous_def calm_def left_behind_def seed intro!: wp_mono [OF load] split: option.splits)
qed

lemma session_comes_back:
  assumes "session_ok v" and calm: "calm s"
  shows "comes_back (store_and_load (session_serializeJni S (Some v) (Some key)) (\<lambda>blob. session_deserializeJni S blob (Some key)))
    (olm_pickle_session v) (\<lambda>v'. session_restored v olm_session v') s"
proof (rule comes_backI [OF calm, where blob = "b64_encode (sealed S PICKLE_INFO key (olm_pickle_session v))"])
  have n: "olm_pickle_session_length v \<le> 10000" using length_ratchet_pickle(2) [of "se_ratchet v"] assms(1)
    by (simp add: session_ok_def olm_pickle_session_length_def olm_pickle_curve25519_public_key_length_def)
  note store = session_object.serialize_with_spec [OF assms(1) n, of S key "api_olm_pickle_session S"]
  show "wp (session_serializeJni S (Some v) (Some key)) (\<lambda>(_, arr) s'. array_or_end s (b64_encode (sealed S PICKLE_INFO key (olm_pickle_session v))) arr s') s"
    unfolding session_serializeJni_def api_olm_pickle_session_length_def wp_core option.case
    by (rule wp_mono [OF store]) (auto simp: api_olm_pickle_session_def wp_core array_or_end_def calm_def split: option.splits if_splits)
  fix s :: jni assume s: "calm s"
  have unpk: "api_olm_unpickle_session S olm_session key b = api_unpickle_object S olm_unpickle_session
      se_last_error (\<lambda>e v. v\<lparr>se_last_error := e\<rparr>) olm_session key b" for b
    by (simp add: api_olm_unpickle_session_def)
  note load = session_object.deserialize_with_spec [OF assms(1) n fresh_session_ok, where unpk = "api_olm_unpickle_session S", OF unpk]
  show "comes_back (session_deserializeJni S (Some (b64_encode (sealed S PICKLE_INFO key (olm_pickle_session v)))) (Some key))
    (olm_pickle_session v) (\<lambda>v'. session_restored v olm_session v') s"
    unfolding comes_back_def session_deserializeJni_def initializeSessionMemory_def malloc_object_def wp_core wp_ask option.case Let_def
    using s by (auto simp: wp_core generous_def calm_def left_behind_def intro!: wp_mono [OF load] split: option.splits)
qed

lemma fresh_outbound_ok: "outbound_ok olm_outbound_group_session"
  by (simp add: olm_outbound_group_session_def olm_clear_outbound_group_session_def outbound_ok_def megolm_ok_def parts_ok_def
      ed25519_key_pair_ok_def)

lemma fresh_inbound_ok: "inbound_ok olm_inbound_group_session"
  by (simp add: olm_inbound_group_session_def olm_clear_inbound_group_session_def inbound_ok_def megolm_ok_def parts_ok_def)

lemma outbound_comes_back:
  assumes "outbound_ok v" and calm: "calm s"
  shows "comes_back (store_and_load (outbound_serializeJni S (Some v) (Some key)) (\<lambda>blob. outbound_deserializeJni S blob (Some key)))
    (outbound_raw_pickle v) (\<lambda>v'. v' = v\<lparr>og_last_error := OLM_SUCCESS\<rparr>) s"
proof (rule comes_backI [OF calm, where blob = "b64_encode (sealed S PICKLE_INFO key (outbound_raw_pickle v))"])
  have n: "outbound_raw_pickle_length v \<le> 10000" by (simp add: outbound_raw_pickle_length_def megolm_pickle_length_def olm_pickle_ed25519_key_pair_length_def)
  note store = outbound_object.serialize_with_spec [OF assms(1) n, of S key "olm_pickle_outbound_group_session S"]
  show "wp (outbound_serializeJni S (Some v) (Some key)) (\<lambda>(_, arr) s'. array_or_end s (b64_encode (sealed S PICKLE_INFO key (outbound_raw_pickle v))) arr s') s"
    unfolding outbound_serializeJni_def olm_pickle_outbound_group_session_length_def wp_core option.case
    by (rule wp_mono [OF store]) (auto simp: olm_pickle_outbound_group_session_def wp_core array_or_end_def calm_def split: option.splits if_splits)
  fix s :: jni assume s: "calm s"
  have unpk: "olm_unpickle_outbound_group_session S olm_outbound_group_session key b = api_unpickle_object S outbound_raw_unpickle
      og_last_error (\<lambda>e v. v\<lparr>og_last_error := e\<rparr>) olm_outbound_group_session key b" for b
    by (simp add: olm_unpickle_outbound_group_session_def)
  have fresh: "og_last_error olm_outbound_group_session = OLM_SUCCESS"
    by (simp add: olm_outbound_group_session_def olm_clear_outbound_group_session_def)
  note load = outbound_object.deserialize_with_spec [OF assms(1) n fresh_outbound_ok, where unpk = "olm_unpickle_outbound_group_session S", OF unpk]
  show "comes_back (outbound_deserializeJni S (Some (b64_encode (sealed S PICKLE_INFO key (outbound_raw_pickle v)))) (Some key))
    (outbound_raw_pickle v) (\<lambda>v'. v' = v\<lparr>og_last_error := OLM_SUCCESS\<rparr>) s"
    unfolding comes_back_def outbound_deserializeJni_def malloc_object_def wp_core wp_ask option.case Let_def
    using s by (auto simp: wp_core generous_def calm_def left_behind_def fresh intro!: wp_mono [OF load] split: option.splits)
qed

lemma inbound_comes_back:
  assumes "inbound_ok v" and calm: "calm s"
  shows "comes_back (store_and_load (inbound_serializeJni S (Some v) (Some key)) (\<lambda>blob. inbound_deserializeJni S blob (Some key)))
    (inbound_raw_pickle v) (\<lambda>v'. v' = v\<lparr>ig_last_error := OLM_SUCCESS\<rparr>) s"
proof (rule comes_backI [OF calm, where blob = "b64_encode (sealed S PICKLE_INFO key (inbound_raw_pickle v))"])
  have n: "inbound_raw_pickle_length v \<le> 10000" by (simp add: inbound_raw_pickle_length_def megolm_pickle_length_def olm_pickle_ed25519_public_key_length_def)
  note store = inbound_object.serialize_with_spec [OF assms(1) n, of S key "olm_pickle_inbound_group_session S"]
  show "wp (inbound_serializeJni S (Some v) (Some key)) (\<lambda>(_, arr) s'. array_or_end s (b64_encode (sealed S PICKLE_INFO key (inbound_raw_pickle v))) arr s') s"
    unfolding inbound_serializeJni_def olm_pickle_inbound_group_session_length_def wp_core option.case
    by (rule wp_mono [OF store]) (auto simp: olm_pickle_inbound_group_session_def wp_core array_or_end_def calm_def split: option.splits if_splits)
  fix s :: jni assume s: "calm s"
  have unpk: "olm_unpickle_inbound_group_session S olm_inbound_group_session key b = api_unpickle_object S inbound_raw_unpickle
      ig_last_error (\<lambda>e v. v\<lparr>ig_last_error := e\<rparr>) olm_inbound_group_session key b" for b
    by (simp add: olm_unpickle_inbound_group_session_def)
  have fresh: "ig_last_error olm_inbound_group_session = OLM_SUCCESS"
    by (simp add: olm_inbound_group_session_def olm_clear_inbound_group_session_def)
  note load = inbound_object.deserialize_with_spec [OF assms(1) n fresh_inbound_ok, where unpk = "olm_unpickle_inbound_group_session S", OF unpk]
  show "comes_back (inbound_deserializeJni S (Some (b64_encode (sealed S PICKLE_INFO key (inbound_raw_pickle v)))) (Some key))
    (inbound_raw_pickle v) (\<lambda>v'. v' = v\<lparr>ig_last_error := OLM_SUCCESS\<rparr>) s"
    unfolding comes_back_def inbound_deserializeJni_def malloc_object_def wp_core wp_ask option.case Let_def
    using s by (auto simp: wp_core generous_def calm_def left_behind_def fresh intro!: wp_mono [OF load] split: option.splits)
qed

text \<open>C19: What a Java program stores, it gets back. Whatever requests for memory fail on the way, storing
  an object and loading the result under the same key ends in one of three ways: with the object
  that was stored and nothing thrown; with an exception, of the function that stores or of the one that loads, and
  no object; or with the abort of the virtual machine. If nothing fails it is the first.
  But the raw pickle, with all private keys, stays behind: in the Java array, if its elements were
  pinned, and otherwise in the copy that is given back, which is not cleared.\<close>

theorem stored_objects_come_back:
  assumes "account_ok a" "session_ok ses" "outbound_ok og" "inbound_ok ig" "calm s"
  shows "comes_back (store_and_load (account_serializeJni S (Some a) (Some key)) (\<lambda>blob. account_deserializeJni S blob (Some key)))
      (olm_pickle_account a) (\<lambda>v. account_restored a olm_account v \<and> \<not> ac_ed25519_seed_known v) s
    \<and> comes_back (store_and_load (session_serializeJni S (Some ses) (Some key)) (\<lambda>blob. session_deserializeJni S blob (Some key)))
      (olm_pickle_session ses) (\<lambda>v. session_restored ses olm_session v) s
    \<and> comes_back (store_and_load (outbound_serializeJni S (Some og) (Some key)) (\<lambda>blob. outbound_deserializeJni S blob (Some key)))
      (outbound_raw_pickle og) (\<lambda>v. v = og\<lparr>og_last_error := OLM_SUCCESS\<rparr>) s
    \<and> comes_back (store_and_load (inbound_serializeJni S (Some ig) (Some key)) (\<lambda>blob. inbound_deserializeJni S blob (Some key)))
      (inbound_raw_pickle ig) (\<lambda>v. v = ig\<lparr>ig_last_error := OLM_SUCCESS\<rparr>) s"
  by (intro conjI account_comes_back session_comes_back outbound_comes_back inbound_comes_back assms)

theorem stored_objects_come_back_witness:
  "wp (store_and_load (account_serializeJni sample_sodium (Some stocked_account) (Some [7]))
        (\<lambda>blob. account_deserializeJni sample_sodium blob (Some [7])))
      (\<lambda>(obj, arr) s'. \<not> jn_crashed s' \<and> jn_exception s' = None
        \<and> obj \<noteq> None \<and> account_restored stocked_account olm_account (the obj)) (jni_start (\<lambda>_. True))
    \<and> wp (store_and_load (session_serializeJni sample_sodium (Some started_session) (Some [7]))
        (\<lambda>blob. session_deserializeJni sample_sodium blob (Some [7])))
      (\<lambda>(obj, arr) s'. \<not> jn_crashed s' \<and> jn_exception s' = None
        \<and> obj \<noteq> None \<and> session_restored started_session olm_session (the obj)) (jni_start (\<lambda>_. True))"
proof -
  let ?s = "jni_start (\<lambda>_. True)"
  have ok: "session_ok started_session" by (rule started_ok) (simp add: session_in_step_def)
  have s: "calm ?s" "generous ?s" by (simp_all add: calm_def generous_def jni_start_def)
  note come_back = stored_objects_come_back [OF stocked_keys(1) ok sample_group_ok(1) sample_receiver_ok(1) s(1), of sample_sodium "[7]"]
  show ?thesis
    using come_back s(2) unfolding comes_back_def by (auto elim!: wp_mono split: option.splits)
qed

end
