(* ===== verification/Jni_Delivery.thy ===== *)
theory Jni_Delivery
  imports Jni_Runs Group_Sync
begin

text \<open>
  A message of a group session on its way from one Java program to another, and signatures as a
  Java program sees them.
\<close>

section \<open>Group messages\<close>

text \<open>
  A buffer the library fills with \<open>k\<close> bytes that are returned as an array. Without memory for the array
  the virtual machine aborts, since the array is written to without a check.
\<close>

lemma fill_and_return_spec:
  assumes fill: "\<And>b. length b = n \<Longrightarrow> \<exists>b'. fill obj b = (obj', b', Some k) \<and> take k b' = result"
    and k: "length result = k" "k < 2 ^ 31" and free: "free_buffer = free_block Buffer_block \<or> free_buffer = free_secret n"
    and arr: "return_array k = return_bytes_unchecked k"
  shows "wp (fill_and_return n oom fill le return_array free_buffer obj)
    (\<lambda>(obj'', e, arr) s'. jn_answers s' = jn_answers s \<and> jn_noise s' = jn_noise s \<and> (obj'' = obj \<or> obj'' = obj')
       \<and> (arr \<noteq> None \<longrightarrow> obj'' = obj' \<and> arr = Some result \<and> e = None \<and> calm s' = calm s)
       \<and> (arr = None \<longrightarrow> e \<noteq> None \<or> jn_crashed s') \<and> (generous s \<longrightarrow> arr \<noteq> None)) s"
proof -
  have call: "snd (snd (fill obj b)) = Some k" "fst (fill obj b) = obj'" "take k (fst (snd (fill obj b))) = result"
    if "length b = n" for b
    using fill [OF that] by auto
  have w: "write_at (zeros k) 0 result = result" using k(1) by (simp add: write_at_def)
  show ?thesis
    using free jsize_small [OF k(2)] call k(2) arr
    by (auto simp: jni_vcg generous_def calm_def w split: jni_splits)
qed

lemma b64_length_third: "3 * b64_length n \<le> 4 * n + 9"
  unfolding b64_length_def by presburger

lemma session_key_spec:
  assumes "outbound_ok og"
  shows "wp (sessionKeyJni S (Some og)) (\<lambda>(o', arr) s'. o' = Some og \<and> array_or_end s (b64_encode (session_key_raw S og)) arr s') s"
proof -
  have n: "olm_outbound_group_session_key_length = 306" "b64_length 229 = 306"
    by (simp_all add: olm_outbound_group_session_key_length_def b64_lengths b64_length_def)
  have l: "length (b64_encode (session_key_raw S og)) = 306" using assms n by (simp add: length_session_key)
  have fill: "\<exists>b'. olm_outbound_group_session_key S og b = (og, b', Some 306) \<and> take 306 b' = b64_encode (session_key_raw S og)"
    if "length b = 306" for b
    using outbound_session_key_eq [OF assms, of b S] that n by simp
  note spec = fill_and_return_spec [where fill = "olm_outbound_group_session_key S" and obj = og, OF fill l]
  show ?thesis
    unfolding sessionKeyJni_def n wp_bind wp_ret option.case
    by (rule wp_mono [OF spec])
      (auto simp: throw_if_def throw_def wp_bind wp_ret wp_State array_or_end_def calm_def split: option.splits)
qed

definition receiver_of :: "outbound_group_session \<Rightarrow> inbound_group_session" where
  "receiver_of og = olm_inbound_group_session
     \<lparr>ig_initial_ratchet := og_ratchet og, ig_latest_ratchet := og_ratchet og,
      ig_signing_key := ekp_public_key (og_signing_key og), ig_signing_key_verified := True\<rparr>"

lemma create_inbound_spec:
  assumes "outbound_ok og" "ed25519_verifies S" "ed25519_key S (og_signing_key og)"
    "signs S (og_signing_key og) (session_key_signed og)" and calm: "calm s"
  shows "wp (inbound_createNewSessionJni S (Some (b64_encode (session_key_raw S og))) False) (\<lambda>ig s'.
      jn_answers s' = jn_answers s \<and> (if ig = None then jn_exception s' \<noteq> None else ig = Some (receiver_of og) \<and> calm s')
      \<and> (generous s \<longrightarrow> ig \<noteq> None)) s"
proof -
  have n: "olm_outbound_group_session_key_length = 306"
    by (simp add: olm_outbound_group_session_key_length_def b64_lengths b64_length_def)
  obtain m' where m': "olm_outbound_group_session_key S og (zeros 306) = (og, m', Some 306)"
      "take 306 m' = b64_encode (session_key_raw S og)"
    using outbound_session_key_eq [OF assms(1), of "zeros 306" S] n by auto
  have call: "olm_init_inbound_group_session S olm_inbound_group_session (b64_encode (session_key_raw S og)) = (receiver_of og, Some 0)"
    using init_inbound_from_key(2) [OF assms(1-4) m'(1), of olm_inbound_group_session] m'(2) by (simp add: receiver_of_def)
  show ?thesis
    using call calm by (auto simp: inbound_createNewSessionJni_def jni_vcg generous_def calm_def split: jni_splits)
qed

lemma group_encrypt_spec:
  assumes ok: "outbound_ok og" and p: "length p < 2 ^ 30"
  shows "wp (outbound_encryptMessageJni S (Some og) (Some p)) (\<lambda>(o', arr) s'.
      array_or_end s (b64_encode (group_message S (og_ratchet og) (og_signing_key og) p)) arr s') s"
proof -
  let ?raw = "group_message S (og_ratchet og) (og_signing_key og) p"
  let ?n = "b64_length (length ?raw)" and ?og = "og\<lparr>og_ratchet := megolm_advance S (og_ratchet og)\<rparr>"
  have p60: "length p < 2 ^ 60" using p by simp
  have small: "length ?raw \<le> length p + 200"
    using length_group_body_le [OF p60, of GROUP_PROTOCOL_VERSION "mg_counter (og_ratchet og)" S "og_ratchet og"]
    by (simp add: length_group_message)
  have n: "?n < 2 ^ 31"
    using b64_length_third [of "length ?raw"] small p by simp
  have len: "olm_group_encrypt_message_length og (length p) = ?n"
    using raw_message_length_eq [OF p60, of og S "og_signing_key og"] b64_lengths(2) [of "length ?raw"] small p
    by (simp add: olm_group_encrypt_message_length_def)
  have fill: "\<exists>b'. olm_group_encrypt S og p b = (?og, b', Some ?n) \<and> take ?n b' = b64_encode ?raw" if "length b = ?n" for b
    using group_encrypt_eq [OF ok p60 refl, of S b] that by auto
  note spec = fill_and_return_spec [where fill = "\<lambda>og. olm_group_encrypt S og p" and obj = og, OF fill length_b64_encode n]
  show ?thesis
    by (auto simp: outbound_encryptMessageJni_def wp_bind wp_ret wp_case_prod wp_case_option GetByteArrayElements_def wp_ask wp_if wp_State
        clear_release_elements_def ReleaseByteArrayElements_def throw_if_def throw_def len generous_def array_or_end_def calm_def
      intro!: wp_mono [OF spec] split: option.splits if_splits)
qed

lemma group_decrypt_spec:
  assumes S: "ed25519_verifies S" "ed25519_key S (og_signing_key og)"
      "signs S (og_signing_key og) (group_authenticated S (og_ratchet og) p)"
    and ok: "outbound_ok og" and p: "length p < 2 ^ 30" and calm: "calm s"
  shows "wp (inbound_decryptMessageJni S (Some (receiver_of og))
        (Some (b64_encode (group_message S (og_ratchet og) (og_signing_key og) p))) (Some i)) (\<lambda>(_, index, msg) s'.
      (if msg = None then jn_exception s' \<noteq> None \<or> jn_crashed s'
       else msg = Some p \<and> index = Some (ucast (mg_counter (og_ratchet og))) \<and> calm s')
      \<and> (generous s \<longrightarrow> msg \<noteq> None)) s"
proof -
  let ?m = "og_ratchet og" and ?k = "og_signing_key og" and ?s = "receiver_of og"
  let ?raw = "group_message S ?m ?k p" and ?n = "length p + (16 - length p mod 16)"
  have m: "megolm_ok ?m" using ok by (simp add: outbound_ok_def)
  have small: "length ?raw < 2 ^ 60"
    using p length_group_body_le [of p GROUP_PROTOCOL_VERSION "mg_counter ?m" S ?m] by (simp add: length_group_message)
  obtain temp where temp: "olm_group_decrypt_max_plaintext_length ?s (b64_encode ?raw) = (?s, temp, Some ?n)"
    using group_max_plaintext_encoded [of p ?s S ?m ?k] p by auto
  have get: "get_megolm S ?s (mg_counter ?m) = (?s, Some ?m)"
    using get_megolm_eq [of ?s 0 S 0] m by (simp add: receiver_of_def)
  have pad: "length (cbc_padded p) = ?n" "take (length p) (cbc_padded p) = p" by (simp_all add: cbc_padded_def)
  have call: "olm_group_decrypt S ?s (b64_encode ?raw) b =
      (?s, write_at (b64_encode ?raw) 0 ?raw, cbc_padded p, Some (mg_counter ?m), Some (length p))"
    if "length b = ?n" for b
    using group_decrypt_encoded [OF small] inbound_decrypt_message [OF S _ m, of ?s b ?s] get p pad that
    by (simp add: receiver_of_def)
  have js: "jsize (length p) = int (length p)" using p by (intro jsize_small) simp
  have w: "write_at (zeros (length p)) 0 p = p" by (simp add: write_at_def)
  show ?thesis
    using calm temp call js w pad
    by (auto simp: inbound_decryptMessageJni_def group_decrypt_copied_message_def jni_vcg generous_def calm_def split: jni_splits)
qed

text \<open>
  The Java programs: the key of the session, the receiver's session, a message and its decryption. What
  follows a call that threw an exception is not run.
\<close>

definition group_exchange ::
    "sodium \<Rightarrow> outbound_group_session \<Rightarrow> bytes \<Rightarrow> u64 \<Rightarrow> (inbound_group_session option \<times> u64 option \<times> bytes option) jni_call" where
  "group_exchange S og p mIndex = do {
     (og, session_key) \<leftarrow> sessionKeyJni S (Some og);
     unless_thrown (None, None, None) (do {
       ig \<leftarrow> inbound_createNewSessionJni S session_key False;
       unless_thrown (None, None, None) (do {
         (og, message) \<leftarrow> outbound_encryptMessageJni S og (Some p);
         unless_thrown (None, None, None) (inbound_decryptMessageJni S ig message (Some mIndex))
       })
     })
   }"

text \<open>C10: A group message crosses the bindings. The receiver makes its session from the key the sender's
  session hands out. Whatever requests for memory, pinned arrays or copies the virtual machine comes
  up with, it ends in one of three ways: the receiver's program has the plaintext and the index of the message and
  nothing was thrown; an exception was thrown, and there is no plaintext; or the virtual machine has
  aborted. With memory for everything it is the first. The two signatures on the way must not have
  a nonce that is zero modulo the order of the group.\<close>

theorem group_message_crosses_bindings:
  assumes "ed25519_verifies S" "ed25519_key S (og_signing_key og)" "outbound_ok og" "length p < 2 ^ 30"
    and "signs S (og_signing_key og) (session_key_signed og)"
      "signs S (og_signing_key og) (group_authenticated S (og_ratchet og) p)"
    and "calm s"
  shows "wp (group_exchange S og p i) (\<lambda>(_, index, msg) s'.
      (jn_crashed s'
       \<or> (if msg = None then jn_exception s' \<noteq> None
          else jn_exception s' = None \<and> msg = Some p
            \<and> index = Some (ucast (olm_outbound_group_session_message_index og))))
      \<and> (generous s \<longrightarrow> \<not> jn_crashed s' \<and> msg \<noteq> None)) s" (is "wp _ ?Q _")
proof -
  define Q where "Q = ?Q"
  have "wp (group_exchange S og p i) Q s"
    unfolding group_exchange_def
  proof (rule wp_seqI [OF session_key_spec [OF assms(3)]])
    let ?key = "b64_encode (session_key_raw S og)" and ?msg = "b64_encode (group_message S (og_ratchet og) (og_signing_key og) p)"
    fix r and s1 :: jni
    assume "(\<lambda>(o', arr) s'. o' = Some og \<and> array_or_end s ?key arr s') r s1"
    then obtain key where r: "r = (Some og, key)" and key: "array_or_end s ?key key s1" by auto
    have ended: "Q (None, None, None) t" if "\<not> calm t" "\<not> generous s" for t
      using that by (auto simp: calm_def Q_def)
    have step3: "wp (unless_thrown (None, None, None) (inbound_decryptMessageJni S (Some (receiver_of og)) message (Some i))) Q s3"
      if m: "array_or_end s2 ?msg message s3" and g: "calm s2" "jn_answers s2 = jn_answers s" for message s2 s3
    proof (cases message)
      case None
      then show ?thesis using m g ended [of s3] by (auto simp: wp_unless_thrown array_or_end_def calm_def generous_def)
    next
      case (Some b)
      then have c: "calm s3" "message = Some ?msg" "jn_answers s3 = jn_answers s"
        using m g by (auto simp: array_or_end_def)
      have "generous s \<longleftrightarrow> generous s3" using c(3) by (simp add: generous_def)
      then show ?thesis
        unfolding wp_unless_thrown c(2)
        using c(1) by (auto simp: olm_outbound_group_session_message_index_def calm_def Q_def
            intro!: wp_mono [OF group_decrypt_spec [OF assms(1,2,6,3,4) c(1)]] split: if_splits)
    qed
    have step2: "wp (unless_thrown (None, None, None) (outbound_encryptMessageJni S (Some og) (Some p) \<bind>
        (\<lambda>(og, message). unless_thrown (None, None, None) (inbound_decryptMessageJni S ig message (Some i))))) Q s2"
      if ig: "if ig = None then jn_exception s2 \<noteq> None else ig = Some (receiver_of og) \<and> calm s2"
        and g: "jn_answers s2 = jn_answers s" "generous s \<longrightarrow> ig \<noteq> None" for ig s2
    proof (cases "calm s2")
      case True
      then have "ig = Some (receiver_of og)" using ig by (auto simp: calm_def split: if_splits)
      then show ?thesis
        unfolding wp_unless_thrown using True
        by (auto intro!: wp_seqI [OF group_encrypt_spec [OF assms(3,4)]] step3 [OF _ True g(1)])
    next
      case False
      then show ?thesis using ig g ended [OF False] by (auto simp: wp_unless_thrown calm_def split: if_splits)
    qed
    show "wp (case r of (og', session_key) \<Rightarrow> unless_thrown (None, None, None) (inbound_createNewSessionJni S session_key False \<bind>
        (\<lambda>ig. unless_thrown (None, None, None) (outbound_encryptMessageJni S og' (Some p) \<bind>
          (\<lambda>(og, message). unless_thrown (None, None, None) (inbound_decryptMessageJni S ig message (Some i))))))) Q s1"
    proof (cases key)
      case None
      then show ?thesis
        using r key ended [of s1] by (auto simp: wp_unless_thrown array_or_end_def calm_def)
    next
      case (Some b)
      then have c: "calm s1" "key = Some ?key" "jn_answers s1 = jn_answers s"
        using key assms(7) by (auto simp: array_or_end_def)
      have g: "generous s \<longleftrightarrow> generous s1" using c(3) by (simp add: generous_def)
      show ?thesis
        unfolding r c(2) prod.case wp_unless_thrown
        using c(1) by (auto simp: g c(3) intro!: wp_seqI [OF create_inbound_spec [OF assms(3,1,2,5) c(1)]] step2)
    qed
  qed
  then show ?thesis by (simp only: Q_def)
qed

section \<open>Signatures\<close>

text \<open>C21: Java takes a null string for a valid signature. With memory for everything the binding
  returns null exactly if the library accepts the signature. But it also returns null, and throws
  nothing, if there is no native object, and if the elements of the signature cannot be read.\<close>

theorem signature_check_fails_open:
  "(generous s \<longrightarrow> wp (verifyEd25519SignatureJni S (Some u) (Some sig) (Some key) (Some m)) (\<lambda>(_, _, message) s'.
       message = None \<longleftrightarrow> snd (snd (olm_ed25519_verify S u key m sig)) \<noteq> None) s)
   \<and> wp (verifyEd25519SignatureJni S None sig' key' m') (\<lambda>(_, _, message) s'.
       message = None \<and> jn_exception s' = jn_exception s) s
   \<and> (\<not> jn_answers s (jn_asked s) \<longrightarrow>
       wp (verifyEd25519SignatureJni S (Some u) (Some sig) (Some key) (Some m)) (\<lambda>(_, _, message) s'.
         message = None \<and> jn_exception s' = jn_exception s) s)"
  by (auto simp: verifyEd25519SignatureJni_def jni_vcg generous_def split: jni_splits)

section \<open>Objects that cannot be made\<close>

text \<open>When libsodium cannot be initialised, no account and no group session is made: an exception
  is thrown, and the memory is given back. For the short authentication string the exception is thrown, but
  the memory stays in use, with a pointer that the Java program never sees.\<close>

theorem failed_objects:
  assumes "\<not> so_init S" "generous s"
  shows "wp (createNewAccountJni S) (\<lambda>r s'. r = None \<and> jn_exception s' \<noteq> None \<and> jn_blocks s' = jn_blocks s) s
    \<and> wp (outbound_createNewSessionJni S) (\<lambda>r s'. r = None \<and> jn_exception s' \<noteq> None \<and> jn_blocks s' = jn_blocks s) s
    \<and> wp (createNewSASJni S) (\<lambda>r s'. r \<noteq> None \<and> jn_exception s' \<noteq> None \<and> jn_blocks s' = jn_blocks s + 1) s"
  using assms
  by (auto simp: createNewAccountJni_def initializeAccountMemory_def outbound_createNewSessionJni_def createNewSASJni_def
      olm_create_account_random_length_def olm_account_new_account_random_length_def
      olm_init_outbound_group_session_random_length_def olm_create_sas_random_length_def jni_vcg generous_def split: jni_splits)

section \<open>Witnesses\<close>

theorem group_message_crosses_bindings_witness:
  "wp (group_exchange sample_sodium sample_group [1, 2, 3] 0) (\<lambda>(_, index, msg) s'.
      \<not> jn_crashed s' \<and> jn_exception s' = None
      \<and> msg = Some [1, 2, 3] \<and> index = Some (ucast (olm_outbound_group_session_message_index sample_group)))
    (jni_start (\<lambda>_. True))"
  by (rule wp_mono [OF group_message_crosses_bindings [OF sample_ed25519_verifies sample_group_ok(2,1) _ sample_signs sample_signs]])
    (auto simp: generous_def calm_def jni_start_def)

theorem signature_check_fails_open_witness:
  "wp (verifyEd25519SignatureJni sample_sodium (Some olm_utility) (Some []) (Some []) (Some [1])) (\<lambda>(_, _, message) s'.
      message = None \<and> jn_exception s' = None) (jni_start (\<lambda>_. False))
    \<and> wp (verifyEd25519SignatureJni sample_sodium (Some olm_utility) (Some []) (Some []) (Some [1])) (\<lambda>(_, _, message) s'.
      message \<noteq> None) (jni_start (\<lambda>_. True))"
proof -
  have rejected: "snd (snd (olm_ed25519_verify sample_sodium olm_utility [] [1] [])) = None"
    using b64_lengths(5) [of 0] by (simp add: olm_ed25519_verify_def Let_def b64_length_def)
  show ?thesis
    using signature_check_fails_open [of "jni_start (\<lambda>_. False)" sample_sodium olm_utility "[]" "[]" "[1]"]
      signature_check_fails_open [of "jni_start (\<lambda>_. True)" sample_sodium olm_utility "[]" "[]" "[1]"] rejected
    by (auto simp: generous_def jni_start_def)
qed

theorem failed_objects_witness:
  "wp (createNewSASJni (sample_sodium\<lparr>so_init := False\<rparr>)) (\<lambda>r s'. r \<noteq> None \<and> jn_exception s' \<noteq> None \<and> jn_blocks s' = 1)
    (jni_start (\<lambda>_. True))"
  using failed_objects [of "sample_sodium\<lparr>so_init := False\<rparr>" "jni_start (\<lambda>_. True)"]
  by (simp add: generous_def jni_start_def)

end
