(* ===== verification/Jni_Conversation.thy ===== *)
theory Jni_Conversation
  imports Jni_Delivery Api_Properties
begin

text \<open>
  Two Java programs that talk over a session: \<open>encryptMessageJni\<close> on one side,
  \<open>decryptMessageJni\<close> on the other. Any request of the bindings to their environment may be
  refused. Unless the virtual machine aborts, the sessions stay in step all the same: what is
  refused is a message that was not sent or that got lost.
\<close>

section \<open>What the library does for the bindings\<close>

lemma sessions_lose:
  assumes dh: "dh_agrees S" and inv: "session_in_step S x y lx ly"
    and rl: "olm_ratchet_encrypt_random_length (se_ratchet x) \<le> length random"
    and i: "ck_index (sc_chain_key (sending_chain S (se_ratchet x) random)) \<noteq> -1"
    and f: "fresh_key S (se_ratchet x) (se_ratchet y) random" and l: "lx < MAX_MESSAGE_GAP"
  shows "session_in_step S (x\<lparr>se_ratchet := sent S (se_ratchet x) random\<rparr>) y (lx + 1) ly"
proof -
  have "in_step S (sent S (se_ratchet x) random) (se_ratchet y) (lx + 1) ly"
    using inv by (intro in_step_lost [OF dh _ rl i f l]) (simp add: session_in_step_def)
  then show ?thesis using inv by (simp add: session_in_step_def session_ok_def in_step_def peers_def)
qed

lemma api_encrypt_fits:
  assumes s: "session_ok s" and rl: "olm_encrypt_random_length s \<le> length random" and p: "length p < 2 ^ 59"
    and m: "length m = olm_encrypt_message_length s (length p)"
  shows "\<exists>m'. olm_encrypt S s p random m = (s\<lparr>se_ratchet := sent S (se_ratchet s) random\<rparr>, olm_unset random 0 (length random), m', Some (length m))
      \<and> take (length m) m' = b64_encode (session_message S s random p)"
    "length m = b64_length (length (session_message S s random p))"
proof -
  let ?msg = "session_message S s random p" and ?n = "olm_session_encrypt_message_length s (length p)"
  have rl': "olm_session_encrypt_random_length s \<le> length random" using rl by (simp add: olm_encrypt_random_length_def)
  have p60: "length p < 2 ^ 60" using p by simp
  note l = session_length_eq [OF s rl' p60, of S]
  have out: "b64_output_length ?n = b64_length (length ?msg)" using b64_lengths(1) l by simp
  then show n: "length m = b64_length (length ?msg)" using m by (simp add: olm_encrypt_message_length_def)
  let ?r = "read_at m (b64_output_pos ?n) ?n"
  have r: "length ?r = length ?msg"
    using n l b64_length_ge [of "length ?msg"] b64_lengths(3) [of "length ?msg"] by (simp add: read_at_def)
  have enc: "olm_session_encrypt S s p random ?r =
      (s\<lparr>se_ratchet := sent S (se_ratchet s) random\<rparr>, ?msg, Some (length (sent_message S (se_ratchet s) random p)))"
    using session_encrypt_eq [OF s rl' p60, of S ?r] r l(2) by (simp add: write_at_def)
  obtain m' where m': "b64_output (write_at m (b64_output_pos ?n) ?msg) ?n = (m', length m)" "take (length m) m' = b64_encode ?msg"
    using b64_output_write [OF l(2), of m] n l(1) by auto
  have "olm_encrypt S s p random m = (s\<lparr>se_ratchet := sent S (se_ratchet s) random\<rparr>, olm_unset random 0 (length random), m', Some (length m))"
    using m' enc out n by (simp add: olm_encrypt_def Let_def)
  then show "\<exists>m'. olm_encrypt S s p random m = (s\<lparr>se_ratchet := sent S (se_ratchet s) random\<rparr>, olm_unset random 0 (length random), m', Some (length m))
      \<and> take (length m) m' = b64_encode ?msg"
    using m'(2) by blast
qed

text \<open>The length of the plaintext's buffer, as \<open>olm_decrypt_max_plaintext_length\<close> gives it for a message.\<close>

lemma api_max_plaintext:
  assumes s: "session_ok x" and rl: "olm_ratchet_encrypt_random_length (se_ratchet x) \<le> length random"
    and p: "length p < 2 ^ 59"
  shows "\<exists>b. olm_decrypt_max_plaintext_length y (olm_encrypt_message_type x) (b64_encode (session_message S x random p))
    = (y, b, Some (length (cbc_padded p)))"
proof -
  have p60: "length p < 2 ^ 60" using p by simp
  let ?body = "sent_message S (se_ratchet x) random p" and ?c = "sending_chain S (se_ratchet x) random"
  have "length (ckp_public_key (sc_ratchet_key ?c)) = 32"
    using sending_ok(2) [OF _ rl, of S] s by (simp add: sender_chain_ok_def curve25519_key_pair_ok_def session_ok_def)
  then have "olm_ratchet_decrypt_max_plaintext_length r ?body = (r, Some (length (cbc_padded p)))" for r
    using p60
    by (simp add: olm_ratchet_decrypt_max_plaintext_length_def sent_message_def Let_def decode_ratchet_message ratchet_reader_def
        length_aes_sha_256_ciphertext aes_sha_256_cipher_decrypt_max_plaintext_length_def)
  then show ?thesis
    using input_encoded [OF length_session_message_small [OF s rl p], of S] message_body_of_sent [OF s rl p60, of S]
    by (auto simp: olm_decrypt_max_plaintext_length_def Let_def olm_encrypt_message_type_def
        olm_session_decrypt_max_plaintext_length_def)
qed

lemma length_session_message_le:
  assumes "session_ok s" "olm_ratchet_encrypt_random_length (se_ratchet s) \<le> length random" "length p < 2 ^ 60"
  shows "length (session_message S s random p) \<le> length p + 226"
proof -
  have "length (sent_message S (se_ratchet s) random p) \<le> length p + 85"
    using assms by (intro length_sent_message) (simp_all add: session_ok_def)
  then show ?thesis
    using length_pre_key_body_le [of "se_bob_one_time_key s" "se_alice_base_key s" "se_alice_identity_key s"
        "sent_message S (se_ratchet s) random p" PROTOCOL_VERSION] assms
    by (simp add: session_message_def session_ok_def Let_def)
qed

section \<open>The two calls\<close>

text \<open>The random bytes of a call: none, or those the environment came up with.\<close>

definition random_of :: "jni \<Rightarrow> bytes \<Rightarrow> bool" where
  "random_of s random \<longleftrightarrow> random = [] \<or> (\<exists>i. random = out_bytes 32 (jn_noise s i))"

lemma random_of_simps [simp]:
  "random_of (s\<lparr>jn_asked := n\<rparr>) = random_of s" "random_of (s\<lparr>jn_pins := k\<rparr>) = random_of s"
  by (simp_all add: random_of_def fun_eq_iff)

lemma random_spec:
  assumes "n = 0 \<or> n = 32"
  shows "wp (random_if_needed S n) (\<lambda>(ok, b) t. jn_answers t = jn_answers s \<and> jn_noise t = jn_noise s \<and> calm t = calm s
      \<and> (ok \<longrightarrow> random_of s (buffer_bytes b) \<and> n \<le> length (buffer_bytes b)) \<and> (generous s \<and> so_init S \<longrightarrow> ok)) s"
  using assms by (auto simp: jni_vcg random_of_def buffer_bytes_def generous_def calm_def)

text \<open>
  The call of \<open>olm_encrypt\<close> and the array for its result, with given random bytes: the session stays
  as it was or has sent the message, and an array, if there is one, holds the message.
\<close>

definition filled ::
    "sodium \<Rightarrow> session \<Rightarrow> bytes \<Rightarrow> bytes \<Rightarrow> jni \<Rightarrow> session \<times> string option \<times> bytes option \<Rightarrow> jni \<Rightarrow> bool" where
  "filled S x p random s = (\<lambda>(x', e, arr) s'. jn_answers s' = jn_answers s \<and> jn_noise s' = jn_noise s
     \<and> (x' = x \<or> x' = x\<lparr>se_ratchet := sent S (se_ratchet x) random\<rparr>)
     \<and> (arr \<noteq> None \<longrightarrow> x' = x\<lparr>se_ratchet := sent S (se_ratchet x) random\<rparr>
          \<and> arr = Some (b64_encode (session_message S x random p)) \<and> e = None \<and> calm s' = calm s)
     \<and> (arr = None \<longrightarrow> e \<noteq> None \<or> jn_crashed s') \<and> (generous s \<longrightarrow> arr \<noteq> None))"

abbreviation fill_message ::
    "sodium \<Rightarrow> session \<Rightarrow> bytes \<Rightarrow> bytes \<Rightarrow> (session \<times> string option \<times> bytes option) jni_call" where
  "fill_message S x p random \<equiv> fill_and_return (olm_encrypt_message_length x (length p)) ''encryptedMsgPtr buffer OOM''
     (\<lambda>session buffer.
        case olm_encrypt S session p random buffer of (session, _, message, result) \<Rightarrow> (session, message, result))
     olm_session_last_error (\<lambda>_. return_bytes_unchecked (olm_encrypt_message_length x (length p))) (free_block Buffer_block) x"

lemma fill_message_spec:
  assumes x: "session_ok x" and p: "length p < 2 ^ 30" and r: "olm_encrypt_random_length x \<le> length random"
  shows "wp (fill_message S x p random) (filled S x p random s) s"
proof -
  let ?n = "olm_encrypt_message_length x (length p)"
  have p59: "length p < 2 ^ 59" using p by simp
  note fits = api_encrypt_fits [OF x r p59, of _ S]
  have rl: "olm_ratchet_encrypt_random_length (se_ratchet x) \<le> length random"
    using r by (simp add: olm_encrypt_random_length_def olm_session_encrypt_random_length_def)
  have n: "?n = b64_length (length (session_message S x random p))" using fits(2) [of "zeros ?n"] by simp
  have "length (session_message S x random p) \<le> length p + 300"
    using length_session_message_le [OF x rl, of p S] p by simp
  then have small: "?n < 2 ^ 31" using b64_length_third [of "length (session_message S x random p)"] p n by simp
  show ?thesis
    unfolding filled_def
    by (rule wp_mono [OF fill_and_return_spec [where obj' = "x\<lparr>se_ratchet := sent S (se_ratchet x) random\<rparr>"
          and result = "b64_encode (session_message S x random p)", OF _ _ small]])
      (use fits(1) n in \<open>force+\<close>)
qed

text \<open>What the whole function does: nothing, or the session has sent the message with some random bytes.\<close>

definition encrypted ::
    "sodium \<Rightarrow> session \<Rightarrow> bytes \<Rightarrow> jni \<Rightarrow> session \<times> string option \<times> bytes option \<Rightarrow> jni \<Rightarrow> bool" where
  "encrypted S x p s = (\<lambda>(x', e, arr) s'. jn_answers s' = jn_answers s \<and> jn_noise s' = jn_noise s
     \<and> (arr = None \<longrightarrow> e \<noteq> None \<or> jn_crashed s') \<and> (arr \<noteq> None \<longrightarrow> calm s' = calm s)
     \<and> (generous s \<and> so_init S \<longrightarrow> arr \<noteq> None)
     \<and> (x' = x \<and> arr = None \<or>
        (\<exists>random. random_of s random \<and> olm_ratchet_encrypt_random_length (se_ratchet x) \<le> length random
          \<and> x' = x\<lparr>se_ratchet := sent S (se_ratchet x) random\<rparr>
          \<and> (arr \<noteq> None \<longrightarrow> e = None \<and> arr = Some (b64_encode (session_message S x random p))))))"

lemma filled_encrypted:
  assumes f: "filled S x p random t q t'" and r: "random_of s random" "olm_encrypt_random_length x \<le> length random"
    and t: "jn_answers t = jn_answers s" "jn_noise t = jn_noise s" "calm t = calm s"
    and t': "jn_answers t'' = jn_answers t'" "jn_noise t'' = jn_noise t'" "calm t'' = calm t'" "jn_crashed t'' = jn_crashed t'"
  shows "encrypted S x p s q t''"
proof -
  obtain y e arr where q: "q = (y, e, arr)" by (rule prod_cases3)
  have "\<exists>random. random_of s random \<and> olm_ratchet_encrypt_random_length (se_ratchet x) \<le> length random
      \<and> y = x\<lparr>se_ratchet := sent S (se_ratchet x) random\<rparr>
      \<and> (arr \<noteq> None \<longrightarrow> e = None \<and> arr = Some (b64_encode (session_message S x random p)))"
    if "y = x\<lparr>se_ratchet := sent S (se_ratchet x) random\<rparr>"
      "arr \<noteq> None \<longrightarrow> e = None \<and> arr = Some (b64_encode (session_message S x random p))"
    using that r by (intro exI [of _ random]) (simp add: olm_encrypt_random_length_def olm_session_encrypt_random_length_def)
  then show ?thesis
    using f t t' unfolding q filled_def encrypted_def by (cases arr) (auto simp: generous_def)
qed

lemma encrypt_clear_spec:
  assumes x: "session_ok x" and p: "length p < 2 ^ 30"
  shows "wp (encrypt_clear_message S x p) (encrypted S x p s) s"
proof -
  let ?r = "olm_encrypt_random_length x"
  have r: "?r = 0 \<or> ?r = 32"
    by (simp add: olm_encrypt_random_length_def olm_session_encrypt_random_length_def olm_ratchet_encrypt_random_length_def)
  have called: "wp (fill_message S x p (buffer_bytes b) \<bind> (\<lambda>(x', e, arr). clear_free_random ?r b \<bind> (\<lambda>_. ret (x', e, arr))))
      (encrypted S x p s) t"
    if "random_of s (buffer_bytes b)" "?r \<le> length (buffer_bytes b)" "jn_answers t = jn_answers s" "jn_noise t = jn_noise s" "calm t = calm s" for b t
  proof (rule wp_seqI [OF fill_message_spec [OF x p that(2)]])
    fix q and t' :: jni
    assume "filled S x p (buffer_bytes b) t q t'"
    note E = filled_encrypted [OF this that]
    show "wp (case q of (x', e, arr) \<Rightarrow> clear_free_random ?r b \<bind> (\<lambda>_. ret (x', e, arr))) (encrypted S x p s) t'"
      by (cases b) (auto simp: wp_bind wp_ret wp_State clear_free_random_def free_block_def calm_def intro!: E split: prod.splits)
  qed
  show ?thesis
    unfolding encrypt_clear_message_def Let_def
  proof (rule wp_seqI [OF random_spec [OF r]])
    fix q and t :: jni
    assume q: "(\<lambda>(ok, b) t. jn_answers t = jn_answers s \<and> jn_noise t = jn_noise s \<and> calm t = calm s
      \<and> (ok \<longrightarrow> random_of s (buffer_bytes b) \<and> ?r \<le> length (buffer_bytes b)) \<and> (generous s \<and> so_init S \<longrightarrow> ok)) q t"
    obtain ok b where "q = (ok, b)" by (cases q) simp
    moreover have "encrypted S x p s (x, Some e, None) t" if "\<not> (generous s \<and> so_init S)" for e
      using that q by (auto simp: encrypted_def)
    ultimately show "wp (case q of (ok, randomBuffPtr) \<Rightarrow> if \<not> ok then ret (x, Some ''random buffer init'', None)
        else fill_message S x p (buffer_bytes randomBuffPtr)
          \<bind> (\<lambda>(x', e, arr). clear_free_random ?r randomBuffPtr \<bind> (\<lambda>_. ret (x', e, arr)))) (encrypted S x p s) t"
      using q called [of b t] by (cases ok) (simp_all add: wp_ret)
  qed
qed

text \<open>\<open>encryptMessageJni\<close>: the array that is returned and the type that is set in the Java object.\<close>

lemma session_encrypt_spec:
  assumes x: "session_ok x" and p: "length p < 2 ^ 30"
  shows "wp (session_encryptMessageJni S (Some x) (Some p) (Some m)) (\<lambda>(x', m', arr) s'.
      jn_answers s' = jn_answers s \<and> jn_noise s' = jn_noise s \<and> m' \<noteq> None \<and> jm_cipher_text (the m') = jm_cipher_text m
      \<and> (arr = None \<longrightarrow> jn_exception s' \<noteq> None \<or> jn_crashed s') \<and> (arr \<noteq> None \<longrightarrow> calm s' = calm s)
      \<and> (generous s \<and> so_init S \<longrightarrow> arr \<noteq> None)
      \<and> (x' = Some x \<and> arr = None \<or>
         (\<exists>random. random_of s random \<and> olm_ratchet_encrypt_random_length (se_ratchet x) \<le> length random
           \<and> x' = Some (x\<lparr>se_ratchet := sent S (se_ratchet x) random\<rparr>)
           \<and> (arr \<noteq> None \<longrightarrow> arr = Some (b64_encode (session_message S x random p))
               \<and> jm_type (the m') = of_nat (olm_encrypt_message_type x))))) s"
  by (auto simp: session_encryptMessageJni_def wp_bind wp_ret wp_if wp_case_prod wp_case_option GetByteArrayElements_def
      lookup_jni_def wp_ask wp_State throw_if_def throw_def clear_release_elements_def ReleaseByteArrayElements_def generous_def Let_def
      encrypted_def calm_def intro!: wp_mono [OF encrypt_clear_spec [OF x p]] split: option.splits)

text \<open>\<open>decryptMessageJni\<close> of a message that the session can read.\<close>

lemma session_decrypt_spec:
  assumes c: "jm_cipher_text m = None \<or> jm_cipher_text m = Some msg"
    and n: "n < 2 ^ 31" "length p \<le> n" and max: "\<exists>b. olm_decrypt_max_plaintext_length y (unat (jm_type m)) msg = (y, b, Some n)"
    and dec: "\<And>buf. length buf = n \<Longrightarrow>
      \<exists>y' b buf'. olm_decrypt S y (unat (jm_type m)) msg buf = (y', b, buf', Some (length p)) \<and> take (length p) buf' = p \<and> P y'"
  shows "wp (session_decryptMessageJni S (Some y) (Some m)) (\<lambda>(y', plain) s'.
      \<exists>z. y' = Some z \<and> (z = y \<or> P z) \<and> (plain = None \<longrightarrow> jn_exception s' \<noteq> None \<or> jn_crashed s')
        \<and> (plain \<noteq> None \<longrightarrow> plain = Some p \<and> P z \<and> calm s' = calm s) \<and> (generous s \<and> jm_cipher_text m \<noteq> None \<longrightarrow> plain \<noteq> None)) s"
proof -
  obtain temp where temp: "olm_decrypt_max_plaintext_length y (unat (jm_type m)) msg = (y, temp, Some n)" using max by blast
  have call: "snd (snd (snd (olm_decrypt S y (unat (jm_type m)) msg buf))) = Some (length p)"
    "take (length p) (fst (snd (snd (olm_decrypt S y (unat (jm_type m)) msg buf)))) = p"
    "P (fst (olm_decrypt S y (unat (jm_type m)) msg buf))" if "length buf = n" for buf
    using dec [OF that] by auto
  have js: "jsize (length p) = int (length p)" using n by (intro jsize_small) simp
  have w: "write_at (zeros (length p)) 0 p = p" by (simp add: write_at_def)
  show ?thesis
    using c temp call js w
    by (auto simp: session_decryptMessageJni_def decrypt_copied_message_def jni_vcg generous_def calm_def split: jni_splits)
qed

section \<open>The two programs\<close>

text \<open>Whatever random bytes the environment comes up with, the message can be sent.\<close>

lemma random_sends:
  assumes x: "session_ok x" and random: "random_of s random" "olm_ratchet_encrypt_random_length (se_ratchet x) \<le> length random"
    and i: "\<forall>c \<in> set (elems (rt_sender_chain (se_ratchet x))). ck_index (sc_chain_key c) \<noteq> -1"
    and f: "\<forall>i. fresh_key S (se_ratchet x) r (out_bytes 32 (jn_noise s i))"
  shows "ck_index (sc_chain_key (sending_chain S (se_ratchet x) random)) \<noteq> -1" "fresh_key S (se_ratchet x) r random"
proof -
  have ok: "ratchet_ok (se_ratchet x)" using x by (simp add: session_ok_def)
  show "ck_index (sc_chain_key (sending_chain S (se_ratchet x) random)) \<noteq> -1"
  proof (cases "olm_list_empty (rt_sender_chain (se_ratchet x))")
    case True
    then show ?thesis
      using start_sender_chain_get [OF ok True, of S random]
      by (simp add: sending_chain_def sending_def get_0_elems create_chain_key_def Let_def case_prod_beta)
  next
    case False
    then have "elems (rt_sender_chain (se_ratchet x)) \<noteq> []" using olm_list_empty_iff [OF ratchet_list_ok(1) [OF ok]] by simp
    then show ?thesis using False i by (auto simp: sending_chain_def sending_def get_0_elems neq_Nil_conv)
  qed
  show "fresh_key S (se_ratchet x) r random"
    using random f by (auto simp: random_of_def fresh_key_def olm_ratchet_encrypt_random_length_def)
qed


text \<open>
  \<open>OlmSession.encryptMessage\<close> puts the array into the object it made before, and the object is what
  \<open>OlmSession.decryptMessage\<close> is given, unless the first call threw an exception.
\<close>

definition session_exchange ::
    "sodium \<Rightarrow> session \<Rightarrow> session \<Rightarrow> bytes \<Rightarrow> (session option \<times> session option \<times> bytes option) jni_call" where
  "session_exchange S x y p = do {
     (x, m, arr) \<leftarrow> session_encryptMessageJni S (Some x) (Some p) (Some \<lparr>jm_cipher_text = None, jm_type = 0\<rparr>);
     unless_thrown (x, Some y, None) (do {
       (y, plain) \<leftarrow> session_decryptMessageJni S (Some y) (map_option (\<lambda>m. m\<lparr>jm_cipher_text := arr\<rparr>) m);
       ret (x, y, plain)
     })
   }"

text \<open>The message is lost or read; either way the sessions are in step afterwards.\<close>

lemma session_receive_spec:
  assumes dh: "dh_agrees S" and inv: "session_in_step S x y lx ly" "lx < MAX_MESSAGE_GAP" and p: "length p < 2 ^ 30"
    and rl: "olm_ratchet_encrypt_random_length (se_ratchet x) \<le> length random"
    and sends: "ck_index (sc_chain_key (sending_chain S (se_ratchet x) random)) \<noteq> -1"
      "fresh_key S (se_ratchet x) (se_ratchet y) random"
    and m: "jm_cipher_text m = Some (b64_encode (session_message S x random p))" "jm_type m = of_nat (olm_encrypt_message_type x)"
  shows "wp (session_decryptMessageJni S (Some y) (Some m)) (\<lambda>(y', plain) s'.
      (\<exists>b l. y' = Some b \<and> l \<le> lx + 1 \<and> (plain \<noteq> None \<longrightarrow> l = 0)
         \<and> session_in_step S (x\<lparr>se_ratchet := sent S (se_ratchet x) random\<rparr>) b l ly)
      \<and> (plain = None \<longrightarrow> jn_exception s' \<noteq> None \<or> jn_crashed s') \<and> (plain \<noteq> None \<longrightarrow> plain = Some p \<and> calm s' = calm s)
      \<and> (generous s \<longrightarrow> plain \<noteq> None)) s"
proof -
  let ?msg = "session_message S x random p" and ?x = "x\<lparr>se_ratchet := sent S (se_ratchet x) random\<rparr>"
  have x: "session_ok x" using inv(1) by (simp add: session_in_step_def)
  have p': "length p < 2 ^ 59" "length p < 2 ^ 60" using p by simp_all
  have type: "unat (jm_type m) = olm_encrypt_message_type x"
    by (cases "olm_session_encrypt_message_type x") (simp_all add: m(2) olm_encrypt_message_type_def)
  have n: "length (cbc_padded p) < 2 ^ 31" "length p \<le> length (cbc_padded p)" using p by simp_all
  have dec: "\<exists>y' b buf'. olm_decrypt S y (unat (jm_type m)) (b64_encode ?msg) buf = (y', b, buf', Some (length p))
      \<and> take (length p) buf' = p \<and> session_in_step S ?x y' 0 ly" if "length buf = length (cbc_padded p)" for buf
  proof -
    obtain y' buf' res where d: "olm_session_decrypt S y (olm_session_encrypt_message_type x) ?msg buf = (y', buf', res)"
      by (rule prod_cases3)
    have "length (cbc_padded p) \<le> length buf" using that by simp
    from session_delivered [OF dh inv(1) rl sends p'(2) this d]
      api_decrypt_eq [OF length_session_message_small [OF x rl p'(1)] d]
    show ?thesis by (auto simp: type olm_encrypt_message_type_def)
  qed
  note spec = session_decrypt_spec [where P = "\<lambda>z. session_in_step S ?x z 0 ly", OF disjI2 [OF m(1)] n
      api_max_plaintext [OF x rl p'(1), of y S, folded type] dec]
  have step: "\<exists>l. l \<le> lx + 1 \<and> (plain \<noteq> None \<longrightarrow> l = 0) \<and> session_in_step S ?x z l ly"
    if "z = y \<or> session_in_step S ?x z 0 ly" "plain \<noteq> None \<longrightarrow> plain = Some p \<and> session_in_step S ?x z 0 ly" for z plain
    using that sessions_lose [OF dh inv(1) rl sends inv(2)] by (cases plain) auto
  show ?thesis
  proof (rule wp_mono [OF spec], unfold case_prod_unfold m(1))
    fix a :: "session option \<times> bytes option" and s' :: jni
    assume "\<exists>z. fst a = Some z \<and> (z = y \<or> session_in_step S ?x z 0 ly) \<and> (snd a = None \<longrightarrow> jn_exception s' \<noteq> None \<or> jn_crashed s')
      \<and> (snd a \<noteq> None \<longrightarrow> snd a = Some p \<and> session_in_step S ?x z 0 ly \<and> calm s' = calm s)
      \<and> (generous s \<and> Some (b64_encode ?msg) \<noteq> None \<longrightarrow> snd a \<noteq> None)" (is "\<exists>z. ?P z")
    then obtain z where z: "?P z" ..
    show "(\<exists>b l. fst a = Some b \<and> l \<le> lx + 1 \<and> (snd a \<noteq> None \<longrightarrow> l = 0) \<and> session_in_step S ?x b l ly)
      \<and> (snd a = None \<longrightarrow> jn_exception s' \<noteq> None \<or> jn_crashed s') \<and> (snd a \<noteq> None \<longrightarrow> snd a = Some p \<and> calm s' = calm s)
      \<and> (generous s \<longrightarrow> snd a \<noteq> None)"
      using z step [of z "snd a"] by simp
  qed
qed

text \<open>C9: A session message crosses the bindings. Whatever requests for memory, array elements, classes or
  strings are refused, it ends in one of three ways: the receiver's program has the plaintext, nothing
  was thrown and no message is lost; an exception was thrown, there is no plaintext, and at most one more message
  is lost; or the virtual machine has aborted. In the first two both programs still have their session,
  and the sessions are in step. With everything granted it is the first.\<close>

theorem session_message_crosses_bindings:
  assumes "dh_agrees S" "session_in_step S x y lx ly" "lx < MAX_MESSAGE_GAP" "length p < 2 ^ 30"
    and "\<forall>c \<in> set (elems (rt_sender_chain (se_ratchet x))). ck_index (sc_chain_key c) \<noteq> -1"
    and "\<forall>i. fresh_key S (se_ratchet x) (se_ratchet y) (out_bytes 32 (jn_noise s i))" "calm s"
  shows "wp (session_exchange S x y p) (\<lambda>(x', y', plain) s'.
      (jn_crashed s'
       \<or> (\<exists>a b l. x' = Some a \<and> y' = Some b \<and> l \<le> lx + 1 \<and> session_in_step S a b l ly
            \<and> (if plain = None then jn_exception s' \<noteq> None else jn_exception s' = None \<and> plain = Some p \<and> l = 0)))
      \<and> (generous s \<and> so_init S \<longrightarrow> \<not> jn_crashed s' \<and> plain \<noteq> None)) s" (is "wp _ ?Q _")
  unfolding session_exchange_def
proof (rule wp_seqI [OF session_encrypt_spec [OF _ assms(4)]])
  show x: "session_ok x" using assms(2) by (simp add: session_in_step_def)
  fix q :: "session option \<times> java_message option \<times> bytes option" and t :: jni
  let ?sent = "\<lambda>random. x\<lparr>se_ratchet := sent S (se_ratchet x) random\<rparr>"
  assume q: "(\<lambda>(x', m', arr) s'.
      jn_answers s' = jn_answers s \<and> jn_noise s' = jn_noise s \<and> m' \<noteq> None
      \<and> jm_cipher_text (the m') = jm_cipher_text \<lparr>jm_cipher_text = None, jm_type = 0\<rparr>
      \<and> (arr = None \<longrightarrow> jn_exception s' \<noteq> None \<or> jn_crashed s') \<and> (arr \<noteq> None \<longrightarrow> calm s' = calm s)
      \<and> (generous s \<and> so_init S \<longrightarrow> arr \<noteq> None)
      \<and> (x' = Some x \<and> arr = None \<or>
         (\<exists>random. random_of s random \<and> olm_ratchet_encrypt_random_length (se_ratchet x) \<le> length random
           \<and> x' = Some (?sent random)
           \<and> (arr \<noteq> None \<longrightarrow> arr = Some (b64_encode (session_message S x random p))
               \<and> jm_type (the m') = of_nat (olm_encrypt_message_type x))))) q t"
  obtain x' m' arr where [simp]: "q = (x', Some m', arr)" using q by (cases q) auto
  show "wp (case q of (x, m, arr) \<Rightarrow> unless_thrown (x, Some y, None)
      (session_decryptMessageJni S (Some y) (map_option (\<lambda>m. m\<lparr>jm_cipher_text := arr\<rparr>) m) \<bind> (\<lambda>(y, plain). ret (x, y, plain)))) ?Q t"
  proof (cases arr)
    case None
    have "x' = Some x \<or> (\<exists>random. x' = Some (?sent random) \<and> session_in_step S (?sent random) y (lx + 1) ly)"
      using q sessions_lose [OF assms(1,2) _ random_sends [OF x _ _ assms(5,6)] assms(3)] by auto
    moreover have "\<exists>l. l \<le> lx + 1 \<and> session_in_step S x y l ly" using assms(2) by (intro exI [of _ lx]) simp
    ultimately have "\<exists>a l. x' = Some a \<and> l \<le> lx + 1 \<and> session_in_step S a y l ly" by auto
    then show ?thesis
      using q None by (auto simp: wp_unless_thrown calm_def)
  next
    case (Some message)
    then obtain random where random: "random_of s random" "olm_ratchet_encrypt_random_length (se_ratchet x) \<le> length random"
        "x' = Some (?sent random)" "message = b64_encode (session_message S x random p)"
        "jm_type m' = of_nat (olm_encrypt_message_type x)"
      using q by auto
    have t: "calm t" using q Some assms(7) by simp
    have "generous s \<longrightarrow> generous t" using q by (simp add: generous_def)
    then show ?thesis
      using random Some t
      by (auto simp: wp_unless_thrown wp_bind wp_ret calm_def intro!: wp_mono [OF session_receive_spec [OF assms(1-4) random(2)
            random_sends [OF x random(1,2) assms(5,6)]]])
  qed
qed

section \<open>Witness\<close>

theorem session_message_crosses_bindings_witness:
  "\<exists>y. session_in_step sample_sodium started_session y 0 0
     \<and> wp (session_exchange sample_sodium started_session y [1, 2, 3]) (\<lambda>(x', y', plain) s'.
         \<not> jn_crashed s' \<and> plain = Some [1, 2, 3] \<and> (\<exists>a b. x' = Some a \<and> y' = Some b \<and> session_in_step sample_sodium a b 0 0))
       (jni_start (\<lambda>_. True))"
proof -
  obtain y c where y: "session_in_step sample_sodium started_session y 0 0"
    "elems (rt_sender_chain (se_ratchet started_session)) = [c]" "ck_index (sc_chain_key c) = 0" by (rule started_ok)
  have ok: "ratchet_ok (se_ratchet started_session)" using y(1) by (simp add: session_in_step_def session_ok_def)
  have f: "fresh_key sample_sodium (se_ratchet started_session) (se_ratchet y) random" for random
    using y(2) olm_list_empty_iff [OF ratchet_list_ok(1) [OF ok]] by (simp add: fresh_key_def)
  have "wp (session_exchange sample_sodium started_session y [1, 2, 3]) (\<lambda>(x', y', plain) s'.
         \<not> jn_crashed s' \<and> plain = Some [1, 2, 3] \<and> (\<exists>a b. x' = Some a \<and> y' = Some b \<and> session_in_step sample_sodium a b 0 0))
       (jni_start (\<lambda>_. True))"
    by (rule wp_mono [OF session_message_crosses_bindings [OF sample_dh_agrees y(1)]])
      (use f y(2,3) in \<open>auto simp: generous_def calm_def jni_start_def sample_sodium_def\<close>)
  then show ?thesis using y(1) by blast
qed

end
