(* ===== verification/Spec2Isabelle.thy ===== *)
theory Spec2Isabelle
  imports Conversation Ratchet_Pickle Group_Sync Session_Setup Pk_Messages Sas Dehydrated Api_Properties
    Out_Of_Order Jni_Runs Jni_Storage Jni_Delivery Jni_Conversation
begin

text \<open>
  libce is a C implementation of the Olm and Megolm cryptographic ratchets. This development models
  the library (\<open>src/src\<close>, \<open>src/include/libce\<close> and the AES code in \<open>src/lib/aes-ct64\<close>) and its Java
  bindings (\<open>src/android/olm-sdk/src/main/jni\<close>) function by function, and proves what makes two users
  of it understand each other.

  \<^bold>\<open>The program.\<close> At the bottom are helpers: error codes and memory (\<open>error.c\<close>, \<open>memory.c\<close>), base64
  (\<open>base64.c\<close>), the bounded list of \<open>list.h\<close>, the binary codec of stored objects (\<open>pickle.c\<close>) and
  the wire format of messages (\<open>message.c\<close>). The cryptography is AES in CBC mode (\<open>aes-ct64\<close>),
  wrapped with libsodium's hashes and curves by \<open>crypto.c\<close>, and the cipher of messages and
  pickles, AES with a truncated HMAC (\<open>cipher.c\<close>, \<open>pickle_encoding.c\<close>). Above stand two ratchets:
  the double ratchet of a session between two devices (\<open>ratchet.c\<close>) and the Megolm ratchet of a
  group (\<open>megolm.c\<close>). Accounts (\<open>account.c\<close>) hold a device's keys, sessions (\<open>session.c\<close>) start a
  ratchet from the keys of two accounts, and the group session files wrap a Megolm ratchet with
  a signing key. \<open>pk.c\<close> encrypts to a public key, \<open>sas.c\<close> compares short strings,
  \<open>dehydrated_device.c\<close> seals an account for storage on a server, \<open>utility.c\<close> hashes and verifies,
  and \<open>olm.c\<close> is the public face of accounts and sessions, which speaks base64. The bindings call it
  from Java: each native function checks its arguments, asks for memory and for the elements of
  Java arrays, calls the library, makes the array it returns, and gives everything back.

  \<^bold>\<open>The theories.\<close> Each definition has the name of the C function without its leading underscore;
  where \<open>olm.c\<close> has a public function of the same name, the public one is \<open>api_...\<close>, and record
  fields have a prefix (\<open>rt_\<close>, \<open>ac_\<close>, \<open>se_\<close>, ...) before the name of the struct's member.
  \<^item> \<open>Prelude\<close>: byte buffers with \<open>read_at\<close> and \<open>write_at\<close>, arithmetic of \<open>size_t\<close>, word lemmas.
  \<^item> \<open>Memory\<close>, \<open>Base64\<close>, \<open>Olm_List\<close>, \<open>Pickle\<close>, \<open>Message\<close>: the helpers. \<open>Olm_List\<close> has the locale
    \<open>bounded_list\<close>, the contract of the list on its live elements, \<open>Pickle\<close> the locale of fixed-size
    codecs; both are interpreted by the lists and codecs of the components.
  \<^item> \<open>Aes_Sbox\<close>, \<open>Aes_Ct64\<close>, \<open>Aes_Cbc\<close>: the bitsliced AES on eight 64-bit words. The S-box circuit and
    its inverse are shown to be inverse to each other, and with them rounds, blocks and CBC mode.
  \<^item> \<open>Crypto\<close>, \<open>Cipher\<close>, \<open>Pickle_Encoding\<close>: \<open>crypto.c\<close> over libsodium; the cipher with its locale
    \<open>olm_cipher\<close>; the encryption of pickles with the locale \<open>object_codec\<close>, from which every kind of
    object gets the round trip of its public pickle.
  \<^item> \<open>Megolm\<close>: the ratchet of groups, and the jump over many steps as that many single ones.
  \<^item> \<open>Ratchet\<close>, \<open>Ratchet_Messages\<close>, \<open>Ratchet_Safety\<close>, \<open>Ratchet_Pickle\<close>: the double ratchet, what
    encryption and decryption do to each other, what becomes of any input at all, and storage.
  \<^item> \<open>Conversation\<close>, \<open>Out_Of_Order\<close>: two ratchets together. A conversation is a step relation with
    lost messages and strangers' input; a batch of messages is read in the order of any permutation.
  \<^item> \<open>Account\<close>, \<open>Account_Keys\<close>: accounts; the invariant of all reachable accounts, lookup and removal
    of keys, the JSON texts.
  \<^item> \<open>Session\<close>, \<open>Session_Setup\<close>: sessions; the handshake, and sessions that stay in step.
  \<^item> \<open>Buffers\<close>, \<open>Outbound_Group\<close>, \<open>Inbound_Group\<close>, \<open>Group_Sync\<close>: base64 at the border; the group
    sessions; keys shared, messages read in any order, export and import.
  \<^item> \<open>Pk\<close>, \<open>Pk_Messages\<close>, \<open>Sas\<close>, \<open>Utility\<close>, \<open>Dehydrated\<close>: the remaining objects and their properties.
  \<^item> \<open>Olm_Api\<close>, \<open>Api_Properties\<close>: the public functions, and the properties across all of it: the
    handshake in base64, the single use of a pre-key message, signatures, stored objects.
  \<^item> \<open>Jni_Env\<close>: the virtual machine and the native heap as a state monad, what the bindings share
    (\<open>olm_jni_helper.c\<close>), and weakest preconditions, one equation for each operation.
  \<^item> \<open>Buffer_Lengths\<close>: the functions of the library leave their buffers as long as they were.
  \<^item> \<open>Jni_Account\<close>, \<open>Jni_Session\<close>, \<open>Jni_Group\<close>, \<open>Jni_Pk\<close>, \<open>Jni_Sas\<close>: the native functions of the classes;
    where two files use the same name, it has a prefix.
  \<^item> \<open>Jni_Runs\<close>, \<open>Jni_Storage\<close>, \<open>Jni_Delivery\<close>, \<open>Jni_Conversation\<close>: any sequence of native calls as a
    step relation, and what it keeps; objects stored and loaded again; a message of a group and one
    of a session between two Java programs, whatever is refused to them.

  \<^bold>\<open>How the code is modelled.\<close> Structs are records and enums datatypes; integers of the code are
  words of their width, and \<open>size_t\<close> is a natural number whose arithmetic is written out modulo
  \<open>2 ^ 64\<close> (\<open>size_add\<close>, \<open>size_sub\<close>, \<open>size_mul\<close>) wherever it may wrap around. A buffer is a list of
  bytes; a function that writes to one returns it changed, and a function that writes in place,
  as base64 does, works on one buffer with positions in it, so that overlapping input and output are
  part of the model. The result \<open>SIZE_MAX\<close> is \<open>None\<close>, with the reason in the \<open>last_error\<close> field, which
  is part of the state. Where the code can leave its buffers the model says so instead of going on: a
  read through a null pointer, a read past the random bytes of one-time keys and a write
  outside the buffer of a description are \<open>None\<close> of an outer option, and it is shown when they happen
  (\<open>anonymous_message_reads_null\<close>, \<open>generate_one_time_keys_in_bounds\<close>) or that they do not
  (\<open>describe_stays_in_buffer\<close>); a read past the end of a pickle would give an unknown value.
  The lists keep all slots of their array, the stale ones too.

  \<^bold>\<open>The Java side.\<close> What the virtual machine and \<open>malloc\<close> do follows their documentation, and is left
  open where that leaves it open: a state has an infinite sequence of answers, whether a request
  is granted and whether the elements of an array are a copy, and arbitrary contents of new memory.
  The properties hold for every such sequence. A state counts the native blocks in use and the
  arrays held, and keeps what was in each block or copy when it was given back; \<open>memset\<close> clears as many
  bytes as the code says, and \<open>Buffer_Lengths\<close> shows that this is all of the buffer. What is to be
  cleared is said by the kind of the block: random bytes, keys, messages, and the copies of arrays the code
  clears; the copies in which pickles are decrypted are not among them. A native object is its
  content, \<open>None\<close> for a null pointer, as \<open>getInstanceId\<close> finds it. Most functions write to a new
  array without a check; if there was no memory for it the virtual machine aborts, which is the flag
  \<open>jn_crashed\<close>. What the model does after that has no meaning, and the properties have the
  abort as an outcome of its own, next to a result and an exception. A program goes on after a call
  only if it threw nothing (\<open>unless_thrown\<close>). Two threads that use one native
  object at the same time, and the use of a released one, are outside of the model.

  \<^bold>\<open>libsodium\<close> is a submodule that is not in the repository. Its functions are the fields of the
  record \<open>sodium\<close>, an argument \<open>S\<close> of the definitions. What the properties rely on are named
  predicates on it: \<open>dh_agrees\<close> (both sides of a Diffie-Hellman exchange get the same secret),
  \<open>ed25519_verifies\<close> (the verification equation, for secret scalars and nonces that are reduced and not
  zero), \<open>aead_opens\<close> (what was sealed can be opened). That the nonce of a given signature does not
  reduce to zero is the hypothesis \<open>signs\<close>; that the secret scalar is not zero is proved, since
  \<open>crypto.c\<close> clamps it. \<open>crypto_kdf_hkdf_sha256_expand\<close> writes nothing for more than 8160 bytes.
  \<open>sample_sodium\<close> is an instance that has them; the witnesses compute with it. Secrecy is not
  expressible here and is not claimed.

  \<^bold>\<open>Bounds.\<close> No fuel is used: loops are structural recursion or recursion with a termination proof; the
  loop over one-time keys, whose 32-bit counter may never reach its bound, ends in the model where it
  runs out of random bytes. The properties ask for plaintexts below
  \<open>2 ^ 59\<close> or \<open>2 ^ 60\<close> bytes and buffers below \<open>2 ^ 64\<close>, so that lengths do not wrap around (through the
  bindings, where the length of an array is a signed 32-bit number, below \<open>2 ^ 30\<close>), for plaintext
  buffers as long as the functions \<open>..._max_plaintext_length\<close> say, and for chain indices below
  \<open>2 ^ 32\<close>, beyond which the 32-bit counter of a chain starts again.

  \<^bold>\<open>Not modelled.\<close> The \<open>*_size\<close> functions and \<open>olm_get_library_version\<close>, which return constants of the
  build, and \<open>olm_manager.c\<close>, which makes a text of them; \<open>ensure_sodium\<close>, which initialises libsodium
  once; the one-line functions of \<open>olm_jni_helper.c\<close> that pass a class name to \<open>getInstanceId\<close>; the
  logging of the bindings; the tests.
\<close>

end
